(* ===== verification/Prelude.thy ===== *)
theory Prelude
  imports Main "HOL-Library.Word"
begin

text \<open>
  Shared vocabulary of the development.

  \<^item> Machine integers: \<open>u8\<close> to \<open>u64\<close> are the C types \<open>uint8_t\<close> to \<open>uint64_t\<close>; where a
    C expression mixes pointer differences with \<open>uint32_t\<close> or \<open>int\<close> the value is kept as an
    integer and the conversions are written \<open>u32_of\<close> and \<open>s32_of\<close>.
  \<^item> Abnormal termination: \<open>c_error\<close> has \<open>Fault\<close> for an access outside an object (undefined
    behaviour in C), \<open>Panic\<close> for \<open>rte_panic\<close> and \<open>Hang\<close> for a loop that has used up its
    fuel; a fallible operation returns a \<open>res\<close>, and
    \<open>rbind\<close> sequences two of them.
  \<^item> Memory: one allocated block is a list of bytes; \<open>c_read\<close>, \<open>c_write\<close>, \<open>c_memmove\<close> and
    \<open>c_realloc\<close> are the accesses the sources make, with every bound checked.
  \<^item> C strings: a \<open>char *\<close> argument that points at a NUL-terminated string is the list of
    its bytes before the terminator; \<open>c_str_at\<close> reads it with the terminator included.
\<close>

unbundle bit_operations_syntax

section \<open>Machine integers\<close>

type_synonym u8 = "8 word"
type_synonym u16 = "16 word"
type_synonym u32 = "32 word"
type_synonym u64 = "64 word"

definition u32_of :: "int \<Rightarrow> nat" where
  "u32_of i = nat (i mod 2 ^ 32)"

lemma u32_of_small [simp]: "0 \<le> i \<Longrightarrow> i < 4294967296 \<Longrightarrow> u32_of i = nat i"
  by (simp add: u32_of_def)

text \<open>Conversion to a 32-bit \<open>int\<close> (two's complement).\<close>

definition s32_of :: "int \<Rightarrow> int" where
  "s32_of i = (i + 2 ^ 31) mod 2 ^ 32 - 2 ^ 31"

lemma s32_of_small [simp]: "- 2147483648 \<le> i \<Longrightarrow> i < 2147483648 \<Longrightarrow> s32_of i = i"
  by (simp add: s32_of_def)

lemma u32_of_bound: "u32_of i < 4294967296"
proof -
  have "i mod 4294967296 < 4294967296" by simp
  then show ?thesis by (simp add: u32_of_def)
qed

section \<open>Results and faults\<close>

datatype c_error = Fault | Panic | Hang

type_synonym 'a res = "c_error + 'a"

definition rbind :: "'a res \<Rightarrow> ('a \<Rightarrow> 'b res) \<Rightarrow> 'b res" where
  "rbind r f = (case r of Inl e \<Rightarrow> Inl e | Inr x \<Rightarrow> f x)"

lemma rbind_Inl [simp]: "rbind (Inl e) f = Inl e"
  by (simp add: rbind_def)

lemma rbind_Inr [simp]: "rbind (Inr x) f = f x"
  by (simp add: rbind_def)

lemma rbind_eq_Inr: "rbind r f = Inr y \<longleftrightarrow> (\<exists>x. r = Inr x \<and> f x = Inr y)"
  by (cases r) auto

lemma rbind_cong [fundef_cong]:
  "r = r' \<Longrightarrow> (\<And>x. r' = Inr x \<Longrightarrow> f x = f' x) \<Longrightarrow> rbind r f = rbind r' f'"
  by (cases r') auto

text \<open>Running a fallible step over a list, stopping at the first error.\<close>

fun rfold :: "('s \<Rightarrow> 'a \<Rightarrow> 's res) \<Rightarrow> 's \<Rightarrow> 'a list \<Rightarrow> 's res" where
  "rfold f s [] = Inr s"
| "rfold f s (x # xs) = rbind (f s x) (\<lambda>s'. rfold f s' xs)"

section \<open>Blocks of memory\<close>

definition c_read :: "char list \<Rightarrow> int \<Rightarrow> char res" where
  "c_read m i = (if 0 \<le> i \<and> i < int (length m) then Inr (m ! nat i) else Inl Fault)"

definition c_write :: "char list \<Rightarrow> int \<Rightarrow> char \<Rightarrow> char list res" where
  "c_write m i c = (if 0 \<le> i \<and> i < int (length m) then Inr (m[nat i := c]) else Inl Fault)"

text \<open>
  \<open>c_memmove m d s n\<close> is \<open>memmove (m + d, m + s, n)\<close> inside one block; the source bytes are
  read before any byte is written, so overlapping ranges are moved correctly.
\<close>

definition c_memmove :: "char list \<Rightarrow> int \<Rightarrow> int \<Rightarrow> int \<Rightarrow> char list res" where
  "c_memmove m d s n =
     (if 0 \<le> d \<and> 0 \<le> s \<and> 0 \<le> n \<and> d + n \<le> int (length m) \<and> s + n \<le> int (length m)
      then Inr (take (nat d) m @ take (nat n) (drop (nat s) m) @ drop (nat (d + n)) m)
      else Inl Fault)"

text \<open>
  The bytes \<open>realloc\<close> adds are indeterminate in C. They are represented by one fixed byte;
  no theorem of the development reads them.
\<close>

definition uninit_byte :: char where
  "uninit_byte = CHR 0x00"

definition c_realloc :: "char list \<Rightarrow> nat \<Rightarrow> char list" where
  "c_realloc m n = take n m @ replicate (n - length m) uninit_byte"

lemma length_c_realloc [simp]: "length (c_realloc m n) = n"
  by (simp add: c_realloc_def)

lemma take_c_realloc [simp]:
  "k \<le> length m \<Longrightarrow> length m \<le> n \<Longrightarrow> take k (c_realloc m n) = take k m"
  by (simp add: c_realloc_def)

lemma nth_c_realloc [simp]:
  "i < length m \<Longrightarrow> length m \<le> n \<Longrightarrow> c_realloc m n ! i = m ! i"
  by (simp add: c_realloc_def nth_append)

section \<open>C strings\<close>

abbreviation NUL :: char where
  "NUL \<equiv> CHR 0x00"

definition c_str_at :: "string \<Rightarrow> nat \<Rightarrow> char res" where
  "c_str_at s i = (if i < length s then Inr (s ! i) else if i = length s then Inr NUL else Inl Fault)"

section \<open>Splitting lists at positions\<close>

lemma split_at:
  assumes "n \<le> length xs"
  obtains ys zs where "xs = ys @ zs" "length ys = n"
  using assms by (metis append_take_drop_id length_take min.absorb2)

lemma take_Suc_update:
  "i < length xs \<Longrightarrow> take (Suc i) (xs[i := x]) = take i xs @ [x]"
  by (simp add: take_Suc_conv_app_nth)

lemma byte_high_bit: "8 \<le> n \<Longrightarrow> \<not> bit (x :: u8) n"
  by (auto dest: bit_imp_le_length)

lemma rfold_append: "rfold f s (xs @ ys) = rbind (rfold f s xs) (\<lambda>s. rfold f s ys)"
  by (induction xs arbitrary: s) (auto simp: rbind_def split: sum.splits)

end
