(* ===== verification/Strings.thy ===== *)
theory Strings
  imports Prelude
begin

text \<open>
  The string utilities (lib/common/pg_strings.c and pg_strings.h): trimming, the two tokenizers,
  options, core lists, and MAC addresses as text. A \<open>char *\<close> into a string is the suffix of the
  string at that place, so that \<open>p++\<close> is \<open>tl\<close>; a token that the code ends by writing a
  terminator is the substring up to there. The C library functions they call are modelled first.
\<close>

section \<open>The C library\<close>

definition isspace :: "char \<Rightarrow> bool" where
  "isspace c \<longleftrightarrow> c = CHR '' '' \<or> c = CHR 0x09 \<or> c = CHR 0x0A \<or> c = CHR 0x0B \<or> c = CHR 0x0C \<or> c = CHR 0x0D"

definition isblank :: "char \<Rightarrow> bool" where
  "isblank c \<longleftrightarrow> c = CHR '' '' \<or> c = CHR 0x09"

text \<open>The value of a character as a digit; 99 stands for none.\<close>

definition digit_val :: "char \<Rightarrow> nat" where
  "digit_val c =
     (let n = of_char c :: nat in
      if 48 \<le> n \<and> n \<le> 57 then n - 48
      else if 97 \<le> n \<and> n \<le> 122 then n - 87
      else if 65 \<le> n \<and> n \<le> 90 then n - 55
      else 99)"

definition digit_char :: "nat \<Rightarrow> char" where
  "digit_char d = (if d < 10 then char_of (48 + d) else char_of (87 + d))"

definition digits_val :: "nat \<Rightarrow> string \<Rightarrow> nat" where
  "digits_val base ds = foldl (\<lambda>a c. a * base + digit_val c) 0 ds"

definition skip_sign :: "string \<Rightarrow> bool \<times> string" where
  "skip_sign s =
     (case s of [] \<Rightarrow> (False, s)
      | c # cs \<Rightarrow> if c = CHR ''-'' then (True, cs) else if c = CHR ''+'' then (False, cs) else (False, s))"

definition skip_0x :: "nat \<Rightarrow> string \<Rightarrow> string" where
  "skip_0x base s =
     (case s of a # b # c # cs \<Rightarrow>
        if base = 16 \<and> a = CHR ''0'' \<and> (b = CHR ''x'' \<or> b = CHR ''X'') \<and> digit_val c < 16 then c # cs else s
      | _ \<Rightarrow> s)"

text \<open>
  \<open>strtoul (s, &end, base)\<close> and \<open>strtoull\<close>: the value, the text at \<open>end\<close> and whether \<open>errno\<close> was set to
  \<open>ERANGE\<close>. Without a digit, \<open>end\<close> is the start of the string.
\<close>

definition strtoul :: "string \<Rightarrow> nat \<Rightarrow> u64 \<times> string \<times> bool" where
  "strtoul s base =
     (let (neg, s1) = skip_sign (dropWhile isspace s);
          s2 = skip_0x base s1;
          ds = takeWhile (\<lambda>c. digit_val c < base) s2;
          v = digits_val base ds
      in if ds = [] then (0, s, False)
         else if 2 ^ 64 \<le> v then (- 1, drop (length ds) s2, True)
         else (if neg then - of_nat v else of_nat v, drop (length ds) s2, False))"

text \<open>\<open>strtol\<close> in base 10: the value, the text at the end pointer and the range error.\<close>

definition strtol :: "string \<Rightarrow> int \<times> string \<times> bool" where
  "strtol s =
     (let (neg, s1) = skip_sign (dropWhile isspace s);
          ds = takeWhile (\<lambda>c. digit_val c < 10) s1;
          v = (if neg then - int (digits_val 10 ds) else int (digits_val 10 ds))
      in if ds = [] then (0, s, False)
         else if v < - (2 ^ 63) then (- (2 ^ 63), drop (length ds) s1, True)
         else if 2 ^ 63 \<le> v then (2 ^ 63 - 1, drop (length ds) s1, True)
         else (v, drop (length ds) s1, False))"

definition atoi :: "string \<Rightarrow> int" where
  "atoi s = s32_of (fst (strtol s))"

text \<open>\<open>strtol\<close> and \<open>strtoul\<close> with base 0: the base is 16, 8 or 10 by the prefix of the number.\<close>

definition base_of :: "string \<Rightarrow> nat" where
  "base_of s = (let t = snd (skip_sign (dropWhile isspace s)) in if skip_0x 16 t \<noteq> t then 16 else if take 1 t = ''0'' then 8 else 10)"

definition strtoul0 :: "string \<Rightarrow> u64" where
  "strtoul0 s = fst (strtoul s (base_of s))"

definition strtol0 :: "string \<Rightarrow> int" where
  "strtol0 s =
     (let (neg, s1) = skip_sign (dropWhile isspace s);
          n = int (digits_val (base_of s) (takeWhile (\<lambda>c. digit_val c < base_of s) (skip_0x (base_of s) s1)))
      in if neg then max (- (2 ^ 63)) (- n) else min (2 ^ 63 - 1) n)"

text \<open>\<open>strtok_r\<close>: the next token and the place after it, \<open>None\<close> for a null pointer.\<close>

definition strtok_r :: "string \<Rightarrow> string \<Rightarrow> (string \<times> string) option" where
  "strtok_r s delim =
     (let r = dropWhile (\<lambda>c. c \<in> set delim) s in
      if r = [] then None
      else Some (takeWhile (\<lambda>c. c \<notin> set delim) r, drop 1 (dropWhile (\<lambda>c. c \<notin> set delim) r)))"

text \<open>The digits \<open>printf\<close> writes for \<open>%d\<close> on a number that is not negative, and for \<open>%02x\<close> on a byte.\<close>

fun fmt_d :: "nat \<Rightarrow> string" where
  "fmt_d n = (if n < 10 then [digit_char n] else fmt_d (n div 10) @ [digit_char (n mod 10)])"

declare fmt_d.simps [simp del]

definition fmt_02x :: "u8 \<Rightarrow> string" where
  "fmt_02x b = [digit_char (unat b div 16), digit_char (unat b mod 16)]"

section \<open>Trimming and tokens\<close>

text \<open>The backward loop: \<open>k\<close> characters are left, the last one at \<open>p = k - 1\<close>.\<close>

fun trim_end :: "string \<Rightarrow> nat \<Rightarrow> string" where
  "trim_end s 0 = []"
| "trim_end s (Suc p) = (if isspace (s ! p) then trim_end s p else take (Suc p) s)"

definition pg_strtrim :: "string \<Rightarrow> string" where
  "pg_strtrim str =
     (if str = [] then str
      else let s = dropWhile isspace str in if s \<noteq> [] then trim_end s (length s) else s)"

fun strtok_loop :: "nat \<Rightarrow> string \<Rightarrow> string \<Rightarrow> string list" where
  "strtok_loop 0 str delim = []"
| "strtok_loop (Suc n) str delim =
     (case strtok_r str delim of
        None \<Rightarrow> []
      | Some (t, saved) \<Rightarrow> pg_strtrim t # strtok_loop n saved delim)"

text \<open>The result \<open>None\<close> is the return value -1; otherwise the list holds the entries.\<close>

definition pg_strtok :: "string \<Rightarrow> string \<Rightarrow> nat \<Rightarrow> string list option" where
  "pg_strtok str delim maxtokens = (if maxtokens = 0 then None else Some (strtok_loop maxtokens str delim))"

datatype qstate = INIT | WORD | STRING_QUOTE | STRING_TICK | STRING_BRACKET

definition opens :: "char \<Rightarrow> qstate option" where
  "opens c =
     (if c = CHR 0x22 then Some STRING_QUOTE else if c = CHR 0x27 then Some STRING_TICK
      else if c = CHR 0x7B then Some STRING_BRACKET else None)"

definition closes :: "string \<Rightarrow> qstate \<Rightarrow> char \<Rightarrow> bool" where
  "closes delim st c =
     (case st of INIT \<Rightarrow> False | WORD \<Rightarrow> c \<in> set delim | STRING_QUOTE \<Rightarrow> c = CHR 0x22
      | STRING_TICK \<Rightarrow> c = CHR 0x27 | STRING_BRACKET \<Rightarrow> c = CHR 0x7D)"

text \<open>
  The loop at \<open>p\<close> with \<open>n\<close> free slots; \<open>w\<close> is the text from \<open>start_of_word\<close> to \<open>p\<close>, unused
  in state \<open>INIT\<close>. A backslash moves \<open>start_of_word\<close> to the character after it, and when it is the
  last character the loop steps over the terminator, which is a fault.
\<close>

fun strqtok_loop :: "string \<Rightarrow> qstate \<Rightarrow> string \<Rightarrow> string \<Rightarrow> nat \<Rightarrow> string list res" where
  "strqtok_loop delim st w [] n = Inr (if st \<noteq> INIT \<and> 0 < n then [w] else [])"
| "strqtok_loop delim st w (c # cs) 0 = Inr []"
| "strqtok_loop delim st w (c # cs) (Suc n) =
     (if c = CHR 0x5C then
        (case cs of [] \<Rightarrow> Inl Fault | d # ds \<Rightarrow> strqtok_loop delim st [d] ds (Suc n))
      else if st = INIT then
        (case opens c of
           Some q \<Rightarrow> strqtok_loop delim q [] cs (Suc n)
         | None \<Rightarrow> if c \<in> set delim then strqtok_loop delim INIT [] cs (Suc n) else strqtok_loop delim WORD [c] cs (Suc n))
      else if closes delim st c then
        rbind (strqtok_loop delim INIT [] cs n) (\<lambda>ts. Inr (w # ts))
      else strqtok_loop delim st (w @ [c]) cs (Suc n))"

text \<open>
  The last branch of the C function, which returns the whole string when no token was found, is
  not reachable for \<open>maxtokens\<close> above zero: state \<open>WORD\<close> is left only by storing a token.
\<close>

definition pg_strqtok :: "string \<Rightarrow> string \<Rightarrow> nat \<Rightarrow> string list option res" where
  "pg_strqtok str delim maxtokens =
     (if maxtokens = 0 then Inr None
      else rbind (strqtok_loop delim WORD [] (pg_strtrim str) maxtokens) (\<lambda>ts. Inr (Some ts)))"

fun pg_strmatch :: "string \<Rightarrow> string \<Rightarrow> bool" where
  "pg_strmatch (a # as) (b # bs) = (if a \<noteq> b then False else pg_strmatch as bs)"
| "pg_strmatch [] [] = True"
| "pg_strmatch _ _ = False"

fun pg_strcnt :: "string \<Rightarrow> char \<Rightarrow> nat" where
  "pg_strcnt [] c = 0"
| "pg_strcnt (a # as) c = pg_strcnt as c + (if a = c then 1 else 0)"

fun stropt_from :: "nat \<Rightarrow> string list \<Rightarrow> string \<Rightarrow> int" where
  "stropt_from i [] str = - 1"
| "stropt_from i (a # as) str = (if pg_strmatch a str then int i else stropt_from (Suc i) as str)"

definition STR_MAX_ARGVS :: nat where
  "STR_MAX_ARGVS = 64"

definition pg_stropt :: "string \<Rightarrow> string \<Rightarrow> string \<Rightarrow> int" where
  "pg_stropt lst str delim =
     (let l = (if take 2 lst = ''%|'' then drop 2 lst else lst) in
      if l = [] then - 1
      else (case pg_strtok l delim STR_MAX_ARGVS of None \<Rightarrow> - 1 | Some argv \<Rightarrow> stropt_from 0 argv str))"

section \<open>Core lists\<close>

definition RTE_MAX_LCORE :: int where
  "RTE_MAX_LCORE = 128"

definition set_lcore :: "u8 list \<times> u32 \<Rightarrow> int \<Rightarrow> (u8 list \<times> u32) res" where
  "set_lcore s idx =
     (if 0 \<le> idx \<and> idx < int (length (fst s)) then Inr ((fst s)[nat idx := 1], snd s + 1) else Inl Fault)"

lemma skip_sign_length: "length (snd (skip_sign s)) \<le> length s"
  by (cases s) (auto simp: skip_sign_def)

lemma skip_0x_length: "length (skip_0x b s) \<le> length s"
  by (auto simp: skip_0x_def split: list.splits)

lemma strtoul_length: "length (fst (snd (strtoul s b))) \<le> length s"
proof -
  obtain ng s1 where e: "skip_sign (dropWhile isspace s) = (ng, s1)" by force
  have "length s1 \<le> length s" using skip_sign_length[of "dropWhile isspace s"] length_dropWhile_le[of isspace s] by (simp add: e)
  then have "length (skip_0x b s1) \<le> length s" using skip_0x_length le_trans by blast
  then show ?thesis by (auto simp: strtoul_def e Let_def)
qed

lemma corelist_shrinks:
  assumes "(v, e, d) = strtoul (dropWhile isblank cl) 10" and "x \<in> set cl"
  shows "length (dropWhile isblank e) - Suc 0 < length cl"
proof -
  have "length e \<le> length (dropWhile isblank cl)" using strtoul_length[of "dropWhile isblank cl" 10] by (simp flip: assms(1))
  then have "length (dropWhile isblank e) \<le> length cl" using length_dropWhile_le[of isblank e] length_dropWhile_le[of isblank cl] by simp
  then show ?thesis using assms(2) by (cases cl) auto
qed

text \<open>
  One round per number. \<open>mn\<close> is \<open>min\<close>; the result is the return value and the array. The test
  \<open>k >= len\<close> at the end of a round is with \<open>k = 0\<close>.
\<close>

function corelist_loop :: "int \<Rightarrow> string \<Rightarrow> int \<Rightarrow> u8 list \<times> u32 \<Rightarrow> (int \<times> u8 list) res" where
  "corelist_loop len cl0 mn s =
     (let cl = dropWhile isblank cl0 in
      if cl = [] then Inr (- 1, fst s)
      else
        let (v, e0, erange) = strtoul cl 10; idx = s32_of (uint v); e = dropWhile isblank e0 in
        if erange then Inr (- 1, fst s)
        else
          rbind (if e \<noteq> [] \<and> hd e = CHR ''-'' then Inr (Some (idx, s))
                 else if e = [] \<or> hd e = CHR '','' then
                   rbind (rfold set_lcore s [(if mn = RTE_MAX_LCORE then idx else mn) .. idx]) (\<lambda>s'. Inr (Some (RTE_MAX_LCORE, s')))
                 else Inr None) (\<lambda>r.
          (case r of
             None \<Rightarrow> Inr (- 1, fst s)
           | Some (mn', s') \<Rightarrow>
               if len \<le> 0 then Inr (- 1, fst s')
               else if e = [] then Inr (s32_of (uint (snd s')), fst s')
               else corelist_loop len (tl e) mn' s')))"
  by pat_completeness auto

termination
  by (relation "measure (\<lambda>(len, cl, mn, s). length cl)") (simp, clarsimp, rule corelist_shrinks)

declare corelist_loop.simps [simp del]

definition pg_parse_corelist :: "string \<Rightarrow> u8 list \<Rightarrow> int \<Rightarrow> (int \<times> u8 list) res" where
  "pg_parse_corelist corelist lcores len =
     (if len < 0 \<or> int (length lcores) < len then Inl Fault
      else corelist_loop len (pg_strtrim (take 127 corelist)) RTE_MAX_LCORE (replicate (nat len) 0 @ drop (nat len) lcores, 0))"

section \<open>MAC addresses and masks\<close>

text \<open>The reading loop with \<open>n\<close> places left in the array \<open>o\<close>.\<close>

fun aton_loop :: "nat \<Rightarrow> string \<Rightarrow> u64 list \<Rightarrow> (u64 list \<times> string) option" where
  "aton_loop 0 a ov = None"
| "aton_loop (Suc n) a ov =
     (let (v, e, erange) = strtoul a 16 in
      if erange \<or> e = a \<or> (e \<noteq> [] \<and> hd e \<noteq> CHR '':'') then None
      else if n = 0 \<or> e = [] then Some (ov @ [v], e)
      else aton_loop n (tl e) (ov @ [v]))"

text \<open>The two storing loops run downwards and may stop after some bytes are stored.\<close>

fun aton_bytes :: "nat \<Rightarrow> u64 list \<Rightarrow> u8 list \<Rightarrow> bool \<times> u8 list" where
  "aton_bytes 0 ov e = (True, e)"
| "aton_bytes (Suc i) ov e = (if 0xFF < ov ! i then (False, e) else aton_bytes i ov (e[i := ucast (ov ! i)]))"

fun aton_words :: "nat \<Rightarrow> u64 list \<Rightarrow> u8 list \<Rightarrow> bool \<times> u8 list" where
  "aton_words 0 ov e = (True, e)"
| "aton_words (Suc i) ov e =
     (if 0xFFFF < ov ! i then (False, e)
      else aton_words i ov (e[i * 2 := ucast (drop_bit 8 (ov ! i)), i * 2 + 1 := ucast (ov ! i AND 0xff)]))"

definition pg_ether_aton :: "string \<Rightarrow> u8 list \<Rightarrow> bool \<times> u8 list" where
  "pg_ether_aton a e =
     (case aton_loop 6 a [] of
        None \<Rightarrow> (False, e)
      | Some (ov, r) \<Rightarrow>
          if r \<noteq> [] then (False, e)
          else if length ov = 6 then aton_bytes 6 ov e
          else if length ov = 3 then aton_words 3 ov e
          else (False, e))"

definition inet_mtoa :: "nat \<Rightarrow> u8 list \<Rightarrow> string" where
  "inet_mtoa len a =
     take (len - 1) (fmt_02x (a ! 0) @ '':'' @ fmt_02x (a ! 1) @ '':'' @ fmt_02x (a ! 2) @ '':'' @ fmt_02x (a ! 3) @ '':''
       @ fmt_02x (a ! 4) @ '':'' @ fmt_02x (a ! 5))"

text \<open>The loop of \<open>mask_size\<close> with \<open>n\<close> rounds left.\<close>

fun mask_size_loop :: "nat \<Rightarrow> u32 \<Rightarrow> nat \<Rightarrow> nat" where
  "mask_size_loop 0 msk i = i"
| "mask_size_loop (Suc n) msk i = (if msk AND push_bit (31 - i) 1 = 0 then i else mask_size_loop n msk (i + 1))"

definition mask_size :: "u32 \<Rightarrow> nat" where
  "mask_size msk =
     (if msk = 0 then 0 else if msk = 0xFF000000 then 8 else if msk = 0xFFFF0000 then 16
      else if msk = 0xFFFFFF00 then 24 else if msk = 0xFFFFFFFF then 32 else mask_size_loop 32 msk 0)"

text \<open>Testing one bit with a mask.\<close>

lemma bit_mask_test: "(m :: 'a :: len word) AND push_bit i 1 \<noteq> 0 \<longleftrightarrow> bit m i"
proof -
  have "m AND push_bit i 1 = (if bit m i then push_bit i 1 else 0)"
    by (rule bit_word_eqI) (auto simp: bit_and_iff bit_exp_iff push_bit_eq_mult)
  moreover have "bit m i \<Longrightarrow> (push_bit i 1 :: 'a word) \<noteq> 0" using bit_imp_le_length[of m i] by (auto simp: push_bit_eq_mult)
  ultimately show ?thesis by simp
qed

lemma mask_size_loop_prefix:
  assumes "\<forall>k<32. bit m k \<longleftrightarrow> 32 - n \<le> k" and "n \<le> 32" and "i \<le> n" and "f = 32 - i"
  shows "mask_size_loop f m i = n"
  using assms(3,4)
proof (induction f arbitrary: i)
  case 0
  then show ?case using assms(2) by simp
next
  case (Suc f)
  have i: "i < 32" and k: "bit m (31 - i) \<longleftrightarrow> i < n" using assms(1,2) Suc.prems by auto
  show ?case
  proof (cases "i = n")
    case True
    then show ?thesis using k bit_mask_test[of m "31 - i"] by (simp only: mask_size_loop.simps) simp
  next
    case False
    then have "i + 1 \<le> n" "f = 32 - (i + 1)" using Suc.prems by arith+
    then have "mask_size_loop f m (i + 1) = n" by (rule Suc.IH)
    moreover have "m AND push_bit (31 - i) 1 \<noteq> 0" using False Suc.prems k bit_mask_test[of m "31 - i"] by simp
    ultimately show ?thesis by (simp only: mask_size_loop.simps if_False)
  qed
qed

section \<open>Numbers as text\<close>

lemma digit_val_digit_char: "d < 16 \<Longrightarrow> digit_val (digit_char d) = d"
  by (auto simp: digit_val_def digit_char_def Let_def)

lemma digit_char_plain:
  assumes "d < 16"
  shows "\<not> isspace (digit_char d)" and "digit_char d \<notin> set ''-+xX,:''" and "digit_char d \<noteq> NUL"
proof -
  have "d \<in> set [0..<16]" using assms by simp
  then show "\<not> isspace (digit_char d)" "digit_char d \<notin> set ''-+xX,:''" "digit_char d \<noteq> NUL"
    by (auto simp: upt_rec isspace_def digit_char_def char_of_def)
qed

text \<open>What \<open>strtoul\<close> reads of a text that starts with digits and goes on with something else.\<close>

lemma strtoul_digits:
  assumes "ds \<noteq> []" and "set ds \<subseteq> digit_char ` {..<b}" and "b \<le> 16" and "digits_val b ds < 2 ^ 64"
    and "r = [] \<or> b \<le> digit_val (hd r)" and "r = [] \<or> hd r \<notin> set ''xX''"
  shows "strtoul (ds @ r) b = (of_nat (digits_val b ds), r, False)"
proof -
  obtain d ds' where ds: "ds = d # ds'" using assms(1) by (cases ds) auto
  have dig: "c \<in> set ds \<Longrightarrow> \<exists>k<16. k < b \<and> c = digit_char k" for c using assms(2,3) by (metis (no_types, lifting) imageE in_mono lessThan_iff less_le_trans)
  have plain: "\<not> isspace c \<and> c \<notin> set ''-+xX,:'' \<and> digit_val c < b" if "c \<in> set ds" for c
    using dig[OF that] digit_char_plain digit_val_digit_char by metis
  have 1: "dropWhile isspace (ds @ r) = ds @ r" "skip_sign (ds @ r) = (False, ds @ r)"
    using plain[of d] by (simp_all add: ds skip_sign_def)
  have 2: "skip_0x b (ds @ r) = ds @ r"
    using plain assms(6) by (cases ds'; cases r) (auto simp: ds skip_0x_def split: list.splits)
  have 3: "takeWhile (\<lambda>c. digit_val c < b) (ds @ r) = ds"
    using plain assms(5) by (cases r) (auto simp: takeWhile_append2)
  show ?thesis using assms(1,4) by (simp add: strtoul_def 1 2 3)
qed

lemma digits_val_snoc: "digits_val b (ds @ [c]) = digits_val b ds * b + digit_val c"
  by (simp add: digits_val_def)

lemma digits_val_fmt_d: "digits_val 10 (fmt_d n) = n"
proof (induction n rule: fmt_d.induct)
  case (1 n)
  show ?case
  proof (cases "n < 10")
    case True
    then show ?thesis by (subst fmt_d.simps) (simp add: digits_val_def digit_val_digit_char)
  next
    case False
    then show ?thesis using 1 by (subst fmt_d.simps) (simp add: digits_val_snoc digit_val_digit_char)
  qed
qed

lemma fmt_d_digits: "fmt_d n \<noteq> [] \<and> set (fmt_d n) \<subseteq> digit_char ` {..<10}"
proof (induction n rule: fmt_d.induct)
  case (1 n)
  show ?case using 1 by (cases "n < 10") (subst fmt_d.simps, simp)+
qed

lemma strtoul_fmt_d: "n < 2 ^ 64 \<Longrightarrow> r = [] \<or> 10 \<le> digit_val (hd r) \<and> hd r \<notin> set ''xX'' \<Longrightarrow> strtoul (fmt_d n @ r) 10 = (of_nat n, r, False)"
  using strtoul_digits[of "fmt_d n" 10 r] fmt_d_digits[of n] by (auto simp: digits_val_fmt_d)

section \<open>Trimming\<close>

lemma trim_end_append:
  assumes "\<forall>c \<in> set sp. isspace c" and "s = [] \<or> \<not> isspace (last s)"
  shows "trim_end (s @ sp) (length s + length sp) = s"
  using assms
proof (induction sp rule: rev_induct)
  case Nil
  then show ?case by (cases s rule: rev_cases) (auto simp: nth_append)
next
  case (snoc c sp)
  have "trim_end (s @ sp @ [c]) k = trim_end (s @ sp) k" if "k \<le> length s + length sp" for k
    using that by (induction k) (auto simp: nth_append)
  then show ?case using snoc by (simp add: nth_append)
qed

lemma pg_strtrim_spaces:
  assumes "\<forall>c \<in> set sp1. isspace c" and "\<forall>c \<in> set sp2. isspace c" and "s \<noteq> []"
    and "\<not> isspace (hd s)" and "\<not> isspace (last s)"
  shows "pg_strtrim (sp1 @ s @ sp2) = s"
proof -
  have "dropWhile isspace (s @ sp2) = s @ sp2" using assms(3,4) by (cases s) auto
  then have "dropWhile isspace (sp1 @ s @ sp2) = s @ sp2" using assms(1) by (simp add: dropWhile_append2)
  then show ?thesis using trim_end_append[OF assms(2), of s] assms(3,5) by (simp add: pg_strtrim_def)
qed

lemma pg_strtrim_id: "s = [] \<or> \<not> isspace (hd s) \<and> \<not> isspace (last s) \<Longrightarrow> pg_strtrim s = s"
  using pg_strtrim_spaces[of "[]" "[]" s] by (cases "s = []") (auto simp: pg_strtrim_def)

section \<open>Command lines\<close>

text \<open>The arguments of a command as an operator types them, with one space between two of them.\<close>

datatype arg = Plain (arg_text: string) | Quoted (arg_text: string) | Ticked (arg_text: string) | Braced (arg_text: string)

fun show_arg :: "arg \<Rightarrow> string" where
  "show_arg (Plain w) = w"
| "show_arg (Quoted w) = CHR 0x22 # w @ [CHR 0x22]"
| "show_arg (Ticked w) = CHR 0x27 # w @ [CHR 0x27]"
| "show_arg (Braced w) = CHR 0x7B # w @ [CHR 0x7D]"

fun show_args :: "arg list \<Rightarrow> string" where
  "show_args [] = []"
| "show_args [a] = show_arg a"
| "show_args (a # b # as) = show_arg a @ CHR '' '' # show_args (b # as)"

definition plain_word :: "string \<Rightarrow> bool" where
  "plain_word w \<longleftrightarrow> w \<noteq> [] \<and> (\<forall>c \<in> set w. \<not> isspace c \<and> c \<noteq> CHR 0x5C)"

fun arg_ok :: "arg \<Rightarrow> bool" where
  "arg_ok (Plain w) \<longleftrightarrow> plain_word w \<and> opens (hd w) = None"
| "arg_ok (Quoted w) \<longleftrightarrow> CHR 0x22 \<notin> set w \<and> CHR 0x5C \<notin> set w"
| "arg_ok (Ticked w) \<longleftrightarrow> CHR 0x27 \<notin> set w \<and> CHR 0x5C \<notin> set w"
| "arg_ok (Braced w) \<longleftrightarrow> CHR 0x7D \<notin> set w \<and> CHR 0x5C \<notin> set w"

text \<open>The delimiters \<open>cli_execute\<close> passes.\<close>

definition cli_delim :: string where
  "cli_delim = [CHR '' '', CHR 0x0D, CHR 0x0A]"

lemma strqtok_loop_inside:
  assumes "st \<noteq> INIT" and "\<forall>c \<in> set v. c \<noteq> CHR 0x5C \<and> \<not> closes delim st c"
  shows "strqtok_loop delim st w (v @ cs) (Suc n) = strqtok_loop delim st (w @ v) cs (Suc n)"
  using assms(2) by (induction v arbitrary: w) (auto simp: assms(1))

lemma cli_delim_isspace: "c \<in> set cli_delim \<Longrightarrow> isspace c"
  by (auto simp: cli_delim_def isspace_def)

lemma space_delim: "CHR '' '' \<in> set cli_delim"
  by (simp add: cli_delim_def)

lemma strqtok_loop_word:
  assumes "plain_word v"
  shows "strqtok_loop cli_delim WORD w v (Suc n) = Inr [w @ v]"
    and "strqtok_loop cli_delim WORD w (v @ CHR '' '' # cs) (Suc n) = rbind (strqtok_loop cli_delim INIT [] cs n) (\<lambda>ts. Inr ((w @ v) # ts))"
proof -
  have v: "\<forall>c \<in> set v. c \<noteq> CHR 0x5C \<and> \<not> closes cli_delim WORD c"
    using assms cli_delim_isspace by (auto simp: plain_word_def closes_def)
  show "strqtok_loop cli_delim WORD w v (Suc n) = Inr [w @ v]" using strqtok_loop_inside[OF _ v, of w "[]" n] by simp
  show "strqtok_loop cli_delim WORD w (v @ CHR '' '' # cs) (Suc n) = rbind (strqtok_loop cli_delim INIT [] cs n) (\<lambda>ts. Inr ((w @ v) # ts))"
    using strqtok_loop_inside[OF _ v, of w "CHR '' '' # cs" n] by (simp add: closes_def space_delim)
qed

lemma strqtok_loop_space: "strqtok_loop cli_delim INIT [] (CHR '' '' # cs) (Suc n) = strqtok_loop cli_delim INIT [] cs (Suc n)"
  by (simp add: opens_def space_delim)

lemma strqtok_loop_string:
  assumes "opens a = Some st" and "a \<noteq> CHR 0x5C" and "z \<noteq> CHR 0x5C" and "closes cli_delim st = (\<lambda>c. c = z)" and "st \<noteq> INIT"
    and "z \<notin> set v" and "CHR 0x5C \<notin> set v"
  shows "strqtok_loop cli_delim INIT [] (a # v @ [z]) (Suc n) = Inr [v]"
    and "strqtok_loop cli_delim INIT [] (a # v @ z # CHR '' '' # cs) (Suc (Suc n)) =
      rbind (strqtok_loop cli_delim INIT [] cs (Suc n)) (\<lambda>ts. Inr (v # ts))"
proof -
  have v: "\<forall>c \<in> set v. c \<noteq> CHR 0x5C \<and> \<not> closes cli_delim st c" using assms(4,6,7) by auto
  show "strqtok_loop cli_delim INIT [] (a # v @ [z]) (Suc n) = Inr [v]"
    using strqtok_loop_inside[OF assms(5) v, of "[]" "[z]" n] assms(1-5) by simp
  show "strqtok_loop cli_delim INIT [] (a # v @ z # CHR '' '' # cs) (Suc (Suc n)) =
      rbind (strqtok_loop cli_delim INIT [] cs (Suc n)) (\<lambda>ts. Inr (v # ts))"
    using strqtok_loop_inside[OF assms(5) v, of "[]" "z # CHR '' '' # cs" "Suc n"] assms(1-5) by (simp add: opens_def space_delim)
qed

lemma strqtok_loop_arg:
  assumes "arg_ok a"
  shows "strqtok_loop cli_delim INIT [] (show_arg a) (Suc n) = Inr [arg_text a]"
    and "strqtok_loop cli_delim INIT [] (show_arg a @ CHR '' '' # cs) (Suc (Suc n)) =
      rbind (strqtok_loop cli_delim INIT [] cs (Suc n)) (\<lambda>ts. Inr (arg_text a # ts))"
proof -
  have "strqtok_loop cli_delim INIT [] (show_arg a) (Suc n) = Inr [arg_text a] \<and>
    strqtok_loop cli_delim INIT [] (show_arg a @ CHR '' '' # cs) (Suc (Suc n)) =
      rbind (strqtok_loop cli_delim INIT [] cs (Suc n)) (\<lambda>ts. Inr (arg_text a # ts))"
  proof (cases a)
    case (Plain w)
    then obtain c v where w: "w = c # v" using assms by (cases w) (auto simp: plain_word_def)
    have c: "c \<noteq> CHR 0x5C" "opens c = None" "c \<notin> set cli_delim" and v: "v = [] \<or> plain_word v"
      using assms cli_delim_isspace by (auto simp: Plain w plain_word_def)
    show ?thesis using c v strqtok_loop_word[of v "[c]"]
      by (auto simp: Plain w closes_def space_delim)
  next
    case (Quoted w)
    have "CHR 0x22 \<notin> set w" "CHR 0x5C \<notin> set w" using assms by (simp_all add: Quoted)
    then show ?thesis by (simp add: Quoted strqtok_loop_string opens_def closes_def fun_eq_iff del: strqtok_loop.simps)
  next
    case (Ticked w)
    have "CHR 0x27 \<notin> set w" "CHR 0x5C \<notin> set w" using assms by (simp_all add: Ticked)
    then show ?thesis by (simp add: Ticked strqtok_loop_string opens_def closes_def fun_eq_iff del: strqtok_loop.simps)
  next
    case (Braced w)
    have "CHR 0x7D \<notin> set w" "CHR 0x5C \<notin> set w" using assms by (simp_all add: Braced)
    then show ?thesis by (simp add: Braced strqtok_loop_string opens_def closes_def fun_eq_iff del: strqtok_loop.simps)
  qed
  then show "strqtok_loop cli_delim INIT [] (show_arg a) (Suc n) = Inr [arg_text a]"
    and "strqtok_loop cli_delim INIT [] (show_arg a @ CHR '' '' # cs) (Suc (Suc n)) =
      rbind (strqtok_loop cli_delim INIT [] cs (Suc n)) (\<lambda>ts. Inr (arg_text a # ts))" by blast+
qed

lemma strqtok_loop_args:
  "\<forall>a \<in> set as. arg_ok a \<Longrightarrow> length as \<le> n \<Longrightarrow> strqtok_loop cli_delim INIT [] (show_args as) n = Inr (map arg_text as)"
proof (induction as arbitrary: n rule: show_args.induct)
  case (2 a)
  then obtain k where "n = Suc k" by (cases n) auto
  then show ?case using 2 by (simp add: strqtok_loop_arg(1))
next
  case (3 a b as)
  obtain k where "n = Suc (Suc k)" using 3(3) by (cases n; cases "n - 1") auto
  then show ?case using 3 by (simp add: strqtok_loop_arg(2))
qed simp

lemma show_arg_edges: "arg_ok a \<Longrightarrow> show_arg a \<noteq> [] \<and> \<not> isspace (last (show_arg a))"
  by (cases a) (auto simp: plain_word_def isspace_def)

lemma show_args_last: "as \<noteq> [] \<Longrightarrow> \<forall>a \<in> set as. arg_ok a \<Longrightarrow> show_args as \<noteq> [] \<and> \<not> isspace (last (show_args as))"
  by (induction as rule: show_args.induct) (auto simp: show_arg_edges)

lemma show_command_edges:
  assumes "plain_word w" and "\<forall>a \<in> set as. arg_ok a"
  shows "show_args (Plain w # as) \<noteq> []" and "hd (show_args (Plain w # as)) = hd w" and "\<not> isspace (hd (show_args (Plain w # as)))"
    and "\<not> isspace (last (show_args (Plain w # as)))"
proof -
  obtain c v where w: "w = c # v" "\<not> isspace c" using assms(1) by (cases w) (auto simp: plain_word_def)
  show "show_args (Plain w # as) \<noteq> []" "hd (show_args (Plain w # as)) = hd w" "\<not> isspace (hd (show_args (Plain w # as)))"
    using w by (cases as; simp)+
  have "\<not> isspace (last w)" using assms(1) last_in_set[of w] by (auto simp: plain_word_def)
  then show "\<not> isspace (last (show_args (Plain w # as)))" using show_args_last[of as] assms(2) by (cases as) auto
qed

lemma strqtok_loop_command:
  assumes "plain_word w" and "\<forall>a \<in> set as. arg_ok a" and "Suc (length as) \<le> n"
  shows "strqtok_loop cli_delim WORD [] (show_args (Plain w # as)) n = Inr (w # map arg_text as)"
proof (cases as)
  case Nil
  then show ?thesis using strqtok_loop_word(1)[OF assms(1), of "[]"] assms(3) by (cases n) auto
next
  case (Cons a as')
  obtain m where n: "n = Suc m" using assms(3) by (cases n) auto
  show ?thesis using strqtok_loop_word(2)[OF assms(1), of "[]"] strqtok_loop_args[OF assms(2), of m] assms(3) Cons n by simp
qed

section \<open>Properties\<close>

text \<open>
  The tokenizer of the command line gives back the arguments of a command as they were
  typed: a command name followed by plain words and by strings in double quotes, single quotes or
  braces, separated by spaces and surrounded by any white space.
\<close>

theorem strqtok_reads_args:
  assumes "plain_word w" and "\<forall>a \<in> set as. arg_ok a" and "Suc (length as) \<le> n"
    and "\<forall>c \<in> set sp1. isspace c" and "\<forall>c \<in> set sp2. isspace c"
  shows "pg_strqtok (sp1 @ show_args (Plain w # as) @ sp2) cli_delim n = Inr (Some (w # map arg_text as))"
  using strqtok_loop_command[OF assms(1-3)] pg_strtrim_spaces[OF assms(4,5)] show_command_edges[OF assms(1,2)] assms(3)
  by (simp add: pg_strqtok_def)

theorem strqtok_reads_args_witness:
  "pg_strqtok ('' '' @ show_args [Plain ''set'', Plain ''0'', Braced ''a b'', Ticked ''''] @ '''') cli_delim 64
     = Inr (Some [''set'', ''0'', ''a b'', ''''])"
  using strqtok_reads_args[of "''set''" "[Plain ''0'', Braced ''a b'', Ticked '''']" 64 "'' ''" "''''"]
  by (simp add: plain_word_def isspace_def opens_def)

lemma strtoul_02x: "r = [] \<or> hd r = CHR '':'' \<Longrightarrow> strtoul (fmt_02x b @ r) 16 = (ucast b, r, False)"
proof -
  assume r: "r = [] \<or> hd r = CHR '':''"
  have b: "unat b div 16 < 16" "unat b mod 16 < 16" using unsigned_less[of b, where ?'a = nat] by simp_all
  have v: "digits_val 16 (fmt_02x b) = unat b" using b by (simp add: digits_val_def fmt_02x_def digit_val_digit_char)
  have "digit_val CHR '':'' = 99" by (simp add: digit_val_def)
  then show ?thesis
    using strtoul_digits[of "fmt_02x b" 16 r] r b unsigned_less[of b, where ?'a = nat]
    by (auto simp: v) (auto simp: fmt_02x_def)
qed

lemma aton_loop_02x:
  "aton_loop (Suc (Suc n)) (fmt_02x b @ CHR '':'' # r) ov = aton_loop (Suc n) r (ov @ [ucast b])"
  "aton_loop (Suc n) (fmt_02x b) ov = Some (ov @ [ucast b], [])"
proof -
  have ne: "r \<noteq> fmt_02x b @ r" for r by (simp add: fmt_02x_def)
  show "aton_loop (Suc (Suc n)) (fmt_02x b @ CHR '':'' # r) ov = aton_loop (Suc n) r (ov @ [ucast b])"
    using ne[of "CHR '':'' # r"] by (simp add: strtoul_02x del: append_Cons)
  show "aton_loop (Suc n) (fmt_02x b) ov = Some (ov @ [ucast b], [])" using strtoul_02x[of "[]" b] ne[of "[]"] by simp
qed

text \<open>
  A MAC address printed by \<open>inet_mtoa\<close> into a buffer of 18 bytes or more is read back by
  \<open>pg_ether_aton\<close>, whatever the destination held.
\<close>

theorem mac_text_roundtrip:
  assumes "length m = 6" and "length e = 6" and "18 \<le> n"
  shows "pg_ether_aton (inet_mtoa n m) e = (True, m)"
proof -
  obtain a b c d f g where m: "m = [a, b, c, d, f, g]" using assms(1) by (auto simp: numeral_eq_Suc length_Suc_conv)
  obtain a' b' c' d' f' g' where e: "e = [a', b', c', d', f', g']" using assms(2) by (auto simp: numeral_eq_Suc length_Suc_conv)
  have t: "inet_mtoa n m = fmt_02x a @ '':'' @ fmt_02x b @ '':'' @ fmt_02x c @ '':'' @ fmt_02x d @ '':'' @ fmt_02x f @ '':'' @ fmt_02x g"
    using assms(3) by (simp add: inet_mtoa_def m fmt_02x_def)
  have six: "(6 :: nat) = Suc (Suc (Suc (Suc (Suc (Suc 0)))))" by simp
  have "aton_loop 6 (inet_mtoa n m) [] = Some (map ucast [a, b, c, d, f, g], [])"
    unfolding t six by (simp add: aton_loop_02x del: aton_loop.simps)
  moreover have "\<not> (0xFF :: u64) < ucast (x :: u8)" for x
    using unsigned_less[of x, where ?'a = nat] by (simp add: word_less_nat_alt unsigned_ucast_eq take_bit_nat_eq_self)
  moreover have "(ucast (ucast x :: u64) :: u8) = x" for x
    by (rule bit_word_eqI) (auto simp: bit_unsigned_iff dest: bit_imp_le_length)
  ultimately show ?thesis by (simp add: pg_ether_aton_def m e numeral_eq_Suc)
qed

theorem mac_text_roundtrip_witness:
  "pg_ether_aton (inet_mtoa 18 [0xde, 0xad, 0, 1, 0x0f, 0xff]) [0, 0, 0, 0, 0, 0] = (True, [0xde, 0xad, 0, 1, 0x0f, 0xff])"
  by (rule mac_text_roundtrip) simp_all

end
