(* ===== verification/PortList.thy ===== *)
theory PortList
  imports Strings
begin

text \<open>
  Port lists (lib/utils/portlist.c): the text of a set of ports, which is a 64-bit mask, and its
  parser. The printers write into a buffer of bytes with bounds; their result is read as a C
  string with \<open>cstr\<close>. A list that is printed into a large enough buffer parses to itself.
\<close>

section \<open>Parsing\<close>

definition portmask_parse :: "string \<Rightarrow> u64 \<Rightarrow> int \<times> u64" where
  "portmask_parse str portmask =
     (let (pm, e, erange) = strtoul str 16 in
      if str = [] \<or> e \<noteq> [] then (- 1, portmask)
      else if pm = 0 then (- 1, portmask)
      else (0, pm))"

function set_portlist_bits :: "nat \<Rightarrow> nat \<Rightarrow> u64 \<Rightarrow> u64" where
  "set_portlist_bits low high m =
     (let m' = m OR push_bit low 1 in if low + 1 \<le> high then set_portlist_bits (low + 1) high m' else m')"
  by pat_completeness auto
termination
  by (relation "measure (\<lambda>(low, high, m). high - low)") auto

declare set_portlist_bits.simps [simp del]

definition MAX_SPLIT :: nat where
  "MAX_SPLIT = 64"

text \<open>One entry, \<open>N\<close> or \<open>N-M\<close>; \<open>None\<close> is the return value -1.\<close>

definition portlist_entry :: "string \<Rightarrow> u64 \<Rightarrow> u64 option" where
  "portlist_entry s m =
     (let p = dropWhile (\<lambda>c. c \<noteq> CHR ''-'') s;
          ps = unat (fst (strtoul (takeWhile (\<lambda>c. c \<noteq> CHR ''-'') s) 10));
          pe = (if p = [] then ps else unat (fst (strtoul (tl p) 10)))
      in if pe < ps \<or> 64 \<le> pe then None else Some (set_portlist_bits ps pe m))"

fun portlist_entries :: "string list \<Rightarrow> u64 \<Rightarrow> u64 option" where
  "portlist_entries [] m = Some m"
| "portlist_entries (s # ss) m = (case portlist_entry s m of None \<Rightarrow> None | Some m' \<Rightarrow> portlist_entries ss m')"

text \<open>The result is the return value and what \<open>*portlist\<close> holds afterwards.\<close>

definition portlist_parse :: "string \<Rightarrow> u64 \<Rightarrow> int \<times> u64" where
  "portlist_parse str portlist =
     (if str = [] then (- 1, portlist)
      else if str = ''all'' then (0, fold (\<lambda>i m. m OR push_bit i 1) [0..<64] portlist)
      else
        case pg_strtok str '','' MAX_SPLIT of
          None \<Rightarrow> (- 1, portlist)
        | Some split \<Rightarrow>
            if split = [] then (0, portlist)
            else (case portlist_entries split 0 of None \<Rightarrow> (- 1, portlist) | Some m \<Rightarrow> (0, m)))"

section \<open>Printing\<close>

definition RTE_MAX_ETHPORTS :: nat where
  "RTE_MAX_ETHPORTS = 32"

text \<open>\<open>snprintf (&b[k], n, t)\<close>: at most \<open>n - 1\<close> characters and the terminator.\<close>

definition snprintf_at :: "string \<Rightarrow> nat \<Rightarrow> nat \<Rightarrow> string \<Rightarrow> string res" where
  "snprintf_at b k n t =
     (if n = 0 then Inr b
      else let w = take (n - 1) t @ [NUL] in
        if k + length w \<le> length b then Inr (take k b @ w @ drop (k + length w) b) else Inl Fault)"

text \<open>
  The printing loop over the ports that are left. \<open>snprintf\<close> returns the length of the whole
  text, so \<open>k\<close> may pass the end of the buffer. \<open>sep\<close> gives what follows the j-th number.
\<close>

fun portlist_loop :: "u64 \<Rightarrow> nat \<Rightarrow> (nat \<Rightarrow> string) \<Rightarrow> nat list \<Rightarrow> string \<times> nat \<times> nat \<Rightarrow> (string \<times> nat) res" where
  "portlist_loop pl len sep [] (b, k, j) = Inr (b, k)"
| "portlist_loop pl len sep (i # is) (b, k, j) =
     (if len \<le> k then Inr (b, k)
      else if pl AND push_bit i 1 \<noteq> 0 then
        rbind (snprintf_at b k (len - k) (fmt_d i @ sep j)) (\<lambda>b'. portlist_loop pl len sep is (b', k + length (fmt_d i @ sep j), j + 1))
      else portlist_loop pl len sep is (b, k, j))"

definition cut_last :: "string \<times> nat \<Rightarrow> string res" where
  "cut_last r = (if 2 \<le> snd r then c_write (fst r) (int (snd r) - 2) NUL else Inr (fst r))"

text \<open>The test \<open>j >= cnt\<close> never holds, so every number is followed by a comma and a space.\<close>

definition portlist_string :: "u64 \<Rightarrow> string \<Rightarrow> nat \<Rightarrow> string res" where
  "portlist_string pl b len =
     (let cnt = length (filter (\<lambda>i. pl AND push_bit i 1 \<noteq> 0) [0..<RTE_MAX_ETHPORTS]) in
      if length b < len then Inl Fault
      else
        rbind (c_write (replicate len NUL @ drop len b) 0 NUL) (\<lambda>b1.
        rbind (portlist_loop pl len (\<lambda>j. if cnt \<le> j then [] else '', '') [0..<RTE_MAX_ETHPORTS] (b1, 0, 0)) cut_last))"

definition portlist_print :: "u64 \<Rightarrow> string \<Rightarrow> nat \<Rightarrow> string res" where
  "portlist_print pl b len =
     rbind (c_write b 0 NUL) (\<lambda>b1.
     rbind (portlist_loop pl len (\<lambda>j. '', '') [0..<RTE_MAX_ETHPORTS] (b1, 0, 0)) cut_last)"

definition cstr :: "string \<Rightarrow> string" where
  "cstr b = takeWhile (\<lambda>c. c \<noteq> NUL) b"

lemma cstr_take: "take (Suc (length s)) b = s @ [NUL] \<Longrightarrow> NUL \<notin> set s \<Longrightarrow> cstr b = s"
proof (induction s arbitrary: b)
  case Nil
  then show ?case by (cases b) (auto simp: cstr_def)
next
  case (Cons c s)
  then show ?case by (cases b) (auto simp: cstr_def)
qed

section \<open>The text of a list\<close>

fun join_ports :: "nat list \<Rightarrow> string" where
  "join_ports [] = []"
| "join_ports [i] = fmt_d i"
| "join_ports (i # j # is) = fmt_d i @ '', '' @ join_ports (j # is)"

definition ports_text :: "nat list \<Rightarrow> string" where
  "ports_text is = concat (map (\<lambda>i. fmt_d i @ '', '') is)"

lemma ports_text_simps [simp]: "ports_text [] = []" "ports_text (i # is) = fmt_d i @ '', '' @ ports_text is"
  by (simp_all add: ports_text_def)

lemma ports_text_join: "is \<noteq> [] \<Longrightarrow> ports_text is = join_ports is @ '', ''"
  by (induction "is" rule: join_ports.induct) auto

lemma fmt_d_chars: "c \<in> set (fmt_d n) \<Longrightarrow> \<exists>d<10. c = digit_char d"
  using fmt_d_digits[of n] by auto

lemma fmt_d_plain: "c \<in> set (fmt_d n) \<Longrightarrow> \<not> isspace c \<and> c \<notin> set ''-+xX,:'' \<and> c \<noteq> NUL"
  using fmt_d_chars[of c n] digit_char_plain by fastforce

lemma join_ports_no_nul: "NUL \<notin> set (join_ports is)"
  by (induction "is" rule: join_ports.induct) (auto dest: fmt_d_plain)

text \<open>While the text fits, the loop appends it.\<close>

lemma portlist_loop_text:
  assumes "k + length (ports_text (filter (bit pl) is)) < len" and "len \<le> length b"
    and "\<forall>j'. j \<le> j' \<and> j' < j + length (filter (bit pl) is) \<longrightarrow> sep j' = '', ''"
  shows "\<exists>b'. portlist_loop pl len sep is (b, k, j) = Inr (b', k + length (ports_text (filter (bit pl) is))) \<and>
    length b' = length b \<and> take (k + length (ports_text (filter (bit pl) is))) b' = take k b @ ports_text (filter (bit pl) is)"
  using assms
proof (induction "is" arbitrary: b k j)
  case (Cons i "is")
  show ?case
  proof (cases "bit pl i")
    case False
    then show ?thesis using Cons.IH[of k b j] Cons.prems bit_mask_test[of pl i] by simp
  next
    case True
    let ?t = "fmt_d i @ '', ''" and ?T = "ports_text (filter (bit pl) is)"
    have sj: "sep j = '', ''" using Cons.prems(3) True by simp
    have fits: "k + length ?t + length ?T < len" using Cons.prems(1) True by simp
    let ?b = "take k b @ (?t @ [NUL]) @ drop (k + length (?t @ [NUL])) b"
    have s: "snprintf_at b k (len - k) ?t = Inr ?b" using fits Cons.prems(2) by (simp add: snprintf_at_def)
    have lb: "length ?b = length b" using fits Cons.prems(2) by simp
    have tk: "take (k + length ?t) ?b = take k b @ ?t" using fits Cons.prems(2) by simp
    obtain b' where b': "portlist_loop pl len sep is (?b, k + length ?t, j + 1) = Inr (b', k + length ?t + length ?T)"
      "length b' = length ?b" "take (k + length ?t + length ?T) b' = take (k + length ?t) ?b @ ?T"
      using Cons.IH[of "k + length ?t" ?b "j + 1"] fits Cons.prems(2,3) True unfolding lb by auto
    have "portlist_loop pl len sep (i # is) (b, k, j) = Inr (b', k + length ?t + length ?T)"
      using b'(1) s fits True bit_mask_test[of pl i] by (simp add: sj)
    then show ?thesis using b'(2,3) True unfolding lb tk by (simp add: add.assoc)
  qed
qed simp

section \<open>Reading it back\<close>

lemma strtok_r_number:
  assumes "sp = [] \<or> sp = '' ''"
  shows "strtok_r (sp @ fmt_d i) '','' = Some (sp @ fmt_d i, [])"
    and "strtok_r (sp @ fmt_d i @ CHR '','' # r) '','' = Some (sp @ fmt_d i, r)"
proof -
  have no: "c \<noteq> CHR '',''" if "c \<in> set (sp @ fmt_d i)" for c using that assms fmt_d_plain[of c i] by auto
  have ne: "fmt_d i \<noteq> []" using fmt_d_digits by blast
  have d: "dropWhile (\<lambda>c. c \<in> set '','') (sp @ fmt_d i @ r') = sp @ fmt_d i @ r'" for r'
  proof -
    obtain a l where a: "sp @ fmt_d i = a # l" using ne by (cases "sp @ fmt_d i") auto
    then have e: "sp @ fmt_d i @ r' = a # l @ r'" by (metis append_assoc append_Cons)
    show ?thesis unfolding e using no[of a] a by simp
  qed
  show "strtok_r (sp @ fmt_d i) '','' = Some (sp @ fmt_d i, [])"
  proof -
    have w: "takeWhile (\<lambda>c. c \<notin> set '','') (sp @ fmt_d i) = sp @ fmt_d i" "dropWhile (\<lambda>c. c \<notin> set '','') (sp @ fmt_d i) = []"
      using no by (auto simp: takeWhile_eq_all_conv dropWhile_eq_Nil_conv)
    have "dropWhile (\<lambda>c. c \<in> set '','') (sp @ fmt_d i) = sp @ fmt_d i" using d[of "[]"] by (simp only: append_Nil2)
    then show ?thesis using ne by (simp only: strtok_r_def Let_def w) simp
  qed
  have w: "takeWhile (\<lambda>c. c \<notin> set '','') ((sp @ fmt_d i) @ CHR '','' # r) = sp @ fmt_d i"
    "dropWhile (\<lambda>c. c \<notin> set '','') ((sp @ fmt_d i) @ CHR '','' # r) = CHR '','' # r"
    using no by (subst takeWhile_append2 dropWhile_append2; simp; blast)+
  show "strtok_r (sp @ fmt_d i @ CHR '','' # r) '','' = Some (sp @ fmt_d i, r)"
    using d[of "CHR '','' # r"] w ne by (simp add: strtok_r_def)
qed

lemma trim_number: "sp = [] \<or> sp = '' '' \<Longrightarrow> pg_strtrim (sp @ fmt_d i) = fmt_d i"
  using pg_strtrim_spaces[of sp "[]" "fmt_d i"] fmt_d_plain[of _ i] fmt_d_digits[of i] by (auto simp: isspace_def)

lemma strtok_ports:
  "sp = [] \<or> sp = '' '' \<Longrightarrow> is \<noteq> [] \<Longrightarrow> length is \<le> n \<Longrightarrow> strtok_loop n (sp @ join_ports is) '','' = map fmt_d is"
proof (induction "is" arbitrary: n sp rule: join_ports.induct)
  case (2 i)
  then obtain m where n: "n = Suc m" by (cases n) auto
  have "strtok_loop m [] '','' = []" by (cases m) (simp_all add: strtok_r_def)
  then show ?case using strtok_r_number(1)[OF 2(1), of i] trim_number[OF 2(1), of i] by (simp add: n)
next
  case (3 i j "is")
  then obtain m where n: "n = Suc m" "length (j # is) \<le> m" by (cases n) auto
  show ?case using strtok_r_number(2)[OF 3(2), of i "'' '' @ join_ports (j # is)"] trim_number[OF 3(2), of i] 3(1)[of "'' ''" m] n by simp
qed simp

lemma portlist_entry_number: "i < 64 \<Longrightarrow> portlist_entry (fmt_d i) m = Some (m OR push_bit i 1)"
proof -
  assume i: "i < 64"
  have t: "takeWhile (\<lambda>c. c \<noteq> CHR ''-'') (fmt_d i) = fmt_d i" "dropWhile (\<lambda>c. c \<noteq> CHR ''-'') (fmt_d i) = []"
    using fmt_d_plain[of _ i] by (auto simp: takeWhile_eq_all_conv)
  have "strtoul (fmt_d i) 10 = (of_nat i, [], False)" using strtoul_fmt_d[of i "[]"] i by simp
  moreover have "set_portlist_bits i i m = m OR push_bit i 1" by (subst set_portlist_bits.simps) simp
  moreover have "unat (of_nat i :: u64) = i" using i by (simp add: unat_of_nat)
  ultimately show ?thesis using i unfolding portlist_entry_def t by simp
qed

lemma portlist_entries_numbers: "\<forall>i \<in> set is. i < 64 \<Longrightarrow> portlist_entries (map fmt_d is) m = Some (fold (\<lambda>i m. m OR push_bit i 1) is m)"
  by (induction "is" arbitrary: m) (simp_all add: portlist_entry_number)

lemma bit_fold_or: "bit (fold (\<lambda>i m. m OR push_bit i 1) is (m :: u64)) n \<longleftrightarrow> bit m n \<or> n < 64 \<and> n \<in> set is"
  by (induction "is" arbitrary: m) (auto simp: bit_or_iff bit_exp_iff push_bit_eq_mult)

lemma portlist_parse_join:
  assumes "is \<noteq> []" and "\<forall>i \<in> set is. i < 64" and "length is \<le> 64"
  shows "portlist_parse (join_ports is) pl0 = (0, fold (\<lambda>i m. m OR push_bit i 1) is 0)"
proof -
  obtain i js where "is": "is = i # js" using assms(1) by (cases "is") auto
  obtain c r where f: "fmt_d i = c # r" "c \<in> set (fmt_d i)" using fmt_d_digits[of i] by (cases "fmt_d i") auto
  then have "digit_val c < 10" using fmt_d_chars[of c i] digit_val_digit_char by fastforce
  then have "c \<noteq> CHR ''a''" by (auto simp: digit_val_def)
  then have "join_ports is \<noteq> []" "join_ports is \<noteq> ''all''" using f by (cases js; simp add: "is")+
  then show ?thesis
    using strtok_ports[of "[]" "is" 64] assms portlist_entries_numbers[OF assms(2), of 0]
    by (simp add: portlist_parse_def pg_strtok_def MAX_SPLIT_def)
qed

section \<open>Properties\<close>

lemma ports_text_bound: "length (ports_text (filter P [0..<32])) \<le> 118"
proof -
  have "length (ports_text is) = sum_list (map (\<lambda>i. length (fmt_d i) + 2) is)" for "is" by (induction "is") simp_all
  then have "length (ports_text (filter P [0..<32])) \<le> sum_list (map (\<lambda>i. length (fmt_d i) + 2) [0..<32])"
    by (simp add: sum_list_filter_le_nat)
  also have "\<dots> = 118" by (simp add: upt_rec fmt_d.simps)
  finally show ?thesis .
qed

text \<open>
  C23: a set of ports that is printed into a buffer of at least 119 bytes is read back by the
  parser: printing does not leave the buffer, and the text parses to the same mask.
\<close>

theorem portlist_string_parse:
  assumes "pl \<noteq> 0" and "pl < 2 ^ 32" and "119 \<le> length b"
  shows "\<exists>b'. portlist_string pl b (length b) = Inr b' \<and> length b' = length b \<and> portlist_parse (cstr b') pl0 = (0, pl)"
proof -
  let ?is = "filter (bit pl) [0..<32]" and ?b1 = "(replicate (length b) NUL)[0 := NUL]"
  let ?T = "ports_text ?is" and ?sep = "\<lambda>j. if length ?is \<le> j then [] else '', ''"
  have "take_bit 32 pl = pl"
    using assms(2) by (simp add: word_unat_eq_iff unsigned_take_bit_eq take_bit_nat_eq_self word_less_nat_alt)
  then have hi: "bit pl n \<Longrightarrow> n < 32" for n by (metis bit_take_bit_iff)
  have ne: "?is \<noteq> []" using assms(1) hi by (auto simp: filter_empty_conv bit_eq_iff)
  have bits: "fold (\<lambda>i m. m OR push_bit i 1) ?is 0 = pl" by (rule bit_word_eqI) (simp only: bit_fold_or, auto simp: hi)
  obtain b' where b': "portlist_loop pl (length b) ?sep [0..<32] (?b1, 0, 0) = Inr (b', length ?T)" "length b' = length b" "take (length ?T) b' = ?T"
    using portlist_loop_text[of 0 pl "[0..<32]" "length b" ?b1 0 ?sep] ports_text_bound[of "bit pl"] assms(3) by auto
  let ?J = "join_ports ?is"
  have T: "?T = ?J @ '', ''" using ports_text_join[OF ne] .
  have lt: "length ?J + 2 < length b" using ports_text_bound[of "bit pl"] assms(3) by (simp add: T)
  let ?b2 = "b'[length ?J := NUL]"
  have c: "c_write b' (int (length ?T) - 2) NUL = Inr ?b2" using lt b'(2) by (simp add: c_write_def T nat_add_distrib)
  have "take (length ?J) (take (length ?T) b') = ?J" unfolding b'(3) by (simp add: T)
  then have "take (length ?J) b' = ?J" unfolding T by simp
  then have tk: "take (Suc (length ?J)) ?b2 = ?J @ [NUL]" using lt b'(2) by (simp add: take_Suc_update)
  have "cstr ?b2 = ?J" using cstr_take[OF tk join_ports_no_nul] .
  moreover have "portlist_string pl b (length b) = Inr ?b2"
  proof -
    have w: "c_write (replicate (length b) NUL @ drop (length b) b) 0 NUL = Inr ?b1" using assms(3) by (auto simp: c_write_def)
    have "cut_last (b', length ?T) = Inr ?b2" using c by (simp add: cut_last_def T)
    then show ?thesis unfolding portlist_string_def Let_def bit_mask_test RTE_MAX_ETHPORTS_def w rbind_Inr b'(1) by simp
  qed
  moreover have "portlist_parse ?J pl0 = (0, pl)"
    using portlist_parse_join[OF ne, of pl0] length_filter_le[of "bit pl" "[0..<32]"] bits by auto
  ultimately show ?thesis using b'(2) by auto
qed

theorem portlist_string_parse_witness:
  "\<exists>b'. portlist_string 0x80000005 (replicate 128 NUL) 128 = Inr b' \<and> length b' = 128 \<and> portlist_parse (cstr b') 7 = (0, 0x80000005)"
  using portlist_string_parse[of "0x80000005" "replicate 128 NUL" 7] by simp


text \<open>Where the printing loop stops: the position after the last number it began.\<close>

fun loop_end :: "u64 \<Rightarrow> nat \<Rightarrow> nat list \<Rightarrow> nat \<Rightarrow> nat" where
  "loop_end pl len [] k = k"
| "loop_end pl len (i # is) k = (if len \<le> k then k else loop_end pl len is (if bit pl i then k + length (fmt_d i) + 2 else k))"

lemma snprintf_at_length:
  assumes "k < len" and "len \<le> length b"
  shows "\<exists>b1. snprintf_at b k (len - k) t = Inr b1 \<and> length b1 = length b"
proof -
  have "length (take (len - k - 1) t @ [NUL]) \<le> len - k" using assms(1) by simp
  then show ?thesis using assms by (simp add: snprintf_at_def Let_def del: take_append) arith
qed

lemma portlist_loop_end:
  assumes "len \<le> length b" and "\<forall>j'. j \<le> j' \<and> j' < j + length (filter (bit pl) is) \<longrightarrow> sep j' = '', ''"
  shows "\<exists>b'. portlist_loop pl len sep is (b, k, j) = Inr (b', loop_end pl len is k) \<and> length b' = length b"
  using assms
proof (induction "is" arbitrary: b k j)
  case (Cons i "is")
  show ?case
  proof (cases "bit pl i \<and> k < len")
    case False
    then show ?thesis using Cons.IH[of b j k] Cons.prems bit_mask_test[of pl i] by (cases "bit pl i") simp_all
  next
    case True
    have sj: "sep j = '', ''" using Cons.prems(2) True by simp
    obtain b1 where b1: "snprintf_at b k (len - k) (fmt_d i @ '', '') = Inr b1" "length b1 = length b"
      using True Cons.prems(1) snprintf_at_length by blast
    obtain b' where "portlist_loop pl len sep is (b1, k + length (fmt_d i @ '', ''), j + 1) = Inr (b', loop_end pl len is (k + length (fmt_d i @ '', '')))"
      "length b' = length b1"
      using Cons.IH[of b1 "j + 1" "k + length (fmt_d i @ '', '')"] Cons.prems True b1(2) by auto
    then show ?thesis using True b1 bit_mask_test[of pl i] by (simp add: sj add.assoc)
  qed
qed simp

text \<open>
  When the numbers do not fit, the loop ends beyond the buffer and the final \<open>buf[k - 2] = 0\<close>
  writes outside of it: 19 or more ports printed into 64 bytes, for instance.
\<close>

theorem portlist_string_overruns:
  assumes "length b = len" and "0 < len" and "len + 2 \<le> loop_end pl len [0..<32] 0"
  shows "portlist_string pl b len = Inl Fault"
proof -
  let ?cnt = "length (filter (bit pl) [0..<32])" and ?b1 = "(replicate len NUL)[0 := NUL]"
  have w: "c_write (replicate len NUL @ drop len b) 0 NUL = Inr ?b1" using assms(1,2) by (auto simp: c_write_def)
  obtain b' where b': "portlist_loop pl len (\<lambda>j. if ?cnt \<le> j then [] else '', '') [0..<32] (?b1, 0, 0) = Inr (b', loop_end pl len [0..<32] 0)" "length b' = len"
    using portlist_loop_end[of len ?b1 0 pl "[0..<32]" "\<lambda>j. if ?cnt \<le> j then [] else '', ''" 0] by auto
  have "cut_last (b', loop_end pl len [0..<32] 0) = Inl Fault" using assms(3) b'(2) by (simp add: cut_last_def c_write_def)
  then show ?thesis using assms(1) unfolding portlist_string_def Let_def bit_mask_test RTE_MAX_ETHPORTS_def w rbind_Inr b'(1) by simp
qed

theorem portlist_string_overruns_witness: "portlist_string 0xFFFFFFFF (replicate 64 NUL) 64 = Inl Fault"
proof (rule portlist_string_overruns)
  have "bit (0xFFFFFFFF :: u64) i" if "i < 32" for i
  proof -
    have "(0xFFFFFFFF :: u64) = mask 32" by (simp add: mask_eq_exp_minus_1)
    then show ?thesis using that by (simp only: bit_mask_iff) simp
  qed
  then show "64 + 2 \<le> loop_end 0xFFFFFFFF 64 [0..<32] 0" by (simp add: upt_rec fmt_d.simps)
qed simp_all

end
