(* ===== verification/Addr.thy ===== *)
theory Addr
  imports Strings
begin

text \<open>
  Addresses as text: the parsers of lib/utils/inet_pton.c and lib/utils/_atoip.c, which are two
  versions of the same automata. The array \<open>tmp\<close> they fill is a list of bytes, and every access
  through \<open>tp\<close>, \<open>colonp\<close> and \<open>endp\<close> checks its index; what the array holds before is a parameter.
  \<open>Inr None\<close> is the return value 0, \<open>Inr (Some bs)\<close> is 1 with \<open>bs\<close> stored at \<open>dst\<close>.
\<close>

section \<open>Dotted quads\<close>

text \<open>\<open>strchr\<close> as the index of the first occurrence.\<close>

fun strchr_idx :: "string \<Rightarrow> char \<Rightarrow> nat option" where
  "strchr_idx [] c = None"
| "strchr_idx (x # xs) c = (if x = c then Some 0 else map_option Suc (strchr_idx xs c))"

definition byte_at :: "u8 list \<Rightarrow> nat \<Rightarrow> u8 res" where
  "byte_at m i = (if i < length m then Inr (m ! i) else Inl Fault)"

definition put_byte :: "u8 list \<Rightarrow> nat \<Rightarrow> u8 \<Rightarrow> u8 list res" where
  "put_byte m i b = (if i < length m then Inr (m[i := b]) else Inl Fault)"

definition dec_digits :: string where
  "dec_digits = ''0123456789''"

record quad =
  q_tmp :: "u8 list"
  q_tp :: nat
  q_saw :: bool
  q_octets :: nat

definition quad_start :: "u8 list \<Rightarrow> quad" where
  "quad_start junk = \<lparr>q_tmp = junk[0 := 0], q_tp = 0, q_saw = False, q_octets = 0\<rparr>"

definition quad_dot :: "quad \<Rightarrow> quad option res" where
  "quad_dot s =
     (if \<not> q_saw s then Inr None
      else if q_octets s = 4 then Inr None
      else rbind (put_byte (q_tmp s) (q_tp s + 1) 0) (\<lambda>m. Inr (Some (s\<lparr>q_tmp := m, q_tp := q_tp s + 1, q_saw := False\<rparr>))))"

text \<open>One character in \<open>inet_ipton4\<close>.\<close>

definition ipton4_step :: "quad \<Rightarrow> char \<Rightarrow> quad option res" where
  "ipton4_step s c =
     (case strchr_idx dec_digits c of
        Some d \<Rightarrow>
          rbind (byte_at (q_tmp s) (q_tp s)) (\<lambda>b.
            let new = unat b * 10 + d; n = (if q_saw s then q_octets s else q_octets s + 1) in
            if 255 < new then Inr None
            else if \<not> q_saw s \<and> 4 < n then Inr None
            else rbind (put_byte (q_tmp s) (q_tp s) (of_nat new)) (\<lambda>m. Inr (Some (s\<lparr>q_tmp := m, q_saw := True, q_octets := n\<rparr>))))
      | None \<Rightarrow> if c = CHR ''.'' then quad_dot s else Inr None)"

text \<open>One character in \<open>inet_pton4\<close>, which also refuses a digit after a leading zero.\<close>

definition pton4_step :: "quad \<Rightarrow> char \<Rightarrow> quad option res" where
  "pton4_step s c =
     (case strchr_idx dec_digits c of
        Some d \<Rightarrow>
          rbind (byte_at (q_tmp s) (q_tp s)) (\<lambda>b.
            let new = unat b * 10 + d; n = (if q_saw s then q_octets s else q_octets s + 1) in
            if q_saw s \<and> b = 0 then Inr None
            else if 255 < new then Inr None
            else rbind (put_byte (q_tmp s) (q_tp s) (of_nat new)) (\<lambda>m.
              if \<not> q_saw s \<and> 4 < n then Inr None
              else Inr (Some (s\<lparr>q_tmp := m, q_saw := True, q_octets := n\<rparr>))))
      | None \<Rightarrow> if c = CHR ''.'' then quad_dot s else Inr None)"

fun run_quad :: "(quad \<Rightarrow> char \<Rightarrow> quad option res) \<Rightarrow> quad \<Rightarrow> string \<Rightarrow> quad option res" where
  "run_quad step s [] = Inr (Some s)"
| "run_quad step s (c # cs) = rbind (step s c) (\<lambda>r. case r of None \<Rightarrow> Inr None | Some s' \<Rightarrow> run_quad step s' cs)"

definition quad_end :: "quad option \<Rightarrow> u8 list option" where
  "quad_end r = (case r of None \<Rightarrow> None | Some s \<Rightarrow> if q_octets s < 4 then None else Some (q_tmp s))"

definition inet_ipton4 :: "u8 list \<Rightarrow> string \<Rightarrow> u8 list option res" where
  "inet_ipton4 junk src = rbind (run_quad ipton4_step (quad_start junk) src) (\<lambda>r. Inr (quad_end r))"

definition inet_pton4 :: "u8 list \<Rightarrow> string \<Rightarrow> u8 list option res" where
  "inet_pton4 junk src = rbind (run_quad pton4_step (quad_start junk) src) (\<lambda>r. Inr (quad_end r))"

section \<open>What a dotted quad is\<close>

fun split_dots :: "string \<Rightarrow> string list" where
  "split_dots [] = [[]]"
| "split_dots (c # cs) =
     (if c = CHR ''.'' then [] # split_dots cs
      else (case split_dots cs of g # gs \<Rightarrow> (c # g) # gs | [] \<Rightarrow> [[c]]))"

definition is_digit :: "char \<Rightarrow> bool" where
  "is_digit c \<longleftrightarrow> digit_val c < 10"

definition octet_ok :: "string \<Rightarrow> bool" where
  "octet_ok g \<longleftrightarrow> g \<noteq> [] \<and> list_all is_digit g \<and> digits_val 10 g \<le> 255"

definition octet_strict :: "string \<Rightarrow> bool" where
  "octet_strict g \<longleftrightarrow> octet_ok g \<and> (length g = 1 \<or> hd g \<noteq> CHR ''0'')"

text \<open>The value of a text of digits after a value that was read already.\<close>

definition val_from :: "nat \<Rightarrow> string \<Rightarrow> nat" where
  "val_from v g = foldl (\<lambda>a c. a * 10 + digit_val c) v g"

lemma digits_val_from: "digits_val 10 g = val_from 0 g"
  by (simp add: digits_val_def val_from_def)

lemma val_from_simps [simp]: "val_from v [] = v" "val_from v (c # g) = val_from (v * 10 + digit_val c) g"
  by (simp_all add: val_from_def)

lemma val_from_ge: "v \<le> val_from v g"
  by (induction g arbitrary: v) (simp, metis le_add1 le_trans mult.commute mult_le_mono1 nat_mult_1 numeral_One one_le_numeral val_from_simps(2))

lemma digit_dec: "strchr_idx dec_digits c = (if is_digit c then Some (digit_val c) else None)"
proof -
  have "is_digit c \<longleftrightarrow> c \<in> set dec_digits"
  proof
    assume "is_digit c"
    then have "48 \<le> (of_char c :: nat) \<and> (of_char c :: nat) \<le> 57" by (auto simp: is_digit_def digit_val_def Let_def split: if_splits)
    then have "(of_char c :: nat) \<in> set [48..<58]" unfolding set_upt by simp
    moreover have "map of_char dec_digits = [48..<58 :: nat]" by (simp add: dec_digits_def upt_rec)
    ultimately have "(of_char c :: nat) \<in> of_char ` set dec_digits" by (metis set_map)
    then show "c \<in> set dec_digits" by (auto simp: of_char_eq_iff)
  next
    have "list_all is_digit dec_digits" by code_simp
    then show "c \<in> set dec_digits \<Longrightarrow> is_digit c" by (auto simp only: list_all_iff)
  qed
  moreover have "c \<in> set dec_digits \<Longrightarrow> strchr_idx dec_digits c = Some (digit_val c)"
  proof -
    have "list_all (\<lambda>c. strchr_idx dec_digits c = Some (digit_val c)) dec_digits" by code_simp
    then show "c \<in> set dec_digits \<Longrightarrow> strchr_idx dec_digits c = Some (digit_val c)" by (auto simp only: list_all_iff)
  qed
  moreover have "c \<notin> set xs \<Longrightarrow> strchr_idx xs c = None" for xs by (induction xs) auto
  ultimately show ?thesis by metis
qed

text \<open>
  The state after a prefix of the text, and what the rest of it has to be for the parser to
  succeed; \<open>strict\<close> is the rule of \<open>inet_pton4\<close> about leading zeros.
\<close>

definition quad_inv :: "quad \<Rightarrow> bool" where
  "quad_inv s \<longleftrightarrow> length (q_tmp s) = 4 \<and> q_tp s < 4 \<and> q_octets s = q_tp s + (if q_saw s then 1 else 0) \<and>
     (\<not> q_saw s \<longrightarrow> q_tmp s ! q_tp s = 0)"

definition zero_rule :: "bool \<Rightarrow> quad \<Rightarrow> string \<Rightarrow> bool" where
  "zero_rule strict s g \<longleftrightarrow>
     strict \<longrightarrow> (if q_saw s then q_tmp s ! q_tp s = 0 \<longrightarrow> g = [] else length g = 1 \<or> hd g \<noteq> CHR ''0'')"

definition quad_rest :: "bool \<Rightarrow> quad \<Rightarrow> string \<Rightarrow> string list \<Rightarrow> u8 list option" where
  "quad_rest strict s g gs =
     (let v = val_from (unat (q_tmp s ! q_tp s)) g in
      if list_all is_digit g \<and> (q_saw s \<or> g \<noteq> []) \<and> v \<le> 255 \<and> zero_rule strict s g \<and> q_tp s + length gs = 3 \<and>
        list_all (if strict then octet_strict else octet_ok) gs
      then Some (take (q_tp s) (q_tmp s) @ of_nat v # map (\<lambda>h. of_nat (digits_val 10 h)) gs) else None)"

lemma split_dots_ne: "split_dots cs \<noteq> []"
  by (induction cs) (auto split: list.splits)

lemma digit_val_0: "digit_val c = 0 \<longleftrightarrow> c = CHR ''0''"
proof
  assume "digit_val c = 0"
  then have "(of_char c :: nat) = 48" by (auto simp: digit_val_def Let_def split: if_splits)
  then have "(of_char c :: nat) = of_char CHR ''0''" by simp
  then show "c = CHR ''0''" by (simp only: of_char_eq_iff)
qed (simp add: digit_val_def)

definition quad_step :: "bool \<Rightarrow> quad \<Rightarrow> char \<Rightarrow> quad option res" where
  "quad_step strict = (if strict then pton4_step else ipton4_step)"

lemma quad_step_digit:
  assumes "quad_inv s" and "is_digit c"
  shows "quad_step strict s c =
    (let new = unat (q_tmp s ! q_tp s) * 10 + digit_val c in
     if strict \<and> q_saw s \<and> q_tmp s ! q_tp s = 0 \<or> 255 < new then Inr None
     else Inr (Some (s\<lparr>q_tmp := (q_tmp s)[q_tp s := of_nat new], q_saw := True, q_octets := q_tp s + 1\<rparr>)))"
  using assms by (auto simp: quad_step_def ipton4_step_def pton4_step_def digit_dec quad_inv_def byte_at_def put_byte_def Let_def)

lemma quad_step_dot:
  assumes "quad_inv s"
  shows "quad_step strict s CHR ''.'' =
    (if q_saw s \<and> q_tp s < 3 then Inr (Some (s\<lparr>q_tmp := (q_tmp s)[q_tp s + 1 := 0], q_tp := q_tp s + 1, q_saw := False\<rparr>)) else Inr None)"
proof -
  have "\<not> is_digit CHR ''.''" by (simp add: is_digit_def digit_val_def)
  then show ?thesis using assms by (auto simp: quad_step_def ipton4_step_def pton4_step_def digit_dec quad_dot_def quad_inv_def put_byte_def)
qed

lemma quad_step_other: "\<not> is_digit c \<Longrightarrow> c \<noteq> CHR ''.'' \<Longrightarrow> quad_step strict s c = Inr None"
  by (simp add: quad_step_def ipton4_step_def pton4_step_def digit_dec)

lemma quad_rest_digit:
  assumes "quad_inv s" and "is_digit c" and "unat (q_tmp s ! q_tp s) * 10 + digit_val c \<le> 255" and "\<not> (strict \<and> q_saw s \<and> q_tmp s ! q_tp s = 0)"
  shows "quad_rest strict (s\<lparr>q_tmp := (q_tmp s)[q_tp s := of_nat (unat (q_tmp s ! q_tp s) * 10 + digit_val c)], q_saw := True, q_octets := q_tp s + 1\<rparr>) g gs
    = quad_rest strict s (c # g) gs"
proof -
  let ?n = "unat (q_tmp s ! q_tp s) * 10 + digit_val c"
  have n: "unat (of_nat ?n :: u8) = ?n" using assms(3) by (subst unat_of_nat) simp
  have z: "(of_nat ?n :: u8) = 0 \<longleftrightarrow> ?n = 0" using n by (metis unat_0 word_unat_eq_iff)
  have "zero_rule strict (s\<lparr>q_tmp := (q_tmp s)[q_tp s := of_nat ?n], q_saw := True, q_octets := q_tp s + 1\<rparr>) g = zero_rule strict s (c # g)"
    using assms(1,4) z by (auto simp: zero_rule_def quad_inv_def digit_val_0 unat_eq_0)
  then show ?thesis using assms(1,2) n by (simp add: quad_rest_def quad_inv_def Let_def cong: if_cong)
qed

lemma run_quad_exact:
  "quad_inv s \<Longrightarrow> split_dots cs = g # gs \<Longrightarrow>
    rbind (run_quad (quad_step strict) s cs) (\<lambda>r. Inr (quad_end r)) = Inr (quad_rest strict s g gs)"
proof (induction cs arbitrary: s g gs)
  case Nil
  then have e: "g = []" "gs = []" by simp_all
  have "length (q_tmp s) = 4" using Nil.prems(1) by (simp add: quad_inv_def)
  then obtain a b c d where "q_tmp s = [a, b, c, d]" by (auto simp: numeral_eq_Suc length_Suc_conv)
  then have t: "q_tp s = 3 \<Longrightarrow> take 3 (q_tmp s) @ [q_tmp s ! 3] = q_tmp s" by (simp add: numeral_eq_Suc)
  have "unat (q_tmp s ! q_tp s) \<le> 255" using unsigned_less[of "q_tmp s ! q_tp s", where ?'a = nat] by simp
  then show ?case using Nil.prems(1) t by (cases "q_tp s = 3") (auto simp: e quad_end_def quad_rest_def quad_inv_def zero_rule_def Let_def)
next
  case (Cons c cs)
  obtain g' gs' where sp: "split_dots cs = g' # gs'" using split_dots_ne by (cases "split_dots cs") auto
  consider "is_digit c" "c \<noteq> CHR ''.''" | "c = CHR ''.''" | "\<not> is_digit c" "c \<noteq> CHR ''.''" by (auto simp: is_digit_def digit_val_def)
  then show ?case
  proof cases
    case 1
    let ?new = "unat (q_tmp s ! q_tp s) * 10 + digit_val c"
    have e: "g = c # g'" "gs = gs'" using Cons.prems(2) sp 1(2) by simp_all
    show ?thesis
    proof (cases "strict \<and> q_saw s \<and> q_tmp s ! q_tp s = 0 \<or> 255 < ?new")
      case True
      then have "quad_rest strict s g gs = None" using val_from_ge[of ?new g'] by (auto simp: e quad_rest_def zero_rule_def Let_def)
      then show ?thesis using quad_step_digit[OF Cons.prems(1) 1(1), of strict] True by (simp add: Let_def quad_end_def)
    next
      case False
      let ?s = "s\<lparr>q_tmp := (q_tmp s)[q_tp s := of_nat ?new], q_saw := True, q_octets := q_tp s + 1\<rparr>"
      have i: "quad_inv ?s" using Cons.prems(1) by (simp add: quad_inv_def)
      show ?thesis using Cons.IH[OF i sp] quad_step_digit[OF Cons.prems(1) 1(1), of strict] quad_rest_digit[OF Cons.prems(1) 1(1), of strict g' gs'] False
        by (simp add: e Let_def)
    qed
  next
    case 2
    have e: "g = []" "gs = g' # gs'" using Cons.prems(2) sp 2 by simp_all
    show ?thesis
    proof (cases "q_saw s \<and> q_tp s < 3")
      case False
      then have "quad_rest strict s g gs = None" using Cons.prems(1) by (auto simp: e quad_rest_def quad_inv_def)
      then show ?thesis using quad_step_dot[OF Cons.prems(1), of strict] False by (simp add: 2 quad_end_def)
    next
      case True
      let ?s = "s\<lparr>q_tmp := (q_tmp s)[q_tp s + 1 := 0], q_tp := q_tp s + 1, q_saw := False\<rparr>"
      have i: "quad_inv ?s" using Cons.prems(1) True by (simp add: quad_inv_def)
      have "quad_rest strict ?s g' gs' = quad_rest strict s g gs"
        using Cons.prems(1) True unsigned_less[of "q_tmp s ! q_tp s", where ?'a = nat]
        by (auto simp: e quad_rest_def quad_inv_def zero_rule_def octet_ok_def octet_strict_def digits_val_from take_Suc_conv_app_nth Let_def)
      then show ?thesis using Cons.IH[OF i sp] quad_step_dot[OF Cons.prems(1), of strict] True by (simp add: 2)
    qed
  next
    case 3
    then have "g = c # g'" using Cons.prems(2) sp by simp
    then have "quad_rest strict s g gs = None" using 3 by (simp add: quad_rest_def)
    then show ?thesis using quad_step_other[OF 3] by (simp add: quad_end_def)
  qed
qed

definition quad_value :: "bool \<Rightarrow> string \<Rightarrow> u8 list option" where
  "quad_value strict s =
     (let gs = split_dots s in
      if length gs = 4 \<and> list_all (if strict then octet_strict else octet_ok) gs then Some (map (\<lambda>h. of_nat (digits_val 10 h)) gs) else None)"

lemma quad_parser_exact:
  assumes "length junk = 4"
  shows "rbind (run_quad (quad_step strict) (quad_start junk) s) (\<lambda>r. Inr (quad_end r)) = Inr (quad_value strict s)"
proof -
  obtain g gs where sp: "split_dots s = g # gs" using split_dots_ne by (cases "split_dots s") auto
  have i: "quad_inv (quad_start junk)" using assms by (simp add: quad_inv_def quad_start_def)
  have "quad_rest strict (quad_start junk) g gs = quad_value strict s"
    using assms by (auto simp: quad_rest_def quad_value_def sp quad_start_def zero_rule_def octet_ok_def octet_strict_def digits_val_from Let_def)
  then show ?thesis using run_quad_exact[OF i sp, of strict] by simp
qed

section \<open>IPv6 addresses\<close>

text \<open>
  \<open>s_saw\<close> is \<open>saw_xdigit\<close> and \<open>s_count\<close> is \<open>count_xdigit\<close> of \<open>inet_ipton6\<close>; \<open>inet_pton6\<close> has only the
  count (\<open>seen_xdigits\<close>) and does not count the groups. At most four digits are shifted into
  \<open>val\<close>, so a shift by four bits is a multiplication that does not overflow.
\<close>

record six =
  s_tmp :: "u8 list"
  s_tp :: nat
  s_colon :: "nat option"
  s_saw :: bool
  s_count :: nat
  s_val :: nat
  s_dbl :: nat
  s_cur :: string

definition six_start :: "string \<Rightarrow> six" where
  "six_start src = \<lparr>s_tmp = replicate 16 0, s_tp = 0, s_colon = None, s_saw = False, s_count = 0, s_val = 0, s_dbl = 0, s_cur = src\<rparr>"

definition xdigit :: "char \<Rightarrow> nat option" where
  "xdigit c = (case strchr_idx ''0123456789abcdef'' c of Some d \<Rightarrow> Some d | None \<Rightarrow> strchr_idx ''0123456789ABCDEF'' c)"

text \<open>Storing a group at \<open>tp\<close>; \<open>None\<close> when it does not fit.\<close>

definition put_group :: "six \<Rightarrow> six option res" where
  "put_group s =
     (if 16 < s_tp s + 2 then Inr None
      else
        rbind (put_byte (s_tmp s) (s_tp s) (of_nat (s_val s div 256))) (\<lambda>m.
        rbind (put_byte m (s_tp s + 1) (of_nat (s_val s))) (\<lambda>m'. Inr (Some (s\<lparr>s_tmp := m', s_tp := s_tp s + 2\<rparr>)))))"

definition put_quad :: "six \<Rightarrow> u8 list \<Rightarrow> six res" where
  "put_quad s bs = rbind (rfold (\<lambda>m i. put_byte m (s_tp s + i) (bs ! i)) (s_tmp s) [0..<4]) (\<lambda>m. Inr (s\<lparr>s_tmp := m, s_tp := s_tp s + 4\<rparr>))"

fun ipton6_loop :: "u8 list \<Rightarrow> six \<Rightarrow> string \<Rightarrow> six option res" where
  "ipton6_loop junk s [] = Inr (Some s)"
| "ipton6_loop junk s (c # cs) =
     (case xdigit c of
        Some d \<Rightarrow>
          if 4 \<le> s_count s then Inr None
          else if 0xffff < s_val s * 16 + d then Inr None
          else ipton6_loop junk (s\<lparr>s_val := s_val s * 16 + d, s_saw := True, s_count := s_count s + 1\<rparr>) cs
      | None \<Rightarrow>
          if c = CHR '':'' then
            (if \<not> s_saw s then
               (if s_colon s \<noteq> None then Inr None else ipton6_loop junk (s\<lparr>s_cur := cs, s_colon := Some (s_tp s)\<rparr>) cs)
             else if cs = [] then Inr None
             else rbind (put_group (s\<lparr>s_cur := cs\<rparr>)) (\<lambda>r.
               case r of None \<Rightarrow> Inr None
               | Some s' \<Rightarrow> ipton6_loop junk (s'\<lparr>s_saw := False, s_count := 0, s_val := 0, s_dbl := s_dbl s' + 1\<rparr>) cs))
          else if c = CHR ''.'' \<and> s_tp s + 4 \<le> 16 then
            rbind (inet_ipton4 junk (s_cur s)) (\<lambda>r.
              case r of None \<Rightarrow> Inr None
              | Some bs \<Rightarrow> rbind (put_quad s bs) (\<lambda>s'. Inr (Some (s'\<lparr>s_saw := False, s_dbl := s_dbl s' + 2\<rparr>))))
          else Inr None)"

fun pton6_loop :: "u8 list \<Rightarrow> six \<Rightarrow> string \<Rightarrow> six option res" where
  "pton6_loop junk s [] = Inr (Some s)"
| "pton6_loop junk s (c # cs) =
     (case xdigit c of
        Some d \<Rightarrow>
          if 4 < s_count s + 1 then Inr None
          else pton6_loop junk (s\<lparr>s_val := s_val s * 16 + d, s_count := s_count s + 1\<rparr>) cs
      | None \<Rightarrow>
          if c = CHR '':'' then
            (if s_count s = 0 then
               (if s_colon s \<noteq> None then Inr None else pton6_loop junk (s\<lparr>s_cur := cs, s_colon := Some (s_tp s)\<rparr>) cs)
             else if cs = [] then Inr None
             else rbind (put_group (s\<lparr>s_cur := cs\<rparr>)) (\<lambda>r.
               case r of None \<Rightarrow> Inr None | Some s' \<Rightarrow> pton6_loop junk (s'\<lparr>s_count := 0, s_val := 0\<rparr>) cs))
          else if c = CHR ''.'' \<and> s_tp s + 4 \<le> 16 then
            rbind (inet_pton4 junk (s_cur s)) (\<lambda>r.
              case r of None \<Rightarrow> Inr None | Some bs \<Rightarrow> rbind (put_quad s bs) (\<lambda>s'. Inr (Some (s'\<lparr>s_count := 0\<rparr>))))
          else Inr None)"

text \<open>The shift by hand: \<open>endp[-i] = colonp[n - i]; colonp[n - i] = 0\<close> for \<open>i\<close> from 1 to \<open>n\<close>.\<close>

definition shift_one :: "nat \<Rightarrow> nat \<Rightarrow> u8 list \<Rightarrow> nat \<Rightarrow> u8 list res" where
  "shift_one c n m i =
     rbind (byte_at m (c + n - i)) (\<lambda>b. rbind (put_byte m (16 - i) b) (\<lambda>m'. put_byte m' (c + n - i) 0))"

definition shift_by_hand :: "nat \<Rightarrow> nat \<Rightarrow> u8 list \<Rightarrow> u8 list res" where
  "shift_by_hand c n m = rfold (shift_one c n) m [1..<n + 1]"

text \<open>The end of both functions after the last group; \<open>full\<close> is their test for an array without room for the colons.\<close>

definition six_finish :: "bool \<Rightarrow> six \<Rightarrow> u8 list option res" where
  "six_finish full s =
     (case s_colon s of
        Some c \<Rightarrow> if full then Inr None else rbind (shift_by_hand c (s_tp s - c) (s_tmp s)) (\<lambda>m. Inr (Some m))
      | None \<Rightarrow> if s_tp s \<noteq> 16 then Inr None else Inr (Some (s_tmp s)))"

definition ipton6_end :: "six \<Rightarrow> u8 list option res" where
  "ipton6_end s =
     (if s_saw s
      then rbind (put_group s) (\<lambda>r. case r of None \<Rightarrow> Inr None | Some s' \<Rightarrow> six_finish (s_dbl s' + 1 = 8) (s'\<lparr>s_dbl := s_dbl s' + 1\<rparr>))
      else six_finish (s_dbl s = 8) s)"

definition pton6_end :: "six \<Rightarrow> u8 list option res" where
  "pton6_end s =
     (if 0 < s_count s then rbind (put_group s) (\<lambda>r. case r of None \<Rightarrow> Inr None | Some s' \<Rightarrow> six_finish (s_tp s' = 16) s')
      else six_finish (s_tp s = 16) s)"

text \<open>A leading colon must be the first of two, and the loop starts at the second.\<close>

definition skip_leading :: "string \<Rightarrow> string option" where
  "skip_leading src =
     (case src of c # cs \<Rightarrow> if c = CHR '':'' then (if take 1 cs = '':'' then Some cs else None) else Some src | [] \<Rightarrow> Some src)"

definition inet_ipton6 :: "u8 list \<Rightarrow> string \<Rightarrow> u8 list option res" where
  "inet_ipton6 junk src =
     (case skip_leading src of
        None \<Rightarrow> Inr None
      | Some t \<Rightarrow> rbind (ipton6_loop junk (six_start t) t) (\<lambda>r. case r of None \<Rightarrow> Inr None | Some s \<Rightarrow> ipton6_end s))"

definition inet_pton6 :: "u8 list \<Rightarrow> string \<Rightarrow> u8 list option res" where
  "inet_pton6 junk src =
     (case skip_leading src of
        None \<Rightarrow> Inr None
      | Some t \<Rightarrow> rbind (pton6_loop junk (six_start t) t) (\<lambda>r. case r of None \<Rightarrow> Inr None | Some s \<Rightarrow> pton6_end s))"

datatype af = AF_INET | AF_INET6 | AF_OTHER

definition inet_ipton :: "u8 list \<Rightarrow> af \<Rightarrow> string \<Rightarrow> (int \<times> u8 list option) res" where
  "inet_ipton junk f src =
     (case f of
        AF_INET \<Rightarrow> rbind (inet_ipton4 junk src) (\<lambda>r. Inr (if r = None then 0 else 1, r))
      | AF_INET6 \<Rightarrow> rbind (inet_ipton6 junk src) (\<lambda>r. Inr (if r = None then 0 else 1, r))
      | AF_OTHER \<Rightarrow> Inr (- 1, None))"

definition inet_pton :: "u8 list \<Rightarrow> af \<Rightarrow> string \<Rightarrow> (int \<times> u8 list option) res" where
  "inet_pton junk f src =
     (case f of
        AF_INET \<Rightarrow> rbind (inet_pton4 junk src) (\<lambda>r. Inr (if r = None then 0 else 1, r))
      | AF_INET6 \<Rightarrow> rbind (inet_pton6 junk src) (\<lambda>r. Inr (if r = None then 0 else 1, r))
      | AF_OTHER \<Rightarrow> Inr (- 1, None))"

section \<open>Address and prefix\<close>

record rte_ipaddr =
  ia_family :: af
  ia_addr :: "u8 list"
  ia_prefixlen :: int

definition isendoftoken :: "char \<Rightarrow> bool" where
  "isendoftoken c \<longleftrightarrow> c = NUL \<or> c = CHR 0x23 \<or> c = CHR '' '' \<or> c = CHR 0x09 \<or> c = CHR 0x0A \<or> c = CHR 0x0D"

text \<open>\<open>strrchr\<close> at a slash: the text before the last one and after it.\<close>

definition last_slash :: "string \<Rightarrow> (string \<times> string) option" where
  "last_slash s =
     (if CHR ''/'' \<in> set s
      then Some (rev (tl (dropWhile (\<lambda>c. c \<noteq> CHR ''/'') (rev s))), rev (takeWhile (\<lambda>c. c \<noteq> CHR ''/'') (rev s)))
      else None)"

definition take_prefix :: "int \<Rightarrow> string \<Rightarrow> (string \<times> int) option" where
  "take_prefix flags t =
     (if flags AND 4 \<noteq> 0 then
        (case last_slash t of
           None \<Rightarrow> None
         | Some (a, pre) \<Rightarrow>
             let (n, e, erange) = strtol pre in
             if erange \<or> e \<noteq> [] \<or> n < 0 \<or> 128 < n then None else Some (a, n))
      else Some (t, 0))"

text \<open>
  \<open>res\<close> is the size of the buffer for the result when there is one, \<open>None\<close> for a null pointer, and the
  second component of the value is what is stored there. A \<open>struct rte_ipaddr\<close> has 24 bytes;
  \<open>INET6_ADDRSTRLEN\<close> is 46. The return value is the length of the token or -1.
\<close>

definition store_addr :: "nat option \<Rightarrow> af \<Rightarrow> int \<Rightarrow> u8 list option \<Rightarrow> rte_ipaddr option" where
  "store_addr res f n r =
     (if res = None then None else map_option (\<lambda>b. \<lparr>ia_family = f, ia_addr = b, ia_prefixlen = n\<rparr>) r)"

definition atoip :: "u8 list \<Rightarrow> nat option \<Rightarrow> string option \<Rightarrow> int \<Rightarrow> (int \<times> rte_ipaddr option) res" where
  "atoip junk res buf flags =
     (if (case res of Some k \<Rightarrow> k < 24 | None \<Rightarrow> False) then Inr (- 1, None)
      else if buf = None \<or> buf = Some [] then Inr (- 1, None)
      else
        let t = takeWhile (\<lambda>c. \<not> isendoftoken c) (the buf) in
        if 50 \<le> length t then Inr (- 1, None)
        else
          case take_prefix flags t of
            None \<Rightarrow> Inr (- 1, None)
          | Some (a, n) \<Rightarrow>
              rbind (if flags AND 1 \<noteq> 0 then inet_ipton junk AF_INET a else Inr (0, None)) (\<lambda>r4.
              if fst r4 = 1 \<and> n \<le> 32 then Inr (int (length t), store_addr res AF_INET n (snd r4))
              else
                rbind (if flags AND 2 \<noteq> 0 then inet_ipton junk AF_INET6 a else Inr (0, None)) (\<lambda>r6.
                if fst r6 = 1 then Inr (int (length t), store_addr res AF_INET6 n (snd r6)) else Inr (- 1, None))))"

section \<open>Groups as text\<close>

fun fmt_x :: "nat \<Rightarrow> string" where
  "fmt_x n = (if n < 16 then [digit_char n] else fmt_x (n div 16) @ [digit_char (n mod 16)])"

declare fmt_x.simps [simp del]

lemma xdigit_digit_char: "d < 16 \<Longrightarrow> xdigit (digit_char d) = Some d"
proof -
  have "list_all (\<lambda>d. xdigit (digit_char d) = Some d) [0..<16]" by code_simp
  then show "d < 16 \<Longrightarrow> xdigit (digit_char d) = Some d" by (simp only: list_all_iff) simp
qed

lemma xdigit_punct: "xdigit CHR '':'' = None" "xdigit CHR ''.'' = None"
  by code_simp+

text \<open>The value of hexadecimal digits after a value that was read already.\<close>

definition hex_from :: "nat \<Rightarrow> nat list \<Rightarrow> nat" where
  "hex_from v ds = foldl (\<lambda>a d. a * 16 + d) v ds"

lemma hex_from_simps [simp]: "hex_from v [] = v" "hex_from v (d # ds) = hex_from (v * 16 + d) ds" "hex_from v (ds @ [d]) = hex_from v ds * 16 + d"
  by (simp_all add: hex_from_def)

lemma hex_from_ge: "v \<le> hex_from v ds"
proof (induction ds arbitrary: v)
  case (Cons d ds)
  have "v \<le> v * 16 + d" by simp
  also have "\<dots> \<le> hex_from (v * 16 + d) ds" by (rule Cons.IH)
  finally show ?case by simp
qed simp

lemma loop_digits:
  assumes "\<forall>d \<in> set ds. d < 16" and "s_count s + length ds \<le> 4" and "hex_from (s_val s) ds \<le> 65535" and "ds \<noteq> []"
  shows "ipton6_loop junk s (map digit_char ds @ r) = ipton6_loop junk (s\<lparr>s_val := hex_from (s_val s) ds, s_saw := True, s_count := s_count s + length ds\<rparr>) r"
  using assms
proof (induction ds arbitrary: s)
  case (Cons d ds)
  let ?s = "s\<lparr>s_val := s_val s * 16 + d, s_saw := True, s_count := s_count s + 1\<rparr>"
  have v: "s_val s * 16 + d \<le> 65535" using Cons.prems(3) hex_from_ge[of "s_val s * 16 + d" ds] by simp
  have 1: "ipton6_loop junk s (map digit_char (d # ds) @ r) = ipton6_loop junk ?s (map digit_char ds @ r)"
    using Cons.prems(1,2) v by (simp add: xdigit_digit_char)
  show ?case
  proof (cases "ds = []")
    case True
    then show ?thesis using 1 by simp
  next
    case False
    then show ?thesis using 1 Cons.IH[of ?s] Cons.prems by simp
  qed
qed simp

lemma fmt_x_digits: "n < 16 ^ k \<Longrightarrow> 0 < k \<Longrightarrow> \<exists>ds. fmt_x n = map digit_char ds \<and> ds \<noteq> [] \<and> length ds \<le> k \<and> (\<forall>d \<in> set ds. d < 16) \<and> hex_from 0 ds = n"
proof (induction k arbitrary: n)
  case (Suc k)
  show ?case
  proof (cases "n < 16")
    case True
    then show ?thesis by (intro exI[of _ "[n]"]) (simp add: fmt_x.simps)
  next
    case False
    then have "n div 16 < 16 ^ k" "0 < k" using Suc.prems(1) by (cases k; simp add: less_mult_imp_div_less mult.commute)+
    then obtain ds where ds: "fmt_x (n div 16) = map digit_char ds" "ds \<noteq> []" "length ds \<le> k" "\<forall>d \<in> set ds. d < 16" "hex_from 0 ds = n div 16"
      using Suc.IH by blast
    have "fmt_x n = map digit_char (ds @ [n mod 16])" using False ds(1) by (subst fmt_x.simps) simp
    then show ?thesis using ds by (intro exI[of _ "ds @ [n mod 16]"]) auto
  qed
qed simp

lemma loop_group:
  assumes "n < 65536" and "s_count s = 0" and "s_val s = 0"
  shows "\<exists>k. ipton6_loop junk s (fmt_x n @ r) = ipton6_loop junk (s\<lparr>s_val := n, s_saw := True, s_count := k\<rparr>) r"
proof -
  have "n < 16 ^ 4" using assms(1) by simp
  then obtain ds where ds: "fmt_x n = map digit_char ds" "ds \<noteq> []" "length ds \<le> 4" "\<forall>d \<in> set ds. d < 16" "hex_from 0 ds = n"
    using fmt_x_digits by (meson zero_less_numeral)
  then show ?thesis using loop_digits[OF ds(4), of s junk r] assms by auto
qed

definition group_bytes :: "nat \<Rightarrow> u8 list" where
  "group_bytes n = [of_nat (n div 256), of_nat n]"

definition groups_text :: "nat list \<Rightarrow> string" where
  "groups_text ns = concat (map (\<lambda>n. fmt_x n @ '':'') ns)"

text \<open>A state between two groups.\<close>

definition six_at :: "u8 list \<Rightarrow> nat option \<Rightarrow> string \<Rightarrow> six" where
  "six_at bs c t = \<lparr>s_tmp = bs @ replicate (16 - length bs) 0, s_tp = length bs, s_colon = c, s_saw = False, s_count = 0, s_val = 0,
     s_dbl = length bs div 2, s_cur = t\<rparr>"

lemma put_group_at:
  assumes "length bs + 2 \<le> 16"
  shows "put_group (six_at bs c t\<lparr>s_val := n, s_saw := w, s_count := k\<rparr>) =
    Inr (Some (six_at bs c t\<lparr>s_tmp := (bs @ group_bytes n) @ replicate (14 - length bs) 0, s_tp := length bs + 2, s_val := n, s_saw := w, s_count := k\<rparr>))"
proof -
  have z: "16 - length bs = Suc (Suc (14 - length bs))" using assms by arith
  show ?thesis using assms by (simp add: put_group_def six_at_def put_byte_def z group_bytes_def list_update_append nth_append)
qed

lemma loop_colon:
  "s_saw s \<Longrightarrow> cs \<noteq> [] \<Longrightarrow> put_group (s\<lparr>s_cur := cs\<rparr>) = Inr (Some s') \<Longrightarrow>
    ipton6_loop junk s (CHR '':'' # cs) = ipton6_loop junk (s'\<lparr>s_saw := False, s_count := 0, s_val := 0, s_dbl := s_dbl s' + 1\<rparr>) cs"
  by (simp add: xdigit_punct)

text \<open>One group and its colon.\<close>

lemma loop_group_colon:
  assumes "n < 65536" and "length bs + 2 \<le> 16" and "even (length bs)" and "cs \<noteq> []"
  shows "ipton6_loop junk (six_at bs c t) (fmt_x n @ CHR '':'' # cs) = ipton6_loop junk (six_at (bs @ group_bytes n) c cs) cs"
proof -
  obtain k where k: "ipton6_loop junk (six_at bs c t) (fmt_x n @ CHR '':'' # cs) =
      ipton6_loop junk (six_at bs c t\<lparr>s_val := n, s_saw := True, s_count := k\<rparr>) (CHR '':'' # cs)"
    using loop_group[of n "six_at bs c t" junk "CHR '':'' # cs"] assms(1) by (auto simp: six_at_def)
  let ?s = "six_at bs c cs\<lparr>s_tmp := (bs @ group_bytes n) @ replicate (14 - length bs) 0, s_tp := length bs + 2, s_val := n, s_saw := True, s_count := k\<rparr>"
  have "six_at bs c t\<lparr>s_val := n, s_saw := True, s_count := k, s_cur := cs\<rparr> = six_at bs c cs\<lparr>s_val := n, s_saw := True, s_count := k\<rparr>" by (simp add: six_at_def)
  then have p: "put_group (six_at bs c t\<lparr>s_val := n, s_saw := True, s_count := k, s_cur := cs\<rparr>) = Inr (Some ?s)"
    using put_group_at[OF assms(2), where c = c and t = cs and n = n and w = True and k = k] by (simp only:)
  have e: "?s\<lparr>s_saw := False, s_count := 0, s_val := 0, s_dbl := s_dbl ?s + 1\<rparr> = six_at (bs @ group_bytes n) c cs"
    using assms(2,3) by (simp add: six_at_def group_bytes_def)
  show ?thesis using loop_colon[OF _ assms(4) p, of junk] by (simp only: k e) simp
qed

lemma loop_groups:
  assumes "\<forall>n \<in> set ns. n < 65536" and "length bs + 2 * length ns \<le> 16" and "even (length bs)" and "r \<noteq> []"
  shows "\<exists>t'. ipton6_loop junk (six_at bs c t) (groups_text ns @ r) = ipton6_loop junk (six_at (bs @ concat (map group_bytes ns)) c t') r"
  using assms(1-3)
proof (induction ns arbitrary: bs t)
  case (Cons n ns)
  let ?q = "groups_text ns @ r"
  have t: "groups_text (n # ns) @ r = fmt_x n @ CHR '':'' # ?q" by (simp add: groups_text_def)
  have "ipton6_loop junk (six_at bs c t) (groups_text (n # ns) @ r) = ipton6_loop junk (six_at (bs @ group_bytes n) c ?q) ?q"
    unfolding t using Cons.prems assms(4) by (intro loop_group_colon) simp_all
  then show ?case using Cons.IH[of "bs @ group_bytes n" ?q] Cons.prems by (simp add: group_bytes_def)
qed (auto simp: groups_text_def)

section \<open>The shift and the end\<close>

lemma shift_one_at:
  assumes "c + n - i = length P" and "16 - i = length P + Suc k" and "m = P @ b # replicate (Suc k) 0 @ D"
  shows "shift_one c n m i = Inr (P @ replicate (Suc k) 0 @ b # D)"
proof -
  have r: "replicate (Suc k) 0 @ D = replicate k 0 @ (0 :: u8) # D" by (simp add: replicate_app_Cons_same)
  have m: "m = (P @ b # replicate k 0) @ 0 # D" using assms(3) r by simp
  have "m[length P + Suc k := b] = (P @ b # replicate k 0) @ b # D" unfolding m by (simp add: list_update_append)
  then have "(m[length P + Suc k := b])[length P := 0] = P @ replicate (Suc k) 0 @ b # D" by (simp add: list_update_append)
  moreover have "m ! length P = b" "length P + Suc k < length m" by (simp_all add: m nth_append)
  ultimately show ?thesis by (simp add: shift_one_def byte_at_def put_byte_def assms(1,2))
qed

lemma shift_by_hand_moves:
  assumes "length A + length B + Suc k = 16"
  shows "shift_by_hand (length A) (length B) (A @ B @ replicate (Suc k) 0) = Inr (A @ replicate (Suc k) 0 @ B)"
proof -
  have "rfold (shift_one (length A) (length B)) (A @ B @ replicate (Suc k) 0) [1..<i + 1] =
      Inr (A @ take (length B - i) B @ replicate (Suc k) 0 @ drop (length B - i) B)" if "i \<le> length B" for i
    using that
  proof (induction i)
    case (Suc i)
    let ?j = "length B - Suc i"
    have j: "length B - i = Suc ?j" "?j < length B" using Suc.prems by simp_all
    then have t: "take (Suc ?j) B = take ?j B @ [B ! ?j]" "drop ?j B = B ! ?j # drop (Suc ?j) B" by (simp_all add: take_Suc_conv_app_nth Cons_nth_drop_Suc)
    have "shift_one (length A) (length B) (A @ take (Suc ?j) B @ replicate (Suc k) 0 @ drop (Suc ?j) B) (Suc i)
        = Inr ((A @ take ?j B) @ replicate (Suc k) 0 @ B ! ?j # drop (Suc ?j) B)"
      by (rule shift_one_at) (use Suc.prems assms t in auto)
    moreover have "[1..<Suc i + 1] = [1..<i + 1] @ [Suc i]" by simp
    ultimately show ?case using Suc.IH Suc.prems j t by (simp add: rfold_append)
  qed simp
  from this[of "length B"] show ?thesis by (simp add: shift_by_hand_def)
qed

fun join_colon :: "string list \<Rightarrow> string" where
  "join_colon [] = []"
| "join_colon [g] = g"
| "join_colon (g # h # gs) = g @ '':'' @ join_colon (h # gs)"

lemma join_colon_groups: "ns \<noteq> [] \<Longrightarrow> join_colon (map fmt_x ns) = groups_text (butlast ns) @ fmt_x (last ns)"
proof (induction ns)
  case (Cons n ns)
  then show ?case by (cases ns) (auto simp: groups_text_def)
qed simp

lemma join_colon_double: "ns \<noteq> [] \<Longrightarrow> join_colon (map fmt_x ns) @ '':'' = groups_text ns"
proof (induction ns)
  case (Cons n ns)
  then show ?case by (cases ns) (auto simp: groups_text_def)
qed simp

lemma six_start_at: "six_start t = six_at [] None t"
  by (simp add: six_start_def six_at_def)

lemma loop_double_colon:
  "ipton6_loop junk (six_at bs None t) (CHR '':'' # cs) = ipton6_loop junk (six_at bs (Some (length bs)) cs) cs"
  by (simp add: xdigit_punct six_at_def)

text \<open>The groups up to the end of the text.\<close>

lemma loop_last_groups:
  assumes "\<forall>n \<in> set ns. n < 65536" and "length bs + 2 * length ns \<le> 16" and "even (length bs)"
  shows "rbind (ipton6_loop junk (six_at bs c t) (join_colon (map fmt_x ns))) (\<lambda>r. case r of None \<Rightarrow> Inr None | Some s \<Rightarrow> ipton6_end s) =
    six_finish (length bs + 2 * length ns = 16) (six_at (bs @ concat (map group_bytes ns)) c [])"
proof (cases "ns = []")
  case True
  then show ?thesis using assms(3) by (auto simp: ipton6_end_def six_at_def six_finish_def split: option.splits)
next
  case False
  let ?l = "last ns" and ?B = "bs @ concat (map group_bytes (butlast ns))"
  have gl: "length (concat (map group_bytes xs)) = 2 * length xs" for xs by (induction xs) (simp_all add: group_bytes_def)
  have ne: "fmt_x ?l \<noteq> []" by (subst fmt_x.simps) simp
  have b: "\<forall>n \<in> set (butlast ns). n < 65536" "?l < 65536" using assms(1) False by (auto dest: in_set_butlastD)
  have lB: "length ?B + 2 \<le> 16" "length ?B + 2 = length bs + 2 * length ns" "even (length ?B)" using assms(2,3) False by (cases ns rule: rev_cases; simp add: gl)+
  have lb: "length bs + 2 * length (butlast ns) \<le> 16" using assms(2) by simp
  obtain t' where t': "ipton6_loop junk (six_at bs c t) (groups_text (butlast ns) @ fmt_x ?l) = ipton6_loop junk (six_at ?B c t') (fmt_x ?l)"
    using loop_groups[OF b(1) lb assms(3) ne] by blast
  obtain k where k: "ipton6_loop junk (six_at ?B c t') (fmt_x ?l) = Inr (Some (six_at ?B c t'\<lparr>s_val := ?l, s_saw := True, s_count := k\<rparr>))"
    using loop_group[OF b(2), of "six_at ?B c t'" junk "[]"] by (auto simp: six_at_def)
  have e: "bs @ concat (map group_bytes ns) = ?B @ group_bytes ?l"
    using False by (cases ns rule: rev_cases) simp_all
  have p: "put_group (six_at ?B c t'\<lparr>s_val := ?l, s_saw := True, s_count := k\<rparr>) =
    Inr (Some (six_at ?B c t'\<lparr>s_tmp := (?B @ group_bytes ?l) @ replicate (14 - length ?B) 0, s_tp := length ?B + 2, s_val := ?l, s_saw := True, s_count := k\<rparr>))"
    by (rule put_group_at[OF lB(1)])
  have d: "length ?B div 2 + 1 = 8 \<longleftrightarrow> length bs + 2 * length ns = 16" using lB by presburger
  have tl: "length (?B @ group_bytes ?l) = length ?B + 2" by (simp add: group_bytes_def)
  have f: "six_finish g (six_at ?B c t'\<lparr>s_tmp := (?B @ group_bytes ?l) @ replicate (14 - length ?B) 0, s_tp := length ?B + 2, s_val := ?l, s_saw := True, s_count := k, s_dbl := x\<rparr>)
      = six_finish g (six_at (?B @ group_bytes ?l) c [])" for g x
  proof -
    have "16 - (length ?B + 2) = 14 - length ?B" by simp
    then show ?thesis unfolding six_finish_def six_at_def tl by (simp split: option.split)
  qed
  have fin: "ipton6_end (six_at ?B c t'\<lparr>s_val := ?l, s_saw := True, s_count := k\<rparr>) =
      six_finish (length ?B div 2 + 1 = 8) (six_at (?B @ group_bytes ?l) c [])"
    unfolding ipton6_end_def p using f[of "length ?B div 2 + 1 = 8" "length ?B div 2 + 1"] by (simp add: six_at_def)
  show ?thesis unfolding join_colon_groups[OF False] t' k e using fin d by simp
qed

lemma fmt_x_no_colon: "n < 65536 \<Longrightarrow> \<exists>c cs. fmt_x n = c # cs \<and> c \<noteq> CHR '':''"
proof -
  assume "n < 65536"
  then have "n < 16 ^ 4" by simp
  then obtain ds where ds: "fmt_x n = map digit_char ds" "ds \<noteq> []" "\<forall>d \<in> set ds. d < 16" using fmt_x_digits by (meson zero_less_numeral)
  then obtain d where "fmt_x n = digit_char d # map digit_char (tl ds)" "d < 16" by (cases ds) auto
  then show ?thesis using digit_char_plain(2)[of d] by auto
qed

lemma length_group_bytes: "length (concat (map group_bytes ns)) = 2 * length ns"
  by (induction ns) (simp_all add: group_bytes_def)

section \<open>Properties\<close>

text \<open>
  C36: \<open>inet_ipton4\<close> accepts exactly the texts of four groups of decimal digits between dots with
  values up to 255, returns their values, and never accesses its array out of bounds;
  \<open>inet_pton4\<close> accepts exactly those of them without leading zeros.
\<close>

theorem ipv4_parsers_exact:
  assumes "length junk = 4"
  shows "inet_ipton4 junk s = Inr (quad_value False s) \<and> inet_pton4 junk s = Inr (quad_value True s)"
  using quad_parser_exact[OF assms, of False s] quad_parser_exact[OF assms, of True s]
  by (simp add: inet_ipton4_def inet_pton4_def quad_step_def)

theorem ipv4_parsers_exact_witness:
  "inet_ipton4 [9, 9, 9, 9] ''10.01.0.255'' = Inr (quad_value False ''10.01.0.255'') \<and>
   inet_pton4 [9, 9, 9, 9] ''10.01.0.255'' = Inr (quad_value True ''10.01.0.255'') \<and>
   quad_value False ''10.01.0.255'' = Some [10, 1, 0, 255] \<and> quad_value True ''10.01.0.255'' = None"
proof -
  have "quad_value False ''10.01.0.255'' = Some [10, 1, 0, 255] \<and> quad_value True ''10.01.0.255'' = None" by code_simp
  then show ?thesis using ipv4_parsers_exact[of "[9, 9, 9, 9]" "''10.01.0.255''"] by simp
qed

text \<open>
  An IPv6 address written as groups of hexadecimal digits with a double colon is read as the
  groups before it, zeros, and the groups after it; the array is shifted by hand without losing a byte.
\<close>

theorem ipv6_compressed_reads:
  assumes "\<forall>n \<in> set (ps @ qs). n < 65536" and "length ps + length qs \<le> 7"
  shows "inet_ipton6 junk (join_colon (map fmt_x ps) @ ''::'' @ join_colon (map fmt_x qs)) =
    Inr (Some (concat (map group_bytes ps) @ replicate (16 - 2 * (length ps + length qs)) 0 @ concat (map group_bytes qs)))"
proof -
  let ?T = "join_colon (map fmt_x qs)" and ?P = "concat (map group_bytes ps)" and ?Q = "concat (map group_bytes qs)"
  let ?L = "groups_text ps @ CHR '':'' # ?T"
  have sk: "skip_leading (join_colon (map fmt_x ps) @ ''::'' @ ?T) = Some ?L"
  proof (cases ps)
    case Nil
    then show ?thesis by (simp add: skip_leading_def groups_text_def)
  next
    case (Cons p ps')
    have e: "join_colon (map fmt_x ps) @ ''::'' @ ?T = ?L" using join_colon_double[of ps] Cons by (metis append.assoc append_Cons append_Nil list.distinct(1))
    obtain c cs where "fmt_x p = c # cs" "c \<noteq> CHR '':''" using fmt_x_no_colon[of p] assms(1) Cons by auto
    then show ?thesis unfolding e by (simp add: skip_leading_def groups_text_def Cons)
  qed
  obtain t' where t': "ipton6_loop junk (six_start ?L) ?L = ipton6_loop junk (six_at ?P None t') (CHR '':'' # ?T)"
    using loop_groups[of ps "[]" "CHR '':'' # ?T" junk None ?L] assms by (auto simp: six_start_at)
  have lp: "length ?P = 2 * length ps" by (rule length_group_bytes)
  have fin: "rbind (ipton6_loop junk (six_at ?P (Some (length ?P)) ?T) ?T) (\<lambda>r. case r of None \<Rightarrow> Inr None | Some s \<Rightarrow> ipton6_end s) =
      six_finish (length ?P + 2 * length qs = 16) (six_at (?P @ ?Q) (Some (length ?P)) [])"
    by (rule loop_last_groups) (use assms lp in auto)
  obtain k where k: "16 - 2 * (length ps + length qs) = Suc k" using assms(2) by (cases "16 - 2 * (length ps + length qs)") auto
  have "six_finish (length ?P + 2 * length qs = 16) (six_at (?P @ ?Q) (Some (length ?P)) []) = Inr (Some (?P @ replicate (Suc k) 0 @ ?Q))"
    using shift_by_hand_moves[of ?P ?Q k] assms(2) k lp length_group_bytes[of qs] by (simp add: six_finish_def six_at_def)
  then show ?thesis unfolding inet_ipton6_def sk k option.case t' loop_double_colon fin .
qed

theorem ipv6_compressed_reads_witness:
  "inet_ipton6 [0, 0, 0, 0] (join_colon (map fmt_x [0x2001, 0xdb8]) @ ''::'' @ join_colon (map fmt_x [1])) =
    Inr (Some (concat (map group_bytes [0x2001, 0xdb8]) @ replicate 10 0 @ concat (map group_bytes [1])))"
  using ipv6_compressed_reads[of "[0x2001, 0xdb8]" "[1]" "[0, 0, 0, 0]"] by simp

lemma ipv6_full_reads:
  assumes "\<forall>n \<in> set ns. n < 65536" and "length ns = 8"
  shows "inet_ipton6 junk (join_colon (map fmt_x ns)) = Inr (Some (concat (map group_bytes ns)))"
proof -
  let ?T = "join_colon (map fmt_x ns)"
  obtain n ns' where ns: "ns = n # ns'" using assms(2) by (cases ns) auto
  obtain c cs where "fmt_x n = c # cs" "c \<noteq> CHR '':''" using fmt_x_no_colon[of n] assms(1) ns by auto
  then have sk: "skip_leading ?T = Some ?T" by (cases ns') (simp_all add: skip_leading_def ns)
  have "rbind (ipton6_loop junk (six_at [] None ?T) ?T) (\<lambda>r. case r of None \<Rightarrow> Inr None | Some s \<Rightarrow> ipton6_end s) =
      six_finish (length ([] :: u8 list) + 2 * length ns = 16) (six_at ([] @ concat (map group_bytes ns)) None [])"
    by (rule loop_last_groups) (use assms in auto)
  then show ?thesis unfolding inet_ipton6_def sk using assms(2) length_group_bytes[of ns] by (simp add: six_start_at six_finish_def six_at_def)
qed

section \<open>Bounds and the two IPv6 parsers\<close>

definition six_inv :: "six \<Rightarrow> bool" where
  "six_inv s \<longleftrightarrow> length (s_tmp s) = 16 \<and> s_tp s \<le> 16 \<and> (\<forall>c. s_colon s = Some c \<longrightarrow> c \<le> s_tp s)"

lemma put_group_safe:
  assumes "six_inv s"
  shows "put_group s = (if 16 < s_tp s + 2 then Inr None
    else Inr (Some (s\<lparr>s_tmp := (s_tmp s)[s_tp s := of_nat (s_val s div 256), s_tp s + 1 := of_nat (s_val s)], s_tp := s_tp s + 2\<rparr>)))"
  using assms by (simp add: put_group_def six_inv_def put_byte_def)

lemma rfold_put_bytes:
  "\<forall>i \<in> set is. p + i < length m \<Longrightarrow> \<exists>m'. rfold (\<lambda>m i. put_byte m (p + i) (f i)) m is = Inr m' \<and> length m' = length m"
proof (induction "is" arbitrary: m)
  case (Cons i "is")
  then show ?case using Cons.IH[of "m[p + i := f i]"] by (simp add: put_byte_def)
qed simp

lemma put_quad_safe: "six_inv s \<Longrightarrow> s_tp s + 4 \<le> 16 \<Longrightarrow> \<exists>m. put_quad s bs = Inr (s\<lparr>s_tmp := m, s_tp := s_tp s + 4\<rparr>) \<and> length m = 16"
  using rfold_put_bytes[of "[0..<4]" "s_tp s" "s_tmp s" "\<lambda>i. bs ! i"] by (auto simp: put_quad_def six_inv_def)

lemma ipton6_loop_safe:
  "six_inv s \<Longrightarrow> length junk = 4 \<Longrightarrow> \<exists>r. ipton6_loop junk s cs = Inr r \<and> (\<forall>s'. r = Some s' \<longrightarrow> six_inv s')"
proof (induction cs arbitrary: s)
  case (Cons c cs)
  have quad: "inet_ipton4 junk x = Inr (quad_value False x)" for x
    using quad_parser_exact[OF Cons.prems(2), of False x] by (simp add: inet_ipton4_def quad_step_def)
  consider (digit) d where "xdigit c = Some d" | (colon) "xdigit c = None" "c = CHR '':''" | (other) "xdigit c = None" "c \<noteq> CHR '':''" by fastforce
  then show ?case
  proof cases
    case (digit d)
    then show ?thesis using Cons.IH[of "s\<lparr>s_val := s_val s * 16 + d, s_saw := True, s_count := s_count s + 1\<rparr>"] Cons.prems by (simp add: six_inv_def)
  next
    case colon
    show ?thesis
    proof (cases "s_saw s")
      case False
      then show ?thesis using Cons.IH[of "s\<lparr>s_cur := cs, s_colon := Some (s_tp s)\<rparr>"] Cons.prems colon by (simp add: six_inv_def)
    next
      case True
      have i: "six_inv (s\<lparr>s_cur := cs\<rparr>)" using Cons.prems(1) by (simp add: six_inv_def)
      let ?s = "s\<lparr>s_cur := cs, s_tmp := (s_tmp s)[s_tp s := of_nat (s_val s div 256), s_tp s + 1 := of_nat (s_val s)], s_tp := s_tp s + 2,
        s_saw := False, s_count := 0, s_val := 0, s_dbl := s_dbl s + 1\<rparr>"
      have "s_tp s + 2 \<le> 16 \<Longrightarrow> six_inv ?s" using Cons.prems(1) by (auto simp: six_inv_def)
      then show ?thesis using Cons.IH[of ?s] Cons.prems(2) colon True put_group_safe[OF i] by auto
    qed
  next
    case other
    show ?thesis
    proof (cases "c = CHR ''.'' \<and> s_tp s + 4 \<le> 16")
      case False
      then show ?thesis using other by auto
    next
      case True
      show ?thesis
      proof (cases "quad_value False (s_cur s)")
        case None
        then show ?thesis using other True quad by simp
      next
        case (Some bs)
        obtain m where "put_quad s bs = Inr (s\<lparr>s_tmp := m, s_tp := s_tp s + 4\<rparr>)" "length m = 16" using put_quad_safe[OF Cons.prems(1)] True by blast
        then show ?thesis using other True quad Some Cons.prems(1) by (auto simp: six_inv_def)
      qed
    qed
  qed
qed simp

lemma shift_safe:
  assumes "length m = 16" and "c + n \<le> 16"
  shows "\<exists>m'. shift_by_hand c n m = Inr m' \<and> length m' = 16"
proof -
  have "\<exists>m'. rfold (shift_one c n) m is = Inr m' \<and> length m' = 16" if "length m = 16" "\<forall>i \<in> set is. 0 < i \<and> i \<le> n" for "is" m
    using that assms(2) by (induction "is" arbitrary: m) (auto simp: shift_one_def byte_at_def put_byte_def)
  then show ?thesis using assms(1) by (simp add: shift_by_hand_def)
qed

lemma six_finish_safe: "six_inv s \<Longrightarrow> \<exists>r. six_finish g s = Inr r \<and> (\<forall>bs. r = Some bs \<longrightarrow> length bs = 16)"
proof (cases "s_colon s")
  case (Some c)
  assume "six_inv s"
  then show ?thesis using Some shift_safe[of "s_tmp s" c "s_tp s - c"] by (auto simp: six_inv_def six_finish_def)
qed (simp add: six_finish_def six_inv_def)

lemma six_inv_start: "six_inv (six_start t)"
  by (simp add: six_inv_def six_start_def)

text \<open>
  C38: whatever the text, \<open>inet_ipton6\<close> stays inside its array of 16 bytes, including the shift,
  and an accepted address has 16 bytes.
\<close>

theorem ipton6_stays_in_array:
  assumes "length junk = 4"
  shows "\<exists>r. inet_ipton6 junk s = Inr r \<and> (\<forall>bs. r = Some bs \<longrightarrow> length bs = 16)"
proof (cases "skip_leading s")
  case (Some t)
  obtain r where r: "ipton6_loop junk (six_start t) t = Inr r" "\<forall>s'. r = Some s' \<longrightarrow> six_inv s'" using ipton6_loop_safe[OF six_inv_start assms] by blast
  have "\<exists>x. ipton6_end s' = Inr x \<and> (\<forall>bs. x = Some bs \<longrightarrow> length bs = 16)" if i: "six_inv s'" for s'
  proof (cases "s_saw s'")
    case True
    let ?s = "s'\<lparr>s_tmp := (s_tmp s')[s_tp s' := of_nat (s_val s' div 256), s_tp s' + 1 := of_nat (s_val s')], s_tp := s_tp s' + 2\<rparr>"
    have "s_tp s' + 2 \<le> 16 \<Longrightarrow> six_inv (?s\<lparr>s_dbl := s_dbl ?s + 1\<rparr>)" using i by (auto simp: six_inv_def)
    then show ?thesis using True put_group_safe[OF i] six_finish_safe by (auto simp: ipton6_end_def)
  qed (use six_finish_safe[OF i] in \<open>simp add: ipton6_end_def\<close>)
  then show ?thesis using Some r by (cases r) (auto simp: inet_ipton6_def)
qed (simp add: inet_ipton6_def)

theorem ipton6_stays_in_array_witness:
  "\<exists>r. inet_ipton6 [0, 0, 0, 0] ''1:2:3:4:5:6:7:8:9'' = Inr r \<and> (\<forall>bs. r = Some bs \<longrightarrow> length bs = 16)"
  by (rule ipton6_stays_in_array) simp

definition six_sim :: "six \<Rightarrow> six \<Rightarrow> bool" where
  "six_sim s t \<longleftrightarrow>
     s_tmp s = s_tmp t \<and> s_tp s = s_tp t \<and> s_colon s = s_colon t \<and> s_count s = s_count t \<and> s_val s = s_val t \<and> s_cur s = s_cur t \<and>
     (s_saw s \<longleftrightarrow> 0 < s_count s) \<and> 2 * s_dbl s = s_tp s \<and> s_val s < 16 ^ s_count s"

lemma strchr_idx_less: "strchr_idx xs c = Some i \<Longrightarrow> i < length xs"
  by (induction xs arbitrary: i) (auto split: if_splits)

lemma xdigit_less: "xdigit c = Some d \<Longrightarrow> d < 16"
  using strchr_idx_less[of "''0123456789abcdef''" c d] strchr_idx_less[of "''0123456789ABCDEF''" c d]
  by (auto simp: xdigit_def split: option.splits simp del: strchr_idx.simps)

lemma put_group_sim:
  assumes "six_sim s t" and "six_inv s"
  shows "\<exists>a b. put_group s = Inr a \<and> put_group t = Inr b \<and> (a = None \<longleftrightarrow> b = None) \<and>
    (\<forall>s' t'. a = Some s' \<longrightarrow> b = Some t' \<longrightarrow> six_inv s' \<and> s_tp s' = s_tp s + 2 \<and> s_dbl s' = s_dbl s \<and> s_cur s' = s_cur s \<and>
      s_tmp s' = s_tmp t' \<and> s_tp s' = s_tp t' \<and> s_colon s' = s_colon t' \<and> s_cur s' = s_cur t')"
proof -
  have "six_inv t" using assms by (simp add: six_sim_def six_inv_def)
  then show ?thesis using put_group_safe[OF assms(2)] put_group_safe[of t] assms by (auto simp: six_sim_def six_inv_def)
qed

lemma loops_agree:
  "CHR ''.'' \<notin> set cs \<Longrightarrow> six_inv s \<Longrightarrow> six_sim s t \<Longrightarrow>
    \<exists>a b. ipton6_loop junk s cs = Inr a \<and> pton6_loop junk t cs = Inr b \<and> rel_option six_sim a b"
proof (induction cs arbitrary: s t)
  case (Cons c cs)
  consider (digit) d where "xdigit c = Some d" | (colon) "xdigit c = None" "c = CHR '':''" | (other) "xdigit c = None" "c \<noteq> CHR '':''" by fastforce
  then show ?case
  proof cases
    case (digit d)
    show ?thesis
    proof (cases "4 \<le> s_count s")
      case True
      then show ?thesis using digit Cons.prems(3) by (simp add: six_sim_def)
    next
      case False
      let ?s = "s\<lparr>s_val := s_val s * 16 + d, s_saw := True, s_count := s_count s + 1\<rparr>"
      let ?t = "t\<lparr>s_val := s_val t * 16 + d, s_count := s_count t + 1\<rparr>"
      have "s_val s < 16 ^ s_count s" using Cons.prems(3) unfolding six_sim_def by blast
      then have "s_val s + 1 \<le> 16 ^ s_count s" by simp
      then have "(s_val s + 1) * 16 \<le> 16 ^ s_count s * 16" by (rule mult_right_mono) simp
      then have v: "s_val s * 16 + d < 16 ^ (s_count s + 1)" using xdigit_less[OF digit] by simp
      have "(16 :: nat) ^ (s_count s + 1) \<le> 16 ^ 4" using False by (intro power_increasing) simp_all
      then have "s_val s * 16 + d \<le> 65535" using v by simp
      then have l: "ipton6_loop junk s (c # cs) = ipton6_loop junk ?s cs" using digit False by simp
      have "s_count t = s_count s" using Cons.prems(3) unfolding six_sim_def by simp
      then have r: "pton6_loop junk t (c # cs) = pton6_loop junk ?t cs" using digit False by simp
      have "six_sim ?s ?t" using Cons.prems(3) v unfolding six_sim_def by simp
      moreover have "six_inv ?s" using Cons.prems(2) by (simp add: six_inv_def)
      moreover have "CHR ''.'' \<notin> set cs" using Cons.prems(1) by simp
      ultimately show ?thesis unfolding l r by (intro Cons.IH)
    qed
  next
    case colon
    show ?thesis
    proof (cases "s_saw s")
      case False
      let ?s = "s\<lparr>s_cur := cs, s_colon := Some (s_tp s)\<rparr>" and ?t = "t\<lparr>s_cur := cs, s_colon := Some (s_tp t)\<rparr>"
      have "six_sim ?s ?t" "six_inv ?s" using Cons.prems(2,3) unfolding six_sim_def six_inv_def by auto
      then show ?thesis using Cons.IH[of ?s ?t] Cons.prems(1,3) colon False by (auto simp: six_sim_def)
    next
      case True
      have st: "six_sim (s\<lparr>s_cur := cs\<rparr>) (t\<lparr>s_cur := cs\<rparr>)" "six_inv (s\<lparr>s_cur := cs\<rparr>)" using Cons.prems(2,3) unfolding six_sim_def six_inv_def by auto
      have ct: "s_count t \<noteq> 0" using True Cons.prems(3) by (simp add: six_sim_def)
      obtain a b where ab: "put_group (s\<lparr>s_cur := cs\<rparr>) = Inr a" "put_group (t\<lparr>s_cur := cs\<rparr>) = Inr b" "a = None \<longleftrightarrow> b = None"
        "\<forall>s' t'. a = Some s' \<longrightarrow> b = Some t' \<longrightarrow> six_inv s' \<and> s_tp s' = s_tp s + 2 \<and> s_dbl s' = s_dbl s \<and> s_cur s' = cs \<and>
          s_tmp s' = s_tmp t' \<and> s_tp s' = s_tp t' \<and> s_colon s' = s_colon t' \<and> s_cur s' = s_cur t'"
        using put_group_sim[OF st] by auto
      show ?thesis
      proof (cases "cs = [] \<or> a = None")
        case True
        then show ?thesis using ab(1-3) colon \<open>s_saw s\<close> ct by auto
      next
        case ne: False
        then obtain s' where Some: "a = Some s'" by auto
        then obtain t' where t': "b = Some t'" using ab(3) by auto
        let ?s = "s'\<lparr>s_saw := False, s_count := 0, s_val := 0, s_dbl := s_dbl s' + 1\<rparr>" and ?t = "t'\<lparr>s_count := 0, s_val := 0\<rparr>"
        have "six_inv s' \<and> s_tp s' = s_tp s + 2 \<and> s_dbl s' = s_dbl s \<and>
          s_tmp s' = s_tmp t' \<and> s_tp s' = s_tp t' \<and> s_colon s' = s_colon t' \<and> s_cur s' = s_cur t'"
          using ab(4) Some t' by blast
        then have "six_sim ?s ?t" "six_inv ?s" using Cons.prems(3) unfolding six_sim_def six_inv_def by auto
        moreover have l: "ipton6_loop junk s (c # cs) = ipton6_loop junk ?s cs" using ab(1) Some colon True ne by simp
        moreover have r: "pton6_loop junk t (c # cs) = pton6_loop junk ?t cs" using ab(2) t' colon ct ne by simp
        moreover have "CHR ''.'' \<notin> set cs" using Cons.prems(1) by simp
        ultimately show ?thesis unfolding l r by (intro Cons.IH)
      qed
    qed
  next
    case other
    moreover have "c \<noteq> CHR ''.''" using Cons.prems(1) by auto
    ultimately show ?thesis by simp
  qed
qed simp

lemma six_finish_cong:
  "s_tmp s = s_tmp t \<Longrightarrow> s_tp s = s_tp t \<Longrightarrow> s_colon s = s_colon t \<Longrightarrow> g = h \<Longrightarrow> six_finish g s = six_finish h t"
  by (cases "s_colon t") (simp_all add: six_finish_def)

lemma ends_agree:
  assumes "six_sim s t" and "six_inv s"
  shows "ipton6_end s = pton6_end t"
proof (cases "s_saw s")
  case True
  obtain a b where ab: "put_group s = Inr a" "put_group t = Inr b" "a = None \<longleftrightarrow> b = None"
    "\<forall>s' t'. a = Some s' \<longrightarrow> b = Some t' \<longrightarrow> six_inv s' \<and> s_tp s' = s_tp s + 2 \<and> s_dbl s' = s_dbl s \<and> s_cur s' = s_cur s \<and>
      s_tmp s' = s_tmp t' \<and> s_tp s' = s_tp t' \<and> s_colon s' = s_colon t' \<and> s_cur s' = s_cur t'"
    using put_group_sim[OF assms] by auto
  have ct: "0 < s_count t" "2 * s_dbl s = s_tp s" using True assms(1) by (simp_all add: six_sim_def)
  show ?thesis
  proof (cases a)
    case None
    then show ?thesis using ab True ct by (simp add: ipton6_end_def pton6_end_def)
  next
    case (Some s')
    then obtain t' where t': "b = Some t'" using ab(3) by auto
    have "six_finish (s_dbl s' + 1 = 8) (s'\<lparr>s_dbl := s_dbl s' + 1\<rparr>) = six_finish (s_tp t' = 16) t'"
      using ab(4) Some t' ct(2) by (intro six_finish_cong) auto
    then show ?thesis using ab(1,2) Some t' True ct(1) by (simp add: ipton6_end_def pton6_end_def)
  qed
next
  case False
  then show ?thesis using assms(1) by (auto simp: ipton6_end_def pton6_end_def six_sim_def intro!: six_finish_cong)
qed

text \<open>
  C37: the two IPv6 parsers of the program, which test the number of digits and of groups in
  different ways, agree on every text without a dotted quad.
\<close>

theorem ipv6_parsers_agree:
  assumes "CHR ''.'' \<notin> set s" and "length junk = 4"
  shows "inet_ipton6 junk s = inet_pton6 junk s"
proof (cases "skip_leading s")
  case (Some t)
  have "set t \<subseteq> set s" using Some by (cases s) (auto simp: skip_leading_def split: if_splits)
  then have "CHR ''.'' \<notin> set t" using assms(1) by blast
  moreover have "six_sim (six_start t) (six_start t)" by (simp add: six_sim_def six_start_def)
  ultimately obtain a b where ab: "ipton6_loop junk (six_start t) t = Inr a" "pton6_loop junk (six_start t) t = Inr b" "rel_option six_sim a b"
    using loops_agree[OF _ six_inv_start] by blast
  have i: "\<forall>s'. a = Some s' \<longrightarrow> six_inv s'" using ipton6_loop_safe[OF six_inv_start assms(2), of t t] ab(1) by simp
  show ?thesis using ab i ends_agree Some by (cases a; cases b) (auto simp: inet_ipton6_def inet_pton6_def)
qed (simp add: inet_ipton6_def inet_pton6_def)

theorem ipv6_parsers_agree_witness:
  "inet_ipton6 [0, 0, 0, 0] ''fe80::12345'' = inet_pton6 [0, 0, 0, 0] ''fe80::12345''"
  by (rule ipv6_parsers_agree) simp_all

section \<open>An address with its prefix\<close>

fun join_dot :: "string list \<Rightarrow> string" where
  "join_dot [] = []"
| "join_dot [g] = g"
| "join_dot (g # gs) = g @ CHR ''.'' # join_dot gs"

definition quad_text :: "u8 list \<Rightarrow> string" where
  "quad_text bs = join_dot (map (\<lambda>b. fmt_d (unat b)) bs)"

lemma fmt_d_is_digit: "c \<in> set (fmt_d n) \<Longrightarrow> is_digit c"
  using fmt_d_digits[of n] digit_val_digit_char by (fastforce simp: is_digit_def)

lemma digit_not_special: "is_digit c \<Longrightarrow> c \<noteq> CHR ''.'' \<and> c \<noteq> CHR ''/'' \<and> \<not> isendoftoken c \<and> \<not> isspace c \<and> c \<notin> set ''-+''"
  by (auto simp: is_digit_def digit_val_def isendoftoken_def isspace_def Let_def)

lemma split_dots_plain: "CHR ''.'' \<notin> set g \<Longrightarrow> split_dots g = [g]"
  by (induction g) auto

lemma split_dots_group: "CHR ''.'' \<notin> set g \<Longrightarrow> split_dots (g @ CHR ''.'' # cs) = g # split_dots cs"
  by (induction g) auto

lemma split_join_dot: "gs \<noteq> [] \<Longrightarrow> \<forall>g \<in> set gs. CHR ''.'' \<notin> set g \<Longrightarrow> split_dots (join_dot gs) = gs"
  by (induction gs rule: join_dot.induct) (auto simp: split_dots_plain split_dots_group)

lemma set_join_dot: "set (join_dot gs) \<subseteq> insert CHR ''.'' (\<Union>g \<in> set gs. set g)"
  by (induction gs rule: join_dot.induct) auto

lemma length_join_dot: "\<forall>g \<in> set gs. length g \<le> k \<Longrightarrow> length (join_dot gs) \<le> length gs * (k + 1)"
  by (induction gs rule: join_dot.induct) auto

lemma length_fmt_d: "n < 10 ^ k \<Longrightarrow> 0 < k \<Longrightarrow> length (fmt_d n) \<le> k"
proof (induction k arbitrary: n)
  case (Suc k)
  show ?case
  proof (cases "n < 10")
    case False
    then have "n div 10 < 10 ^ k" "0 < k" using Suc.prems(1) by (cases k; simp add: less_mult_imp_div_less mult.commute)+
    then show ?thesis using Suc.IH False by (subst fmt_d.simps) simp
  qed (simp add: fmt_d.simps)
qed simp

lemma quad_text_value: "length bs = 4 \<Longrightarrow> quad_value False (quad_text bs) = Some bs"
proof -
  assume l: "length bs = 4"
  have "\<forall>g \<in> set (map (\<lambda>b. fmt_d (unat b)) bs). CHR ''.'' \<notin> set g" using fmt_d_is_digit digit_not_special by fastforce
  then have "split_dots (quad_text bs) = map (\<lambda>b. fmt_d (unat b)) bs" unfolding quad_text_def using l by (intro split_join_dot) auto
  moreover have "octet_ok (fmt_d (unat b))" for b :: u8
    using fmt_d_digits[of "unat b"] fmt_d_is_digit unsigned_less[of b, where ?'a = nat] by (auto simp: octet_ok_def list_all_iff digits_val_fmt_d)
  ultimately show ?thesis using l by (simp add: quad_value_def list_all_iff digits_val_fmt_d o_def)
qed

lemma quad_text_chars: "c \<in> set (quad_text bs) \<Longrightarrow> is_digit c \<or> c = CHR ''.''"
  using set_join_dot[of "map (\<lambda>b. fmt_d (unat b)) bs"] fmt_d_is_digit by (auto simp: quad_text_def)

lemma length_quad_text: "length bs = 4 \<Longrightarrow> length (quad_text bs) \<le> 16"
proof -
  assume l: "length bs = 4"
  have "length (fmt_d (unat b)) \<le> 3" for b :: u8 using unsigned_less[of b, where ?'a = nat] by (intro length_fmt_d) simp_all
  then have "length (join_dot (map (\<lambda>b. fmt_d (unat b)) bs)) \<le> length (map (\<lambda>b. fmt_d (unat b)) bs) * (3 + 1)" by (intro length_join_dot) auto
  then show ?thesis using l by (simp add: quad_text_def)
qed

lemma last_slash_app: "CHR ''/'' \<notin> set p \<Longrightarrow> last_slash (a @ CHR ''/'' # p) = Some (a, p)"
proof -
  assume a: "CHR ''/'' \<notin> set p"
  have "dropWhile (\<lambda>c. c \<noteq> CHR ''/'') (rev p @ CHR ''/'' # rev a) = CHR ''/'' # rev a" using a by (subst dropWhile_append2) auto
  moreover have "takeWhile (\<lambda>c. c \<noteq> CHR ''/'') (rev p @ CHR ''/'' # rev a) = rev p" using a by (subst takeWhile_append2) auto
  ultimately show ?thesis by (simp add: last_slash_def)
qed

lemma strtol_digits:
  assumes "list_all is_digit ds" and "digits_val 10 ds < 2 ^ 63"
  shows "strtol ds = (int (digits_val 10 ds), [], False)"
proof (cases ds)
  case (Cons c cs)
  have "is_digit c" using assms(1) Cons by simp
  then have "dropWhile isspace ds = ds" "skip_sign ds = (False, ds)" using digit_not_special[of c] Cons by (auto simp: skip_sign_def)
  moreover have "takeWhile (\<lambda>c. digit_val c < 10) ds = ds" using assms(1) by (auto simp: list_all_iff is_digit_def)
  moreover have "int (digits_val 10 ds) < 2 ^ 63" using assms(2) by (simp add: nat_less_iff)
  ultimately show ?thesis using Cons by (simp add: strtol_def Let_def)
qed (simp add: strtol_def skip_sign_def digits_val_def Let_def)

lemma atoip_v4:
  assumes "length junk = 4" and "length bs = 4" and "list_all is_digit p" and "length p \<le> 2" and "digits_val 10 p \<le> 32" and "r = [] \<or> isendoftoken (hd r)"
  shows "atoip junk (Some 24) (Some (quad_text bs @ CHR ''/'' # p @ r)) 5 =
    Inr (int (length (quad_text bs) + 1 + length p), Some \<lparr>ia_family = AF_INET, ia_addr = bs, ia_prefixlen = int (digits_val 10 p)\<rparr>)"
proof -
  let ?t = "quad_text bs @ CHR ''/'' # p"
  have "\<not> isendoftoken CHR ''.'' \<and> \<not> isendoftoken CHR ''/''" by (simp add: isendoftoken_def)
  then have "\<forall>c \<in> set ?t. \<not> isendoftoken c" using quad_text_chars[of _ bs] digit_not_special assms(3) by (auto simp: list_all_iff)
  then have "takeWhile (\<lambda>c. \<not> isendoftoken c) (?t @ r) = ?t @ takeWhile (\<lambda>c. \<not> isendoftoken c) r" by (intro takeWhile_append2) auto
  moreover have "takeWhile (\<lambda>c. \<not> isendoftoken c) r = []" using assms(6) by (cases r) auto
  ultimately have tk: "takeWhile (\<lambda>c. \<not> isendoftoken c) (quad_text bs @ CHR ''/'' # p @ r) = ?t" by simp
  have "CHR ''/'' \<notin> set p" using assms(3) digit_not_special by (auto simp: list_all_iff)
  then have pre: "take_prefix 5 ?t = Some (quad_text bs, int (digits_val 10 p))"
    using strtol_digits[OF assms(3)] assms(5) by (simp add: take_prefix_def last_slash_app)
  have q: "inet_ipton4 junk (quad_text bs) = Inr (Some bs)"
    using quad_parser_exact[OF assms(1), of False "quad_text bs"] quad_text_value[OF assms(2)] by (simp add: inet_ipton4_def quad_step_def)
  have "length ?t < 50" using length_quad_text[OF assms(2)] assms(4) by simp
  then show ?thesis unfolding atoip_def using tk pre q assms(5)
    by (simp add: Let_def inet_ipton_def store_addr_def del: takeWhile_append)
qed

text \<open>
  \<open>_atoip\<close> reads a network in dotted notation back: the address, the prefix length and the length of the
  token, whatever follows the token; an empty prefix after the slash is accepted as the prefix 0.
\<close>

theorem atoip_network_reads:
  assumes "length junk = 4" and "length bs = 4" and "n \<le> 32" and "r = [] \<or> isendoftoken (hd r)"
  shows "atoip junk (Some 24) (Some (quad_text bs @ ''/'' @ fmt_d n @ r)) 5 =
      Inr (int (length (quad_text bs) + 1 + length (fmt_d n)), Some \<lparr>ia_family = AF_INET, ia_addr = bs, ia_prefixlen = int n\<rparr>) \<and>
    atoip junk (Some 24) (Some (quad_text bs @ ''/'' @ r)) 5 =
      Inr (int (length (quad_text bs) + 1), Some \<lparr>ia_family = AF_INET, ia_addr = bs, ia_prefixlen = 0\<rparr>)"
proof -
  have "list_all is_digit (fmt_d n)" using fmt_d_is_digit by (auto simp: list_all_iff)
  moreover have "length (fmt_d n) \<le> 2" using assms(3) by (intro length_fmt_d) simp_all
  moreover have "digits_val 10 [] = 0" by (simp add: digits_val_def)
  ultimately show ?thesis using atoip_v4[OF assms(1,2), of "fmt_d n" r] atoip_v4[OF assms(1,2), of "[]" r] assms(3,4) by (simp add: digits_val_fmt_d)
qed

theorem atoip_network_reads_witness:
  "atoip [7, 7, 7, 7] (Some 24) (Some (quad_text [192, 168, 0, 1] @ ''/'' @ fmt_d 24 @ '' port 0'')) 5 =
      Inr (int (length (quad_text [192, 168, 0, 1]) + 1 + length (fmt_d 24)),
        Some \<lparr>ia_family = AF_INET, ia_addr = [192, 168, 0, 1], ia_prefixlen = 24\<rparr>) \<and>
    atoip [7, 7, 7, 7] (Some 24) (Some (quad_text [192, 168, 0, 1] @ ''/'' @ '' port 0'')) 5 =
      Inr (int (length (quad_text [192, 168, 0, 1]) + 1), Some \<lparr>ia_family = AF_INET, ia_addr = [192, 168, 0, 1], ia_prefixlen = 0\<rparr>)"
  using atoip_network_reads[of "[7, 7, 7, 7]" "[192, 168, 0, 1]" 24 "'' port 0''"] by (simp add: isendoftoken_def)

end
