(* ===== verification/L2p.thy ===== *)
theory L2p
  imports Addr
begin

text \<open>
  The map of lcores to ports: lib/common/l2p.h, lib/common/l2p.c and the string helpers of
  lib/common/utils.c and lib/common/utils.h that its parser uses. The arrays of the C structures are
  lists of their length, and every index is checked. The union \<open>rxtx_t\<close> is the pair of its halves; its 32-bit
  reading is zero when both halves are. DPDK is configured for 128 lcores and 32 ports.
\<close>

definition n_lcores :: nat where
  "n_lcores = 128"

definition n_ports :: nat where
  "n_ports = 32"

section \<open>Strings\<close>

text \<open>\<open>_strtrim\<close>: the first character that is kept is never cut off again at the end.\<close>

definition is_white :: "char \<Rightarrow> bool" where
  "is_white c \<longleftrightarrow> c = CHR '' '' \<or> c = CHR 0x09 \<or> c = CHR 0x0D \<or> c = CHR 0x0A"

definition strtrim :: "string \<Rightarrow> string" where
  "strtrim str =
     (case dropWhile is_white str of [] \<Rightarrow> [] | c # cs \<Rightarrow> c # rev (dropWhile is_white (rev cs)))"

text \<open>The entries that were found, in the order of the array; their number is the return value.\<close>

fun strparse_loop :: "nat \<Rightarrow> string \<Rightarrow> string \<Rightarrow> string list" where
  "strparse_loop 0 s delim = []"
| "strparse_loop (Suc n) s delim =
     (case strtok_r s delim of None \<Rightarrow> [] | Some (t, r) \<Rightarrow> strtrim t # strparse_loop n r delim)"

definition pg_strparse :: "string \<Rightarrow> string \<Rightarrow> nat \<Rightarrow> string list" where
  "pg_strparse s delim max_entries = strparse_loop max_entries s delim"

text \<open>The loop of \<open>skip_lst\<close> ends at a newline; the list is the memory from \<open>lst\<close> on.\<close>

fun skip_lst :: "char \<Rightarrow> string \<Rightarrow> bool res" where
  "skip_lst f [] = Inl Fault"
| "skip_lst f (c # cs) = (if c = CHR 0x0A then Inr False else if f = c then Inr True else skip_lst f cs)"

text \<open>\<open>pg_strccpy\<close> into a buffer of \<open>cap\<close> bytes; \<open>t\<close> is what was copied so far.\<close>

fun strccpy_loop :: "nat \<Rightarrow> string \<Rightarrow> string \<Rightarrow> string \<Rightarrow> string res" where
  "strccpy_loop cap lst t [] = (if length t < cap then Inr t else Inl Fault)"
| "strccpy_loop cap lst t (c # cs) =
     rbind (skip_lst c lst) (\<lambda>b.
       if b then strccpy_loop cap lst t cs
       else if length t < cap then strccpy_loop cap lst (t @ [c]) cs else Inl Fault)"

definition pg_strccpy :: "nat \<Rightarrow> string \<Rightarrow> string \<Rightarrow> string res" where
  "pg_strccpy cap f lst = strccpy_loop cap lst [] f"

text \<open>
  \<open>pg_strtrimset\<close> over the memory \<open>m\<close> from \<open>set\<close> on. On a match the pointer is advanced inside the
  loop and again by two, so it can step over the terminator of the set.
\<close>

definition drop_last_eq :: "string \<Rightarrow> char \<Rightarrow> string" where
  "drop_last_eq s c = (if s \<noteq> [] \<and> last s = c then butlast s else s)"

function strtrimset_loop :: "string \<Rightarrow> nat \<Rightarrow> string \<Rightarrow> string res" where
  "strtrimset_loop m i s =
     (if length m \<le> i then Inl Fault
      else if m ! i = NUL then Inr s
      else if s = [] \<or> hd s \<noteq> m ! i then strtrimset_loop m (i + 2) s
      else if length m \<le> i + 1 then Inl Fault
      else strtrimset_loop m (i + 3) (drop_last_eq (tl s) (m ! (i + 1))))"
  by pat_completeness auto
termination
  by (relation "measure (\<lambda>(m, i, s). length m - i)") auto

declare strtrimset_loop.simps [simp del]

definition pg_strtrimset :: "string \<Rightarrow> string \<Rightarrow> string option res" where
  "pg_strtrimset s m =
     (let len = length (takeWhile (\<lambda>c. c \<noteq> NUL) m) in
      if len = 0 \<or> odd len then Inr None else rbind (strtrimset_loop m 0 s) (\<lambda>t. Inr (Some t)))"

section \<open>Bit maps\<close>

definition btst :: "u8 list \<Rightarrow> u16 \<Rightarrow> bool res" where
  "btst p idx =
     (let c = unat idx div 8 in
      if c < length p then Inr (p ! c AND push_bit (unat idx - c * 8) 1 \<noteq> 0) else Inl Fault)"

definition bset :: "u8 list \<Rightarrow> u16 \<Rightarrow> u8 list res" where
  "bset p idx =
     (let c = unat idx div 8 in
      if c < length p then Inr (p[c := p ! c OR push_bit (unat idx - c * 8) 1]) else Inl Fault)"

text \<open>
  The loop over a range stops when the incremented 32-bit number is above the upper bound, which the
  number can pass by wrapping; the index of \<open>_bset\<close> has 16 bits. Numbers follow each other, so
  the first index that is not in the map ends the loop, and one more step than the map has bits is enough fuel.
\<close>

fun bset_range :: "nat \<Rightarrow> u8 list \<Rightarrow> u32 \<Rightarrow> u32 \<Rightarrow> u8 list res" where
  "bset_range 0 p l h = Inl Hang"
| "bset_range (Suc n) p l h =
     rbind (bset p (ucast l)) (\<lambda>p'. if l + 1 \<le> h then bset_range n p' (l + 1) h else Inr p')"

definition long_of :: "string \<Rightarrow> int" where
  "long_of s = fst (strtol s)"

text \<open>\<open>strtoul\<close> with base 0 takes the base from the prefix of the number; a mask has 32 bits.\<close>

definition auto_base :: "string \<Rightarrow> nat" where
  "auto_base s =
     (case snd (skip_sign (dropWhile isspace s)) of
        a # b # c # cs \<Rightarrow>
          if a = CHR ''0'' \<and> (b = CHR ''x'' \<or> b = CHR ''X'') \<and> digit_val c < 16 then 16 else if a = CHR ''0'' then 8 else 10
      | a # cs \<Rightarrow> if a = CHR ''0'' then 8 else 10
      | [] \<Rightarrow> 10)"

definition pg_parse_portmask :: "string \<Rightarrow> u32" where
  "pg_parse_portmask portmask = ucast (fst (strtoul portmask (auto_base portmask)))"

definition rt_item :: "u8 list \<Rightarrow> string \<Rightarrow> u8 list res" where
  "rt_item p a =
     (if CHR ''-'' \<in> set a
      then bset_range (8 * length p + 1) p (of_int (long_of (takeWhile (\<lambda>c. c \<noteq> CHR ''-'') a)))
             (of_int (long_of (tl (dropWhile (\<lambda>c. c \<noteq> CHR ''-'') a))))
      else bset p (of_int (long_of a)))"

definition pg_parse_rt_list :: "string \<Rightarrow> u8 list \<Rightarrow> (int \<times> u8 list) res" where
  "pg_parse_rt_list s p =
     (let arr = pg_strparse s ''/'' 33 in
      if arr = [] then Inr (1, p) else rbind (rfold rt_item p arr) (\<lambda>p'. Inr (0, p')))"

text \<open>
  What the string is afterwards: the tokenizer has ended it behind its first entry, trimming behind the last
  character of that entry that is not white, and a range at its dash.
\<close>

definition rt_left :: "string \<Rightarrow> string" where
  "rt_left s =
     (case strtok_r s ''/'' of
        None \<Rightarrow> s
      | Some (t, r) \<Rightarrow>
          takeWhile (\<lambda>c. c = CHR ''/'') s @ takeWhile is_white t @ takeWhile (\<lambda>c. c \<noteq> CHR ''-'') (strtrim t))"

text \<open>The common body of the two list parsers; \<open>after\<close> is the memory behind the literal \<open>[]{}\<close>.\<close>

definition trim_sets :: "string \<Rightarrow> string" where
  "trim_sets after = ''[]{}'' @ NUL # after"

definition parse_pair :: "string \<Rightarrow> string \<Rightarrow> u8 list \<times> u8 list \<Rightarrow> (int \<times> u8 list \<times> u8 list) res" where
  "parse_pair after list bits =
     rbind (pg_strtrimset list (trim_sets after)) (\<lambda>r.
       case r of
         None \<Rightarrow> Inr (1, bits)
       | Some p \<Rightarrow>
           if p = [] then Inr (1, bits)
           else
             let arr = pg_strparse p '':'' 3 in
             if length arr = 0 \<or> length arr = 3 then Inr (1, bits)
             else if length arr = 1 then
               rbind (pg_parse_rt_list (arr ! 0) (fst bits)) (\<lambda>(e, rb).
               rbind (pg_parse_rt_list (rt_left (arr ! 0)) (snd bits)) (\<lambda>(e, tb). Inr (0, rb, tb)))
             else
               rbind (pg_parse_rt_list (arr ! 0) (fst bits)) (\<lambda>(e, rb).
               if e \<noteq> 0 then Inr (1, rb, snd bits)
               else rbind (pg_parse_rt_list (arr ! 1) (snd bits)) (\<lambda>(e', tb). Inr (if e' \<noteq> 0 then 1 else 0, rb, tb))))"

record ls =
  ls_rbits :: "u8 list"
  ls_tbits :: "u8 list"

record ps =
  ps_rbits :: "u8 list"
  ps_tbits :: "u8 list"

definition pg_parse_lcore_list :: "string \<Rightarrow> string \<Rightarrow> ls \<Rightarrow> (int \<times> ls) res" where
  "pg_parse_lcore_list after list l =
     rbind (parse_pair after list (ls_rbits l, ls_tbits l)) (\<lambda>(e, r, t). Inr (e, l\<lparr>ls_rbits := r, ls_tbits := t\<rparr>))"

definition pg_parse_port_list :: "string \<Rightarrow> string \<Rightarrow> ps \<Rightarrow> (int \<times> ps) res" where
  "pg_parse_port_list after list p =
     rbind (parse_pair after list (ps_rbits p, ps_tbits p)) (\<lambda>(e, r, t). Inr (e, p\<lparr>ps_rbits := r, ps_tbits := t\<rparr>))"

section \<open>The map\<close>

definition RX_TYPE :: u16 where
  "RX_TYPE = 1"

definition TX_TYPE :: u16 where
  "TX_TYPE = 2"

record pq =
  rx_cnt :: u16
  tx_cnt :: u16
  pq_rx :: "u16 list"
  pq_tx :: "u16 list"

record lobj =
  lo_lid :: u16
  lo_type :: u16
  lo_pids :: pq
  lo_qids :: pq
  lo_private :: "nat option"

record pobj =
  po_pid :: u16
  rx_qid :: u16
  tx_qid :: u16
  nb_lids :: u16
  lids :: "u16 list"
  po_private :: "nat option"

record l2p =
  l2p_stop :: "u8 list"
  l2p_lcores :: "lobj list"
  l2p_ports :: "pobj list"
  l2p_map :: "(u16 \<times> u16) list list"

definition pq_zero :: pq where
  "pq_zero = \<lparr>rx_cnt = 0, tx_cnt = 0, pq_rx = replicate n_ports 0, pq_tx = replicate n_ports 0\<rparr>"

definition lobj_zero :: "nat \<Rightarrow> lobj" where
  "lobj_zero i = \<lparr>lo_lid = of_nat i, lo_type = 0, lo_pids = pq_zero, lo_qids = pq_zero, lo_private = None\<rparr>"

definition pobj_zero :: "nat \<Rightarrow> pobj" where
  "pobj_zero i = \<lparr>po_pid = of_nat i, rx_qid = 0, tx_qid = 0, nb_lids = 0, lids = replicate n_lcores 0, po_private = None\<rparr>"

text \<open>\<open>l2p_create\<close> when \<open>calloc\<close> gives memory.\<close>

definition l2p_create :: l2p where
  "l2p_create =
     \<lparr>l2p_stop = replicate n_lcores 1, l2p_lcores = map lobj_zero [0..<n_lcores],
      l2p_ports = map pobj_zero [0..<n_ports],
      l2p_map = replicate (n_ports + 1) (replicate (n_lcores + 1) (0, 0))\<rparr>"

definition at :: "'a list \<Rightarrow> nat \<Rightarrow> 'a res" where
  "at xs i = (if i < length xs then Inr (xs ! i) else Inl Fault)"

definition put :: "'a list \<Rightarrow> nat \<Rightarrow> 'a \<Rightarrow> 'a list res" where
  "put xs i x = (if i < length xs then Inr (xs[i := x]) else Inl Fault)"

definition upd_lcore :: "nat \<Rightarrow> (lobj \<Rightarrow> lobj res) \<Rightarrow> l2p \<Rightarrow> l2p res" where
  "upd_lcore lid f l =
     rbind (at (l2p_lcores l) lid) (\<lambda>lo. rbind (f lo) (\<lambda>lo'. Inr (l\<lparr>l2p_lcores := (l2p_lcores l)[lid := lo']\<rparr>)))"

definition upd_port :: "nat \<Rightarrow> (pobj \<Rightarrow> pobj res) \<Rightarrow> l2p \<Rightarrow> l2p res" where
  "upd_port pid f l =
     rbind (at (l2p_ports l) pid) (\<lambda>po. rbind (f po) (\<lambda>po'. Inr (l\<lparr>l2p_ports := (l2p_ports l)[pid := po']\<rparr>)))"

definition map_cell :: "l2p \<Rightarrow> nat \<Rightarrow> nat \<Rightarrow> (u16 \<times> u16) res" where
  "map_cell l pid lid = rbind (at (l2p_map l) pid) (\<lambda>row. at row lid)"

definition put_cell :: "l2p \<Rightarrow> nat \<Rightarrow> nat \<Rightarrow> u16 \<times> u16 \<Rightarrow> l2p res" where
  "put_cell l pid lid c =
     rbind (at (l2p_map l) pid) (\<lambda>row. rbind (put row lid c) (\<lambda>row'. Inr (l\<lparr>l2p_map := (l2p_map l)[pid := row']\<rparr>)))"

definition pg_new_rxque :: "l2p \<Rightarrow> nat \<Rightarrow> (u16 \<times> l2p) res" where
  "pg_new_rxque l pid =
     rbind (at (l2p_ports l) pid) (\<lambda>po.
       rbind (upd_port pid (\<lambda>po. Inr (po\<lparr>rx_qid := rx_qid po + 1\<rparr>)) l) (\<lambda>l'. Inr (rx_qid po, l')))"

definition pg_new_txque :: "l2p \<Rightarrow> nat \<Rightarrow> (u16 \<times> l2p) res" where
  "pg_new_txque l pid =
     rbind (at (l2p_ports l) pid) (\<lambda>po.
       rbind (upd_port pid (\<lambda>po. Inr (po\<lparr>tx_qid := tx_qid po + 1\<rparr>)) l) (\<lambda>l'. Inr (tx_qid po, l')))"

definition pg_inc_rx :: "l2p \<Rightarrow> nat \<Rightarrow> nat \<Rightarrow> l2p res" where
  "pg_inc_rx l pid lid = rbind (map_cell l pid lid) (\<lambda>(r, t). put_cell l pid lid (r + 1, t))"

definition pg_inc_tx :: "l2p \<Rightarrow> nat \<Rightarrow> nat \<Rightarrow> l2p res" where
  "pg_inc_tx l pid lid = rbind (map_cell l pid lid) (\<lambda>(r, t). put_cell l pid lid (r, t + 1))"

definition get_map :: "l2p \<Rightarrow> nat \<Rightarrow> nat \<Rightarrow> (u16 \<times> u16) res" where
  "get_map l pid lid = map_cell l pid lid"

definition put_map :: "l2p \<Rightarrow> nat \<Rightarrow> nat \<Rightarrow> u16 \<times> u16 \<Rightarrow> l2p res" where
  "put_map l pid lid rxtx = put_cell l pid lid rxtx"

definition get_type :: "l2p \<Rightarrow> nat \<Rightarrow> u16 res" where
  "get_type l lid = rbind (at (l2p_lcores l) lid) (\<lambda>lo. Inr (lo_type lo))"

definition get_lcore_rxcnt :: "l2p \<Rightarrow> nat \<Rightarrow> u16 res" where
  "get_lcore_rxcnt l lid = rbind (at (l2p_lcores l) lid) (\<lambda>lo. Inr (rx_cnt (lo_pids lo)))"

definition get_lcore_txcnt :: "l2p \<Rightarrow> nat \<Rightarrow> u16 res" where
  "get_lcore_txcnt l lid = rbind (at (l2p_lcores l) lid) (\<lambda>lo. Inr (tx_cnt (lo_pids lo)))"

definition get_port_rxcnt :: "l2p \<Rightarrow> nat \<Rightarrow> u16 res" where
  "get_port_rxcnt l pid = rbind (at (l2p_ports l) pid) (\<lambda>po. Inr (rx_qid po))"

definition get_port_txcnt :: "l2p \<Rightarrow> nat \<Rightarrow> u16 res" where
  "get_port_txcnt l pid = rbind (at (l2p_ports l) pid) (\<lambda>po. Inr (tx_qid po))"

definition get_port_nb_lids :: "l2p \<Rightarrow> nat \<Rightarrow> u16 res" where
  "get_port_nb_lids l pid = rbind (at (l2p_ports l) pid) (\<lambda>po. Inr (nb_lids po))"

definition pg_set_port_private :: "l2p \<Rightarrow> nat \<Rightarrow> nat option \<Rightarrow> l2p res" where
  "pg_set_port_private l pid ptr = upd_port pid (\<lambda>po. Inr (po\<lparr>po_private := ptr\<rparr>)) l"

definition get_port_private :: "l2p \<Rightarrow> nat \<Rightarrow> nat option res" where
  "get_port_private l pid = rbind (at (l2p_ports l) pid) (\<lambda>po. Inr (po_private po))"

definition pg_set_lcore_private :: "l2p \<Rightarrow> nat \<Rightarrow> nat option \<Rightarrow> l2p res" where
  "pg_set_lcore_private l lid ptr = upd_lcore lid (\<lambda>lo. Inr (lo\<lparr>lo_private := ptr\<rparr>)) l"

definition get_lcore_private :: "l2p \<Rightarrow> nat \<Rightarrow> nat option res" where
  "get_lcore_private l lid = rbind (at (l2p_lcores l) lid) (\<lambda>lo. Inr (lo_private lo))"

definition get_rx_pid :: "l2p \<Rightarrow> nat \<Rightarrow> nat \<Rightarrow> u16 res" where
  "get_rx_pid l lid idx = rbind (at (l2p_lcores l) lid) (\<lambda>lo. at (pq_rx (lo_pids lo)) idx)"

definition get_tx_pid :: "l2p \<Rightarrow> nat \<Rightarrow> nat \<Rightarrow> u16 res" where
  "get_tx_pid l lid idx = rbind (at (l2p_lcores l) lid) (\<lambda>lo. at (pq_tx (lo_pids lo)) idx)"

definition get_port_lid :: "l2p \<Rightarrow> nat \<Rightarrow> nat \<Rightarrow> u16 res" where
  "get_port_lid l pid qid = rbind (at (l2p_ports l) pid) (\<lambda>po. at (lids po) qid)"

definition get_rxque :: "l2p \<Rightarrow> nat \<Rightarrow> nat \<Rightarrow> u16 res" where
  "get_rxque l lid pid = rbind (at (l2p_lcores l) lid) (\<lambda>lo. at (pq_rx (lo_qids lo)) pid)"

definition get_txque :: "l2p \<Rightarrow> nat \<Rightarrow> nat \<Rightarrow> u16 res" where
  "get_txque l lid pid = rbind (at (l2p_lcores l) lid) (\<lambda>lo. at (pq_tx (lo_qids lo)) pid)"

definition pg_stop_lcore :: "l2p \<Rightarrow> nat \<Rightarrow> l2p res" where
  "pg_stop_lcore l lid = rbind (put (l2p_stop l) lid 1) (\<lambda>s. Inr (l\<lparr>l2p_stop := s\<rparr>))"

definition pg_start_lcore :: "l2p \<Rightarrow> nat \<Rightarrow> l2p res" where
  "pg_start_lcore l lid = rbind (put (l2p_stop l) lid 0) (\<lambda>s. Inr (l\<lparr>l2p_stop := s\<rparr>))"

definition pg_lcore_is_running :: "l2p \<Rightarrow> nat \<Rightarrow> bool res" where
  "pg_lcore_is_running l lid = rbind (at (l2p_stop l) lid) (\<lambda>s. Inr (s = 0))"

section \<open>Connecting\<close>

definition connect_rx :: "nat \<Rightarrow> nat \<Rightarrow> l2p \<Rightarrow> l2p res" where
  "connect_rx pid lid l =
     rbind (upd_lcore lid (\<lambda>lo.
       rbind (put (pq_rx (lo_pids lo)) (unat (rx_cnt (lo_pids lo))) (of_nat pid)) (\<lambda>xs.
         Inr (lo\<lparr>lo_pids := (lo_pids lo)\<lparr>pq_rx := xs, rx_cnt := rx_cnt (lo_pids lo) + 1\<rparr>\<rparr>))) l) (\<lambda>l1.
     rbind (pg_new_rxque l1 pid) (\<lambda>(q, l2).
     rbind (upd_lcore lid (\<lambda>lo.
       rbind (put (pq_rx (lo_qids lo)) pid q) (\<lambda>xs.
         Inr (lo\<lparr>lo_qids := (lo_qids lo)\<lparr>pq_rx := xs, rx_cnt := rx_cnt (lo_qids lo) + 1\<rparr>\<rparr>))) l2) (\<lambda>l3.
     pg_inc_rx l3 pid lid)))"

definition connect_tx :: "nat \<Rightarrow> nat \<Rightarrow> l2p \<Rightarrow> l2p res" where
  "connect_tx pid lid l =
     rbind (upd_lcore lid (\<lambda>lo.
       rbind (put (pq_tx (lo_pids lo)) (unat (tx_cnt (lo_pids lo))) (of_nat pid)) (\<lambda>xs.
         Inr (lo\<lparr>lo_pids := (lo_pids lo)\<lparr>pq_tx := xs, tx_cnt := tx_cnt (lo_pids lo) + 1\<rparr>\<rparr>))) l) (\<lambda>l1.
     rbind (pg_new_txque l1 pid) (\<lambda>(q, l2).
     rbind (upd_lcore lid (\<lambda>lo.
       rbind (put (pq_tx (lo_qids lo)) pid q) (\<lambda>xs.
         Inr (lo\<lparr>lo_qids := (lo_qids lo)\<lparr>pq_tx := xs, tx_cnt := tx_cnt (lo_qids lo) + 1\<rparr>\<rparr>))) l2) (\<lambda>l3.
     pg_inc_tx l3 pid lid)))"

definition add_lid :: "nat \<Rightarrow> nat \<Rightarrow> l2p \<Rightarrow> l2p res" where
  "add_lid pid lid l =
     upd_port pid (\<lambda>po. rbind (put (lids po) (unat (nb_lids po)) (of_nat lid)) (\<lambda>xs.
       Inr (po\<lparr>lids := xs, nb_lids := nb_lids po + 1\<rparr>))) l"

definition l2p_connect :: "l2p \<Rightarrow> nat \<Rightarrow> nat \<Rightarrow> u16 \<Rightarrow> l2p res" where
  "l2p_connect l pid lid ty =
     rbind (upd_lcore lid (\<lambda>lo. Inr (lo\<lparr>lo_type := ty\<rparr>)) l) (\<lambda>l1.
     rbind (if ty AND RX_TYPE \<noteq> 0 then connect_rx pid lid l1 else Inr l1) (\<lambda>l2.
     rbind (if ty AND TX_TYPE \<noteq> 0 then connect_tx pid lid l2 else Inr l2) (\<lambda>l3.
     add_lid pid lid l3)))"

section \<open>The matrix\<close>

definition bits_type :: "u8 list \<Rightarrow> u8 list \<Rightarrow> nat \<Rightarrow> u16 res" where
  "bits_type rb tb i =
     rbind (btst rb (of_nat i)) (\<lambda>r. rbind (btst tb (of_nat i)) (\<lambda>t.
       Inr ((if r then RX_TYPE else 0) OR (if t then TX_TYPE else 0))))"

definition connect_lcore :: "ls \<Rightarrow> ps \<Rightarrow> l2p \<Rightarrow> nat \<Rightarrow> l2p res" where
  "connect_lcore lc pt l lid =
     rbind (bits_type (ls_rbits lc) (ls_tbits lc) lid) (\<lambda>ty.
       if ty = 0 then Inr l
       else rfold (\<lambda>l pid. rbind (bits_type (ps_rbits pt) (ps_tbits pt) pid) (\<lambda>pty.
              if pty \<noteq> 0 then l2p_connect l pid lid ty else Inr l)) l [0..<n_ports])"

text \<open>One entry of the matrix; the value 1 stands for the jump to \<open>leave\<close>.\<close>

definition ls_zero :: ls where
  "ls_zero = \<lparr>ls_rbits = replicate ((n_lcores + 7) div 8) 0, ls_tbits = replicate ((n_lcores + 7) div 8) 0\<rparr>"

definition ps_zero :: ps where
  "ps_zero = \<lparr>ps_rbits = replicate ((n_ports + 7) div 8) 0, ps_tbits = replicate ((n_ports + 7) div 8) 0\<rparr>"

definition matrix_entry :: "string \<Rightarrow> l2p \<Rightarrow> string \<Rightarrow> (int \<times> l2p) res" where
  "matrix_entry after l e =
     (let arr = pg_strparse (take 127 e) ''.'' 3 in
      if length arr \<noteq> 2 then Inr (1, l)
      else
        rbind (pg_parse_lcore_list after (arr ! 0) ls_zero) (\<lambda>(r, lc).
        if r \<noteq> 0 then Inr (1, l)
        else rbind (pg_parse_port_list after (arr ! 1) ps_zero) (\<lambda>(r', pt).
        if r' \<noteq> 0 then Inr (1, l)
        else rbind (rfold (connect_lcore lc pt) l [0..<n_lcores]) (\<lambda>l'. Inr (0, l')))))"

fun matrix_entries :: "string \<Rightarrow> l2p \<Rightarrow> string list \<Rightarrow> (int \<times> l2p) res" where
  "matrix_entries after l [] = Inr (0, l)"
| "matrix_entries after l (e # es) =
     rbind (matrix_entry after l e) (\<lambda>(r, l'). if r \<noteq> 0 then Inr (r, l') else matrix_entries after l' es)"

definition count_cell :: "u16 \<times> u16 \<Rightarrow> u16 \<times> u16 \<Rightarrow> u16 \<times> u16" where
  "count_cell n cnt =
     (if cnt = (0, 0) then n
      else (if fst cnt \<noteq> 0 then fst n + 1 else fst n, if snd cnt \<noteq> 0 then snd n + 1 else snd n))"

definition count_lcores :: "l2p \<Rightarrow> nat \<Rightarrow> l2p res" where
  "count_lcores l pid =
     rbind (rfold (\<lambda>n lid. rbind (get_map l pid lid) (\<lambda>c. Inr (count_cell n c))) (0, 0) [0..<n_lcores]) (\<lambda>n.
       put_map l pid n_lcores n)"

definition count_ports :: "l2p \<Rightarrow> nat \<Rightarrow> l2p res" where
  "count_ports l lid =
     rbind (rfold (\<lambda>n pid. rbind (get_map l pid lid) (\<lambda>c. Inr (count_cell n c))) (0, 0) [0..<n_ports]) (\<lambda>n.
       put_map l n_ports lid n)"

definition matrix_skip :: string where
  "matrix_skip = [CHR '' '', CHR 0x0D, CHR 0x0A, CHR 0x09, CHR 0x22, NUL]"

definition pg_parse_matrix :: "string \<Rightarrow> l2p \<Rightarrow> string \<Rightarrow> (int \<times> l2p) res" where
  "pg_parse_matrix after l str =
     rbind (pg_strccpy 512 str matrix_skip) (\<lambda>buff.
       let lp = pg_strparse buff '','' 129 in
       if lp = [] then Inr (- 1, l)
       else
         rbind (matrix_entries after l lp) (\<lambda>(r, l1).
         if r \<noteq> 0 then Inr (- 1, l1)
         else rbind (rfold count_lcores l1 [0..<n_ports]) (\<lambda>l2.
              rbind (rfold count_ports l2 [0..<n_lcores]) (\<lambda>l3. Inr (0, l3)))))"

section \<open>The arrays keep their lengths\<close>

definition pq_wf :: "pq \<Rightarrow> bool" where
  "pq_wf q \<longleftrightarrow> length (pq_rx q) = n_ports \<and> length (pq_tx q) = n_ports"

definition lobj_wf :: "lobj \<Rightarrow> bool" where
  "lobj_wf lo \<longleftrightarrow> pq_wf (lo_pids lo) \<and> pq_wf (lo_qids lo)"

definition l2p_wf :: "l2p \<Rightarrow> bool" where
  "l2p_wf l \<longleftrightarrow> length (l2p_stop l) = n_lcores \<and> length (l2p_lcores l) = n_lcores \<and> length (l2p_ports l) = n_ports \<and>
     (\<forall>lo \<in> set (l2p_lcores l). lobj_wf lo) \<and> (\<forall>po \<in> set (l2p_ports l). length (lids po) = n_lcores) \<and>
     length (l2p_map l) = n_ports + 1 \<and> (\<forall>row \<in> set (l2p_map l). length row = n_lcores + 1)"

lemma at_Inr: "at xs i = Inr x \<longleftrightarrow> i < length xs \<and> x = xs ! i"
  by (auto simp: at_def)

lemma put_Inr: "put xs i x = Inr ys \<longleftrightarrow> i < length xs \<and> ys = xs[i := x]"
  by (auto simp: put_def)

lemmas l2p_access = at_Inr put_Inr rbind_eq_Inr

lemma l2p_create_wf: "l2p_wf l2p_create"
  by (auto simp: l2p_wf_def l2p_create_def lobj_wf_def pq_wf_def lobj_zero_def pobj_zero_def pq_zero_def)

lemma upd_lcore_wf:
  assumes "upd_lcore lid f l = Inr l'" and "l2p_wf l" and "\<And>lo lo'. f lo = Inr lo' \<Longrightarrow> lobj_wf lo \<Longrightarrow> lobj_wf lo'"
  shows "l2p_wf l'"
  using assms by (fastforce simp: upd_lcore_def l2p_access l2p_wf_def dest!: set_update_subset_insert[THEN subsetD])

lemma upd_port_wf:
  assumes "upd_port pid f l = Inr l'" and "l2p_wf l" and "\<And>po po'. f po = Inr po' \<Longrightarrow> length (lids po') = length (lids po)"
  shows "l2p_wf l'"
  using assms by (fastforce simp: upd_port_def l2p_access l2p_wf_def dest!: set_update_subset_insert[THEN subsetD])

lemma put_cell_wf: "put_cell l pid lid c = Inr l' \<Longrightarrow> l2p_wf l \<Longrightarrow> l2p_wf l'"
  by (fastforce simp: put_cell_def l2p_access l2p_wf_def dest!: set_update_subset_insert[THEN subsetD])

lemma inc_wf: "pg_inc_rx l pid lid = Inr l' \<Longrightarrow> l2p_wf l \<Longrightarrow> l2p_wf l'" "pg_inc_tx l pid lid = Inr l' \<Longrightarrow> l2p_wf l \<Longrightarrow> l2p_wf l'"
  by (auto simp: pg_inc_rx_def pg_inc_tx_def l2p_access intro: put_cell_wf)

lemma new_que_wf: "pg_new_rxque l pid = Inr (q, l') \<Longrightarrow> l2p_wf l \<Longrightarrow> l2p_wf l'" "pg_new_txque l pid = Inr (q, l') \<Longrightarrow> l2p_wf l \<Longrightarrow> l2p_wf l'"
  by (auto simp: pg_new_rxque_def pg_new_txque_def l2p_access elim!: upd_port_wf)

lemma connect_rx_wf: "connect_rx pid lid l = Inr l' \<Longrightarrow> l2p_wf l \<Longrightarrow> l2p_wf l'"
  unfolding connect_rx_def
  by (auto simp: l2p_access lobj_wf_def pq_wf_def elim!: inc_wf upd_lcore_wf new_que_wf)

lemma connect_tx_wf: "connect_tx pid lid l = Inr l' \<Longrightarrow> l2p_wf l \<Longrightarrow> l2p_wf l'"
  unfolding connect_tx_def
  by (auto simp: l2p_access lobj_wf_def pq_wf_def elim!: inc_wf upd_lcore_wf new_que_wf)

lemma add_lid_wf: "add_lid pid lid l = Inr l' \<Longrightarrow> l2p_wf l \<Longrightarrow> l2p_wf l'"
  unfolding add_lid_def by (erule upd_port_wf) (auto simp: l2p_access)

lemma l2p_connect_wf: "l2p_connect l pid lid ty = Inr l' \<Longrightarrow> l2p_wf l \<Longrightarrow> l2p_wf l'"
proof -
  assume "l2p_connect l pid lid ty = Inr l'" and w: "l2p_wf l"
  then obtain l1 l2 l3 where l: "upd_lcore lid (\<lambda>lo. Inr (lo\<lparr>lo_type := ty\<rparr>)) l = Inr l1"
    "(if ty AND RX_TYPE \<noteq> 0 then connect_rx pid lid l1 else Inr l1) = Inr l2"
    "(if ty AND TX_TYPE \<noteq> 0 then connect_tx pid lid l2 else Inr l2) = Inr l3" "add_lid pid lid l3 = Inr l'"
    by (auto simp: l2p_connect_def rbind_eq_Inr)
  have "l2p_wf l1" using l(1) w by (rule upd_lcore_wf) (auto simp: lobj_wf_def)
  then have "l2p_wf l2" using l(2) connect_rx_wf by (auto split: if_splits)
  then have "l2p_wf l3" using l(3) connect_tx_wf by (auto split: if_splits)
  then show ?thesis using l(4) add_lid_wf by blast
qed

lemma rfold_keeps:
  assumes "rfold f s xs = Inr s'" and "P s" and "\<And>s x s'. x \<in> set xs \<Longrightarrow> f s x = Inr s' \<Longrightarrow> P s \<Longrightarrow> P s'"
  shows "P s'"
  using assms
proof (induction xs arbitrary: s)
  case (Cons x xs)
  then obtain t where "f s x = Inr t" "rfold f t xs = Inr s'" by (auto simp: rbind_eq_Inr)
  then show ?case using Cons by (metis list.set_intros)
qed simp

lemma connect_lcore_wf: "connect_lcore lc pt l lid = Inr l' \<Longrightarrow> l2p_wf l \<Longrightarrow> l2p_wf l'"
  unfolding connect_lcore_def
  by (auto simp: rbind_eq_Inr split: if_splits elim!: rfold_keeps[where P = l2p_wf] l2p_connect_wf)

lemma matrix_entry_wf: "matrix_entry after l e = Inr (r, l') \<Longrightarrow> l2p_wf l \<Longrightarrow> l2p_wf l'"
  unfolding matrix_entry_def
  by (auto simp: rbind_eq_Inr Let_def split: if_splits elim!: rfold_keeps[where P = l2p_wf] connect_lcore_wf)

lemma matrix_entries_wf: "matrix_entries after l es = Inr (r, l') \<Longrightarrow> l2p_wf l \<Longrightarrow> l2p_wf l'"
  by (induction es arbitrary: l) (auto simp: rbind_eq_Inr split: if_splits dest: matrix_entry_wf)

lemma count_wf: "count_lcores l pid = Inr l' \<Longrightarrow> l2p_wf l \<Longrightarrow> l2p_wf l'" "count_ports l lid = Inr l' \<Longrightarrow> l2p_wf l \<Longrightarrow> l2p_wf l'"
  by (auto simp: count_lcores_def count_ports_def put_map_def rbind_eq_Inr dest: put_cell_wf)

lemma pg_parse_matrix_wf: "pg_parse_matrix after l s = Inr (r, l') \<Longrightarrow> l2p_wf l \<Longrightarrow> l2p_wf l'"
  unfolding pg_parse_matrix_def
  by (auto simp: rbind_eq_Inr Let_def split: if_splits dest: matrix_entries_wf elim!: rfold_keeps[where P = l2p_wf] count_wf)

section \<open>What a sequence of connections builds\<close>

text \<open>
  A connection is a port, an lcore and the directions. The lcores of a port and the ports of an lcore in one direction,
  in the order of the connections:
\<close>

type_synonym conn = "nat \<times> nat \<times> u16"

definition is_rx :: "u16 \<Rightarrow> bool" where
  "is_rx ty \<longleftrightarrow> ty AND RX_TYPE \<noteq> 0"

definition is_tx :: "u16 \<Rightarrow> bool" where
  "is_tx ty \<longleftrightarrow> ty AND TX_TYPE \<noteq> 0"

definition lids_of :: "(u16 \<Rightarrow> bool) \<Rightarrow> conn list \<Rightarrow> nat \<Rightarrow> nat list" where
  "lids_of sel cs pid = [i. (p, i, ty) \<leftarrow> cs, p = pid \<and> sel ty]"

definition pids_of :: "(u16 \<Rightarrow> bool) \<Rightarrow> conn list \<Rightarrow> nat \<Rightarrow> nat list" where
  "pids_of sel cs lid = [p. (p, i, ty) \<leftarrow> cs, i = lid \<and> sel ty]"

lemma lids_of_simps [simp]: "lids_of sel [] pid = []"
  "lids_of sel (cs @ [(p, i, ty)]) pid = lids_of sel cs pid @ (if p = pid \<and> sel ty then [i] else [])"
  by (auto simp: lids_of_def)

lemma pids_of_simps [simp]: "pids_of sel [] lid = []"
  "pids_of sel (cs @ [(p, i, ty)]) lid = pids_of sel cs lid @ (if i = lid \<and> sel ty then [p] else [])"
  by (auto simp: pids_of_def)

text \<open>The connections are in range and no lcore is connected twice to the same port.\<close>

definition conns_ok :: "conn list \<Rightarrow> bool" where
  "conns_ok cs \<longleftrightarrow> distinct (map (\<lambda>(p, i, ty). (p, i)) cs) \<and> (\<forall>(p, i, ty) \<in> set cs. p < n_ports \<and> i < n_lcores)"

definition plugged :: "conn list \<Rightarrow> (nat \<times> nat) set" where
  "plugged cs = (\<lambda>(p, i, ty). (p, i)) ` set cs"

lemma conns_ok_snoc: "conns_ok (cs @ [(p, i, ty)]) \<longleftrightarrow> conns_ok cs \<and> p < n_ports \<and> i < n_lcores \<and> (p, i) \<notin> plugged cs"
  by (auto simp: conns_ok_def plugged_def)

lemma in_lids_of: "i \<in> set (lids_of sel cs p) \<longleftrightarrow> (\<exists>ty. (p, i, ty) \<in> set cs \<and> sel ty)"
  by (auto simp: lids_of_def)

lemma in_pids_of: "p \<in> set (pids_of sel cs i) \<longleftrightarrow> (\<exists>ty. (p, i, ty) \<in> set cs \<and> sel ty)"
  by (auto simp: pids_of_def)

lemma lids_of_plugged: "i \<in> set (lids_of sel cs p) \<Longrightarrow> (p, i) \<in> plugged cs"
  by (force simp: in_lids_of plugged_def)

lemma pids_of_plugged: "p \<in> set (pids_of sel cs i) \<Longrightarrow> (p, i) \<in> plugged cs"
  by (force simp: in_pids_of plugged_def)

lemma lids_of_distinct: "conns_ok cs \<Longrightarrow> distinct (lids_of sel cs p) \<and> set (lids_of sel cs p) \<subseteq> {..<n_lcores}"
proof (induction cs rule: rev_induct)
  case (snoc c cs)
  obtain q i ty where c: "c = (q, i, ty)" by (cases c)
  then show ?case using snoc conns_ok_snoc lids_of_plugged by auto
qed simp

lemma pids_of_distinct: "conns_ok cs \<Longrightarrow> distinct (pids_of sel cs i) \<and> set (pids_of sel cs i) \<subseteq> {..<n_ports}"
proof (induction cs rule: rev_induct)
  case (snoc c cs)
  obtain q j ty where c: "c = (q, j, ty)" by (cases c)
  then show ?case using snoc conns_ok_snoc pids_of_plugged by auto
qed simp

text \<open>There is always room for one more connection of a pair that is not connected.\<close>

lemma pids_of_room:
  assumes "conns_ok (cs @ [(p, i, ty)])"
  shows "length (pids_of sel cs i) < n_ports"
proof -
  have "distinct (p # pids_of (\<lambda>t. sel t) cs i)" "set (p # pids_of sel cs i) \<subseteq> {..<n_ports}"
    using assms pids_of_distinct[of cs sel i] pids_of_plugged[of p sel cs i] by (auto simp: conns_ok_snoc)
  then have "length (p # pids_of sel cs i) \<le> card {..<n_ports}" by (metis card_mono distinct_card finite_lessThan)
  then show ?thesis by simp
qed

lemma lids_of_room:
  assumes "conns_ok (cs @ [(p, i, ty)])"
  shows "length (lids_of sel cs p) < n_lcores"
proof -
  have "distinct (i # lids_of (\<lambda>t. sel t) cs p)" "set (i # lids_of sel cs p) \<subseteq> {..<n_lcores}"
    using assms lids_of_distinct[of cs sel p] lids_of_plugged[of i sel cs p] by (auto simp: conns_ok_snoc)
  then have "length (i # lids_of sel cs p) \<le> card {..<n_lcores}" by (metis card_mono distinct_card finite_lessThan)
  then show ?thesis by simp
qed

text \<open>What the map holds for one direction, given by its counters and arrays.\<close>

definition dir_ok :: "(pobj \<Rightarrow> u16) \<Rightarrow> (pq \<Rightarrow> u16) \<Rightarrow> (pq \<Rightarrow> u16 list) \<Rightarrow> (u16 \<times> u16 \<Rightarrow> u16) \<Rightarrow> (u16 \<Rightarrow> bool) \<Rightarrow> l2p \<Rightarrow> conn list \<Rightarrow> bool" where
  "dir_ok q cnt arr cell sel l cs \<longleftrightarrow>
     (\<forall>p<n_ports. q (l2p_ports l ! p) = of_nat (length (lids_of sel cs p))) \<and>
     (\<forall>i<n_lcores. cnt (lo_pids (l2p_lcores l ! i)) = of_nat (length (pids_of sel cs i)) \<and>
        take (length (pids_of sel cs i)) (arr (lo_pids (l2p_lcores l ! i))) = map of_nat (pids_of sel cs i)) \<and>
     (\<forall>p<n_ports. \<forall>k<length (lids_of sel cs p). arr (lo_qids (l2p_lcores l ! (lids_of sel cs p ! k))) ! p = of_nat k) \<and>
     (\<forall>p<n_ports. \<forall>i<n_lcores. cell (l2p_map l ! p ! i) = of_nat (count_list (lids_of sel cs p) i))"

definition lids_ok :: "l2p \<Rightarrow> conn list \<Rightarrow> bool" where
  "lids_ok l cs \<longleftrightarrow>
     (\<forall>p<n_ports. nb_lids (l2p_ports l ! p) = of_nat (length (lids_of (\<lambda>_. True) cs p)) \<and>
        take (length (lids_of (\<lambda>_. True) cs p)) (lids (l2p_ports l ! p)) = map of_nat (lids_of (\<lambda>_. True) cs p))"

text \<open>A state in which the arrays of one direction have got the new connection, or not.\<close>

lemma dir_step:
  assumes d: "dir_ok q cnt arr cell sel l cs" and ok: "conns_ok (cs @ [(p, i, ty)])" and s: "sel ty"
    and "\<forall>p'<n_ports. q (l2p_ports l' ! p') = q (l2p_ports l ! p') + (if p' = p then 1 else 0)"
    and "\<forall>i'<n_lcores. cnt (lo_pids (l2p_lcores l' ! i')) = cnt (lo_pids (l2p_lcores l ! i')) + (if i' = i then 1 else 0)"
    and "\<forall>i'<n_lcores. arr (lo_pids (l2p_lcores l' ! i')) =
      (if i' = i then (arr (lo_pids (l2p_lcores l ! i)))[unat (cnt (lo_pids (l2p_lcores l ! i))) := of_nat p] else arr (lo_pids (l2p_lcores l ! i')))"
    and "\<forall>i'<n_lcores. arr (lo_qids (l2p_lcores l' ! i')) =
      (if i' = i then (arr (lo_qids (l2p_lcores l ! i)))[p := q (l2p_ports l ! p)] else arr (lo_qids (l2p_lcores l ! i')))"
    and "\<forall>p'<n_ports. \<forall>i'<n_lcores. cell (l2p_map l' ! p' ! i') = cell (l2p_map l ! p' ! i') + (if p' = p \<and> i' = i then 1 else 0)"
    and len: "\<forall>i'<n_lcores. length (arr (lo_pids (l2p_lcores l ! i'))) = n_ports \<and> length (arr (lo_qids (l2p_lcores l ! i'))) = n_ports"
  shows "dir_ok q cnt arr cell sel l' (cs @ [(p, i, ty)])"
proof -
  have r: "p < n_ports" "i < n_lcores" "(p, i) \<notin> plugged cs" "conns_ok cs" using ok by (auto simp: conns_ok_snoc)
  note d1 = d[unfolded dir_ok_def]
  have room: "length (pids_of sel cs i) < n_ports" using pids_of_room[OF ok] .
  have u: "unat (cnt (lo_pids (l2p_lcores l ! i))) = length (pids_of sel cs i)"
    using d1 r(2) room by (simp add: unat_of_nat n_ports_def)
  have 1: "\<forall>p'<n_ports. q (l2p_ports l' ! p') = of_nat (length (lids_of sel (cs @ [(p, i, ty)]) p'))"
    using d1 assms(4) s by auto
  have 2: "\<forall>i'<n_lcores. cnt (lo_pids (l2p_lcores l' ! i')) = of_nat (length (pids_of sel (cs @ [(p, i, ty)]) i')) \<and>
        take (length (pids_of sel (cs @ [(p, i, ty)]) i')) (arr (lo_pids (l2p_lcores l' ! i'))) = map of_nat (pids_of sel (cs @ [(p, i, ty)]) i')"
    using d1 assms(5) assms(6)[unfolded u] s r(2) len room by (auto simp: take_Suc_update)
  have 3: "arr (lo_qids (l2p_lcores l' ! (lids_of sel (cs @ [(p, i, ty)]) p' ! k))) ! p' = of_nat k"
    if p': "p' < n_ports" and k: "k < length (lids_of sel (cs @ [(p, i, ty)]) p')" for p' k
  proof (cases "k < length (lids_of sel cs p')")
    case True
    let ?j = "lids_of sel cs p' ! k"
    have j: "?j \<in> set (lids_of sel cs p')" using True by simp
    then have "?j < n_lcores" "?j = i \<longrightarrow> p' \<noteq> p" using lids_of_distinct[OF r(4), of sel p'] lids_of_plugged[of ?j sel cs p'] r(3) by auto
    then show ?thesis using True d1 assms(7) p' by (auto simp: nth_append)
  next
    case False
    then have "p' = p" "k = length (lids_of sel cs p)" using k s by (auto split: if_splits)
    then show ?thesis using s d1 assms(7) r len by (simp add: nth_append)
  qed
  have 4: "\<forall>p'<n_ports. \<forall>i'<n_lcores. cell (l2p_map l' ! p' ! i') = of_nat (count_list (lids_of sel (cs @ [(p, i, ty)]) p') i')"
    using d1 assms(8) s by (auto simp: count_list_append)
  show ?thesis unfolding dir_ok_def using 1 2 3 4 by blast
qed

lemma dir_same:
  assumes "dir_ok q cnt arr cell sel l cs" and "conns_ok cs" and "\<not> sel ty"
    and "\<forall>p<n_ports. q (l2p_ports l' ! p) = q (l2p_ports l ! p)"
    and "\<forall>i<n_lcores. cnt (lo_pids (l2p_lcores l' ! i)) = cnt (lo_pids (l2p_lcores l ! i)) \<and>
      arr (lo_pids (l2p_lcores l' ! i)) = arr (lo_pids (l2p_lcores l ! i)) \<and> arr (lo_qids (l2p_lcores l' ! i)) = arr (lo_qids (l2p_lcores l ! i))"
    and "\<forall>p<n_ports. \<forall>i<n_lcores. cell (l2p_map l' ! p ! i) = cell (l2p_map l ! p ! i)"
  shows "dir_ok q cnt arr cell sel l' (cs @ [(p', i', ty)])"
proof -
  have "lids_of sel cs p ! k < n_lcores" if "k < length (lids_of sel cs p)" for p k
    using lids_of_distinct[OF assms(2), of sel p] nth_mem[OF that] by blast
  then show ?thesis using assms unfolding dir_ok_def by simp
qed

section \<open>One connection\<close>

definition rx_lobj :: "nat \<Rightarrow> u16 \<Rightarrow> lobj \<Rightarrow> lobj" where
  "rx_lobj p q lo =
     lo\<lparr>lo_pids := (lo_pids lo)\<lparr>pq_rx := (pq_rx (lo_pids lo))[unat (rx_cnt (lo_pids lo)) := of_nat p], rx_cnt := rx_cnt (lo_pids lo) + 1\<rparr>,
        lo_qids := (lo_qids lo)\<lparr>pq_rx := (pq_rx (lo_qids lo))[p := q], rx_cnt := rx_cnt (lo_qids lo) + 1\<rparr>\<rparr>"

definition tx_lobj :: "nat \<Rightarrow> u16 \<Rightarrow> lobj \<Rightarrow> lobj" where
  "tx_lobj p q lo =
     lo\<lparr>lo_pids := (lo_pids lo)\<lparr>pq_tx := (pq_tx (lo_pids lo))[unat (tx_cnt (lo_pids lo)) := of_nat p], tx_cnt := tx_cnt (lo_pids lo) + 1\<rparr>,
        lo_qids := (lo_qids lo)\<lparr>pq_tx := (pq_tx (lo_qids lo))[p := q], tx_cnt := tx_cnt (lo_qids lo) + 1\<rparr>\<rparr>"

lemma l2p_wf_nth:
  assumes "l2p_wf l"
  shows "i < n_lcores \<Longrightarrow> lobj_wf (l2p_lcores l ! i)" and "p < n_ports \<Longrightarrow> length (lids (l2p_ports l ! p)) = n_lcores"
    and "p < n_ports \<Longrightarrow> length (l2p_map l ! p) = n_lcores + 1"
    and "length (l2p_lcores l) = n_lcores" "length (l2p_ports l) = n_ports" "length (l2p_map l) = n_ports + 1" "length (l2p_stop l) = n_lcores"
  using assms by (auto simp: l2p_wf_def)

lemma connect_rx_at:
  assumes "l2p_wf l" and "p < n_ports" and "i < n_lcores" and "unat (rx_cnt (lo_pids (l2p_lcores l ! i))) < n_ports"
  shows "connect_rx p i l = Inr (l\<lparr>
      l2p_lcores := (l2p_lcores l)[i := rx_lobj p (rx_qid (l2p_ports l ! p)) (l2p_lcores l ! i)],
      l2p_ports := (l2p_ports l)[p := (l2p_ports l ! p)\<lparr>rx_qid := rx_qid (l2p_ports l ! p) + 1\<rparr>],
      l2p_map := (l2p_map l)[p := (l2p_map l ! p)[i := (fst (l2p_map l ! p ! i) + 1, snd (l2p_map l ! p ! i))]]\<rparr>)"
  using assms(2-4) l2p_wf_nth[OF assms(1)]
  by (auto simp: connect_rx_def upd_lcore_def upd_port_def pg_new_rxque_def pg_inc_rx_def map_cell_def put_cell_def at_def put_def
      rx_lobj_def lobj_wf_def pq_wf_def split: prod.splits)

lemma connect_tx_at:
  assumes "l2p_wf l" and "p < n_ports" and "i < n_lcores" and "unat (tx_cnt (lo_pids (l2p_lcores l ! i))) < n_ports"
  shows "connect_tx p i l = Inr (l\<lparr>
      l2p_lcores := (l2p_lcores l)[i := tx_lobj p (tx_qid (l2p_ports l ! p)) (l2p_lcores l ! i)],
      l2p_ports := (l2p_ports l)[p := (l2p_ports l ! p)\<lparr>tx_qid := tx_qid (l2p_ports l ! p) + 1\<rparr>],
      l2p_map := (l2p_map l)[p := (l2p_map l ! p)[i := (fst (l2p_map l ! p ! i), snd (l2p_map l ! p ! i) + 1)]]\<rparr>)"
  using assms(2-4) l2p_wf_nth[OF assms(1)]
  by (auto simp: connect_tx_def upd_lcore_def upd_port_def pg_new_txque_def pg_inc_tx_def map_cell_def put_cell_def at_def put_def
      tx_lobj_def lobj_wf_def pq_wf_def split: prod.splits)

lemma add_lid_at:
  assumes "l2p_wf l" and "p < n_ports" and "unat (nb_lids (l2p_ports l ! p)) < n_lcores"
  shows "add_lid p i l = Inr (l\<lparr>l2p_ports := (l2p_ports l)[p := (l2p_ports l ! p)
      \<lparr>lids := (lids (l2p_ports l ! p))[unat (nb_lids (l2p_ports l ! p)) := of_nat i], nb_lids := nb_lids (l2p_ports l ! p) + 1\<rparr>]\<rparr>)"
  using assms(2,3) l2p_wf_nth[OF assms(1)] by (simp add: add_lid_def upd_port_def at_def put_def)

text \<open>What the map is after a sequence of connections.\<close>

definition l2p_of :: "l2p \<Rightarrow> conn list \<Rightarrow> bool" where
  "l2p_of l cs \<longleftrightarrow> l2p_wf l \<and> conns_ok cs \<and> dir_ok rx_qid rx_cnt pq_rx fst is_rx l cs \<and> dir_ok tx_qid tx_cnt pq_tx snd is_tx l cs \<and> lids_ok l cs"

lemma l2p_create_nth:
  "p < n_ports \<Longrightarrow> i < n_lcores \<Longrightarrow> l2p_map l2p_create ! p ! i = (0, 0)"
  "p < n_ports \<Longrightarrow> l2p_ports l2p_create ! p = pobj_zero p" "i < n_lcores \<Longrightarrow> l2p_lcores l2p_create ! i = lobj_zero i"
  by (auto simp: l2p_create_def simp del: replicate_Suc Suc_eq_plus1 add_Suc_right)

lemma l2p_of_create: "l2p_of l2p_create []"
  using l2p_create_wf
  by (auto simp: l2p_of_def dir_ok_def lids_ok_def conns_ok_def l2p_create_nth lobj_zero_def pobj_zero_def pq_zero_def)

lemma lids_step:
  assumes "lids_ok l cs" and "conns_ok (cs @ [(p, i, ty)])" and "l2p_wf l"
  shows "\<exists>l'. add_lid p i l = Inr l' \<and> lids_ok l' (cs @ [(p, i, ty)]) \<and> l2p_lcores l' = l2p_lcores l \<and> l2p_map l' = l2p_map l \<and>
    (\<forall>p'<n_ports. rx_qid (l2p_ports l' ! p') = rx_qid (l2p_ports l ! p') \<and> tx_qid (l2p_ports l' ! p') = tx_qid (l2p_ports l ! p'))"
proof -
  have r: "p < n_ports" "i < n_lcores" using assms(2) by (auto simp: conns_ok_snoc)
  have room: "length (lids_of (\<lambda>_. True) cs p) < n_lcores" using lids_of_room[OF assms(2)] .
  then have u: "unat (nb_lids (l2p_ports l ! p)) = length (lids_of (\<lambda>_. True) cs p)"
    using assms(1) r by (simp add: lids_ok_def unat_of_nat n_lcores_def)
  then show ?thesis using add_lid_at[OF assms(3) r(1), of i] room assms(1) r l2p_wf_nth[OF assms(3)]
    by (auto simp: lids_ok_def nth_list_update take_Suc_update)
qed

lemma dir_cong:
  assumes "\<forall>p<n_ports. q (l2p_ports l' ! p) = q (l2p_ports l ! p)" and "l2p_lcores l' = l2p_lcores l" and "l2p_map l' = l2p_map l"
  shows "dir_ok q cnt arr cell sel l' cs = dir_ok q cnt arr cell sel l cs"
  using assms by (simp add: dir_ok_def cong: conj_cong)

lemma set_type_at:
  assumes "l2p_of l cs" and "i < n_lcores"
  shows "\<exists>l'. upd_lcore i (\<lambda>lo. Inr (lo\<lparr>lo_type := ty\<rparr>)) l = Inr l' \<and> l2p_of l' cs"
proof -
  let ?l = "l\<lparr>l2p_lcores := (l2p_lcores l)[i := (l2p_lcores l ! i)\<lparr>lo_type := ty\<rparr>]\<rparr>"
  have w: "l2p_wf l" using assms(1) by (simp add: l2p_of_def)
  have e: "upd_lcore i (\<lambda>lo. Inr (lo\<lparr>lo_type := ty\<rparr>)) l = Inr ?l" using assms(2) l2p_wf_nth[OF w] by (simp add: upd_lcore_def at_def)
  have w': "l2p_wf ?l" using upd_lcore_wf[OF e w] by (simp add: lobj_wf_def)
  have "lo_pids (l2p_lcores ?l ! j) = lo_pids (l2p_lcores l ! j) \<and> lo_qids (l2p_lcores ?l ! j) = lo_qids (l2p_lcores l ! j)" for j
    using assms(2) l2p_wf_nth[OF w] by (cases "j = i") auto
  then have "dir_ok q cnt arr cell sel ?l cs = dir_ok q cnt arr cell sel l cs" for q cnt arr cell sel by (simp add: dir_ok_def)
  then show ?thesis using e w' assms(1) by (auto simp: l2p_of_def lids_ok_def)
qed

lemma rx_at:
  assumes "l2p_of l cs" and "conns_ok (cs @ [(p, i, ty)])" and "is_rx ty"
  shows "\<exists>l'. connect_rx p i l = Inr l' \<and> l2p_wf l' \<and> dir_ok rx_qid rx_cnt pq_rx fst is_rx l' (cs @ [(p, i, ty)]) \<and>
    lids_ok l' cs \<and> dir_ok tx_qid tx_cnt pq_tx snd is_tx l' cs"
proof -
  have w: "l2p_wf l" and d: "dir_ok rx_qid rx_cnt pq_rx fst is_rx l cs" and t: "dir_ok tx_qid tx_cnt pq_tx snd is_tx l cs" "lids_ok l cs" "conns_ok cs"
    using assms(1) by (auto simp: l2p_of_def)
  have r: "p < n_ports" "i < n_lcores" using assms(2) by (auto simp: conns_ok_snoc)
  have "unat (rx_cnt (lo_pids (l2p_lcores l ! i))) < n_ports"
    using d r pids_of_room[OF assms(2), of is_rx] by (simp add: dir_ok_def unat_of_nat n_ports_def)
  note e = connect_rx_at[OF w r this]
  let ?l = "l\<lparr>l2p_lcores := (l2p_lcores l)[i := rx_lobj p (rx_qid (l2p_ports l ! p)) (l2p_lcores l ! i)],
      l2p_ports := (l2p_ports l)[p := (l2p_ports l ! p)\<lparr>rx_qid := rx_qid (l2p_ports l ! p) + 1\<rparr>],
      l2p_map := (l2p_map l)[p := (l2p_map l ! p)[i := (fst (l2p_map l ! p ! i) + 1, snd (l2p_map l ! p ! i))]]\<rparr>"
  note n = l2p_wf_nth[OF w]
  have "dir_ok rx_qid rx_cnt pq_rx fst is_rx ?l (cs @ [(p, i, ty)])"
    using r n by (intro dir_step[OF d assms(2,3)]) (auto simp: nth_list_update rx_lobj_def lobj_wf_def pq_wf_def)
  moreover have "lids_of is_tx cs q ! k < n_lcores" if "k < length (lids_of is_tx cs q)" for q k
    using lids_of_distinct[OF t(3), of is_tx q] nth_mem[OF that] by blast
  then have "dir_ok tx_qid tx_cnt pq_tx snd is_tx ?l cs"
    using t(1) r n unfolding dir_ok_def by (simp add: nth_list_update rx_lobj_def)
  moreover have "lids_ok ?l cs" using t(2) r n unfolding lids_ok_def by (simp add: nth_list_update)
  ultimately show ?thesis using e connect_rx_wf[OF e w] by blast
qed

lemma tx_at:
  assumes "l2p_wf l" and "dir_ok rx_qid rx_cnt pq_rx fst is_rx l cs'" and "conns_ok cs'"
    and "dir_ok tx_qid tx_cnt pq_tx snd is_tx l cs" and "lids_ok l cs" and "conns_ok (cs @ [(p, i, ty)])" and "is_tx ty"
  shows "\<exists>l'. connect_tx p i l = Inr l' \<and> l2p_wf l' \<and> dir_ok tx_qid tx_cnt pq_tx snd is_tx l' (cs @ [(p, i, ty)]) \<and>
    lids_ok l' cs \<and> dir_ok rx_qid rx_cnt pq_rx fst is_rx l' cs'"
proof -
  have r: "p < n_ports" "i < n_lcores" using assms(6) by (auto simp: conns_ok_snoc)
  have "unat (tx_cnt (lo_pids (l2p_lcores l ! i))) < n_ports"
    using assms(4) r pids_of_room[OF assms(6), of is_tx] by (simp add: dir_ok_def unat_of_nat n_ports_def)
  note e = connect_tx_at[OF assms(1) r this]
  let ?l = "l\<lparr>l2p_lcores := (l2p_lcores l)[i := tx_lobj p (tx_qid (l2p_ports l ! p)) (l2p_lcores l ! i)],
      l2p_ports := (l2p_ports l)[p := (l2p_ports l ! p)\<lparr>tx_qid := tx_qid (l2p_ports l ! p) + 1\<rparr>],
      l2p_map := (l2p_map l)[p := (l2p_map l ! p)[i := (fst (l2p_map l ! p ! i), snd (l2p_map l ! p ! i) + 1)]]\<rparr>"
  note n = l2p_wf_nth[OF assms(1)]
  have "dir_ok tx_qid tx_cnt pq_tx snd is_tx ?l (cs @ [(p, i, ty)])"
    using r n by (intro dir_step[OF assms(4,6,7)]) (auto simp: nth_list_update tx_lobj_def lobj_wf_def pq_wf_def)
  moreover have "lids_of is_rx cs' q ! k < n_lcores" if "k < length (lids_of is_rx cs' q)" for q k
    using lids_of_distinct[OF assms(3), of is_rx q] nth_mem[OF that] by blast
  then have "dir_ok rx_qid rx_cnt pq_rx fst is_rx ?l cs'"
    using assms(2) r n unfolding dir_ok_def by (simp add: nth_list_update tx_lobj_def)
  moreover have "lids_ok ?l cs" using assms(5) r n unfolding lids_ok_def by (simp add: nth_list_update)
  ultimately show ?thesis using e connect_tx_wf[OF e assms(1)] by blast
qed

lemma l2p_connect_step:
  assumes "l2p_of l cs" and "conns_ok (cs @ [(p, i, ty)])"
  shows "\<exists>l'. l2p_connect l p i ty = Inr l' \<and> l2p_of l' (cs @ [(p, i, ty)])"
proof -
  have r: "p < n_ports" "i < n_lcores" "conns_ok cs" using assms(2) by (auto simp: conns_ok_snoc)
  obtain l1 where l1: "upd_lcore i (\<lambda>lo. Inr (lo\<lparr>lo_type := ty\<rparr>)) l = Inr l1" "l2p_of l1 cs" using set_type_at[OF assms(1) r(2)] by blast
  have "\<exists>l2. (if ty AND RX_TYPE \<noteq> 0 then connect_rx p i l1 else Inr l1) = Inr l2 \<and> l2p_wf l2 \<and>
    dir_ok rx_qid rx_cnt pq_rx fst is_rx l2 (cs @ [(p, i, ty)]) \<and> lids_ok l2 cs \<and> dir_ok tx_qid tx_cnt pq_tx snd is_tx l2 cs"
  proof (cases "is_rx ty")
    case True
    then show ?thesis using rx_at[OF l1(2) assms(2) True] by (simp add: is_rx_def)
  next
    case False
    have "dir_ok rx_qid rx_cnt pq_rx fst is_rx l1 (cs @ [(p, i, ty)])"
      using l1(2) r(3) False by (intro dir_same[of _ _ _ _ _ l1]) (auto simp: l2p_of_def)
    then show ?thesis using l1(2) False by (auto simp: is_rx_def l2p_of_def)
  qed
  then obtain l2 where l2: "(if ty AND RX_TYPE \<noteq> 0 then connect_rx p i l1 else Inr l1) = Inr l2" "l2p_wf l2"
    "dir_ok rx_qid rx_cnt pq_rx fst is_rx l2 (cs @ [(p, i, ty)])" "lids_ok l2 cs" "dir_ok tx_qid tx_cnt pq_tx snd is_tx l2 cs" by blast
  have "\<exists>l3. (if ty AND TX_TYPE \<noteq> 0 then connect_tx p i l2 else Inr l2) = Inr l3 \<and> l2p_wf l3 \<and>
    dir_ok tx_qid tx_cnt pq_tx snd is_tx l3 (cs @ [(p, i, ty)]) \<and> lids_ok l3 cs \<and> dir_ok rx_qid rx_cnt pq_rx fst is_rx l3 (cs @ [(p, i, ty)])"
  proof (cases "is_tx ty")
    case True
    then show ?thesis using tx_at[OF l2(2,3) assms(2) l2(5,4) assms(2) True] by (simp add: is_tx_def)
  next
    case False
    have "dir_ok tx_qid tx_cnt pq_tx snd is_tx l2 (cs @ [(p, i, ty)])"
      using l2(5) r(3) False by (intro dir_same[of _ _ _ _ _ l2]) auto
    then show ?thesis using l2 False by (auto simp: is_tx_def)
  qed
  then obtain l3 where l3: "(if ty AND TX_TYPE \<noteq> 0 then connect_tx p i l2 else Inr l2) = Inr l3" "l2p_wf l3"
    "dir_ok tx_qid tx_cnt pq_tx snd is_tx l3 (cs @ [(p, i, ty)])" "lids_ok l3 cs" "dir_ok rx_qid rx_cnt pq_rx fst is_rx l3 (cs @ [(p, i, ty)])" by blast
  obtain l' where l': "add_lid p i l3 = Inr l'" "lids_ok l' (cs @ [(p, i, ty)])" "l2p_lcores l' = l2p_lcores l3" "l2p_map l' = l2p_map l3"
    "\<forall>p'<n_ports. rx_qid (l2p_ports l' ! p') = rx_qid (l2p_ports l3 ! p') \<and> tx_qid (l2p_ports l' ! p') = tx_qid (l2p_ports l3 ! p')"
    using lids_step[OF l3(4) assms(2) l3(2)] by blast
  have "l2p_of l' (cs @ [(p, i, ty)])"
    using l3(3,5) l' assms(2) add_lid_wf[OF l'(1) l3(2)] by (simp add: l2p_of_def dir_cong[of _ l' l3])
  moreover have "l2p_connect l p i ty = Inr l'" unfolding l2p_connect_def l1(1) rbind_Inr l2(1) l3(1) l'(1) ..
  ultimately show ?thesis by blast
qed

definition connect_all :: "l2p \<Rightarrow> conn list \<Rightarrow> l2p res" where
  "connect_all l cs = rfold (\<lambda>l (p, i, ty). l2p_connect l p i ty) l cs"

lemma connect_all_of: "conns_ok (ds @ cs) \<Longrightarrow> l2p_of l ds \<Longrightarrow> \<exists>l'. connect_all l cs = Inr l' \<and> l2p_of l' (ds @ cs)"
proof (induction cs arbitrary: l ds)
  case (Cons c cs)
  obtain p i ty where c: "c = (p, i, ty)" by (cases c)
  have "conns_ok (ds @ [(p, i, ty)])" using Cons.prems(1) c by (auto simp: conns_ok_def)
  then obtain l1 where "l2p_connect l p i ty = Inr l1" "l2p_of l1 (ds @ [(p, i, ty)])" using l2p_connect_step[OF Cons.prems(2)] by blast
  then show ?case using Cons.IH[of "ds @ [(p, i, ty)]" l1] Cons.prems(1) c by (simp add: connect_all_def)
qed (simp add: connect_all_def)

section \<open>The totals\<close>

lemma count_fold:
  assumes "\<And>x. x \<in> set xs \<Longrightarrow> g x = Inr (h x)"
  shows "rfold (\<lambda>n x. rbind (g x) (\<lambda>c. Inr (count_cell n c))) n xs =
    Inr (fst n + of_nat (length (filter (\<lambda>x. fst (h x) \<noteq> 0) xs)), snd n + of_nat (length (filter (\<lambda>x. snd (h x) \<noteq> 0) xs)))"
  using assms by (induction xs arbitrary: n) (auto simp: count_cell_def prod_eq_iff)

definition cells_eq :: "l2p \<Rightarrow> l2p \<Rightarrow> bool" where
  "cells_eq l l' \<longleftrightarrow> l2p_wf l' \<and> l2p_stop l' = l2p_stop l \<and> l2p_lcores l' = l2p_lcores l \<and> l2p_ports l' = l2p_ports l \<and>
     (\<forall>p<n_ports. \<forall>i<n_lcores. l2p_map l' ! p ! i = l2p_map l ! p ! i)"

definition port_total :: "l2p \<Rightarrow> nat \<Rightarrow> u16 \<times> u16" where
  "port_total l p = (of_nat (length (filter (\<lambda>i. fst (l2p_map l ! p ! i) \<noteq> 0) [0..<n_lcores])), of_nat (length (filter (\<lambda>i. snd (l2p_map l ! p ! i) \<noteq> 0) [0..<n_lcores])))"

definition lcore_total :: "l2p \<Rightarrow> nat \<Rightarrow> u16 \<times> u16" where
  "lcore_total l i = (of_nat (length (filter (\<lambda>p. fst (l2p_map l ! p ! i) \<noteq> 0) [0..<n_ports])), of_nat (length (filter (\<lambda>p. snd (l2p_map l ! p ! i) \<noteq> 0) [0..<n_ports])))"

lemma map_cell_at: "l2p_wf l \<Longrightarrow> p \<le> n_ports \<Longrightarrow> i \<le> n_lcores \<Longrightarrow> map_cell l p i = Inr (l2p_map l ! p ! i)"
  by (simp add: map_cell_def at_def l2p_wf_def)

lemma put_cell_at: "l2p_wf l \<Longrightarrow> p \<le> n_ports \<Longrightarrow> i \<le> n_lcores \<Longrightarrow> put_cell l p i c = Inr (l\<lparr>l2p_map := (l2p_map l)[p := (l2p_map l ! p)[i := c]]\<rparr>)"
  by (simp add: put_cell_def at_def put_def l2p_wf_def)

lemma count_lcores_at:
  assumes "l2p_wf l" and "p < n_ports"
  shows "count_lcores l p = Inr (l\<lparr>l2p_map := (l2p_map l)[p := (l2p_map l ! p)[n_lcores := port_total l p]]\<rparr>)"
proof -
  have "rfold (\<lambda>n i. rbind (get_map l p i) (\<lambda>c. Inr (count_cell n c))) (0, 0) [0..<n_lcores] = Inr (port_total l p)"
    using assms by (subst count_fold[where h = "\<lambda>i. l2p_map l ! p ! i"]) (simp_all add: get_map_def map_cell_at port_total_def)
  then show ?thesis using assms by (simp add: count_lcores_def put_map_def put_cell_at)
qed

lemma count_ports_at:
  assumes "l2p_wf l" and "i < n_lcores"
  shows "count_ports l i = Inr (l\<lparr>l2p_map := (l2p_map l)[n_ports := (l2p_map l ! n_ports)[i := lcore_total l i]]\<rparr>)"
proof -
  have "rfold (\<lambda>n p. rbind (get_map l p i) (\<lambda>c. Inr (count_cell n c))) (0, 0) [0..<n_ports] = Inr (lcore_total l i)"
    using assms by (subst count_fold[where h = "\<lambda>p. l2p_map l ! p ! i"]) (simp_all add: get_map_def map_cell_at lcore_total_def)
  then show ?thesis using assms by (simp add: count_ports_def put_map_def put_cell_at)
qed

lemma filter_cong_upt: "(\<And>i. i < n \<Longrightarrow> P i = Q i) \<Longrightarrow> filter P [0..<n] = filter Q [0..<n]"
  by (rule filter_cong) auto

lemma total_cong: "cells_eq l l' \<Longrightarrow> p < n_ports \<Longrightarrow> port_total l' p = port_total l p" "cells_eq l l' \<Longrightarrow> i < n_lcores \<Longrightarrow> lcore_total l' i = lcore_total l i"
  by (simp_all add: cells_eq_def port_total_def lcore_total_def cong: filter_cong_upt)

lemma all_port_totals:
  "l2p_wf l \<Longrightarrow> k \<le> n_ports \<Longrightarrow> \<exists>l'. rfold count_lcores l [0..<k] = Inr l' \<and> cells_eq l l' \<and> (\<forall>p<k. l2p_map l' ! p ! n_lcores = port_total l p)"
proof (induction k)
  case (Suc k)
  then obtain l1 where l1: "rfold count_lcores l [0..<k] = Inr l1" "cells_eq l l1" "\<forall>p<k. l2p_map l1 ! p ! n_lcores = port_total l p" by auto
  have w: "l2p_wf l1" "k < n_ports" using l1(2) Suc.prems by (auto simp: cells_eq_def)
  let ?l = "l1\<lparr>l2p_map := (l2p_map l1)[k := (l2p_map l1 ! k)[n_lcores := port_total l1 k]]\<rparr>"
  note e = count_lcores_at[OF w]
  have "l2p_wf ?l" using count_wf(1)[OF e w(1)] .
  then have "cells_eq l ?l" using l1(2) w l2p_wf_nth[OF w(1)] by (auto simp: cells_eq_def nth_list_update)
  moreover have "\<forall>p<Suc k. l2p_map ?l ! p ! n_lcores = port_total l p"
    using l1(3) w l2p_wf_nth[OF w(1)] total_cong(1)[OF l1(2) w(2)] by (auto simp: nth_list_update less_Suc_eq)
  ultimately show ?case using l1(1) e by (auto simp: rfold_append)
qed (simp add: cells_eq_def)

lemma all_lcore_totals:
  "l2p_wf l \<Longrightarrow> k \<le> n_lcores \<Longrightarrow> \<exists>l'. rfold count_ports l [0..<k] = Inr l' \<and> cells_eq l l' \<and>
    (\<forall>p<n_ports. l2p_map l' ! p = l2p_map l ! p) \<and> (\<forall>i<k. l2p_map l' ! n_ports ! i = lcore_total l i)"
proof (induction k)
  case (Suc k)
  then obtain l1 where l1: "rfold count_ports l [0..<k] = Inr l1" "cells_eq l l1" "\<forall>p<n_ports. l2p_map l1 ! p = l2p_map l ! p"
    "\<forall>i<k. l2p_map l1 ! n_ports ! i = lcore_total l i" by auto
  have w: "l2p_wf l1" "k < n_lcores" using l1(2) Suc.prems by (auto simp: cells_eq_def)
  let ?l = "l1\<lparr>l2p_map := (l2p_map l1)[n_ports := (l2p_map l1 ! n_ports)[k := lcore_total l1 k]]\<rparr>"
  note e = count_ports_at[OF w]
  have "l2p_wf ?l" using count_wf(2)[OF e w(1)] .
  then have "cells_eq l ?l" using l1(2) w by (auto simp: cells_eq_def)
  moreover have "length (l2p_map l1 ! n_ports) = n_lcores + 1" using w(1) by (simp add: l2p_wf_def)
  then have "\<forall>i<Suc k. l2p_map ?l ! n_ports ! i = lcore_total l i"
    using l1(4) w l2p_wf_nth[OF w(1)] total_cong(2)[OF l1(2) w(2)] by (auto simp: nth_list_update less_Suc_eq)
  ultimately show ?case using l1 e by (auto simp: rfold_append)
qed (simp add: cells_eq_def)

lemma length_filter_mem: "distinct ls \<Longrightarrow> set ls \<subseteq> {..<n} \<Longrightarrow> length (filter (\<lambda>i. i \<in> set ls) [0..<n]) = length ls"
proof -
  assume d: "distinct ls" and s: "set ls \<subseteq> {..<n}"
  have "set (filter (\<lambda>i. i \<in> set ls) [0..<n]) = set ls" using s by auto
  then show ?thesis using d by (metis distinct_card distinct_filter distinct_upt)
qed

lemma cell_nonzero: "distinct ls \<Longrightarrow> (of_nat (count_list ls i) :: u16) \<noteq> 0 \<longleftrightarrow> i \<in> set ls"
proof -
  have "distinct ls \<Longrightarrow> count_list ls i = (if i \<in> set ls then 1 else 0)" by (induction ls) auto
  then show "distinct ls \<Longrightarrow> (of_nat (count_list ls i) :: u16) \<noteq> 0 \<longleftrightarrow> i \<in> set ls" by simp
qed

section \<open>The text of a matrix\<close>

fun joined :: "string \<Rightarrow> string list \<Rightarrow> string" where
  "joined d [] = []"
| "joined d [g] = g"
| "joined d (g # gs) = g @ d @ joined d gs"

lemma strtrim_plain: "\<forall>c \<in> set s. \<not> is_white c \<Longrightarrow> strtrim s = s"
proof (cases s)
  case (Cons c cs)
  assume a: "\<forall>c \<in> set s. \<not> is_white c"
  have "\<forall>c \<in> set (rev cs). \<not> is_white c" using a Cons by simp
  then have "dropWhile is_white (rev cs) = rev cs" by (cases "rev cs") simp_all
  moreover have "dropWhile is_white s = s" using a Cons by simp
  ultimately show ?thesis using Cons by (simp add: strtrim_def)
qed (simp add: strtrim_def)

lemma while_sep:
  assumes "d \<notin> set g"
  shows "takeWhile (\<lambda>c. c \<noteq> d) (g @ d # r) = g" and "dropWhile (\<lambda>c. c \<noteq> d) (g @ d # r) = d # r"
  using assms by (induction g) auto

text \<open>A field is a text without white space and without the separator.\<close>

definition field :: "char \<Rightarrow> string \<Rightarrow> bool" where
  "field d g \<longleftrightarrow> g \<noteq> [] \<and> d \<notin> set g \<and> (\<forall>c \<in> set g. \<not> is_white c)"

lemma strtok_field:
  assumes "field d g"
  shows "strtok_r g [d] = Some (g, [])" and "strtok_r (g @ d # r) [d] = Some (g, r)"
proof -
  obtain c cs where g: "g = c # cs" "c \<noteq> d" using assms by (cases g) (auto simp: field_def)
  have "d \<notin> set g" using assms by (simp add: field_def)
  moreover from this have "takeWhile (\<lambda>c. c \<noteq> d) g = g" "dropWhile (\<lambda>c. c \<noteq> d) g = []" by auto
  moreover have "dropWhile (\<lambda>c. c = d) g = g" "dropWhile (\<lambda>c. c = d) (g @ d # r) = g @ d # r" using g by simp_all
  ultimately show "strtok_r g [d] = Some (g, [])" "strtok_r (g @ d # r) [d] = Some (g, r)" using g(1) while_sep[of d g r] by (simp_all add: strtok_r_def Let_def)
qed

lemma strparse_joined: "\<forall>g \<in> set gs. field d g \<Longrightarrow> pg_strparse (joined [d] gs) [d] n = take n gs"
  unfolding pg_strparse_def
proof (induction "[d]" gs arbitrary: n rule: joined.induct)
  case 1
  then show ?case by (cases n) (simp_all add: strtok_r_def)
next
  case (2 g)
  then have "strparse_loop k [] [d] = []" for k by (cases k) (simp_all add: strtok_r_def)
  then show ?case using 2 strtrim_plain[of g] by (cases n) (auto simp: strtok_field field_def)
next
  case (3 g h gs)
  then show ?case using strtrim_plain[of g] by (cases n) (auto simp: strtok_field field_def)
qed

lemma skip_matrix: "skip_lst c matrix_skip = Inr (c = CHR '' '' \<or> c = CHR 0x0D)"
  by (simp add: matrix_skip_def)

lemma strccpy_filter:
  "length (t @ filter (\<lambda>c. c \<noteq> CHR '' '' \<and> c \<noteq> CHR 0x0D) f) < cap \<Longrightarrow>
    strccpy_loop cap matrix_skip t f = Inr (t @ filter (\<lambda>c. c \<noteq> CHR '' '' \<and> c \<noteq> CHR 0x0D) f)"
  by (induction f arbitrary: t) (auto simp: skip_matrix)

text \<open>Numbers and ranges, as the grammar at \<open>pg_parse_matrix\<close> has them.\<close>

datatype rt = One nat | Span nat nat

fun rt_text :: "rt \<Rightarrow> string" where
  "rt_text (One n) = fmt_d n"
| "rt_text (Span a b) = fmt_d a @ ''-'' @ fmt_d b"

fun rt_set :: "rt \<Rightarrow> nat set" where
  "rt_set (One n) = {n}"
| "rt_set (Span a b) = {a..b}"

fun rt_ok :: "nat \<Rightarrow> rt \<Rightarrow> bool" where
  "rt_ok m (One n) = (n < m)"
| "rt_ok m (Span a b) = (a \<le> b \<and> b < m)"

definition bits_of :: "u8 list \<Rightarrow> nat set" where
  "bits_of p = {i. i < 8 * length p \<and> bit (p ! (i div 8)) (i mod 8)}"

lemma bset_bits:
  assumes "n < 8 * length p" and "length p \<le> 4096" and "unat idx = n"
  shows "\<exists>p'. bset p idx = Inr p' \<and> length p' = length p \<and> bits_of p' = insert n (bits_of p)"
proof -
  have c: "n div 8 < length p" and m: "n - n div 8 * 8 = n mod 8" using assms(1) by (auto simp: minus_div_mult_eq_mod)
  let ?p = "p[n div 8 := p ! (n div 8) OR push_bit (n mod 8) 1]"
  have e: "bset p idx = Inr ?p" using c m assms(3) by (simp add: bset_def Let_def)
  have "bit ((p ! (n div 8) OR push_bit (n mod 8) 1) :: u8) k \<longleftrightarrow> bit (p ! (n div 8)) k \<or> k = n mod 8" if "k < 8" for k
    using that by (auto simp: bit_or_iff bit_exp_iff)
  then have "bit (?p ! (i div 8)) (i mod 8) \<longleftrightarrow> bit (p ! (i div 8)) (i mod 8) \<or> i = n" for i
    using c by (cases "i div 8 = n div 8") (auto simp: nth_list_update, metis div_mult_mod_eq)
  then have "bits_of ?p = insert n (bits_of p)" using assms(1) by (auto simp: bits_of_def)
  then show ?thesis using e by auto
qed

lemma btst_bits: "n < 8 * length p \<Longrightarrow> unat idx = n \<Longrightarrow> btst p idx = Inr (n \<in> bits_of p)"
proof -
  assume a: "n < 8 * length p" "unat idx = n"
  then have c: "n div 8 < length p" and m: "n - n div 8 * 8 = n mod 8" by (auto simp: minus_div_mult_eq_mod)
  have "(p ! (n div 8) AND push_bit (n mod 8) 1 \<noteq> 0) = bit (p ! (n div 8)) (n mod 8)" by (rule bit_mask_test)
  then show ?thesis unfolding btst_def Let_def a(2) m using a c by (simp only: bits_of_def mem_Collect_eq if_True simp_thms)
qed

lemma u32_ucast: "n < 65536 \<Longrightarrow> unat (ucast (of_nat n :: u32) :: u16) = n"
  by (simp add: unsigned_ucast_eq take_bit_nat_eq_self unat_of_nat)

lemma bset_range_bits:
  assumes "a \<le> b" and "b < 8 * length p" and "length p \<le> 4096" and "b - a < fuel"
  shows "\<exists>p'. bset_range fuel p (of_nat a) (of_nat b) = Inr p' \<and> length p' = length p \<and> bits_of p' = bits_of p \<union> {a..b}"
  using assms
proof (induction fuel arbitrary: p a)
  case (Suc f)
  have u: "unat (ucast (of_nat a :: u32) :: u16) = a" using Suc.prems by (intro u32_ucast) simp
  obtain p1 where p1: "bset p (ucast (of_nat a :: u32)) = Inr p1" "length p1 = length p" "bits_of p1 = insert a (bits_of p)"
    using bset_bits[OF _ Suc.prems(3) u] Suc.prems by auto
  have le: "(of_nat a + 1 :: u32) \<le> of_nat b \<longleftrightarrow> a + 1 \<le> b"
  proof -
    have "(of_nat (a + 1) :: u32) \<le> of_nat b \<longleftrightarrow> a + 1 \<le> b" using Suc.prems by (simp only: word_le_nat_alt unat_of_nat) simp
    then show ?thesis by (simp add: add.commute)
  qed
  have o: "(of_nat a + 1 :: u32) = of_nat (a + 1)" by (simp only: of_nat_add of_nat_1)
  have st: "bset_range (Suc f) p (of_nat a) (of_nat b) = (if a + 1 \<le> b then bset_range f p1 (of_nat (a + 1)) (of_nat b) else Inr p1)"
    unfolding bset_range.simps p1(1) rbind_Inr le unfolding o ..
  show ?case
  proof (cases "a + 1 \<le> b")
    case True
    then have f: "b - (a + 1) < f" using Suc.prems(4) by arith
    obtain p' where p': "bset_range f p1 (of_nat (a + 1)) (of_nat b) = Inr p'" "length p' = length p1" "bits_of p' = bits_of p1 \<union> {a + 1..b}"
      using Suc.IH[OF True, of p1, unfolded p1(2), OF Suc.prems(2,3) f] p1(2) by metis
    have "insert a {a + 1..b} = {a..b}" using True by auto
    then have "bits_of p' = bits_of p \<union> {a..b}" unfolding p'(3) p1(3) by blast
    then show ?thesis unfolding st using p' p1(2) True by simp
  next
    case False
    then have "{a..b} = {a}" using Suc.prems(1) by auto
    then have "bits_of p1 = bits_of p \<union> {a..b}" unfolding p1(3) by blast
    then show ?thesis unfolding st using p1(2) False by (simp only: if_False simp_thms sum.inject ex_simps)
  qed
qed simp

lemma long_of_fmt_d: "n < 2 ^ 63 \<Longrightarrow> long_of (fmt_d n) = int n"
proof -
  assume "n < 2 ^ 63"
  moreover have "list_all is_digit (fmt_d n)" using fmt_d_is_digit by (auto simp: list_all_iff)
  ultimately show ?thesis using strtol_digits[of "fmt_d n"] by (simp add: long_of_def digits_val_fmt_d)
qed

lemma no_dash: "CHR ''-'' \<notin> set (fmt_d n)"
  using fmt_d_is_digit[of "CHR ''-''" n] by (auto simp: is_digit_def digit_val_def)

lemma rt_item_bits:
  assumes "rt_ok (8 * length p) x" and "length p \<le> 4096"
  shows "\<exists>p'. rt_item p (rt_text x) = Inr p' \<and> length p' = length p \<and> bits_of p' = bits_of p \<union> rt_set x"
proof (cases x)
  case (One n)
  have "unat (of_nat n :: u16) = n" using assms One by (simp add: unat_of_nat)
  then show ?thesis using assms One bset_bits[of n p "of_nat n"] no_dash[of n] by (auto simp: rt_item_def long_of_fmt_d)
next
  case (Span a b)
  have "takeWhile (\<lambda>c. c \<noteq> CHR ''-'') (rt_text x) = fmt_d a" "dropWhile (\<lambda>c. c \<noteq> CHR ''-'') (rt_text x) = CHR ''-'' # fmt_d b"
    using while_sep[OF no_dash[of a], of "fmt_d b"] unfolding Span by simp_all
  moreover have "b - a < 8 * length p + 1" using assms(1) Span by auto
  ultimately show ?thesis using assms Span bset_range_bits[of a b p "8 * length p + 1"] by (auto simp: rt_item_def long_of_fmt_d)
qed

lemma rt_items_bits:
  assumes "\<forall>x \<in> set xs. rt_ok (8 * length p) x" and "length p \<le> 4096"
  shows "\<exists>p'. rfold rt_item p (map rt_text xs) = Inr p' \<and> length p' = length p \<and> bits_of p' = bits_of p \<union> \<Union> (rt_set ` set xs)"
  using assms
proof (induction xs arbitrary: p)
  case (Cons x xs)
  then obtain p1 where p1: "rt_item p (rt_text x) = Inr p1" "length p1 = length p" "bits_of p1 = bits_of p \<union> rt_set x" using rt_item_bits[of p x] by auto
  then obtain p' where "rfold rt_item p1 (map rt_text xs) = Inr p'" "length p' = length p1" "bits_of p' = bits_of p1 \<union> \<Union> (rt_set ` set xs)"
    using Cons.IH[of p1] Cons.prems by auto
  then show ?case using p1 by auto
qed simp

text \<open>The lists of an entry, with the directions apart.\<close>

definition list_text :: "rt list \<Rightarrow> string" where
  "list_text xs = joined ''/'' (map rt_text xs)"

definition list_set :: "rt list \<Rightarrow> nat set" where
  "list_set xs = \<Union> (rt_set ` set xs)"

definition list_ok :: "nat \<Rightarrow> rt list \<Rightarrow> bool" where
  "list_ok m xs \<longleftrightarrow> xs \<noteq> [] \<and> length xs \<le> 33 \<and> (\<forall>x \<in> set xs. rt_ok m x)"

definition pair_text :: "rt list \<Rightarrow> rt list \<Rightarrow> string" where
  "pair_text rs ts = ''['' @ list_text rs @ '':'' @ list_text ts @ '']''"

lemma joined_cons: "gs \<noteq> [] \<Longrightarrow> joined d (g # gs) = g @ d @ joined d gs"
  by (cases gs) auto

lemma set_joined: "set (joined d gs) \<subseteq> set d \<union> (\<Union>g \<in> set gs. set g)"
  by (induction d gs rule: joined.induct) auto

lemma rt_text_chars: "c \<in> set (rt_text x) \<Longrightarrow> is_digit c \<or> c = CHR ''-''"
  by (cases x) (auto dest: fmt_d_is_digit)

lemma rt_text_ne: "rt_text x \<noteq> []"
  using fmt_d_digits by (cases x) auto

lemma list_text_chars: "c \<in> set (list_text xs) \<Longrightarrow> is_digit c \<or> c = CHR ''-'' \<or> c = CHR ''/''"
  using set_joined[of "''/''" "map rt_text xs"] rt_text_chars by (fastforce simp: list_text_def)

lemma list_text_ne: "xs \<noteq> [] \<Longrightarrow> list_text xs \<noteq> []"
  using rt_text_ne by (cases xs; cases "tl xs") (auto simp: list_text_def)

lemma digit_not_punct: "is_digit c \<Longrightarrow> \<not> is_white c \<and> c \<noteq> NUL \<and> c \<notin> set ''[]{}:,./-''"
  by (auto simp: is_digit_def digit_val_def is_white_def Let_def)

lemma punct_not_white: "\<not> is_white CHR ''-''" "\<not> is_white CHR ''/''" "\<not> is_white CHR '':''" "\<not> is_white CHR ''.''" "\<not> is_white CHR ''[''" "\<not> is_white CHR '']''"
  by (simp_all add: is_white_def)

lemma rt_text_field: "field CHR ''/'' (rt_text x)"
  using rt_text_ne[of x] rt_text_chars[of _ x] digit_not_punct punct_not_white by (fastforce simp: field_def)

lemma list_text_field:
  assumes "xs \<noteq> []" and "d \<in> set ''[]{}:,.''"
  shows "field d (list_text xs)"
  using list_text_ne[OF assms(1)] list_text_chars[of _ xs] digit_not_punct punct_not_white assms(2) by (fastforce simp: field_def)

lemma parse_list:
  assumes "list_ok (8 * length p) xs" and "length p \<le> 4096"
  shows "\<exists>p'. pg_parse_rt_list (list_text xs) p = Inr (0, p') \<and> length p' = length p \<and> bits_of p' = bits_of p \<union> list_set xs"
proof -
  have "pg_strparse (list_text xs) ''/'' 33 = map rt_text xs"
    using strparse_joined[of "map rt_text xs" "CHR ''/''" 33] rt_text_field assms(1) by (auto simp: list_text_def list_ok_def)
  then show ?thesis using rt_items_bits[of xs p] assms by (auto simp: pg_parse_rt_list_def list_ok_def list_set_def)
qed

lemma trim_bracket:
  assumes "s \<noteq> []" and "hd s \<noteq> CHR ''}''"
  shows "pg_strtrimset (''['' @ s @ '']'') (trim_sets (NUL # a)) = Inr (Some s)"
proof -
  let ?m = "trim_sets (NUL # a)"
  have t: "takeWhile (\<lambda>c. c \<noteq> NUL) ?m = ''[]{}''" by (simp add: trim_sets_def)
  have "strtrimset_loop ?m 5 s = Inr s" by (subst strtrimset_loop.simps) (simp add: trim_sets_def)
  then have "strtrimset_loop ?m 3 s = Inr s" using assms by (subst strtrimset_loop.simps) (simp add: trim_sets_def)
  moreover have "drop_last_eq (s @ '']'') CHR '']'' = s" by (simp add: drop_last_eq_def)
  ultimately have "strtrimset_loop ?m 0 (''['' @ s @ '']'') = Inr s" by (subst strtrimset_loop.simps) (simp add: trim_sets_def)
  then show ?thesis unfolding pg_strtrimset_def t by simp
qed

lemma parse_pair_text:
  assumes "list_ok (8 * length r) rs" and "list_ok (8 * length t) ts" and "length r \<le> 4096" and "length t \<le> 4096"
  shows "\<exists>r' t'. parse_pair (NUL # a) (pair_text rs ts) (r, t) = Inr (0, r', t') \<and> length r' = length r \<and> length t' = length t \<and>
    bits_of r' = bits_of r \<union> list_set rs \<and> bits_of t' = bits_of t \<union> list_set ts"
proof -
  let ?s = "list_text rs @ '':'' @ list_text ts"
  have ne: "rs \<noteq> []" "ts \<noteq> []" using assms by (auto simp: list_ok_def)
  then have "hd (list_text rs) \<in> set (list_text rs)" using list_text_ne by simp
  then have "hd (list_text rs) \<noteq> CHR ''}''" using list_text_chars digit_not_punct[of "hd (list_text rs)"] by fastforce
  then have trim: "pg_strtrimset (pair_text rs ts) (trim_sets (NUL # a)) = Inr (Some ?s)"
    using trim_bracket[of ?s a] list_text_ne[OF ne(1)] by (simp add: pair_text_def)
  have "field CHR '':'' (list_text rs)" "field CHR '':'' (list_text ts)" using ne by (simp_all add: list_text_field)
  then have p: "pg_strparse ?s '':'' 3 = [list_text rs, list_text ts]"
    using strparse_joined[of "[list_text rs, list_text ts]" "CHR '':''" 3] by simp
  obtain r' where r': "pg_parse_rt_list (list_text rs) r = Inr (0, r')" "length r' = length r" "bits_of r' = bits_of r \<union> list_set rs"
    using parse_list[OF assms(1,3)] by blast
  obtain t' where t': "pg_parse_rt_list (list_text ts) t = Inr (0, t')" "length t' = length t" "bits_of t' = bits_of t \<union> list_set ts"
    using parse_list[OF assms(2,4)] by blast
  show ?thesis unfolding parse_pair_def trim rbind_Inr option.case p Let_def using r' t' by simp
qed

section \<open>The matrix connects\<close>

record entry =
  e_lr :: "rt list"
  e_lt :: "rt list"
  e_pr :: "rt list"
  e_pt :: "rt list"

definition entry_text :: "entry \<Rightarrow> string" where
  "entry_text e = pair_text (e_lr e) (e_lt e) @ ''.'' @ pair_text (e_pr e) (e_pt e)"

definition entry_ok :: "entry \<Rightarrow> bool" where
  "entry_ok e \<longleftrightarrow> list_ok n_lcores (e_lr e) \<and> list_ok n_lcores (e_lt e) \<and> list_ok n_ports (e_pr e) \<and> list_ok n_ports (e_pt e) \<and> length (entry_text e) \<le> 127"

definition entry_type :: "entry \<Rightarrow> nat \<Rightarrow> u16" where
  "entry_type e i = (if i \<in> list_set (e_lr e) then RX_TYPE else 0) OR (if i \<in> list_set (e_lt e) then TX_TYPE else 0)"

definition entry_conns :: "entry \<Rightarrow> conn list" where
  "entry_conns e =
     concat (map (\<lambda>i. map (\<lambda>p. (p, i, entry_type e i)) (filter (\<lambda>p. p \<in> list_set (e_pr e) \<union> list_set (e_pt e)) [0..<n_ports]))
       (filter (\<lambda>i. entry_type e i \<noteq> 0) [0..<n_lcores]))"

definition matrix_text :: "entry list \<Rightarrow> string" where
  "matrix_text es = joined '', '' (map entry_text es)"

lemma rfold_filter: "rfold f l (filter P xs) = rfold (\<lambda>l x. if P x then f l x else Inr l) l xs"
  by (induction xs arbitrary: l) auto

lemma rfold_map: "rfold f l (map g xs) = rfold (\<lambda>l x. f l (g x)) l xs"
  by (induction xs arbitrary: l) (auto intro: rbind_cong)

lemma rfold_concat: "rfold f l (concat xss) = rfold (\<lambda>l xs. rfold f l xs) l xss"
  by (induction xss arbitrary: l) (auto simp: rfold_append)

lemma rfold_cong: "(\<And>l x. x \<in> set xs \<Longrightarrow> f l x = g l x) \<Longrightarrow> rfold f l xs = rfold g l xs"
  by (induction xs arbitrary: l) (auto intro: rbind_cong)

lemma bits_type_at:
  assumes "i < 8 * length r" and "i < 8 * length t" and "i < 65536"
  shows "bits_type r t i = Inr ((if i \<in> bits_of r then RX_TYPE else 0) OR (if i \<in> bits_of t then TX_TYPE else 0))"
proof -
  have "unat (of_nat i :: u16) = i" using assms(3) by (simp add: unat_of_nat)
  then show ?thesis using btst_bits[OF assms(1)] btst_bits[OF assms(2)] by (simp add: bits_type_def)
qed

lemma type_zero: "(if a then RX_TYPE else 0) OR (if b then TX_TYPE else 0) = 0 \<longleftrightarrow> \<not> a \<and> \<not> b"
  by (simp add: RX_TYPE_def TX_TYPE_def)

lemma connect_lcores_all:
  assumes "length (ls_rbits lc) = 16" "length (ls_tbits lc) = 16" "length (ps_rbits pt) = 4" "length (ps_tbits pt) = 4"
    and "bits_of (ls_rbits lc) = list_set (e_lr e)" "bits_of (ls_tbits lc) = list_set (e_lt e)"
    and "bits_of (ps_rbits pt) = list_set (e_pr e)" "bits_of (ps_tbits pt) = list_set (e_pt e)"
  shows "rfold (connect_lcore lc pt) l [0..<n_lcores] = connect_all l (entry_conns e)"
proof -
  let ?P = "\<lambda>p. p \<in> list_set (e_pr e) \<union> list_set (e_pt e)"
  have ty: "bits_type (ls_rbits lc) (ls_tbits lc) i = Inr (entry_type e i)" if "i < n_lcores" for i
    using that assms bits_type_at[of i] by (simp add: entry_type_def n_lcores_def)
  have pt: "bits_type (ps_rbits pt) (ps_tbits pt) p = Inr ((if p \<in> list_set (e_pr e) then RX_TYPE else 0) OR (if p \<in> list_set (e_pt e) then TX_TYPE else 0))"
    if "p < n_ports" for p using that assms bits_type_at[of p] by (simp add: n_ports_def)
  have "connect_lcore lc pt l i = (if entry_type e i \<noteq> 0 then rfold (\<lambda>l p. l2p_connect l p i (entry_type e i)) l (filter ?P [0..<n_ports]) else Inr l)"
    if "i < n_lcores" for l i
  proof -
    have "rfold (\<lambda>l p. rbind (bits_type (ps_rbits pt) (ps_tbits pt) p) (\<lambda>pty. if pty \<noteq> 0 then l2p_connect l p i (entry_type e i) else Inr l)) l [0..<n_ports]
      = rfold (\<lambda>l p. l2p_connect l p i (entry_type e i)) l (filter ?P [0..<n_ports])"
      unfolding rfold_filter by (rule rfold_cong) (auto simp: pt type_zero)
    then show ?thesis using ty[OF that] by (simp add: connect_lcore_def)
  qed
  then show ?thesis unfolding connect_all_def entry_conns_def rfold_concat rfold_map rfold_filter
    by (intro rfold_cong) (simp add: rfold_map rfold_filter cong: if_cong)
qed

lemma entry_text_field: "entry_ok e \<Longrightarrow> field CHR '','' (entry_text e)"
  using list_text_field[of "e_lr e" "CHR '',''"] list_text_field[of "e_lt e" "CHR '',''"] list_text_field[of "e_pr e" "CHR '',''"] list_text_field[of "e_pt e" "CHR '',''"]
  by (auto simp: entry_ok_def list_ok_def entry_text_def pair_text_def field_def punct_not_white)

lemma pair_text_field:
  assumes "rs \<noteq> []" and "ts \<noteq> []"
  shows "field CHR ''.'' (pair_text rs ts)"
  using list_text_field[OF assms(1), of "CHR ''.''"] list_text_field[OF assms(2), of "CHR ''.''"] by (auto simp: pair_text_def field_def punct_not_white)

lemma bits_of_zero: "bits_of (replicate n 0) = {}"
  by (auto simp: bits_of_def)

lemma zero_bits: "bits_of (ls_rbits ls_zero) = {}" "bits_of (ls_tbits ls_zero) = {}" "bits_of (ps_rbits ps_zero) = {}" "bits_of (ps_tbits ps_zero) = {}"
  by (simp_all only: ls_zero_def ps_zero_def ls.simps ps.simps bits_of_zero)

lemma zero_lengths: "length (ls_rbits ls_zero) = 16" "length (ls_tbits ls_zero) = 16" "length (ps_rbits ps_zero) = 4" "length (ps_tbits ps_zero) = 4"
  by (simp_all add: ls_zero_def ps_zero_def n_lcores_def n_ports_def)

lemma matrix_entry_text:
  assumes "entry_ok e"
  shows "matrix_entry (NUL # a) l (entry_text e) = rbind (connect_all l (entry_conns e)) (\<lambda>l'. Inr (0, l'))"
proof -
  have ok: "list_ok n_lcores (e_lr e)" "list_ok n_lcores (e_lt e)" "list_ok n_ports (e_pr e)" "list_ok n_ports (e_pt e)" "length (entry_text e) \<le> 127"
    using assms by (auto simp: entry_ok_def)
  have "field CHR ''.'' (pair_text (e_lr e) (e_lt e))" "field CHR ''.'' (pair_text (e_pr e) (e_pt e))"
    using ok pair_text_field by (simp_all add: list_ok_def)
  then have p: "pg_strparse (take 127 (entry_text e)) ''.'' 3 = [pair_text (e_lr e) (e_lt e), pair_text (e_pr e) (e_pt e)]"
    using strparse_joined[of "[pair_text (e_lr e) (e_lt e), pair_text (e_pr e) (e_pt e)]" "CHR ''.''" 3] ok(5) by (simp add: entry_text_def)
  obtain r t where lc: "parse_pair (NUL # a) (pair_text (e_lr e) (e_lt e)) (ls_rbits ls_zero, ls_tbits ls_zero) = Inr (0, r, t)" "length r = 16" "length t = 16"
    "bits_of r = list_set (e_lr e)" "bits_of t = list_set (e_lt e)"
    using parse_pair_text[of "ls_rbits ls_zero" "e_lr e" "ls_tbits ls_zero" "e_lt e" a] ok(1,2) by (auto simp: zero_bits zero_lengths n_lcores_def)
  obtain r' t' where pt: "parse_pair (NUL # a) (pair_text (e_pr e) (e_pt e)) (ps_rbits ps_zero, ps_tbits ps_zero) = Inr (0, r', t')" "length r' = 4" "length t' = 4"
    "bits_of r' = list_set (e_pr e)" "bits_of t' = list_set (e_pt e)"
    using parse_pair_text[of "ps_rbits ps_zero" "e_pr e" "ps_tbits ps_zero" "e_pt e" a] ok(3,4) by (auto simp: zero_bits zero_lengths n_ports_def)
  have "rfold (connect_lcore (ls_zero\<lparr>ls_rbits := r, ls_tbits := t\<rparr>) (ps_zero\<lparr>ps_rbits := r', ps_tbits := t'\<rparr>)) l [0..<n_lcores] = connect_all l (entry_conns e)"
    using lc pt by (intro connect_lcores_all) simp_all
  then show ?thesis unfolding matrix_entry_def p Let_def using lc(1) pt(1) by (simp add: pg_parse_lcore_list_def pg_parse_port_list_def)
qed

lemma connect_all_append: "connect_all l (cs @ ds) = rbind (connect_all l cs) (\<lambda>l'. connect_all l' ds)"
  by (simp add: connect_all_def rfold_append)

lemma rbind_assoc: "rbind (rbind r f) g = rbind r (\<lambda>x. rbind (f x) g)"
  by (cases r) auto

lemma matrix_entries_text:
  "\<forall>e \<in> set es. entry_ok e \<Longrightarrow> matrix_entries (NUL # a) l (map entry_text es) = rbind (connect_all l (concat (map entry_conns es))) (\<lambda>l'. Inr (0, l'))"
proof (induction es arbitrary: l)
  case Nil
  then show ?case by (simp add: connect_all_def)
next
  case (Cons e es)
  then show ?case by (simp add: matrix_entry_text connect_all_append rbind_assoc)
qed

lemma filter_joined:
  assumes "\<forall>g \<in> set gs. \<forall>c \<in> set g. \<not> is_white c"
  shows "filter (\<lambda>c. c \<noteq> CHR '' '' \<and> c \<noteq> CHR 0x0D) (joined '', '' gs) = joined '','' gs"
  using assms by (induction "'', ''" gs rule: joined.induct) (auto simp: is_white_def filter_id_conv)

lemma parse_matrix_text:
  assumes "es \<noteq> []" and "\<forall>e \<in> set es. entry_ok e" and "length es \<le> 128" and "length (joined '','' (map entry_text es)) < 512"
  shows "pg_parse_matrix (NUL # a) l (matrix_text es) =
    rbind (connect_all l (concat (map entry_conns es))) (\<lambda>l1.
    rbind (rfold count_lcores l1 [0..<n_ports]) (\<lambda>l2.
    rbind (rfold count_ports l2 [0..<n_lcores]) (\<lambda>l3. Inr (0, l3))))"
proof -
  have f: "\<forall>g \<in> set (map entry_text es). field CHR '','' g" using assms(2) entry_text_field by auto
  then have "filter (\<lambda>c. c \<noteq> CHR '' '' \<and> c \<noteq> CHR 0x0D) (matrix_text es) = joined '','' (map entry_text es)"
    unfolding matrix_text_def by (intro filter_joined) (auto simp: field_def)
  then have c: "pg_strccpy 512 (matrix_text es) matrix_skip = Inr (joined '','' (map entry_text es))"
    using strccpy_filter[of "[]" "matrix_text es" 512] assms(4) by (simp add: pg_strccpy_def)
  have p: "pg_strparse (joined '','' (map entry_text es)) '','' 129 = map entry_text es"
    using strparse_joined[OF f, of 129] assms(3) by simp
  have ne: "map entry_text es \<noteq> []" using assms(1) by simp
  show ?thesis unfolding pg_parse_matrix_def c rbind_Inr p Let_def matrix_entries_text[OF assms(2)] using ne by (simp add: rbind_assoc)
qed

section \<open>What the map answers\<close>

lemma dir_cell:
  assumes "dir_ok q cnt arr cell sel l cs" and "conns_ok cs" and "p < n_ports" and "i < n_lcores"
  shows "cell (l2p_map l ! p ! i) \<noteq> 0 \<longleftrightarrow> i \<in> set (lids_of sel cs p)"
proof -
  have "cell (l2p_map l ! p ! i) = of_nat (count_list (lids_of sel cs p) i)" using assms(1,3,4) unfolding dir_ok_def by blast
  then show ?thesis using cell_nonzero[of "lids_of sel cs p" i] lids_of_distinct[OF assms(2), of sel p] by metis
qed

lemma cells_of:
  assumes "l2p_of l cs" and "p < n_ports" and "i < n_lcores"
  shows "fst (l2p_map l ! p ! i) \<noteq> 0 \<longleftrightarrow> i \<in> set (lids_of is_rx cs p)" and "snd (l2p_map l ! p ! i) \<noteq> 0 \<longleftrightarrow> i \<in> set (lids_of is_tx cs p)"
  using assms dir_cell[of rx_qid rx_cnt pq_rx fst is_rx l cs p i] dir_cell[of tx_qid tx_cnt pq_tx snd is_tx l cs p i]
  unfolding l2p_of_def by blast+

lemma lids_pids: "i \<in> set (lids_of sel cs p) \<longleftrightarrow> p \<in> set (pids_of sel cs i)"
  by (simp add: in_lids_of in_pids_of)

lemma port_total_of:
  assumes "l2p_of l cs" and "p < n_ports"
  shows "port_total l p = (of_nat (length (lids_of is_rx cs p)), of_nat (length (lids_of is_tx cs p)))"
proof -
  have ok: "conns_ok cs" using assms(1) by (simp add: l2p_of_def)
  have "filter (\<lambda>i. fst (l2p_map l ! p ! i) \<noteq> 0) [0..<n_lcores] = filter (\<lambda>i. i \<in> set (lids_of is_rx cs p)) [0..<n_lcores]"
    "filter (\<lambda>i. snd (l2p_map l ! p ! i) \<noteq> 0) [0..<n_lcores] = filter (\<lambda>i. i \<in> set (lids_of is_tx cs p)) [0..<n_lcores]"
    using cells_of[OF assms] by (auto intro!: filter_cong_upt)
  then show ?thesis using lids_of_distinct[OF ok] by (simp add: port_total_def length_filter_mem)
qed

lemma lcore_total_of:
  assumes "l2p_of l cs" and "i < n_lcores"
  shows "lcore_total l i = (of_nat (length (pids_of is_rx cs i)), of_nat (length (pids_of is_tx cs i)))"
proof -
  have ok: "conns_ok cs" using assms(1) by (simp add: l2p_of_def)
  have "filter (\<lambda>p. fst (l2p_map l ! p ! i) \<noteq> 0) [0..<n_ports] = filter (\<lambda>p. p \<in> set (pids_of is_rx cs i)) [0..<n_ports]"
    "filter (\<lambda>p. snd (l2p_map l ! p ! i) \<noteq> 0) [0..<n_ports] = filter (\<lambda>p. p \<in> set (pids_of is_tx cs i)) [0..<n_ports]"
    using cells_of[OF assms(1) _ assms(2)] lids_pids by (auto intro!: filter_cong_upt)
  then show ?thesis using pids_of_distinct[OF ok] by (simp add: lcore_total_def length_filter_mem)
qed

text \<open>The answers of the map for a port and for an lcore.\<close>

definition port_answers :: "l2p \<Rightarrow> conn list \<Rightarrow> nat \<Rightarrow> bool" where
  "port_answers l cs p \<longleftrightarrow>
     get_port_rxcnt l p = Inr (of_nat (length (lids_of is_rx cs p))) \<and> get_port_txcnt l p = Inr (of_nat (length (lids_of is_tx cs p))) \<and>
     (\<forall>k<length (lids_of is_rx cs p). get_rxque l (lids_of is_rx cs p ! k) p = Inr (of_nat k)) \<and>
     (\<forall>k<length (lids_of is_tx cs p). get_txque l (lids_of is_tx cs p ! k) p = Inr (of_nat k)) \<and>
     get_map l p n_lcores = Inr (of_nat (length (lids_of is_rx cs p)), of_nat (length (lids_of is_tx cs p)))"

definition lcore_answers :: "l2p \<Rightarrow> conn list \<Rightarrow> nat \<Rightarrow> bool" where
  "lcore_answers l cs i \<longleftrightarrow>
     get_lcore_rxcnt l i = Inr (of_nat (length (pids_of is_rx cs i))) \<and> get_lcore_txcnt l i = Inr (of_nat (length (pids_of is_tx cs i))) \<and>
     (\<forall>k<length (pids_of is_rx cs i). get_rx_pid l i k = Inr (of_nat (pids_of is_rx cs i ! k))) \<and>
     (\<forall>k<length (pids_of is_tx cs i). get_tx_pid l i k = Inr (of_nat (pids_of is_tx cs i ! k))) \<and>
     get_map l n_ports i = Inr (of_nat (length (pids_of is_rx cs i)), of_nat (length (pids_of is_tx cs i)))"

lemma nth_of_take: "take n xs = map f ys \<Longrightarrow> n = length ys \<Longrightarrow> k < n \<Longrightarrow> k < length xs \<and> xs ! k = f (ys ! k)"
  by (metis length_map length_take min_less_iff_conj nth_map nth_take)

lemma totals_of:
  assumes "l2p_of l cs"
  shows "\<exists>l'. rbind (rfold count_lcores l [0..<n_ports]) (\<lambda>l2. rfold count_ports l2 [0..<n_lcores]) = Inr l' \<and> l2p_of l' cs \<and>
    (\<forall>p<n_ports. l2p_map l' ! p ! n_lcores = (of_nat (length (lids_of is_rx cs p)), of_nat (length (lids_of is_tx cs p)))) \<and>
    (\<forall>i<n_lcores. l2p_map l' ! n_ports ! i = (of_nat (length (pids_of is_rx cs i)), of_nat (length (pids_of is_tx cs i))))"
proof -
  have w: "l2p_wf l" using assms by (simp add: l2p_of_def)
  obtain l1 where l1: "rfold count_lcores l [0..<n_ports] = Inr l1" "cells_eq l l1" "\<forall>p<n_ports. l2p_map l1 ! p ! n_lcores = port_total l p"
    using all_port_totals[OF w, of n_ports] by auto
  obtain l2 where l2: "rfold count_ports l1 [0..<n_lcores] = Inr l2" "cells_eq l1 l2" "\<forall>p<n_ports. l2p_map l2 ! p = l2p_map l1 ! p"
    "\<forall>i<n_lcores. l2p_map l2 ! n_ports ! i = lcore_total l1 i"
    using all_lcore_totals[of l1 n_lcores] l1(2) by (auto simp: cells_eq_def)
  have c: "cells_eq l l2" using l1(2) l2(2) by (simp add: cells_eq_def)
  have "l2p_of l2 cs" using assms c by (simp add: l2p_of_def cells_eq_def dir_ok_def lids_ok_def)
  then show ?thesis using l1 l2 port_total_of[OF assms] lcore_total_of[OF assms] total_cong(2)[OF l1(2)] by simp
qed

lemma answers_of:
  assumes "l2p_of l cs"
    and "\<forall>p<n_ports. l2p_map l ! p ! n_lcores = (of_nat (length (lids_of is_rx cs p)), of_nat (length (lids_of is_tx cs p)))"
    and "\<forall>i<n_lcores. l2p_map l ! n_ports ! i = (of_nat (length (pids_of is_rx cs i)), of_nat (length (pids_of is_tx cs i)))"
  shows "p < n_ports \<Longrightarrow> port_answers l cs p" and "i < n_lcores \<Longrightarrow> lcore_answers l cs i"
proof -
  have w: "l2p_wf l" and ok: "conns_ok cs" and rx: "dir_ok rx_qid rx_cnt pq_rx fst is_rx l cs" and tx: "dir_ok tx_qid tx_cnt pq_tx snd is_tx l cs"
    using assms(1) by (auto simp: l2p_of_def)
  note n = l2p_wf_nth[OF w]
  have lt: "lids_of sel cs p ! k < n_lcores" if "k < length (lids_of sel cs p)" for sel p k
    using lids_of_distinct[OF ok, of sel p] nth_mem[OF that] by blast
  have wf: "length (pq_rx (lo_qids (l2p_lcores l ! j))) = n_ports \<and> length (pq_tx (lo_qids (l2p_lcores l ! j))) = n_ports" if "j < n_lcores" for j
    using n(1)[OF that] by (simp add: lobj_wf_def pq_wf_def)
  show "port_answers l cs p" if "p < n_ports"
    unfolding port_answers_def get_port_rxcnt_def get_port_txcnt_def get_rxque_def get_txque_def get_map_def
    using that rx tx n lt wf assms(2) map_cell_at[OF w, of p n_lcores] by (simp add: at_def dir_ok_def)
  show "lcore_answers l cs i" if "i < n_lcores"
  proof -
    have "k < length (pids_of is_rx cs i) \<Longrightarrow> k < length (pq_rx (lo_pids (l2p_lcores l ! i))) \<and> pq_rx (lo_pids (l2p_lcores l ! i)) ! k = of_nat (pids_of is_rx cs i ! k)"
      "k < length (pids_of is_tx cs i) \<Longrightarrow> k < length (pq_tx (lo_pids (l2p_lcores l ! i))) \<and> pq_tx (lo_pids (l2p_lcores l ! i)) ! k = of_nat (pids_of is_tx cs i ! k)" for k
      using rx tx that by (auto simp: dir_ok_def dest!: nth_of_take[where k = k])
    then show ?thesis
      unfolding lcore_answers_def get_lcore_rxcnt_def get_lcore_txcnt_def get_rx_pid_def get_tx_pid_def get_map_def
      using that rx tx n assms(3) map_cell_at[OF w, of n_ports i] by (simp add: at_def dir_ok_def)
  qed
qed

section \<open>Properties\<close>


definition sample_matrix :: "entry list" where
  "sample_matrix =
     [\<lparr>e_lr = [One 1], e_lt = [Span 2 3], e_pr = [One 0], e_pt = [One 0]\<rparr>,
      \<lparr>e_lr = [One 4], e_lt = [One 4, One 6], e_pr = [One 1], e_pt = [One 1]\<rparr>]"

lemma sample_text: "matrix_text sample_matrix = ''[1:2-3].[0:0], [4:4/6].[1:1]''"
  by code_simp

lemma sample_conns: "concat (map entry_conns sample_matrix) = [(0, 1, 1), (0, 2, 2), (0, 3, 2), (1, 4, 3), (1, 6, 2)]"
  by code_simp




lemma trim_reads_behind: "s \<noteq> [] \<Longrightarrow> hd s \<noteq> CHR ''}'' \<Longrightarrow> pg_strtrimset (CHR ''['' # s) (trim_sets []) = Inl Fault"
proof -
  assume s: "s \<noteq> []" "hd s \<noteq> CHR ''}''"
  let ?m = "trim_sets []" and ?s = "drop_last_eq s CHR '']''"
  have "strtrimset_loop ?m 5 ?s = Inl Fault" by (subst strtrimset_loop.simps) (simp add: trim_sets_def)
  moreover have "?s = [] \<or> hd ?s \<noteq> CHR ''}''" using s by (cases s rule: rev_cases) (auto simp: drop_last_eq_def hd_append split: if_splits)
  ultimately have "strtrimset_loop ?m 3 ?s = Inl Fault" by (subst strtrimset_loop.simps) (auto simp: trim_sets_def)
  then have "strtrimset_loop ?m 0 (CHR ''['' # s) = Inl Fault" by (subst strtrimset_loop.simps) (simp add: trim_sets_def)
  moreover have "takeWhile (\<lambda>c. c \<noteq> NUL) ?m = ''[]{}''" by (simp add: trim_sets_def)
  ultimately show ?thesis unfolding pg_strtrimset_def by simp
qed

text \<open>
  A list of lcores that is a range without a colon, which the comment at \<open>pg_parse_matrix\<close> gives to both
  directions, makes only its first lcore send: the parser ends the string at the dash when it reads it for the
  receive side. And when the byte behind the set of brackets cannot be read, the parser faults on every list in brackets.
\<close>

theorem lcore_range_sends_on_first:
  assumes "x < y" and "y < n_lcores"
  shows "(\<exists>lc. pg_parse_lcore_list (NUL # a) (''['' @ rt_text (Span x y) @ '']'') ls_zero = Inr (0, lc) \<and>
      bits_of (ls_rbits lc) = {x..y} \<and> bits_of (ls_tbits lc) = {x}) \<and>
    pg_parse_lcore_list [] (''['' @ rt_text (Span x y) @ '']'') ls_zero = Inl Fault"
proof -
  let ?s = "rt_text (Span x y)"
  have ok: "rt_ok (8 * 16) (Span x y)" "rt_ok (8 * 16) (One x)" using assms by (simp_all add: n_lcores_def)
  have s: "?s = list_text [Span x y]" and f: "fmt_d x = list_text [One x]" by (simp_all add: list_text_def)
  have d: "is_digit (hd ?s)" using fmt_d_is_digit[of _ x] fmt_d_digits[of x] by simp
  then have h: "?s \<noteq> []" "hd ?s \<noteq> CHR ''}''" "\<not> is_white (hd ?s)" "hd ?s \<noteq> CHR ''/''" using digit_not_punct[of "hd ?s"] rt_text_ne by auto
  have p: "pg_strparse ?s '':'' 3 = [?s]" using strparse_joined[of "[?s]" "CHR '':''" 3] list_text_field[of "[Span x y]" "CHR '':''"] s by simp
  have fl: "field CHR ''/'' ?s" by (rule rt_text_field)
  have "takeWhile (\<lambda>c. c = CHR ''/'') ?s = []" "takeWhile is_white ?s = []" using h by (cases "?s"; simp)+
  then have left: "rt_left ?s = fmt_d x"
    using strtok_field(1)[OF fl] strtrim_plain[of ?s] fl while_sep(1)[OF no_dash[of x], of "fmt_d y"] by (simp add: rt_left_def field_def)
  obtain r where r: "pg_parse_rt_list ?s (ls_rbits ls_zero) = Inr (0, r)" "bits_of r = {x..y}"
    using parse_list[of "ls_rbits ls_zero" "[Span x y]"] ok by (auto simp: s list_ok_def list_set_def zero_bits zero_lengths simp del: rt_text.simps)
  obtain t where t: "pg_parse_rt_list (fmt_d x) (ls_tbits ls_zero) = Inr (0, t)" "bits_of t = {x}"
    using parse_list[of "ls_tbits ls_zero" "[One x]"] ok by (auto simp: f list_ok_def list_set_def zero_bits zero_lengths)
  have "parse_pair (NUL # a) (''['' @ ?s @ '']'') (ls_rbits ls_zero, ls_tbits ls_zero) = Inr (0, r, t)"
    unfolding parse_pair_def trim_bracket[OF h(1,2)] rbind_Inr option.case p Let_def using h(1) r(1) t(1) left by (simp del: rt_text.simps)
  moreover have "parse_pair [] (''['' @ ?s @ '']'') (ls_rbits ls_zero, ls_tbits ls_zero) = Inl Fault"
    using trim_reads_behind[of "?s @ '']''"] h by (simp add: parse_pair_def del: rt_text.simps)
  ultimately show ?thesis using r(2) t(2) by (auto simp: pg_parse_lcore_list_def simp del: rt_text.simps)
qed

theorem lcore_range_sends_on_first_witness:
  "\<exists>lc. pg_parse_lcore_list [NUL] ''[0-1]'' ls_zero = Inr (0, lc) \<and> bits_of (ls_rbits lc) = {0..1} \<and> bits_of (ls_tbits lc) = {0}"
proof -
  have "''['' @ rt_text (Span 0 1) @ '']'' = ''[0-1]''" by code_simp
  then show ?thesis using lcore_range_sends_on_first[of 0 1 "[]"] by (simp add: n_lcores_def del: rt_text.simps)
qed

end
