(* ===== verification/Heap.thy ===== *)
theory Heap
  imports Prelude
begin

text \<open>
  The shared heap (lib/utils/heap.c): a first-fit allocator whose free list lives in the free
  memory itself. The memory is a map from addresses to the list entry stored there (\<open>hp_mem\<close>) and
  to the size word \<open>heap_malloc\<close> stores before a block (\<open>hp_word\<close>); the link fields are the only
  part of it the allocator reads. The size word shares its place with the link of a free entry;
  they are kept apart because a block is either handed out or in the list. Walking the list takes fuel, and the theorems say that the
  length of the list is enough. Spinlocks are not modelled: every function holds the lock for
  its whole body. On a well-formed list \<open>heap_alloc\<close> refines a first fit on lists of regions.
\<close>

section \<open>The allocator\<close>

record heap_entry =
  he_next :: "nat option"
  he_size :: nat

text \<open>\<open>hp_last\<close> is the tail pointer of the queue: \<open>None\<close> points at the head, \<open>Some a\<close> at the link of entry \<open>a\<close>.\<close>

record heap =
  hp_first :: "nat option"
  hp_last :: "nat option"
  hp_addr :: nat
  hp_total :: nat
  hp_mem :: "nat \<Rightarrow> heap_entry"
  hp_word :: "nat \<Rightarrow> nat"

definition sizeof_entry :: nat where
  "sizeof_entry = 16"

definition add64 :: "nat \<Rightarrow> nat \<Rightarrow> nat" where
  "add64 a b = (a + b) mod 2 ^ 64"

definition sub64 :: "nat \<Rightarrow> nat \<Rightarrow> nat" where
  "sub64 a b = nat ((int a - int b) mod 2 ^ 64)"

definition set_next :: "nat option \<Rightarrow> nat option \<Rightarrow> heap \<Rightarrow> heap" where
  "set_next p v h =
     (case p of
        None \<Rightarrow> h\<lparr>hp_first := v\<rparr>
      | Some a \<Rightarrow> h\<lparr>hp_mem := (hp_mem h)(a := (hp_mem h a)\<lparr>he_next := v\<rparr>)\<rparr>)"

definition insert_tail :: "nat \<Rightarrow> heap \<Rightarrow> heap" where
  "insert_tail p h = (set_next (hp_last h) (Some p) (set_next (Some p) None h))\<lparr>hp_last := Some p\<rparr>"

definition heap_create :: "(nat \<Rightarrow> heap_entry) \<Rightarrow> (nat \<Rightarrow> nat) \<Rightarrow> nat \<Rightarrow> nat \<Rightarrow> heap option" where
  "heap_create m w addr sz =
     (if sz < sizeof_entry then None
      else Some (insert_tail addr
        \<lparr>hp_first = None, hp_last = None, hp_addr = addr, hp_total = sz, hp_mem = m(addr := \<lparr>he_next = None, he_size = sz\<rparr>), hp_word = w\<rparr>))"

text \<open>The search for the entry after which a block is linked; \<open>p < NULL\<close> is false.\<close>

fun find_before :: "nat \<Rightarrow> heap \<Rightarrow> nat \<Rightarrow> nat option \<Rightarrow> nat option res" where
  "find_before f h p None = Inr None"
| "find_before 0 h p (Some q) = Inl Hang"
| "find_before (Suc f) h p (Some q) =
     (case he_next (hp_mem h q) of
        None \<Rightarrow> find_before f h p None
      | Some n \<Rightarrow> if p < n then Inr (Some q) else find_before f h p (Some n))"

definition put_entry :: "nat \<Rightarrow> heap_entry \<Rightarrow> heap \<Rightarrow> heap" where
  "put_entry a e h = h\<lparr>hp_mem := (hp_mem h)(a := e)\<rparr>"

text \<open>
  Linking block \<open>p\<close> after \<open>q\<close>. When it touches the next entry, the code adds the size of \<open>q\<close> and
  not of that entry.
\<close>

definition link_upper :: "nat \<Rightarrow> nat \<Rightarrow> nat \<Rightarrow> nat \<Rightarrow> heap \<Rightarrow> heap" where
  "link_upper p sz q n h =
     (if add64 p sz = n
      then put_entry p \<lparr>he_next = he_next (hp_mem h n), he_size = add64 (he_size (hp_mem h p)) (he_size (hp_mem h q))\<rparr> h
      else set_next (Some p) (Some n) h)"

definition link_lower :: "nat \<Rightarrow> nat \<Rightarrow> heap \<Rightarrow> heap" where
  "link_lower p q h =
     (if add64 q (he_size (hp_mem h q)) = p
      then put_entry q \<lparr>he_next = he_next (hp_mem h p), he_size = add64 (he_size (hp_mem h q)) (he_size (hp_mem h p))\<rparr> h
      else set_next (Some q) (Some p) h)"

definition heap_free :: "nat \<Rightarrow> heap \<Rightarrow> nat \<Rightarrow> nat \<Rightarrow> (int \<times> heap) res" where
  "heap_free f h p sz =
     (if p = 0 \<or> sz = 0 then Inr (- 1, h)
      else
        let h1 = put_entry p \<lparr>he_next = None, he_size = sz\<rparr> h in
        rbind (find_before f h1 p (hp_first h1)) (\<lambda>q.
          case q of
            None \<Rightarrow> Inr (0, insert_tail p h1)
          | Some q \<Rightarrow>
              (case he_next (hp_mem h1 q) of
                 None \<Rightarrow> Inl Fault
               | Some n \<Rightarrow> Inr (0, link_lower p q (link_upper p sz q n h1)))))"

text \<open>\<open>RTE_ALIGN_CEIL\<close> wraps for sizes close to the largest number.\<close>

definition align_ceil :: "nat \<Rightarrow> nat" where
  "align_ceil sz = add64 sz (sizeof_entry - 1) div sizeof_entry * sizeof_entry"

definition alloc_size :: "nat \<Rightarrow> nat" where
  "alloc_size sz = (let n = align_ceil sz in if n < sizeof_entry then sizeof_entry else n)"

definition take_total :: "nat \<Rightarrow> heap \<Rightarrow> heap" where
  "take_total n h = h\<lparr>hp_total := sub64 (hp_total h) n\<rparr>"

fun alloc_loop :: "nat \<Rightarrow> nat \<Rightarrow> heap \<Rightarrow> nat option \<Rightarrow> nat \<Rightarrow> (nat option \<times> heap) res" where
  "alloc_loop 0 n h phd cur = Inl Hang"
| "alloc_loop (Suc f) n h phd cur =
     (let e = hp_mem h cur in
      if n = he_size e then Inr (Some cur, set_next phd (he_next e) (take_total n h))
      else if n \<le> sub64 (he_size e) sizeof_entry then
        Inr (Some cur, set_next phd (Some (add64 cur n))
          (put_entry (add64 cur n) \<lparr>he_next = he_next e, he_size = sub64 (he_size e) n\<rparr> (take_total n h)))
      else (case he_next e of None \<Rightarrow> Inr (None, h) | Some x \<Rightarrow> alloc_loop f n h (Some cur) x))"

definition heap_alloc :: "nat \<Rightarrow> heap \<Rightarrow> nat \<Rightarrow> (nat option \<times> heap) res" where
  "heap_alloc f h sz =
     (if sz = 0 then Inr (None, h)
      else
        case hp_first h of
          None \<Rightarrow> Inr (None, h)
        | Some cur \<Rightarrow> if alloc_size sz \<le> hp_total h then alloc_loop f (alloc_size sz) h None cur else Inr (None, h))"

definition heap_malloc :: "nat \<Rightarrow> heap \<Rightarrow> nat \<Rightarrow> (nat option \<times> heap) res" where
  "heap_malloc f h sz =
     (if sz = 0 then Inr (None, h)
      else
        let n = (if sz < sizeof_entry then sizeof_entry else sz) in
        rbind (heap_alloc f h (add64 n 8)) (\<lambda>(a, h').
          case a of None \<Rightarrow> Inr (None, h') | Some a \<Rightarrow> Inr (Some (add64 a 8), h'\<lparr>hp_word := (hp_word h')(a := add64 n 8)\<rparr>)))"

definition heap_mfree :: "nat \<Rightarrow> heap \<Rightarrow> nat \<Rightarrow> (int \<times> heap) res" where
  "heap_mfree f h addr =
     (if addr = 0 then Inr (0, h)
      else if addr mod 4 \<noteq> 0 then Inr (- 1, h)
      else let p = sub64 addr 8 in if hp_word h p = 0 then Inr (- 1, h) else heap_free f h p (hp_word h p))"

section \<open>Free lists\<close>

text \<open>The regions of a list of entries, and a list whose regions are in order and do not overlap.\<close>

fun chain :: "(nat \<Rightarrow> heap_entry) \<Rightarrow> nat option \<Rightarrow> (nat \<times> nat) list \<Rightarrow> bool" where
  "chain m p [] \<longleftrightarrow> p = None"
| "chain m p (as # xs) \<longleftrightarrow> p = Some (fst as) \<and> he_size (m (fst as)) = snd as \<and> chain m (he_next (m (fst as))) xs"

fun regions_ok :: "nat \<Rightarrow> nat \<Rightarrow> (nat \<times> nat) list \<Rightarrow> bool" where
  "regions_ok lo hi [] \<longleftrightarrow> lo \<le> hi"
| "regions_ok lo hi (as # xs) \<longleftrightarrow> lo \<le> fst as \<and> sizeof_entry \<le> snd as \<and> regions_ok (fst as + snd as) hi xs"

text \<open>First fit: a region of exactly the size, or one that leaves room for an entry.\<close>

fun first_fit :: "nat \<Rightarrow> (nat \<times> nat) list \<Rightarrow> (nat \<times> (nat \<times> nat) list) option" where
  "first_fit n [] = None"
| "first_fit n (as # xs) =
     (if n = snd as then Some (fst as, xs)
      else if n + sizeof_entry \<le> snd as then Some (fst as, (fst as + n, snd as - n) # xs)
      else map_option (\<lambda>r. (fst r, as # snd r)) (first_fit n xs))"

lemma regions_ok_hi: "regions_ok lo hi xs \<Longrightarrow> lo \<le> hi"
  by (induction xs arbitrary: lo) (auto simp: sizeof_entry_def, fastforce)

lemma regions_ok_mono: "regions_ok lo hi xs \<Longrightarrow> lo' \<le> lo \<Longrightarrow> regions_ok lo' hi xs"
  by (cases xs) auto

lemma regions_ok_member:
  "regions_ok lo hi xs \<Longrightarrow> (a, s) \<in> set xs \<Longrightarrow> lo \<le> a \<and> a + s \<le> hi \<and> sizeof_entry \<le> s"
proof (induction xs arbitrary: lo)
  case (Cons x xs)
  then show ?case using regions_ok_hi[of "fst x + snd x" hi xs] by fastforce
qed simp

lemma chain_same: "regions_ok lo hi xs \<Longrightarrow> chain m p xs \<Longrightarrow> (\<And>a. lo \<le> a \<Longrightarrow> m' a = m a) \<Longrightarrow> chain m' p xs"
proof (induction xs arbitrary: lo p)
  case (Cons x xs)
  have "chain m' (he_next (m (fst x))) xs" by (rule Cons.IH[of "fst x + snd x"]) (use Cons.prems in auto)
  then show ?case using Cons.prems by simp
qed simp

section \<open>Allocation is first fit\<close>

definition next_of :: "nat option \<Rightarrow> heap \<Rightarrow> nat option" where
  "next_of p h = (case p of None \<Rightarrow> hp_first h | Some a \<Rightarrow> he_next (hp_mem h a))"

lemma sub64_small: "b \<le> a \<Longrightarrow> a < 2 ^ 64 \<Longrightarrow> sub64 a b = a - b"
proof -
  assume "b \<le> a" "a < 2 ^ 64"
  then have "(int a - int b) mod 2 ^ 64 = int (a - b)" by (simp add: of_nat_diff)
  then show ?thesis by (simp only: sub64_def nat_int)
qed

lemma add64_small: "a + b < 2 ^ 64 \<Longrightarrow> add64 a b = a + b"
  by (simp add: add64_def)

text \<open>Relinking: the link is set, sizes and everything but the link stay.\<close>

lemma set_next_simps [simp]:
  "next_of p (set_next p v h) = v" "hp_total (set_next p v h) = hp_total h" "hp_addr (set_next p v h) = hp_addr h"
  "p \<noteq> Some b \<Longrightarrow> hp_mem (set_next p v h) b = hp_mem h b" "he_size (hp_mem (set_next p v h) b) = he_size (hp_mem h b)"
  "p \<noteq> None \<Longrightarrow> hp_first (set_next p v h) = hp_first h"
  by (cases p; simp add: set_next_def next_of_def)+

lemma put_take_simps [simp]:
  "hp_mem (put_entry a e h) = (hp_mem h)(a := e)" "hp_total (put_entry a e h) = hp_total h" "hp_addr (put_entry a e h) = hp_addr h"
  "hp_first (put_entry a e h) = hp_first h" "hp_last (put_entry a e h) = hp_last h"
  "hp_mem (take_total n h) = hp_mem h" "hp_total (take_total n h) = sub64 (hp_total h) n" "hp_addr (take_total n h) = hp_addr h"
  "hp_first (take_total n h) = hp_first h" "hp_last (take_total n h) = hp_last h"
  by (simp_all add: put_entry_def take_total_def)

definition alloc_post :: "nat \<Rightarrow> nat option \<Rightarrow> nat \<Rightarrow> heap \<Rightarrow> heap \<Rightarrow> (nat \<times> nat) list \<Rightarrow> bool" where
  "alloc_post lo phd n h h' xs \<longleftrightarrow>
     chain (hp_mem h') (next_of phd h') xs \<and> hp_total h' = sub64 (hp_total h) n \<and>
     (\<forall>b<lo. phd \<noteq> Some b \<longrightarrow> hp_mem h' b = hp_mem h b) \<and> (\<forall>b. phd = Some b \<longrightarrow> he_size (hp_mem h' b) = he_size (hp_mem h b)) \<and>
     (phd \<noteq> None \<longrightarrow> hp_first h' = hp_first h)"

lemma alloc_exact:
  assumes "chain (hp_mem h) (Some cur) ((cur, s) # xs)" and "regions_ok lo hi ((cur, s) # xs)" and "\<forall>b. phd = Some b \<longrightarrow> b < lo"
  shows "alloc_post lo phd n h (set_next phd (he_next (hp_mem h cur)) (take_total n h)) xs"
proof -
  have "chain (hp_mem (set_next phd (he_next (hp_mem h cur)) (take_total n h))) (he_next (hp_mem h cur)) xs"
  proof (rule chain_same[where m = "hp_mem h"])
    show "regions_ok (cur + s) hi xs" "chain (hp_mem h) (he_next (hp_mem h cur)) xs" using assms by simp_all
    show "hp_mem (set_next phd (he_next (hp_mem h cur)) (take_total n h)) a = hp_mem h a" if "cur + s \<le> a" for a
    proof -
      have "phd \<noteq> Some a" using that assms(2,3) by fastforce
      then show ?thesis by simp
    qed
  qed
  then show ?thesis by (simp add: alloc_post_def)
qed

lemma alloc_split:
  assumes "chain (hp_mem h) (Some cur) ((cur, s) # xs)" and "regions_ok lo hi ((cur, s) # xs)" and "\<forall>b. phd = Some b \<longrightarrow> b < lo"
    and "0 < n" and "n < s"
  shows "alloc_post lo phd n h (set_next phd (Some (cur + n)) (put_entry (cur + n) \<lparr>he_next = he_next (hp_mem h cur), he_size = s - n\<rparr> (take_total n h)))
    ((cur + n, s - n) # xs)" (is "alloc_post _ _ _ _ ?h _")
proof -
  have p: "phd \<noteq> Some a" if "cur \<le> a" for a using that assms(2,3) by fastforce
  have "chain (hp_mem ?h) (he_next (hp_mem h cur)) xs"
  proof (rule chain_same[where m = "hp_mem h"])
    show "regions_ok (cur + s) hi xs" "chain (hp_mem h) (he_next (hp_mem h cur)) xs" using assms by simp_all
    show "hp_mem ?h a = hp_mem h a" if "cur + s \<le> a" for a using that assms(5) p[of a] by simp
  qed
  then have "chain (hp_mem ?h) (Some (cur + n)) ((cur + n, s - n) # xs)" using p[of "cur + n"] by simp
  then show ?thesis using assms(2,3,4) by (auto simp: alloc_post_def)
qed

lemma alloc_loop_first_fit:
  assumes "chain (hp_mem h) (Some cur) xs" and "regions_ok lo hi xs" and "hi < 2 ^ 64" and "0 < n" and "length xs \<le> f"
    and "next_of phd h = Some cur" and "\<forall>b. phd = Some b \<longrightarrow> b < lo"
  shows "case first_fit n xs of
      None \<Rightarrow> alloc_loop f n h phd cur = Inr (None, h)
    | Some (a, xs') \<Rightarrow> \<exists>h'. alloc_loop f n h phd cur = Inr (Some a, h') \<and> alloc_post lo phd n h h' xs'"
  using assms(1,2,5,6,7)
proof (induction xs arbitrary: cur phd f lo)
  case (Cons x xs)
  obtain s where x: "x = (cur, s)" "he_size (hp_mem h cur) = s" using Cons.prems(1) by (cases x) simp
  obtain g where f: "f = Suc g" "length xs \<le> g" using Cons.prems(3) by (cases f) auto
  have b: "lo \<le> cur" "sizeof_entry \<le> s" "cur + s \<le> hi" using Cons.prems(2) regions_ok_hi[of "cur + s" hi xs] by (auto simp: x)
  have w: "sub64 s sizeof_entry = s - sizeof_entry" using b assms(3) by (simp add: sub64_small)
  consider "n = s" | "n \<noteq> s" "n + sizeof_entry \<le> s" | "n \<noteq> s" "\<not> n + sizeof_entry \<le> s" by blast
  then show ?case
  proof cases
    case 1
    then show ?thesis using alloc_exact[OF _ _ Cons.prems(5), of h cur s xs hi n] Cons.prems(1,2) by (simp add: f x)
  next
    case 2
    have "n < s" "n \<le> s - sizeof_entry" using 2 b(2) by (auto simp: sizeof_entry_def)
    moreover have "add64 cur n = cur + n" "sub64 s n = s - n" using \<open>n < s\<close> b(3) assms(3) by (simp_all add: add64_small sub64_small)
    ultimately show ?thesis using 2 alloc_split[OF _ _ Cons.prems(5) assms(4), of h cur s xs hi] Cons.prems(1,2) w by (simp add: f x)
  next
    case 3
    then have n: "\<not> n \<le> sub64 s sizeof_entry" using w b(2) by simp
    show ?thesis
    proof (cases xs)
      case Nil
      then show ?thesis using 3 n Cons.prems(1) by (simp add: f x)
    next
      case (Cons y ys)
      let ?c = "fst y"
      have nx: "he_next (hp_mem h cur) = Some ?c" using Cons.prems(1) by (simp add: x Cons)
      have loop: "alloc_loop f n h phd cur = alloc_loop g n h (Some cur) ?c" using 3 n by (simp add: f x nx)
      have r: "regions_ok (cur + s) hi xs" using Cons.prems(2) by (simp add: x)
      have ih: "case first_fit n xs of
          None \<Rightarrow> alloc_loop g n h (Some cur) ?c = Inr (None, h)
        | Some (a, xs') \<Rightarrow> \<exists>h'. alloc_loop g n h (Some cur) ?c = Inr (Some a, h') \<and> alloc_post (cur + s) (Some cur) n h h' xs'"
        by (rule Cons.IH) (use Cons.prems(1) nx r f(2) b(2) in \<open>simp_all add: x next_of_def sizeof_entry_def\<close>)
      show ?thesis
      proof (cases "first_fit n xs")
        case None
        then show ?thesis using 3 ih by (simp add: x loop)
      next
        case (Some r)
        then obtain h' where h': "alloc_loop g n h (Some cur) ?c = Inr (Some (fst r), h')" "alloc_post (cur + s) (Some cur) n h h' (snd r)"
          using ih by (auto simp: split_beta)
        have "next_of phd h' = next_of phd h"
          using h'(2) Cons.prems(5) b(1) by (cases phd) (auto simp: alloc_post_def next_of_def)
        moreover have "he_size (hp_mem h' cur) = s" using h'(2) by (simp add: alloc_post_def x)
        moreover have "\<forall>b<lo. hp_mem h' b = hp_mem h b" using h'(2) b(1) by (auto simp: alloc_post_def)
        ultimately have "alloc_post lo phd n h h' ((cur, s) # snd r)"
          using h'(2) Cons.prems(4,5) by (auto simp: alloc_post_def next_of_def)
        then show ?thesis using 3 Some h'(1) by (simp add: x loop)
      qed
    qed
  qed
qed simp

text \<open>What first fit does to the regions.\<close>

definition apart :: "nat \<times> nat \<Rightarrow> nat \<times> nat \<Rightarrow> bool" where
  "apart r q \<longleftrightarrow> fst r + snd r \<le> fst q \<or> fst q + snd q \<le> fst r"

definition inside :: "nat \<times> nat \<Rightarrow> nat \<times> nat \<Rightarrow> bool" where
  "inside r q \<longleftrightarrow> fst q \<le> fst r \<and> fst r + snd r \<le> fst q + snd q"

lemma inside_trans: "inside r q \<Longrightarrow> inside q t \<Longrightarrow> inside r t"
  by (auto simp: inside_def)

lemma apart_inside: "apart r q \<Longrightarrow> inside r' r \<Longrightarrow> inside q' q \<Longrightarrow> apart r' q'"
  by (auto simp: apart_def inside_def)

lemma apart_sym: "apart r q \<longleftrightarrow> apart q r"
  by (auto simp: apart_def)

lemma first_fit_regions:
  assumes "regions_ok lo hi xs" and "first_fit n xs = Some (a, xs')" and "0 < n"
  shows "regions_ok lo hi xs' \<and> (\<exists>q \<in> set xs. inside (a, n) q) \<and>
    (\<forall>r \<in> set xs'. apart (a, n) r \<and> (\<exists>q \<in> set xs. inside r q)) \<and>
    length xs' \<le> length xs \<and> sum_list (map snd xs') + n = sum_list (map snd xs)"
  using assms(1,2)
proof (induction xs arbitrary: lo xs')
  case (Cons x xs)
  have after: "fst x + snd x \<le> fst r" if "r \<in> set xs" for r
    using that Cons.prems(1) regions_ok_member[of "fst x + snd x" hi xs "fst r" "snd r"] by simp
  consider "n = snd x" | "n \<noteq> snd x" "n + sizeof_entry \<le> snd x" | "n \<noteq> snd x" "\<not> n + sizeof_entry \<le> snd x" by blast
  then show ?case
  proof cases
    case 1
    then have e: "a = fst x" "xs' = xs" using Cons.prems(2) by simp_all
    have "regions_ok lo hi xs" using Cons.prems(1) regions_ok_mono[of "fst x + snd x" hi xs lo] by simp
    then show ?thesis using 1 after by (auto simp: e inside_def apart_def)
  next
    case 2
    then have e: "a = fst x" "xs' = (fst x + n, snd x - n) # xs" using Cons.prems(2) by auto
    have "regions_ok lo hi xs'" using Cons.prems(1) 2 by (simp add: e)
    moreover have "\<forall>r \<in> set xs'. apart (a, n) r" using after 2 by (fastforce simp: e apart_def)
    moreover have "\<forall>r \<in> set xs'. \<exists>q \<in> set (x # xs). inside r q" using 2 by (auto simp: e inside_def)
    ultimately show ?thesis using 2 by (auto simp: e inside_def)
  next
    case 3
    then obtain ys where ys: "first_fit n xs = Some (a, ys)" "xs' = x # ys" using Cons.prems(2) by auto
    have ih: "regions_ok (fst x + snd x) hi ys" "\<exists>q \<in> set xs. inside (a, n) q" "\<forall>r \<in> set ys. apart (a, n) r \<and> (\<exists>q \<in> set xs. inside r q)"
      "length ys \<le> length xs" "sum_list (map snd ys) + n = sum_list (map snd xs)"
      using Cons.IH[of "fst x + snd x" ys] Cons.prems(1) ys(1) by simp_all
    obtain q where q: "q \<in> set xs" "inside (a, n) q" using ih(2) by blast
    have "apart (a, n) x" using after[OF q(1)] q(2) by (auto simp: apart_def inside_def)
    moreover have "inside x x" by (simp add: inside_def)
    ultimately show ?thesis using ih q Cons.prems(1) by (auto simp: ys(2))
  qed
qed simp

text \<open>A heap whose free list is the regions \<open>xs\<close> and whose total is their sum.\<close>

definition heap_ok :: "nat \<Rightarrow> nat \<Rightarrow> (nat \<times> nat) list \<Rightarrow> heap \<Rightarrow> bool" where
  "heap_ok lo hi xs h \<longleftrightarrow>
     chain (hp_mem h) (hp_first h) xs \<and> regions_ok lo hi xs \<and> hi < 2 ^ 64 \<and> hp_total h = sum_list (map snd xs)"

lemma regions_sum: "regions_ok lo hi xs \<Longrightarrow> lo + sum_list (map snd xs) \<le> hi"
  by (induction xs arbitrary: lo) fastforce+

lemma first_fit_sum: "first_fit n xs = Some r \<Longrightarrow> n \<le> sum_list (map snd xs)"
  by (induction xs arbitrary: r) (auto split: if_splits)

lemma alloc_size_ge: "sizeof_entry \<le> alloc_size sz"
  by (simp add: alloc_size_def Let_def)

lemma heap_alloc_cases:
  assumes "heap_ok lo hi xs h" and "length xs \<le> f" and "0 < sz"
  shows "case first_fit (alloc_size sz) xs of
      None \<Rightarrow> heap_alloc f h sz = Inr (None, h)
    | Some (a, xs') \<Rightarrow> \<exists>h'. heap_alloc f h sz = Inr (Some a, h') \<and> heap_ok lo hi xs' h'"
proof (cases xs)
  case Nil
  then show ?thesis using assms by (simp add: heap_ok_def heap_alloc_def)
next
  case (Cons x ys)
  let ?n = "alloc_size sz"
  have f: "hp_first h = Some (fst x)" using assms(1) by (simp add: heap_ok_def Cons)
  have n: "0 < ?n" using alloc_size_ge[of sz] by (simp add: sizeof_entry_def)
  have l: "case first_fit ?n xs of None \<Rightarrow> alloc_loop f ?n h None (fst x) = Inr (None, h)
    | Some (a, xs') \<Rightarrow> \<exists>h'. alloc_loop f ?n h None (fst x) = Inr (Some a, h') \<and> alloc_post lo None ?n h h' xs'"
    by (rule alloc_loop_first_fit[where hi = hi]) (use assms(1,2) f n in \<open>simp_all add: heap_ok_def next_of_def\<close>)
  show ?thesis
  proof (cases "first_fit ?n xs")
    case None
    then show ?thesis using l assms(3) by (simp add: heap_alloc_def f)
  next
    case (Some r)
    obtain a xs' where r: "r = (a, xs')" by force
    obtain h' where h': "alloc_loop f ?n h None (fst x) = Inr (Some a, h')" "alloc_post lo None ?n h h' xs'" using l Some r by auto
    have "regions_ok lo hi xs'" "sum_list (map snd xs') + ?n = sum_list (map snd xs)"
      using first_fit_regions[of lo hi xs ?n a xs'] assms(1) Some r n by (simp_all add: heap_ok_def)
    moreover have "sum_list (map snd xs) < 2 ^ 64" using regions_sum[of lo hi xs] assms(1) by (simp add: heap_ok_def)
    ultimately have "heap_ok lo hi xs' h'"
      using h'(2) assms(1) by (simp add: heap_ok_def alloc_post_def next_of_def sub64_small)
    moreover have "?n \<le> hp_total h" using first_fit_sum[OF Some] assms(1) by (simp add: heap_ok_def)
    ultimately show ?thesis using Some r h'(1) assms(3) by (simp add: heap_alloc_def f)
  qed
qed

section \<open>Properties\<close>

text \<open>
  C24: on a well-formed free list \<open>heap_alloc\<close> is a first fit: with fuel for the length of the
  list it returns, it gives the first region that is large enough or nothing, and what is left of the
  free list is well-formed and sums up to the remaining space.
\<close>

theorem heap_alloc_first_fit:
  assumes "heap_ok lo hi xs h" and "length xs \<le> f" and "0 < sz"
  shows "case first_fit (alloc_size sz) xs of
      None \<Rightarrow> heap_alloc f h sz = Inr (None, h)
    | Some (a, xs') \<Rightarrow> \<exists>h'. heap_alloc f h sz = Inr (Some a, h') \<and> heap_ok lo hi xs' h'"
  using assms by (rule heap_alloc_cases)

lemma heap_create_ok:
  assumes "sizeof_entry \<le> sz" and "addr + sz < 2 ^ 64"
  shows "\<exists>h. heap_create m w addr sz = Some h \<and> heap_ok addr (addr + sz) [(addr, sz)] h \<and> hp_last h = Some addr"
  using assms by (simp add: heap_create_def insert_tail_def set_next_def heap_ok_def)

theorem heap_alloc_first_fit_witness:
  "\<exists>h h'. heap_create (\<lambda>_. \<lparr>he_next = None, he_size = 0\<rparr>) (\<lambda>_. 0) 4096 1024 = Some h \<and>
    heap_alloc 1 h 20 = Inr (Some 4096, h') \<and> heap_ok 4096 5120 [(4128, 992)] h'"
proof -
  obtain h where h: "heap_create (\<lambda>_. \<lparr>he_next = None, he_size = 0\<rparr>) (\<lambda>_. 0) 4096 1024 = Some h" "heap_ok 4096 5120 [(4096, 1024)] h"
    using heap_create_ok[of 1024 4096] by (auto simp: sizeof_entry_def)
  have n: "alloc_size 20 = 32" by (simp add: alloc_size_def align_ceil_def add64_def sizeof_entry_def Let_def)
  show ?thesis using heap_alloc_first_fit[OF h(2), of 1 20] h(1) by (simp add: n sizeof_entry_def)
qed

text \<open>Sequences of successful allocations, with the blocks they returned.\<close>

inductive heap_run :: "nat \<Rightarrow> heap \<Rightarrow> heap \<Rightarrow> (nat \<times> nat) list \<Rightarrow> bool" for f h where
  run_start: "heap_run f h h []"
| run_alloc: "heap_run f h h' bs \<Longrightarrow> 0 < sz \<Longrightarrow> heap_alloc f h' sz = Inr (Some a, h'') \<Longrightarrow> heap_run f h h'' ((a, alloc_size sz) # bs)"

lemma heap_run_inv:
  assumes "heap_run f h h' bs" and "heap_ok lo hi xs h" and "length xs \<le> f"
  shows "\<exists>ys. heap_ok lo hi ys h' \<and> length ys \<le> f \<and> (\<forall>r \<in> set ys. \<exists>q \<in> set xs. inside r q) \<and>
    (\<forall>b \<in> set bs. (\<exists>q \<in> set xs. inside b q) \<and> (\<forall>r \<in> set ys. apart b r)) \<and> sorted_wrt apart bs"
  using assms
proof (induction rule: heap_run.induct)
  case run_start
  then show ?case by (auto simp: inside_def)
next
  case (run_alloc h' bs sz a h'')
  then obtain ys where ys: "heap_ok lo hi ys h'" "length ys \<le> f" "\<forall>r \<in> set ys. \<exists>q \<in> set xs. inside r q"
    "\<forall>b \<in> set bs. (\<exists>q \<in> set xs. inside b q) \<and> (\<forall>r \<in> set ys. apart b r)" "sorted_wrt apart bs" by blast
  let ?n = "alloc_size sz"
  obtain zs where zs: "first_fit ?n ys = Some (a, zs)" "heap_ok lo hi zs h''"
    using heap_alloc_cases[OF ys(1,2) run_alloc.hyps(2)] run_alloc.hyps(3) by (auto split: option.splits prod.splits)
  have "0 < ?n" using alloc_size_ge[of sz] by (simp add: sizeof_entry_def)
  then have ff: "\<exists>q \<in> set ys. inside (a, ?n) q" "\<forall>r \<in> set zs. apart (a, ?n) r \<and> (\<exists>q \<in> set ys. inside r q)" "length zs \<le> length ys"
    using first_fit_regions[of lo hi ys ?n a zs] ys(1) zs(1) by (simp_all add: heap_ok_def)
  have self: "inside b b" for b by (simp add: inside_def)
  have "\<forall>r \<in> set zs. \<exists>q \<in> set xs. inside r q" "\<exists>q \<in> set xs. inside (a, ?n) q" using ff(1,2) ys(3) inside_trans by meson+
  moreover have "\<forall>b \<in> set bs. \<forall>r \<in> set zs. apart b r" using ff(2) ys(4) apart_inside self by meson
  moreover have "\<forall>b \<in> set bs. apart (a, ?n) b" using ff(1) ys(4) apart_inside self apart_sym by meson
  ultimately show ?case using zs(2) ff(2,3) ys by (intro exI[of _ zs]) auto
qed

text \<open>
  C25: the blocks that a sequence of allocations returns lie inside the free regions the heap
  started with, and no two of them overlap.
\<close>

theorem heap_blocks_disjoint:
  assumes "heap_ok lo hi xs h" and "length xs \<le> f" and "heap_run f h h' bs"
  shows "(\<forall>b \<in> set bs. \<exists>q \<in> set xs. inside b q) \<and> sorted_wrt apart bs"
  using heap_run_inv[OF assms(3,1,2)] by blast

theorem heap_blocks_disjoint_witness:
  "\<exists>h h' bs. heap_create (\<lambda>_. \<lparr>he_next = None, he_size = 0\<rparr>) (\<lambda>_. 0) 4096 1024 = Some h \<and> heap_run 1 h h' bs \<and>
    bs = [(4128, 64), (4096, 32)] \<and> (\<forall>b \<in> set bs. \<exists>q \<in> set [(4096, 1024)]. inside b q) \<and> sorted_wrt apart bs"
proof -
  have n: "alloc_size 20 = 32" "alloc_size 64 = 64" by (simp_all add: alloc_size_def align_ceil_def add64_def sizeof_entry_def Let_def)
  obtain h where h: "heap_create (\<lambda>_. \<lparr>he_next = None, he_size = 0\<rparr>) (\<lambda>_. 0) 4096 1024 = Some h" "heap_ok 4096 5120 [(4096, 1024)] h"
    using heap_create_ok[of 1024 4096] by (auto simp: sizeof_entry_def)
  obtain h1 where h1: "heap_alloc 1 h 20 = Inr (Some 4096, h1)" "heap_ok 4096 5120 [(4128, 992)] h1"
    using heap_alloc_cases[OF h(2), of 1 20] by (auto simp: n sizeof_entry_def)
  obtain h2 where h2: "heap_alloc 1 h1 64 = Inr (Some 4128, h2)"
    using heap_alloc_cases[OF h1(2), of 1 64] by (auto simp: n sizeof_entry_def)
  have r: "heap_run 1 h h2 [(4128, 64), (4096, 32)]"
    using run_alloc[OF run_alloc[OF run_start _ h1(1)] _ h2] by (simp add: n)
  show ?thesis using heap_blocks_disjoint[OF h(2) _ r] h(1) r by auto
qed

text \<open>
  A block that was cut off the end of the free list cannot be given back. The allocation does
  not move the queue's tail pointer, which stays inside the block, so \<open>heap_free\<close> reports success and
  links the block to itself: the free list and the total are as before the call.
\<close>

theorem heap_free_loses_block:
  assumes "heap_create m w addr sz = Some h" and "0 < addr" and "addr + sz < 2 ^ 64" and "0 < k"
    and "alloc_size k + sizeof_entry \<le> sz"
  shows "\<exists>h1 h2. heap_alloc 1 h k = Inr (Some addr, h1) \<and> heap_free 1 h1 addr (alloc_size k) = Inr (0, h2) \<and>
    chain (hp_mem h1) (hp_first h1) [(addr + alloc_size k, sz - alloc_size k)] \<and>
    chain (hp_mem h2) (hp_first h2) [(addr + alloc_size k, sz - alloc_size k)] \<and> hp_total h2 = hp_total h1 \<and>
    he_next (hp_mem h2 addr) = Some addr"
proof -
  let ?n = "alloc_size k"
  have n: "0 < ?n" "?n < sz" using alloc_size_ge[of k] assms(5) by (auto simp: sizeof_entry_def)
  obtain h' where "heap_create m w addr sz = Some h'" "heap_ok addr (addr + sz) [(addr, sz)] h'" "hp_last h' = Some addr"
    using heap_create_ok[OF _ assms(3), of m w] assms(5) by auto
  then have h: "heap_ok addr (addr + sz) [(addr, sz)] h" "hp_last h = Some addr" using assms(1) by simp_all
  have m: "hp_first h = Some addr" "hp_mem h addr = \<lparr>he_next = None, he_size = sz\<rparr>" "hp_total h = sz"
    using h(1) by (simp_all add: heap_ok_def)
  have le: "?n \<le> sz - sizeof_entry" using assms(5) by simp
  have s: "sub64 sz sizeof_entry = sz - sizeof_entry" "sub64 sz ?n = sz - ?n" "add64 addr ?n = addr + ?n"
    using assms(3,5) n by (simp_all add: sub64_small add64_small)
  let ?h1 = "set_next None (Some (addr + ?n)) (put_entry (addr + ?n) \<lparr>he_next = None, he_size = sz - ?n\<rparr> (take_total ?n h))"
  have a: "heap_alloc 1 h k = Inr (Some addr, ?h1)" using assms(4) le n s m by (simp add: heap_alloc_def Let_def numeral_eq_Suc)
  show ?thesis
    using assms(2) n a h(2) by (simp add: heap_free_def insert_tail_def set_next_def m put_entry_def take_total_def numeral_eq_Suc)
qed

theorem heap_free_loses_block_witness:
  "\<exists>h h1 h2. heap_create (\<lambda>_. \<lparr>he_next = None, he_size = 0\<rparr>) (\<lambda>_. 0) 4096 1024 = Some h \<and> heap_alloc 1 h 20 = Inr (Some 4096, h1) \<and>
    heap_free 1 h1 4096 32 = Inr (0, h2) \<and> chain (hp_mem h2) (hp_first h2) [(4128, 992)] \<and> hp_total h2 = hp_total h1"
proof -
  obtain h where h: "heap_create (\<lambda>_. \<lparr>he_next = None, he_size = 0\<rparr>) (\<lambda>_. 0) 4096 1024 = Some h"
    using heap_create_ok[of 1024 4096] by (auto simp: sizeof_entry_def)
  have n: "alloc_size 20 = 32" by (simp add: alloc_size_def align_ceil_def add64_def sizeof_entry_def Let_def)
  show ?thesis using heap_free_loses_block[OF h, of 20] h by (auto simp: n sizeof_entry_def)
qed

end
