(* ===== verification/Net.thy ===== *)
theory Net
  imports Prelude
begin

text \<open>
  Packet bytes and the Internet checksum.

  A packet buffer is a list of bytes; \<open>rd\<close> and \<open>wr\<close> read and write a range of it and fault
  outside. Multi-byte fields are written in network order (\<open>be16\<close>, \<open>be32\<close>), as the sources do
  with \<open>htons\<close> and \<open>htonl\<close>; a 16-bit value stored without conversion is little-endian
  (\<open>le16\<close>), the byte order of the x86 targets. The checksum routines are those of DPDK's
  rte_ip.h, which the packet constructors call: they add the buffer's words in host order.
\<close>

section \<open>Bytes\<close>

definition rd :: "u8 list \<Rightarrow> nat \<Rightarrow> nat \<Rightarrow> u8 list res" where
  "rd m off n = (if off + n \<le> length m then Inr (take n (drop off m)) else Inl Fault)"

definition wr :: "u8 list \<Rightarrow> nat \<Rightarrow> u8 list \<Rightarrow> u8 list res" where
  "wr m off bs = (if off + length bs \<le> length m
                  then Inr (take off m @ bs @ drop (off + length bs) m) else Inl Fault)"

definition wrs :: "u8 list \<Rightarrow> (nat \<times> u8 list) list \<Rightarrow> u8 list res" where
  "wrs m ws = rfold (\<lambda>m (off, bs). wr m off bs) m ws"

definition be16 :: "u16 \<Rightarrow> u8 list" where
  "be16 w = [ucast (drop_bit 8 w), ucast w]"

definition be32 :: "u32 \<Rightarrow> u8 list" where
  "be32 w = [ucast (drop_bit 24 w), ucast (drop_bit 16 w), ucast (drop_bit 8 w), ucast w]"

definition le16 :: "u16 \<Rightarrow> u8 list" where
  "le16 w = [ucast w, ucast (drop_bit 8 w)]"

definition le32 :: "u32 \<Rightarrow> u8 list" where
  "le32 w = [ucast w, ucast (drop_bit 8 w), ucast (drop_bit 16 w), ucast (drop_bit 24 w)]"

definition of_be16 :: "u8 list \<Rightarrow> u16" where
  "of_be16 bs = (case bs of [a, b] \<Rightarrow> push_bit 8 (ucast a) OR ucast b | _ \<Rightarrow> 0)"

definition of_le16 :: "u8 \<Rightarrow> u8 \<Rightarrow> u16" where
  "of_le16 a b = push_bit 8 (ucast b) OR ucast a"

lemma length_be [simp]: "length (be16 w) = 2" "length (be32 v) = 4" "length (le16 w) = 2" "length (le32 v) = 4"
  by (simp_all add: be16_def be32_def le16_def le32_def)

lemma wr_length: "wr m off bs = Inr m' \<Longrightarrow> length m' = length m"
  by (auto simp: wr_def split: if_splits)

lemma wr_ok [simp]: "off + length bs \<le> length m \<Longrightarrow> wr m off bs = Inr (take off m @ bs @ drop (off + length bs) m)"
  by (simp add: wr_def)

text \<open>Reading back a range: the range just written, or one that does not meet it.\<close>

lemma rd_wr_same: "wr m off bs = Inr m' \<Longrightarrow> rd m' off (length bs) = Inr bs"
  by (auto simp: wr_def rd_def split: if_splits)

lemma rd_wr_other:
  assumes "wr m off bs = Inr m'" "i + n \<le> off \<or> off + length bs \<le> i"
  shows "rd m' i n = rd m i n"
proof -
  have m': "m' = take off m @ bs @ drop (off + length bs) m" and le: "off + length bs \<le> length m"
    using assms(1) by (auto simp: wr_def split: if_splits)
  from assms(2) show ?thesis
  proof
    assume "i + n \<le> off"
    then show ?thesis using m' le by (simp add: rd_def drop_take)
  next
    assume "off + length bs \<le> i"
    moreover have "min (length m) off = off" using le by simp
    ultimately show ?thesis using m' le by (simp add: rd_def)
  qed
qed

text \<open>Sequences of writes: they succeed inside the buffer and change only what they cover.\<close>

lemma wrs_Nil [simp]: "wrs m [] = Inr m"
  by (simp add: wrs_def)

lemma wrs_Cons: "wrs m ((off, bs) # ws) = rbind (wr m off bs) (\<lambda>m. wrs m ws)"
  by (simp add: wrs_def)

lemma wrs_append: "wrs m (ws @ vs) = rbind (wrs m ws) (\<lambda>m. wrs m vs)"
proof (induction ws arbitrary: m)
  case (Cons w ws)
  obtain off bs where "w = (off, bs)" by (cases w)
  then show ?case using Cons by (cases "wr m off bs") (auto simp: wrs_Cons)
qed simp

lemma wrs_ok:
  "\<forall>(off, bs) \<in> set ws. off + length bs \<le> length m \<Longrightarrow> \<exists>m'. wrs m ws = Inr m' \<and> length m' = length m"
proof (induction ws arbitrary: m)
  case (Cons w ws)
  obtain off bs where w: "w = (off, bs)" by (cases w)
  obtain m1 where m1: "wr m off bs = Inr m1" using Cons.prems w by (simp add: wr_def)
  note m1 = m1 wr_length[OF m1]
  then show ?case using Cons.IH[of m1] Cons.prems w by (auto simp: wrs_Cons)
qed simp

lemma wrs_length: "wrs m ws = Inr m' \<Longrightarrow> length m' = length m"
proof (induction ws arbitrary: m)
  case (Cons w ws)
  obtain off bs where "w = (off, bs)" by (cases w)
  with Cons.prems obtain m1 where m1: "wr m off bs = Inr m1" "wrs m1 ws = Inr m'"
    by (auto simp: wrs_Cons rbind_eq_Inr)
  show ?case using Cons.IH[OF m1(2)] wr_length[OF m1(1)] by simp
qed simp

definition disjoint_from :: "nat \<Rightarrow> nat \<Rightarrow> nat \<times> u8 list \<Rightarrow> bool" where
  "disjoint_from i n = (\<lambda>(off, bs). i + n \<le> off \<or> off + length bs \<le> i)"

lemma rd_wrs_skip:
  "wrs m ws = Inr m' \<Longrightarrow> \<forall>w \<in> set ws. disjoint_from i n w \<Longrightarrow> rd m' i n = rd m i n"
proof (induction ws arbitrary: m)
  case (Cons w ws)
  obtain off bs where w: "w = (off, bs)" by (cases w)
  obtain m1 where m1: "wr m off bs = Inr m1" "wrs m1 ws = Inr m'"
    using Cons.prems(1) w by (auto simp: wrs_Cons rbind_eq_Inr)
  then show ?case using Cons.IH[OF m1(2)] Cons.prems(2) w rd_wr_other[OF m1(1)] by (auto simp: disjoint_from_def)
qed simp

lemma rd_wrs_at:
  assumes "wrs m (ws @ (off, bs) # vs) = Inr m'" "\<forall>w \<in> set vs. disjoint_from off (length bs) w" "n = length bs"
  shows "rd m' off n = Inr bs"
proof -
  obtain m1 m2 where "wr m1 off bs = Inr m2" "wrs m2 vs = Inr m'"
    using assms(1) by (auto simp: wrs_append wrs_Cons rbind_eq_Inr)
  then show ?thesis using rd_wrs_skip[of m2 vs m' off "length bs"] assms(2,3) rd_wr_same by auto
qed

lemma rd_append:
  "rd m i a = Inr x \<Longrightarrow> rd m j b = Inr y \<Longrightarrow> j = i + a \<Longrightarrow> n = a + b \<Longrightarrow> rd m i n = Inr (x @ y)"
  by (auto simp: rd_def take_add add.commute split: if_splits)

lemma rd_length: "rd m i n = Inr x \<Longrightarrow> length x = n"
  by (auto simp: rd_def split: if_splits)

lemma rd_ok: "i + n \<le> length m \<Longrightarrow> \<exists>x. rd m i n = Inr x \<and> length x = n"
  by (auto simp: rd_def)

text \<open>Cutting a range around a field, and the effect of writing the field.\<close>

lemma rd_around:
  assumes "rd m i n = Inr d" "rd m (i + a) b = Inr f" "a + b \<le> n"
  obtains xs ys where "d = xs @ f @ ys" "length xs = a"
proof -
  have d: "d = take n (drop i m)" and le: "i + n \<le> length m" and f: "f = take b (drop (i + a) m)"
    using assms(1,2) by (auto simp: rd_def split: if_splits)
  have f': "f = take b (drop a d)" using assms(3) by (simp add: d f drop_take ac_simps min_def)
  have "d = take a d @ f @ drop b (drop a d)" unfolding f' by (metis append_take_drop_id)
  then show thesis by (rule that) (use d le assms(3) in simp)
qed

lemma rd_wr_inside:
  assumes "rd m i n = Inr (xs @ f @ ys)" "wr m (i + length xs) g = Inr m'" "length g = length f"
  shows "rd m' i n = Inr (xs @ g @ ys)"
proof -
  have e: "xs @ f @ ys = take n (drop i m)" and le: "i + n \<le> length m"
    using assms(1) by (auto simp: rd_def split: if_splits)
  have n: "n = length xs + length f + length ys" using arg_cong[OF e, of length] le by simp
  have m: "m = take i m @ xs @ f @ ys @ drop (i + n) m"
    by (metis append.assoc append_take_drop_id drop_drop add.commute e)
  have li: "length (take i m) = i" using le by simp
  have mi: "min (length m) i = i" using le by simp
  have "m' = take i m @ xs @ g @ ys @ drop (i + n) m"
  proof -
    have "m' = take (i + length xs) m @ g @ drop (i + length xs + length g) m"
      using assms(2) by (auto simp: wr_def split: if_splits)
    moreover have "take (i + length xs) m = take i m @ xs" by (subst m) (simp add: li mi)
    moreover have "drop (i + length xs + length g) m = ys @ drop (i + n) m"
      by (subst m) (simp add: li mi assms(3) n)
    ultimately show ?thesis by simp
  qed
  then show ?thesis using li n assms(3) by (simp add: rd_def)
qed

section \<open>The checksum routines of rte_ip.h\<close>

fun rte_raw_cksum_tail :: "u8 list \<Rightarrow> u32 \<Rightarrow> u32" where
  "rte_raw_cksum_tail (a # b # bs) s = rte_raw_cksum_tail bs (s + ucast (of_le16 a b))"
| "rte_raw_cksum_tail [a] s = s + ucast a"
| "rte_raw_cksum_tail [] s = s"

fun rte_raw_cksum_sum :: "u8 list \<Rightarrow> u32 \<Rightarrow> u32" where
  "rte_raw_cksum_sum (a # b # c # d # e # f # g # h # bs) s =
     rte_raw_cksum_sum bs (s + ucast (of_le16 a b) + ucast (of_le16 c d) + ucast (of_le16 e f) + ucast (of_le16 g h))"
| "rte_raw_cksum_sum bs s = rte_raw_cksum_tail bs s"

definition rte_raw_cksum_reduce :: "u32 \<Rightarrow> u16" where
  "rte_raw_cksum_reduce s =
     (let s1 = drop_bit 16 (s AND 0xffff0000) + (s AND 0xffff);
          s2 = drop_bit 16 (s1 AND 0xffff0000) + (s1 AND 0xffff)
      in ucast s2)"

definition rte_raw_cksum :: "u8 list \<Rightarrow> u16" where
  "rte_raw_cksum bs = rte_raw_cksum_reduce (rte_raw_cksum_sum bs 0)"

definition rte_ipv4_cksum :: "u8 list \<Rightarrow> nat \<Rightarrow> u16 res" where
  "rte_ipv4_cksum m ip =
     rbind (rd m ip 20) (\<lambda>h. let c = rte_raw_cksum h in Inr (if c = 0xffff then c else NOT c))"

text \<open>The pseudo header: addresses, zero, protocol, L4 length (no segmentation offload).\<close>

definition rte_ipv4_phdr_cksum :: "u8 list \<Rightarrow> nat \<Rightarrow> u16 res" where
  "rte_ipv4_phdr_cksum m ip =
     rbind (rd m (ip + 12) 8) (\<lambda>addrs. rbind (rd m (ip + 9) 1) (\<lambda>proto. rbind (rd m (ip + 2) 2) (\<lambda>tl.
       Inr (rte_raw_cksum (addrs @ [0] @ proto @ be16 (of_be16 tl - 20))))))"

definition fold_cksum :: "u32 \<Rightarrow> u32" where
  "fold_cksum c = drop_bit 16 (c AND 0xffff0000) + (c AND 0xffff)"

definition rte_ipv4_udptcp_cksum :: "u8 list \<Rightarrow> nat \<Rightarrow> nat \<Rightarrow> u16 res" where
  "rte_ipv4_udptcp_cksum m ip l4 =
     rbind (rd m (ip + 2) 2) (\<lambda>tl.
       let l3_len = unat (of_be16 tl) in
       if l3_len < 20 then Inr 0
       else rbind (rd m l4 (l3_len - 20)) (\<lambda>d. rbind (rte_ipv4_phdr_cksum m ip) (\<lambda>p.
         let c0 = (ucast (rte_raw_cksum d) :: u32) + ucast p;
             c = NOT (fold_cksum c0) AND 0xffff
         in Inr (ucast (if c = 0 then 0xffff else c)))))"

definition rte_ipv6_phdr_cksum :: "u8 list \<Rightarrow> nat \<Rightarrow> u16 res" where
  "rte_ipv6_phdr_cksum m ip =
     rbind (rd m (ip + 8) 32) (\<lambda>addrs. rbind (rd m (ip + 6) 1) (\<lambda>proto. rbind (rd m (ip + 4) 2) (\<lambda>pl.
       let s = rte_raw_cksum_sum addrs 0 in
       Inr (rte_raw_cksum_reduce (rte_raw_cksum_sum (pl @ [0, 0] @ [0, 0, 0] @ proto) s)))))"

definition rte_ipv6_udptcp_cksum :: "u8 list \<Rightarrow> nat \<Rightarrow> nat \<Rightarrow> u16 res" where
  "rte_ipv6_udptcp_cksum m ip l4 =
     rbind (rd m (ip + 4) 2) (\<lambda>pl.
     rbind (rd m l4 (unat (of_be16 pl))) (\<lambda>d. rbind (rte_ipv6_phdr_cksum m ip) (\<lambda>p.
       let c0 = (ucast (rte_raw_cksum d) :: u32) + ucast p;
           c = NOT (fold_cksum c0) AND 0xffff
       in Inr (ucast (if c = 0 then 0xffff else c)))))"

section \<open>One's-complement arithmetic\<close>

text \<open>The sum of a buffer's words as a number; an odd last byte counts as a low byte.\<close>

fun words_sum :: "u8 list \<Rightarrow> nat" where
  "words_sum (a # b # bs) = unat a + 256 * unat b + words_sum bs"
| "words_sum [a] = unat a"
| "words_sum [] = 0"

lemma u8_le: "unat (a :: u8) \<le> 255"
  using unsigned_less[of a, where ?'a = nat] by simp

lemma u16_le: "unat (w :: u16) \<le> 65535"
  using unsigned_less[of w, where ?'a = nat] by simp

lemma unat_ucast_up [simp]:
  "unat (ucast (a :: u8) :: u16) = unat a" "unat (ucast (w :: u16) :: u32) = unat w" "unat (ucast (a :: u8) :: u32) = unat a"
  by (simp_all add: unsigned_ucast_eq take_bit_nat_eq_self less_le_trans[OF unsigned_less])

lemma unat_of_le16: "unat (of_le16 a b) = unat a + 256 * unat b"
proof -
  have "of_le16 a b = ucast a + 256 * ucast b"
  proof -
    have "push_bit 8 (ucast b :: u16) AND ucast a = 0"
      by (rule bit_word_eqI) (auto simp: bit_simps dest: bit_imp_le_length)
    then have "push_bit 8 (ucast b :: u16) OR ucast a = push_bit 8 (ucast b) + ucast a"
      by (metis word_plus_and_or add_0_left)
    then show ?thesis by (simp add: of_le16_def push_bit_eq_mult)
  qed
  moreover have "unat (ucast a :: u16) + 256 * unat (ucast b :: u16) < 65536"
    using u8_le[of a] u8_le[of b] by simp
  ultimately show ?thesis
    by (simp add: unat_word_ariths)
qed

lemma rte_raw_cksum_tail_words:
  "unat s + words_sum bs < 2 ^ 32 \<Longrightarrow> unat (rte_raw_cksum_tail bs s) = unat s + words_sum bs"
proof (induction bs s rule: rte_raw_cksum_tail.induct)
  case (1 a b bs s)
  have "unat (s + ucast (of_le16 a b)) = unat s + (unat a + 256 * unat b)"
    using 1(2) by (simp add: unat_word_ariths unat_of_le16)
  then show ?case using 1 by simp
next
  case (2 a s)
  then show ?case by (simp add: unat_word_ariths)
qed simp

lemma rte_raw_cksum_sum_tail: "rte_raw_cksum_sum bs s = rte_raw_cksum_tail bs s"
  by (induction bs s rule: rte_raw_cksum_sum.induct) (simp_all add: algebra_simps)

lemma words_sum_bound: "words_sum bs \<le> 65535 * ((length bs + 1) div 2)"
proof (induction bs rule: words_sum.induct)
  case (1 a b bs)
  show ?case using 1 u8_le[of a] u8_le[of b] by simp
next
  case (2 a)
  show ?case using u8_le[of a] by simp
qed simp

lemma words_sum_bound_64k:
  assumes "length bs \<le> 65535"
  shows "words_sum bs \<le> 65535 * 32768"
proof -
  have "words_sum bs \<le> 65535 * ((length bs + 1) div 2)" by (rule words_sum_bound)
  also have "\<dots> \<le> 65535 * 32768" using assms by simp
  finally show ?thesis .
qed

lemma rte_raw_cksum_sum_words:
  assumes "length bs \<le> 65535"
  shows "unat (rte_raw_cksum_sum bs 0) = words_sum bs"
proof -
  show ?thesis using words_sum_bound_64k[OF assms] rte_raw_cksum_tail_words[of 0 bs] by (simp add: rte_raw_cksum_sum_tail)
qed

text \<open>Folding keeps the value modulo 65535 and never turns a positive sum into zero.\<close>

definition fold16 :: "nat \<Rightarrow> nat" where
  "fold16 n = n div 65536 + n mod 65536"

lemma fold16_mod: "fold16 n mod 65535 = n mod 65535"
proof -
  have "n = n div 65536 * 65536 + n mod 65536" by simp
  then have "n = fold16 n + 65535 * (n div 65536)" unfolding fold16_def by linarith
  then show ?thesis by (metis mod_mult_self2)
qed

lemma fold16_pos: "0 < n \<Longrightarrow> 0 < fold16 n"
  by (auto simp: fold16_def dvd_eq_mod_eq_0)

lemma fold16_twice_less: "n < 4294967296 \<Longrightarrow> fold16 (fold16 n) < 65536"
proof -
  assume n: "n < 4294967296"
  have "n div 65536 \<le> 65535" using n by simp
  moreover have "n mod 65536 \<le> 65535" by simp
  ultimately have "fold16 n \<le> 131070" unfolding fold16_def by linarith
  moreover have "fold16 k < 65536" if "k \<le> 131070" for k
    using that by (cases "k < 65536") (simp_all add: fold16_def le_mod_geq)
  ultimately show ?thesis by blast
qed

lemma unat_fold_cksum: "unat (fold_cksum c) = fold16 (unat c)"
proof -
  have m: "(0xffff :: u32) = mask 16" by (simp add: mask_eq_exp_minus_1)
  have h: "(0xffff0000 :: u32) = NOT (mask 16)" by (simp add: mask_eq_exp_minus_1)
  have "drop_bit 16 (c AND 0xffff0000) = drop_bit 16 c"
    unfolding h
    by (rule bit_word_eqI) (simp only: bit_drop_bit_eq comp_def bit_and_iff bit_not_iff bit_mask_iff, auto dest: bit_imp_le_length)
  moreover have lo: "c AND 0xffff = take_bit 16 c" by (simp add: m take_bit_eq_mask)
  moreover have "unat c div 65536 + unat c mod 65536 < 2 ^ 32"
    using unsigned_less[of c, where ?'a = nat] by simp
  ultimately show ?thesis
    by (simp add: fold_cksum_def fold16_def unat_word_ariths unat_drop_bit_eq unsigned_take_bit_eq drop_bit_eq_div take_bit_eq_mod)
qed

lemma rte_raw_cksum_words:
  assumes "length bs \<le> 65535"
  shows "unat (rte_raw_cksum bs) = fold16 (fold16 (words_sum bs))"
proof -
  have f: "fold16 (fold16 n) < 65536" if "n < 2 ^ 32" for n
    using that fold16_twice_less[of n] by simp
  have "rte_raw_cksum_reduce s = ucast (fold_cksum (fold_cksum s))" for s
    by (simp only: rte_raw_cksum_reduce_def fold_cksum_def Let_def)
  then have "unat (rte_raw_cksum_reduce s) = fold16 (fold16 (unat s))" for s
    using f[of "unat s"] unsigned_less[of s, where ?'a = nat]
    by (simp add: unsigned_ucast_eq unat_fold_cksum take_bit_nat_eq_self)
  then show ?thesis using rte_raw_cksum_sum_words[OF assms] by (simp add: rte_raw_cksum_def)
qed

lemma words_sum_append: "even (length xs) \<Longrightarrow> words_sum (xs @ ys) = words_sum xs + words_sum ys"
  by (induction xs rule: words_sum.induct) auto

lemma words_sum_le16 [simp]: "words_sum (le16 w) = unat w"
proof -
  have "unat (ucast w :: u8) + 256 * unat (ucast (drop_bit 8 w) :: u8) = unat w"
    using u16_le[of w]
    by (simp add: unsigned_ucast_eq unat_drop_bit_eq take_bit_eq_mod drop_bit_eq_div unat_div)
  then show ?thesis by (simp add: le16_def)
qed

lemma ones_complement_cancel:
  assumes "(a + b) mod 65535 = 0" "0 < a + b" "fold16 (fold16 (a + b)) < 65536"
  shows "fold16 (fold16 (a + b)) = 65535"
proof -
  define x where "x = fold16 (fold16 (a + b))"
  have "x mod 65535 = 0" "0 < x" "x < 65536"
    using assms by (simp_all add: x_def fold16_mod fold16_pos)
  then obtain k where "x = 65535 * k" by (auto simp: mod_eq_0_iff_dvd)
  with \<open>0 < x\<close> \<open>x < 65536\<close> have "k = 1" by simp
  with \<open>x = 65535 * k\<close> show ?thesis by (simp add: x_def)
qed

lemma unat_not16: "unat (NOT (w :: u16)) = 65535 - unat w"
proof -
  have "NOT w = - 1 - w" by (simp add: not_eq_complement)
  moreover have "unat (- 1 - w) = 65535 - unat w"
    by (simp add: unat_sub unsigned_minus_1_eq_mask mask_eq_exp_minus_1)
  ultimately show ?thesis by simp
qed

text \<open>A header that has a zero checksum field and gets its own checksum verifies.\<close>

lemma ipv4_cksum_verifies:
  assumes "even (length xs)" "length xs + length ys + 2 \<le> 65535"
  defines "c \<equiv> rte_raw_cksum (xs @ le16 0 @ ys)"
  defines "k \<equiv> (if c = 0xffff then c else NOT c)"
  shows "rte_raw_cksum (xs @ le16 k @ ys) = 0xffff"
proof -
  let ?S = "words_sum xs + words_sum ys"
  have W: "words_sum (xs @ le16 w @ ys) = ?S + unat w" for w
    using assms(1) by (simp add: words_sum_append)
  have c: "unat c = fold16 (fold16 ?S)"
    unfolding c_def using rte_raw_cksum_words[of "xs @ le16 0 @ ys"] assms(2) W[of 0] by simp
  have cm: "unat c mod 65535 = ?S mod 65535" by (simp add: c fold16_mod)
  have k: "(unat c + unat k) mod 65535 = 0" "0 < ?S + unat k"
  proof -
    show "(unat c + unat k) mod 65535 = 0"
      using u16_le[of c] by (auto simp: k_def unat_not16)
    show "0 < ?S + unat k"
    proof (cases "?S = 0")
      case True
      then have "unat c = 0" using c by (simp add: fold16_def)
      then show ?thesis by (auto simp: k_def unat_not16)
    qed simp
  qed
  have z: "(?S + unat k) mod 65535 = 0"
    using k(1) cm by (metis mod_add_left_eq)
  have "words_sum (xs @ le16 k @ ys) \<le> 65535 * 32768"
    using assms(2) by (intro words_sum_bound_64k) simp
  then have b: "fold16 (fold16 (?S + unat k)) < 65536" using W[of k] by (intro fold16_twice_less) simp
  have "unat (rte_raw_cksum (xs @ le16 k @ ys)) = 65535"
    using rte_raw_cksum_words[of "xs @ le16 k @ ys"] assms(2) W[of k] ones_complement_cancel[OF z k(2) b] by simp
  then show ?thesis by (simp add: word_unat_eq_iff)
qed

lemma unat_cksum_field:
  fixes f :: u32
  assumes "unat f \<le> 65535"
  defines "c \<equiv> NOT f AND 0xffff"
  shows "unat (ucast (if c = 0 then 0xffff else c) :: u16) = (if unat f = 65535 then 65535 else 65535 - unat f)"
proof -
  have m: "(0xffff :: u32) = mask 16" by (simp add: mask_eq_exp_minus_1)
  have "NOT f = - 1 - f" by (simp add: not_eq_complement)
  moreover have "unat (- 1 - f) = 4294967295 - unat f"
    by (simp add: unat_sub unsigned_minus_1_eq_mask mask_eq_exp_minus_1)
  ultimately have "unat (NOT f) = 4294967295 - unat f" by simp
  then have "unat (NOT f) = (65535 - unat f) + 65535 * 65536" using assms(1) by simp
  then have "unat (NOT f) mod 65536 = (65535 - unat f) mod 65536" by (simp only: mod_mult_self1)
  then have "take_bit 16 (unat (NOT f)) = 65535 - unat f" by (simp add: take_bit_eq_mod)
  then have "unat (take_bit 16 (NOT f)) = 65535 - unat f" by (simp only: unsigned_take_bit_eq)
  moreover have "c = take_bit 16 (NOT f)" by (simp add: c_def m take_bit_eq_mask)
  ultimately have "unat c = 65535 - unat f" by simp
  then show ?thesis
    using assms(1) by (auto simp: unsigned_ucast_eq take_bit_nat_eq_self unat_eq_0)
qed

text \<open>
  The same for a transport header: with the pseudo-header sum \<open>p\<close> and a zero checksum field,
  the field computed by \<open>rte_ipv4_udptcp_cksum\<close> makes the two sums add up to all ones.
\<close>

definition l4_cksum :: "u8 list \<Rightarrow> u16 \<Rightarrow> u16" where
  "l4_cksum d p = (let c = NOT (fold_cksum ((ucast (rte_raw_cksum d) :: u32) + ucast p)) AND 0xffff
                   in ucast (if c = 0 then 0xffff else c))"

definition l4_verifies :: "u8 list \<Rightarrow> u16 \<Rightarrow> bool" where
  "l4_verifies d p \<longleftrightarrow> fold_cksum ((ucast (rte_raw_cksum d) :: u32) + ucast p) = 0xffff"

lemma fold_cksum_sum: "unat (fold_cksum ((ucast (a :: u16) :: u32) + ucast (b :: u16))) = fold16 (unat a + unat b)"
  using u16_le[of a] u16_le[of b] by (simp add: unat_fold_cksum unat_word_ariths)

lemma fold16_once: "n \<le> 131070 \<Longrightarrow> fold16 n \<le> 65535"
  by (cases "n < 65536") (simp_all add: fold16_def le_mod_geq)

lemma l4_cksum_verifies:
  assumes "even (length xs)" "length xs + length ys + 2 \<le> 65535"
  shows "l4_verifies (xs @ le16 (l4_cksum (xs @ le16 0 @ ys) p) @ ys) p"
proof -
  define k where "k = l4_cksum (xs @ le16 0 @ ys) p"
  define S where "S = words_sum xs + words_sum ys"
  define r where "r = rte_raw_cksum (xs @ le16 0 @ ys)"
  have W: "words_sum (xs @ le16 w @ ys) = S + unat w" for w
    using assms(1) by (simp add: S_def words_sum_append)
  have raw: "unat (rte_raw_cksum (xs @ le16 w @ ys)) = fold16 (fold16 (S + unat w))" for w
    using rte_raw_cksum_words[of "xs @ le16 w @ ys"] assms(2) W[of w] by simp
  define f where "f = fold16 (unat r + unat p)"
  have fle: "f \<le> 65535" unfolding f_def using u16_le[of r] u16_le[of p] by (intro fold16_once) simp
  have k: "unat k = (if f = 65535 then 65535 else 65535 - f)"
    unfolding k_def l4_cksum_def Let_def r_def[symmetric]
    using unat_cksum_field[of "fold_cksum (ucast r + ucast p)"] fle by (simp add: fold_cksum_sum f_def)
  have fS: "f mod 65535 = (S + unat p) mod 65535"
    using raw[of 0] by (simp add: f_def fold16_mod r_def mod_add_left_eq flip: r_def)
       (metis fold16_mod mod_add_left_eq)
  let ?v = "unat (rte_raw_cksum (xs @ le16 k @ ys)) + unat p"
  have "?v mod 65535 = (S + unat k + unat p) mod 65535"
    using raw[of k] by (metis fold16_mod mod_add_left_eq)
  also have "\<dots> = ((S + unat p) + unat k) mod 65535" by (simp add: ac_simps)
  also have "\<dots> = (f + unat k) mod 65535" using fS by (metis mod_add_left_eq)
  also have "\<dots> = 0" using k fle by auto
  finally have z: "fold16 ?v mod 65535 = 0" by (simp add: fold16_mod)
  have "0 < ?v"
  proof (rule ccontr)
    assume "\<not> 0 < ?v"
    then have "unat p = 0" "fold16 (fold16 (S + unat k)) = 0" using raw[of k] by simp_all
    moreover from this(2) have "S + unat k = 0" using fold16_pos by (metis gr0I less_numeral_extra(3))
    ultimately have "f = 0" "unat k = 0" using raw[of 0] by (simp_all add: f_def r_def fold16_def)
    then show False using k by simp
  qed
  then have "0 < fold16 ?v" by (rule fold16_pos)
  moreover have "fold16 ?v \<le> 65535"
    using u16_le[of "rte_raw_cksum (xs @ le16 k @ ys)"] u16_le[of p] by (intro fold16_once) simp
  ultimately have "fold16 ?v = 65535" using z
    by (metis dvd_imp_le le_antisym mod_eq_0_iff_dvd)
  then show ?thesis
    by (simp add: l4_verifies_def k_def[symmetric] word_unat_eq_iff fold_cksum_sum)
qed

end
