(* ===== verification/Port.thy ===== *)
theory Port
  imports Complex_Main Net
begin

text \<open>
  The data of a port: the packet template \<open>pkt_seq_t\<close> (app/pktgen-seq.h), the range
  description \<open>range_info_t\<close> (app/pktgen-range.h), the rate description and \<open>port_info_t\<close>
  (app/pktgen-port-cfg.h), and the flag helpers of app/pktgen.h. \<open>pktgen_st\<close> holds the port a
  command works on together with the parts of the global \<open>pktgen\<close> structure that commands use.
  Field names carry the prefix of their structure (\<open>pk_\<close>, \<open>rg_\<close>, \<open>rt_\<close>, \<open>pi_\<close>, \<open>g_\<close>) because the
  structures share names.
\<close>

section \<open>Constants\<close>

abbreviation (input) MIN_PKT_SIZE :: u16 where "MIN_PKT_SIZE \<equiv> 60"
abbreviation (input) MAX_PKT_SIZE :: u16 where "MAX_PKT_SIZE \<equiv> 1514"
abbreviation (input) MIN_v6_PKT_SIZE :: u16 where "MIN_v6_PKT_SIZE \<equiv> 74"
abbreviation (input) PG_ETHER_CRC_LEN :: u16 where "PG_ETHER_CRC_LEN \<equiv> 4"
abbreviation (input) PG_ETHER_MIN_LEN :: u16 where "PG_ETHER_MIN_LEN \<equiv> 64"
abbreviation (input) PG_ETHER_MAX_LEN :: u16 where "PG_ETHER_MAX_LEN \<equiv> 1518"
abbreviation (input) PKT_OVERHEAD_SIZE :: u64 where "PKT_OVERHEAD_SIZE \<equiv> 24"
abbreviation (input) DEFAULT_MBUF_SIZE :: nat where "DEFAULT_MBUF_SIZE \<equiv> 2176"
abbreviation (input) USER_PATTERN_SIZE :: nat where "USER_PATTERN_SIZE \<equiv> 16"
abbreviation (input) DEFAULT_PKT_BURST :: u32 where "DEFAULT_PKT_BURST \<equiv> 64"

abbreviation (input) PG_ETHER_TYPE_IPv4 :: u16 where "PG_ETHER_TYPE_IPv4 \<equiv> 0x0800"
abbreviation (input) PG_ETHER_TYPE_IPv6 :: u16 where "PG_ETHER_TYPE_IPv6 \<equiv> 0x86DD"
abbreviation (input) PG_ETHER_TYPE_ARP :: u16 where "PG_ETHER_TYPE_ARP \<equiv> 0x0806"
abbreviation (input) PG_ETHER_TYPE_VLAN :: u16 where "PG_ETHER_TYPE_VLAN \<equiv> 0x8100"
abbreviation (input) PG_IPPROTO_ICMP :: u16 where "PG_IPPROTO_ICMP \<equiv> 1"
abbreviation (input) PG_IPPROTO_TCP :: u16 where "PG_IPPROTO_TCP \<equiv> 6"
abbreviation (input) PG_IPPROTO_UDP :: u16 where "PG_IPPROTO_UDP \<equiv> 17"

abbreviation (input) NUM_SEQ_PKTS :: nat where "NUM_SEQ_PKTS \<equiv> 16"
abbreviation (input) SINGLE_PKT :: nat where "SINGLE_PKT \<equiv> 16"
abbreviation (input) PING_PKT :: nat where "PING_PKT \<equiv> 17"
abbreviation (input) RANGE_PKT :: nat where "RANGE_PKT \<equiv> 18"
abbreviation (input) DUMP_PKT :: nat where "DUMP_PKT \<equiv> 19"
abbreviation (input) RATE_PKT :: nat where "RATE_PKT \<equiv> 20"
abbreviation (input) NUM_TOTAL_PKTS :: nat where "NUM_TOTAL_PKTS \<equiv> 21"

section \<open>Port flags\<close>

definition SEND_ARP_REQUEST :: u32 where "SEND_ARP_REQUEST = push_bit 0 1"
definition SEND_GRATUITOUS_ARP :: u32 where "SEND_GRATUITOUS_ARP = push_bit 1 1"
definition ICMP_ECHO_ENABLE_FLAG :: u32 where "ICMP_ECHO_ENABLE_FLAG = push_bit 2 1"
definition PROCESS_INPUT_PKTS :: u32 where "PROCESS_INPUT_PKTS = push_bit 4 1"
definition SEND_PING4_REQUEST :: u32 where "SEND_PING4_REQUEST = push_bit 6 1"
definition PROCESS_GARP_PKTS :: u32 where "PROCESS_GARP_PKTS = push_bit 10 1"
definition SEND_PCAP_PKTS :: u32 where "SEND_PCAP_PKTS = push_bit 12 1"
definition SEND_RANGE_PKTS :: u32 where "SEND_RANGE_PKTS = push_bit 13 1"
definition SEND_SEQ_PKTS :: u32 where "SEND_SEQ_PKTS = push_bit 14 1"
definition SEND_LATENCY_PKTS :: u32 where "SEND_LATENCY_PKTS = push_bit 15 1"
definition SEND_RATE_PACKETS :: u32 where "SEND_RATE_PACKETS = push_bit 16 1"
definition SEND_RANDOM_PKTS :: u32 where "SEND_RANDOM_PKTS = push_bit 17 1"
definition SEND_VLAN_ID :: u32 where "SEND_VLAN_ID = push_bit 20 1"
definition SEND_MPLS_LABEL :: u32 where "SEND_MPLS_LABEL = push_bit 21 1"
definition SEND_Q_IN_Q_IDS :: u32 where "SEND_Q_IN_Q_IDS = push_bit 22 1"
definition SEND_GRE_IPv4_HEADER :: u32 where "SEND_GRE_IPv4_HEADER = push_bit 23 1"
definition SEND_GRE_ETHER_HEADER :: u32 where "SEND_GRE_ETHER_HEADER = push_bit 24 1"
definition SEND_VXLAN_PACKETS :: u32 where "SEND_VXLAN_PACKETS = push_bit 25 1"
definition SENDING_PACKETS :: u32 where "SENDING_PACKETS = push_bit 30 1"
definition SEND_FOREVER :: u32 where "SEND_FOREVER = push_bit 31 1"

definition EXCLUSIVE_MODES :: u32 where
  "EXCLUSIVE_MODES = SEND_PCAP_PKTS OR SEND_RANGE_PKTS OR SEND_SEQ_PKTS OR SEND_RANDOM_PKTS OR
     SEND_LATENCY_PKTS OR SEND_RATE_PACKETS"

definition EXCLUSIVE_PKT_MODES :: u32 where
  "EXCLUSIVE_PKT_MODES = SEND_VLAN_ID OR SEND_VXLAN_PACKETS OR SEND_MPLS_LABEL OR SEND_Q_IN_Q_IDS OR
     SEND_GRE_IPv4_HEADER OR SEND_GRE_ETHER_HEADER"

lemmas port_flag_defs = SEND_ARP_REQUEST_def SEND_GRATUITOUS_ARP_def ICMP_ECHO_ENABLE_FLAG_def
  PROCESS_INPUT_PKTS_def SEND_PING4_REQUEST_def PROCESS_GARP_PKTS_def SEND_PCAP_PKTS_def
  SEND_RANGE_PKTS_def SEND_SEQ_PKTS_def SEND_LATENCY_PKTS_def SEND_RATE_PACKETS_def
  SEND_RANDOM_PKTS_def SEND_VLAN_ID_def SEND_MPLS_LABEL_def SEND_Q_IN_Q_IDS_def
  SEND_GRE_IPv4_HEADER_def SEND_GRE_ETHER_HEADER_def SEND_VXLAN_PACKETS_def SENDING_PACKETS_def SEND_FOREVER_def

definition CLEAR_FAST_ALLOC_FLAG :: u32 where "CLEAR_FAST_ALLOC_FLAG = 1"
definition DO_TX_FLUSH :: u32 where "DO_TX_FLUSH = 2"

section \<open>Structures\<close>

text \<open>
  IP addresses are kept in host order, as the code keeps them; MAC addresses are six bytes.
  \<open>pk_hdr\<close> is the header area and its padding, \<open>DEFAULT_MBUF_SIZE\<close> bytes.
\<close>

record pkt_seq =
  pk_eth_dst :: "u8 list"
  pk_eth_src :: "u8 list"
  pk_ip_src :: u32
  pk_ip_dst :: u32
  pk_ip_mask :: u32
  pk_sport :: u16
  pk_dport :: u16
  pk_ethType :: u16
  pk_ipProto :: u16
  pk_vlanid :: u16
  pk_cos :: u8
  pk_tos :: u8
  pk_ether_hdr_size :: u16
  pk_mpls_entry :: u32
  pk_qinq_outerid :: u16
  pk_qinq_innerid :: u16
  pk_gre_key :: u32
  pk_pktSize :: u16
  pk_ttl :: u8
  pk_gtpu_teid :: u32
  pk_vni_flags :: u16
  pk_group_id :: u16
  pk_vxlan_id :: u32
  pk_hdr :: "u8 list"

record range_info =
  rg_src_ip_inc :: u32
  rg_dst_ip_inc :: u32
  rg_src_port_inc :: u16
  rg_dst_port_inc :: u16
  rg_vlan_id_inc :: u16
  rg_tos_inc :: u16
  rg_cos_inc :: u16
  rg_pkt_size_inc :: u16
  rg_src_mac_inc :: u64
  rg_dst_mac_inc :: u64
  rg_ttl_inc :: u8
  rg_src_ip :: u32
  rg_src_ip_min :: u32
  rg_src_ip_max :: u32
  rg_dst_ip :: u32
  rg_dst_ip_min :: u32
  rg_dst_ip_max :: u32
  rg_ip_proto :: u16
  rg_src_port :: u16
  rg_src_port_min :: u16
  rg_src_port_max :: u16
  rg_dst_port :: u16
  rg_dst_port_min :: u16
  rg_dst_port_max :: u16
  rg_vlan_id :: u16
  rg_vlan_id_min :: u16
  rg_vlan_id_max :: u16
  rg_cos :: u8
  rg_cos_min :: u8
  rg_cos_max :: u8
  rg_tos :: u8
  rg_tos_min :: u8
  rg_tos_max :: u8
  rg_pkt_size :: u16
  rg_pkt_size_min :: u16
  rg_pkt_size_max :: u16
  rg_dst_mac :: u64
  rg_dst_mac_min :: u64
  rg_dst_mac_max :: u64
  rg_src_mac :: u64
  rg_src_mac_min :: u64
  rg_src_mac_max :: u64
  rg_ttl :: u8
  rg_ttl_min :: u8
  rg_ttl_max :: u8
  rg_gtpu_teid :: u32
  rg_gtpu_teid_inc :: u32
  rg_gtpu_teid_min :: u32
  rg_gtpu_teid_max :: u32
  rg_vxlan_gid :: u32
  rg_vxlan_gid_inc :: u32
  rg_vxlan_gid_min :: u32
  rg_vxlan_gid_max :: u32
  rg_vxlan_vid :: u32
  rg_vxlan_vid_inc :: u32
  rg_vxlan_vid_min :: u32
  rg_vxlan_vid_max :: u32
  rg_vni_flags :: u32

record rate_info =
  rt_fps :: u16
  rt_vlines :: u16
  rt_pixels :: u16
  rt_color_bits :: u16
  rt_payload :: u16
  rt_overhead :: u16
  rt_bytes_per_vframe :: u32
  rt_bits_per_sec :: u32
  rt_pkts_per_vframe :: u32
  rt_total_pkts_per_sec :: u32
  rt_cycles_per_pkt :: u64

datatype fill_pattern = ZERO_FILL_PATTERN | ABC_FILL_PATTERN | USER_FILL_PATTERN | NO_FILL_PATTERN

text \<open>
  \<open>pi_tx_rate\<close> is the \<open>double\<close> of the source, \<open>pi_q_flags\<close> the flags of the eight queues and
  \<open>pi_pcap\<close> the packet count and average size of a loaded capture file.
\<close>

record port_info =
  pi_pid :: u16
  pi_tx_burst :: u16
  pi_tx_rate :: rat
  pi_port_flags :: u32
  pi_transmit_count :: u64
  pi_current_tx_count :: u64
  pi_tx_cycles :: u64
  pi_tx_pps :: u64
  pi_delta :: u64
  pi_seqIdx :: u16
  pi_seqCnt :: u16
  pi_prime_cnt :: u16
  pi_vlanid :: u16
  pi_cos :: u8
  pi_tos :: u8
  pi_seq_pkt :: "pkt_seq list"
  pi_range :: range_info
  pi_mpls_entry :: u32
  pi_gre_key :: u32
  pi_rate :: rate_info
  pi_vni_flags :: u16
  pi_group_id :: u16
  pi_vxlan_id :: u32
  pi_jitter_threshold :: u64
  pi_jitter_threshold_clks :: u64
  pi_jitter_count :: u64
  pi_link_speed :: u32
  pi_q_flags :: "u32 list"
  pi_pcap :: "(nat \<times> u64) option"
  pi_user_pattern :: "u8 list"
  pi_fill_pattern :: fill_pattern

text \<open>
  \<open>g_txcnt\<close> is \<open>get_port_txcnt\<close> of the port (see the theory of the port map), and \<open>g_scale q r\<close>
  the double expression \<open>(q * r) / 100\<close> converted back to an integer.
\<close>

record pktgen_st =
  g_info :: port_info
  g_flags :: u32
  g_ident :: u16
  g_hz :: u64
  g_txcnt :: nat
  g_scale :: "u64 \<Rightarrow> rat \<Rightarrow> u64"

section \<open>Flag helpers\<close>

definition pktgen_set_port_flags :: "u32 \<Rightarrow> port_info \<Rightarrow> port_info" where
  "pktgen_set_port_flags fl i = i\<lparr>pi_port_flags := pi_port_flags i OR fl\<rparr>"

definition pktgen_clr_port_flags :: "u32 \<Rightarrow> port_info \<Rightarrow> port_info" where
  "pktgen_clr_port_flags fl i = i\<lparr>pi_port_flags := pi_port_flags i AND NOT fl\<rparr>"

definition pktgen_tst_port_flags :: "u32 \<Rightarrow> port_info \<Rightarrow> bool" where
  "pktgen_tst_port_flags fl i \<longleftrightarrow> pi_port_flags i AND fl \<noteq> 0"

definition pktgen_set_q_flags :: "nat \<Rightarrow> u32 \<Rightarrow> port_info \<Rightarrow> port_info res" where
  "pktgen_set_q_flags q fl i =
     (if q < length (pi_q_flags i)
      then Inr (i\<lparr>pi_q_flags := (pi_q_flags i)[q := pi_q_flags i ! q OR fl]\<rparr>) else Inl Fault)"

definition pktgen_clr_q_flags :: "nat \<Rightarrow> u32 \<Rightarrow> port_info \<Rightarrow> port_info res" where
  "pktgen_clr_q_flags q fl i =
     (if q < length (pi_q_flags i)
      then Inr (i\<lparr>pi_q_flags := (pi_q_flags i)[q := pi_q_flags i ! q AND NOT fl]\<rparr>) else Inl Fault)"

definition pktgen_tst_q_flags :: "nat \<Rightarrow> u32 \<Rightarrow> port_info \<Rightarrow> bool res" where
  "pktgen_tst_q_flags q fl i =
     (if q < length (pi_q_flags i) then Inr (pi_q_flags i ! q AND fl \<noteq> 0) else Inl Fault)"

text \<open>The loops over the transmit queues of a port.\<close>

fun set_q_flags_upto :: "nat \<Rightarrow> u32 \<Rightarrow> port_info \<Rightarrow> port_info res" where
  "set_q_flags_upto 0 fl i = Inr i"
| "set_q_flags_upto (Suc n) fl i = rbind (set_q_flags_upto n fl i) (pktgen_set_q_flags n fl)"

definition pktgen_set_tx_update :: "pktgen_st \<Rightarrow> pktgen_st res" where
  "pktgen_set_tx_update g =
     rbind (set_q_flags_upto (g_txcnt g) CLEAR_FAST_ALLOC_FLAG (g_info g)) (\<lambda>i. Inr (g\<lparr>g_info := i\<rparr>))"

text \<open>Access to one packet template of the port.\<close>

definition upd_pkt :: "nat \<Rightarrow> (pkt_seq \<Rightarrow> pkt_seq) \<Rightarrow> port_info \<Rightarrow> port_info" where
  "upd_pkt n f i = i\<lparr>pi_seq_pkt := (pi_seq_pkt i)[n := f (pi_seq_pkt i ! n)]\<rparr>"

definition upd_info :: "(port_info \<Rightarrow> port_info) \<Rightarrow> pktgen_st \<Rightarrow> pktgen_st" where
  "upd_info f g = g\<lparr>g_info := f (g_info g)\<rparr>"

definition port_wf :: "pktgen_st \<Rightarrow> bool" where
  "port_wf g \<longleftrightarrow> length (pi_seq_pkt (g_info g)) = NUM_TOTAL_PKTS \<and> length (pi_q_flags (g_info g)) = 8 \<and>
     g_txcnt g \<le> 8 \<and> length (pi_user_pattern (g_info g)) = USER_PATTERN_SIZE \<and>
     (\<forall>p \<in> set (pi_seq_pkt (g_info g)). length (pk_hdr p) = DEFAULT_MBUF_SIZE \<and>
        length (pk_eth_src p) = 6 \<and> length (pk_eth_dst p) = 6)"

end
