(* ===== verification/Packet.thy ===== *)
theory Packet
  imports Port
begin

text \<open>
  Construction of packets: app/pktgen.c (\<open>pktgen_fill_pattern\<close>, \<open>pktgen_packet_ctor\<close>) and the
  header constructors of app/pktgen-ether.c, -ipv4.c, -ipv6.c, -tcp.c, -udp.c, -gre.c and
  -gtpu.c. A header pointer is an offset into the packet's header area \<open>pk_hdr\<close>; a constructor
  returns the changed packet, and those that advance the header pointer return the new offset.
\<close>

section \<open>Fill pattern and link-layer headers\<close>

definition abc_pattern :: "u8 list" where
  "abc_pattern = map (of_char :: char \<Rightarrow> u8) ''abcdefghijklmnopqrstuvwxyz012345''"

definition pktgen_fill_pattern :: "u8 list \<Rightarrow> fill_pattern \<Rightarrow> u8 list \<Rightarrow> u8 list" where
  "pktgen_fill_pattern p type user =
     (case type of
        USER_FILL_PATTERN \<Rightarrow> map (\<lambda>i. user ! (i mod USER_PATTERN_SIZE)) [0..<length p]
      | NO_FILL_PATTERN \<Rightarrow> p
      | ZERO_FILL_PATTERN \<Rightarrow> replicate (length p) 0
      | ABC_FILL_PATTERN \<Rightarrow> map (\<lambda>i. abc_pattern ! (i mod 32)) [0..<length p])"

definition pktgen_ether_hdr_ctor :: "u32 \<Rightarrow> pkt_seq \<Rightarrow> (nat \<times> pkt_seq) res" where
  "pktgen_ether_hdr_ctor flags pkt =
     rbind (wrs (pk_hdr pkt) [(6, pk_eth_src pkt), (0, pk_eth_dst pkt)]) (\<lambda>m.
       if flags AND SEND_VLAN_ID \<noteq> 0 then
         let vlan_id = pk_vlanid pkt OR push_bit 13 (ucast (pk_cos pkt)) in
         rbind (wrs m [(12, be16 PG_ETHER_TYPE_VLAN), (14, be16 vlan_id), (16, be16 (pk_ethType pkt))])
           (\<lambda>m. Inr (18, pkt\<lparr>pk_hdr := m, pk_ether_hdr_size := 18\<rparr>))
       else if flags AND SEND_MPLS_LABEL \<noteq> 0 then
         rbind (wrs m [(12, be16 0x8847), (14, be32 (pk_mpls_entry pkt OR push_bit 8 1))])
           (\<lambda>m. Inr (18, pkt\<lparr>pk_hdr := m, pk_ether_hdr_size := 18\<rparr>))
       else if flags AND SEND_Q_IN_Q_IDS \<noteq> 0 then
         rbind (wrs m [(12, be16 0x88A8), (14, be16 (pk_qinq_outerid pkt)), (16, be16 PG_ETHER_TYPE_VLAN),
                       (18, be16 (pk_qinq_innerid pkt)), (20, be16 (pk_ethType pkt))])
           (\<lambda>m. Inr (22, pkt\<lparr>pk_hdr := m, pk_ether_hdr_size := 22\<rparr>))
       else
         rbind (wrs m [(12, be16 (pk_ethType pkt))])
           (\<lambda>m. Inr (14, pkt\<lparr>pk_hdr := m, pk_ether_hdr_size := 14\<rparr>)))"

text \<open>
  The outer IPv4 header and the GRE header with its key. Both constructors add to
  \<open>ether_hdr_size\<close>, whatever it was, and do not write the outer Ethernet header.
\<close>

definition gre_ip_writes :: "pkt_seq \<Rightarrow> u16 \<Rightarrow> nat \<Rightarrow> nat \<Rightarrow> (nat \<times> u8 list) list" where
  "gre_ip_writes pkt ident gre sz =
     [(gre, replicate sz 0), (gre, [0x45]), (gre + 1, [0]),
      (gre + 2, be16 (pk_pktSize pkt - pk_ether_hdr_size pkt)), (gre + 4, be16 ident), (gre + 6, [0, 0]),
      (gre + 8, [64]), (gre + 9, [47]), (gre + 12, be32 0x0A0A0101), (gre + 16, be32 0x0A0A0102)]"

definition pktgen_gre_hdr_ctor :: "pkt_seq \<Rightarrow> u16 \<Rightarrow> nat \<Rightarrow> (nat \<times> pkt_seq \<times> u16) res" where
  "pktgen_gre_hdr_ctor pkt ident0 gre =
     (let ident = ident0 + 27 in
      rbind (wrs (pk_hdr pkt) (gre_ip_writes pkt ident gre 36)) (\<lambda>m.
      rbind (rte_ipv4_cksum m gre) (\<lambda>c.
      rbind (wrs m [(gre + 10, le16 c), (gre + 20, [0x20, 0]), (gre + 22, be16 PG_ETHER_TYPE_IPv4),
                    (gre + 24, be32 (pk_gre_key pkt))]) (\<lambda>m.
      Inr (gre + 28, pkt\<lparr>pk_hdr := m, pk_ether_hdr_size := pk_ether_hdr_size pkt + 28\<rparr>, ident)))))"

definition pktgen_gre_ether_hdr_ctor :: "pkt_seq \<Rightarrow> u16 \<Rightarrow> nat \<Rightarrow> (nat \<times> pkt_seq \<times> u16) res" where
  "pktgen_gre_ether_hdr_ctor pkt ident0 gre =
     (let ident = ident0 + 27 in
      rbind (wrs (pk_hdr pkt) (gre_ip_writes pkt ident gre 50)) (\<lambda>m.
      rbind (rte_ipv4_cksum m gre) (\<lambda>c.
      rbind (wrs m [(gre + 10, le16 c), (gre + 20, [0x20, 0]), (gre + 22, be16 0x6558),
                    (gre + 24, be32 (pk_gre_key pkt)), (gre + 34, pk_eth_src pkt), (gre + 28, pk_eth_dst pkt),
                    (gre + 40, be16 PG_ETHER_TYPE_IPv4)]) (\<lambda>m.
      Inr (gre + 42, pkt\<lparr>pk_hdr := m, pk_ether_hdr_size := pk_ether_hdr_size pkt + 42\<rparr>, ident)))))"

section \<open>Network and transport headers\<close>

definition pktgen_ipv4_ctor :: "pkt_seq \<Rightarrow> u16 \<Rightarrow> nat \<Rightarrow> (pkt_seq \<times> u16) res" where
  "pktgen_ipv4_ctor pkt ident0 ip =
     (let tlen = pk_pktSize pkt - pk_ether_hdr_size pkt; ident = ident0 + 27 in
      rbind (wrs (pk_hdr pkt)
               [(ip, replicate 20 0), (ip, [0x45]), (ip + 2, be16 tlen), (ip + 8, [pk_ttl pkt]),
                (ip + 1, [pk_tos pkt]), (ip + 4, be16 ident), (ip + 6, [0, 0]), (ip + 9, [ucast (pk_ipProto pkt)]),
                (ip + 12, be32 (pk_ip_src pkt)), (ip + 16, be32 (pk_ip_dst pkt)), (ip + 10, le16 0)]) (\<lambda>m.
      rbind (rte_ipv4_cksum m ip) (\<lambda>c.
      rbind (wr m (ip + 10) (le16 c)) (\<lambda>m. Inr (pkt\<lparr>pk_hdr := m\<rparr>, ident)))))"

definition pktgen_ipv6_ctor :: "pkt_seq \<Rightarrow> nat \<Rightarrow> pkt_seq res" where
  "pktgen_ipv6_ctor pkt ip =
     (let tlen = pk_pktSize pkt - (pk_ether_hdr_size pkt + 40) in
      rbind (wrs (pk_hdr pkt)
               [(ip, replicate 40 0), (ip, be32 0x60000000), (ip + 4, be16 tlen), (ip + 7, [4]),
                (ip + 6, [ucast (pk_ipProto pkt)]), (ip + 32, be32 (pk_ip_dst pkt)), (ip + 16, be32 (pk_ip_src pkt))])
        (\<lambda>m. Inr (pkt\<lparr>pk_hdr := m\<rparr>)))"

text \<open>The pseudo-header fields the transport constructors put into the network header first.\<close>

definition ipv4_pseudo_writes :: "pkt_seq \<Rightarrow> nat \<Rightarrow> (nat \<times> u8 list) list" where
  "ipv4_pseudo_writes pkt ip =
     [(ip + 12, be32 (pk_ip_src pkt)), (ip + 16, be32 (pk_ip_dst pkt)),
      (ip + 2, be16 (pk_pktSize pkt - pk_ether_hdr_size pkt)), (ip + 9, [ucast (pk_ipProto pkt)])]"

definition ipv6_pseudo_writes :: "pkt_seq \<Rightarrow> nat \<Rightarrow> (nat \<times> u8 list) list" where
  "ipv6_pseudo_writes pkt ip =
     [(ip + 24, replicate 16 0), (ip + 8, replicate 16 0), (ip + 32, be32 (pk_ip_dst pkt)),
      (ip + 16, be32 (pk_ip_src pkt)), (ip + 4, be16 (pk_pktSize pkt - (pk_ether_hdr_size pkt + 40))),
      (ip + 6, [ucast (pk_ipProto pkt)])]"

definition tcp_writes :: "pkt_seq \<Rightarrow> nat \<Rightarrow> (nat \<times> u8 list) list" where
  "tcp_writes pkt tcp =
     [(tcp, be16 (pk_sport pkt)), (tcp + 2, be16 (pk_dport pkt)), (tcp + 4, be32 0x12345678),
      (tcp + 8, be32 0x12345690), (tcp + 12, [0x50]), (tcp + 13, [0x10]), (tcp + 14, be16 8192),
      (tcp + 18, le16 0), (tcp + 16, le16 0)]"

definition pktgen_tcp_hdr_ctor :: "pkt_seq \<Rightarrow> nat \<Rightarrow> u16 \<Rightarrow> pkt_seq res" where
  "pktgen_tcp_hdr_ctor pkt ip type =
     (if type = PG_ETHER_TYPE_IPv4 then
        rbind (wrs (pk_hdr pkt) (ipv4_pseudo_writes pkt ip @ tcp_writes pkt (ip + 20))) (\<lambda>m.
        rbind (rte_ipv4_udptcp_cksum m ip (ip + 20)) (\<lambda>c.
        rbind (wr m (ip + 20 + 16) (le16 c)) (\<lambda>m. Inr (pkt\<lparr>pk_hdr := m\<rparr>))))
      else
        rbind (wrs (pk_hdr pkt) (ipv6_pseudo_writes pkt ip @ tcp_writes pkt (ip + 40))) (\<lambda>m.
        rbind (rte_ipv6_udptcp_cksum m ip (ip + 40)) (\<lambda>c.
        rbind (wr m (ip + 40 + 16) (le16 c)) (\<lambda>m. Inr (pkt\<lparr>pk_hdr := m\<rparr>)))))"

abbreviation (input) VXLAN_PORT_ID :: u16 where "VXLAN_PORT_ID \<equiv> 4789"
abbreviation (input) PG_IPPROTO_L4_GTPU_PORT :: u16 where "PG_IPPROTO_L4_GTPU_PORT \<equiv> 2152"

text \<open>
  \<open>htonl (vxlan_id) << 8\<close> shifts after the byte swap: the first byte stored is zero and the
  lowest byte of the identifier is lost.
\<close>

definition vxlan_writes :: "pkt_seq \<Rightarrow> nat \<Rightarrow> (nat \<times> u8 list) list" where
  "vxlan_writes pkt v =
     [(v, be16 (pk_vni_flags pkt)), (v + 2, be16 (pk_group_id pkt)), (v + 4, [0] @ take 3 (be32 (pk_vxlan_id pkt)))]"

definition udp_writes :: "pkt_seq \<Rightarrow> nat \<Rightarrow> u16 \<Rightarrow> (nat \<times> u8 list) list" where
  "udp_writes pkt udp tlen =
     [(udp + 4, be16 tlen), (udp, be16 (pk_sport pkt)), (udp + 2, be16 (pk_dport pkt))]"

definition nonzero_cksum :: "u16 \<Rightarrow> u16" where
  "nonzero_cksum c = (if c = 0 then 0xFFFF else c)"

definition pktgen_udp_hdr_ctor :: "pkt_seq \<Rightarrow> nat \<Rightarrow> u16 \<Rightarrow> pkt_seq res" where
  "pktgen_udp_hdr_ctor pkt ip type =
     (if type = PG_ETHER_TYPE_IPv4 then
        let tlen = pk_pktSize pkt - (pk_ether_hdr_size pkt + 20); udp = ip + 20 in
        rbind (wrs (pk_hdr pkt) (ipv4_pseudo_writes pkt ip @ udp_writes pkt udp tlen @
                 (if pk_dport pkt = VXLAN_PORT_ID then vxlan_writes pkt (udp + 8) else []) @ [(udp + 6, le16 0)])) (\<lambda>m.
        rbind (rte_ipv4_udptcp_cksum m ip udp) (\<lambda>c.
        rbind (wr m (udp + 6) (le16 (nonzero_cksum c))) (\<lambda>m. Inr (pkt\<lparr>pk_hdr := m\<rparr>))))
      else
        let tlen = pk_pktSize pkt - (pk_ether_hdr_size pkt + 40); udp = ip + 40 in
        rbind (wrs (pk_hdr pkt) (ipv6_pseudo_writes pkt ip @ udp_writes pkt udp tlen @ [(udp + 6, le16 0)])) (\<lambda>m.
        rbind (rte_ipv6_udptcp_cksum m ip udp) (\<lambda>c.
        rbind (wr m (udp + 6) (le16 (nonzero_cksum c))) (\<lambda>m. Inr (pkt\<lparr>pk_hdr := m\<rparr>)))))"

text \<open>
  The optional GTP-U fields are written at \<open>p\<close>, which starts at the header itself; each flag is
  tested on the byte then in memory.
\<close>

definition gtpu_option :: "u8 \<Rightarrow> nat \<Rightarrow> u8 list \<Rightarrow> u8 list \<times> nat \<Rightarrow> (u8 list \<times> nat) res" where
  "gtpu_option flag gtp bs = (\<lambda>(m, p).
     rbind (rd m gtp 1) (\<lambda>v. if hd v AND flag \<noteq> 0 then rbind (wr m p bs) (\<lambda>m. Inr (m, p + length bs))
                               else Inr (m, p)))"

definition pktgen_gtpu_hdr_ctor ::
  "pkt_seq \<Rightarrow> nat \<Rightarrow> u16 \<Rightarrow> u8 \<Rightarrow> u16 \<Rightarrow> u8 \<Rightarrow> u8 \<Rightarrow> pkt_seq res" where
  "pktgen_gtpu_hdr_ctor pkt hdr ipProto flags seq_no npdu_no next_ext =
     (let l4 = (if ipProto = PG_IPPROTO_UDP then 8 else 20 :: nat); gtp = hdr + 20 + l4 in
      rbind (wrs (pk_hdr pkt) [(gtp, replicate 8 0), (gtp, [flags]), (gtp + 1, [0xff]),
                               (gtp + 4, be32 (pk_gtpu_teid pkt))]) (\<lambda>m.
      rbind (gtpu_option 0x02 gtp (le16 seq_no) (m, gtp)) (\<lambda>s1.
      rbind (gtpu_option 0x01 gtp [npdu_no] s1) (\<lambda>s2.
      rbind (gtpu_option 0x04 gtp [next_ext] s2) (\<lambda>(m, p).
      rbind (wr m (gtp + 2) (be16 (pk_pktSize pkt - (of_nat l4 + 8 + pk_ether_hdr_size pkt))))
        (\<lambda>m. Inr (pkt\<lparr>pk_hdr := m\<rparr>)))))))"

text \<open>
  The ICMP branch. The ICMP header is placed 8 bytes after the end of the IP header, and the
  data union overlays it from its first byte.
\<close>

definition icmp_writes :: "nat \<Rightarrow> int \<Rightarrow> (nat \<times> u8 list) list" where
  "icmp_writes icmp type =
     [(icmp + 1, [0])] @
     (if type = -1 \<or> type = 13 then
        [(icmp, [13]), (icmp, le16 0x1234), (icmp + 2, le16 0x5678), (icmp + 4, le32 0x80004321),
         (icmp + 8, le32 0), (icmp + 12, le32 0)]
      else if type = 8 then
        [(icmp, [8]), (icmp, le16 0x1234), (icmp + 2, le16 0x5678), (icmp + 4, le32 0)]
      else []) @
     [(icmp + 2, le16 0)]"

definition pktgen_icmp_ctor :: "pkt_seq \<Rightarrow> nat \<Rightarrow> int \<Rightarrow> pkt_seq res" where
  "pktgen_icmp_ctor pkt ip type =
     (let tlen = pk_pktSize pkt - (pk_ether_hdr_size pkt + 20); icmp = ip + 28 in
      rbind (wrs (pk_hdr pkt)
               ([(ip + 12, be32 (pk_ip_src pkt)), (ip + 16, be32 (pk_ip_dst pkt)), (ip + 2, be16 tlen),
                 (ip + 9, [ucast (pk_ipProto pkt)])] @ icmp_writes icmp type)) (\<lambda>m.
      rbind (rd m icmp (unat tlen)) (\<lambda>d.
      rbind (wr m (icmp + 2) (le16 (nonzero_cksum (rte_raw_cksum d)))) (\<lambda>m. Inr (pkt\<lparr>pk_hdr := m\<rparr>)))))"

definition pktgen_arp_ctor :: "pkt_seq \<Rightarrow> nat \<Rightarrow> pkt_seq res" where
  "pktgen_arp_ctor pkt arp =
     rbind (wrs (pk_hdr pkt)
       [(arp, be16 1), (arp + 2, be16 PG_ETHER_TYPE_IPv4), (arp + 4, [6]), (arp + 5, [4]), (arp + 6, be16 2),
        (arp + 8, pk_eth_src pkt), (arp + 8, be32 (pk_ip_src pkt)), (arp + 18, pk_eth_dst pkt),
        (arp + 24, be32 (pk_ip_dst pkt))]) (\<lambda>m. Inr (pkt\<lparr>pk_hdr := m\<rparr>))"

section \<open>The whole packet\<close>

definition pktgen_l3_ctor :: "u32 \<Rightarrow> pkt_seq \<Rightarrow> u16 \<Rightarrow> nat \<Rightarrow> int \<Rightarrow> (pkt_seq \<times> u16) res" where
  "pktgen_l3_ctor flags pkt ident l3 type =
     (if pk_ethType pkt = PG_ETHER_TYPE_IPv4 then
        if pk_ipProto pkt = PG_IPPROTO_TCP then
          rbind (if pk_dport pkt \<noteq> PG_IPPROTO_L4_GTPU_PORT then Inr pkt
                 else pktgen_gtpu_hdr_ctor pkt l3 (pk_ipProto pkt) 0x30 0 0 0) (\<lambda>pkt.
          rbind (pktgen_tcp_hdr_ctor pkt l3 PG_ETHER_TYPE_IPv4) (\<lambda>pkt. pktgen_ipv4_ctor pkt ident l3))
        else if pk_ipProto pkt = PG_IPPROTO_UDP then
          rbind (if flags AND SEND_VXLAN_PACKETS \<noteq> 0 then Inr (pkt\<lparr>pk_dport := VXLAN_PORT_ID\<rparr>)
                 else if pk_dport pkt \<noteq> PG_IPPROTO_L4_GTPU_PORT then Inr pkt
                 else pktgen_gtpu_hdr_ctor pkt l3 (pk_ipProto pkt) 0x30 0 0 0) (\<lambda>pkt.
          rbind (pktgen_udp_hdr_ctor pkt l3 PG_ETHER_TYPE_IPv4) (\<lambda>pkt. pktgen_ipv4_ctor pkt ident l3))
        else if pk_ipProto pkt = PG_IPPROTO_ICMP then
          rbind (pktgen_icmp_ctor pkt l3 type) (\<lambda>pkt. pktgen_ipv4_ctor pkt ident l3)
        else Inr (pkt, ident)
      else if pk_ethType pkt = PG_ETHER_TYPE_IPv6 then
        if pk_ipProto pkt = PG_IPPROTO_TCP then
          rbind (pktgen_tcp_hdr_ctor pkt l3 PG_ETHER_TYPE_IPv6) (\<lambda>pkt.
          rbind (pktgen_ipv6_ctor pkt l3) (\<lambda>pkt. Inr (pkt, ident)))
        else if pk_ipProto pkt = PG_IPPROTO_UDP then
          rbind (pktgen_udp_hdr_ctor pkt l3 PG_ETHER_TYPE_IPv6) (\<lambda>pkt.
          rbind (pktgen_ipv6_ctor pkt l3) (\<lambda>pkt. Inr (pkt, ident)))
        else Inr (pkt, ident)
      else if pk_ethType pkt = PG_ETHER_TYPE_ARP then
        rbind (pktgen_arp_ctor pkt l3) (\<lambda>pkt. Inr (pkt, ident))
      else Inr (pkt, ident))"

definition pkt_ctor :: "u32 \<Rightarrow> fill_pattern \<Rightarrow> u8 list \<Rightarrow> pkt_seq \<Rightarrow> u16 \<Rightarrow> int \<Rightarrow> (pkt_seq \<times> u16) res" where
  "pkt_ctor flags fill user pkt0 ident type =
     (let pkt = pkt0\<lparr>pk_hdr := pktgen_fill_pattern (pk_hdr pkt0) fill user\<rparr> in
      if flags AND SEND_GRE_IPv4_HEADER \<noteq> 0 then
        rbind (pktgen_gre_hdr_ctor pkt ident 14) (\<lambda>(l3, pkt, ident). pktgen_l3_ctor flags pkt ident l3 type)
      else if flags AND SEND_GRE_ETHER_HEADER \<noteq> 0 then
        rbind (pktgen_gre_ether_hdr_ctor pkt ident 14) (\<lambda>(l3, pkt, ident). pktgen_l3_ctor flags pkt ident l3 type)
      else
        rbind (pktgen_ether_hdr_ctor flags pkt) (\<lambda>(l3, pkt). pktgen_l3_ctor flags pkt ident l3 type))"

definition pktgen_packet_ctor :: "nat \<Rightarrow> int \<Rightarrow> pktgen_st \<Rightarrow> pktgen_st res" where
  "pktgen_packet_ctor seq_idx type g =
     (let i = g_info g in
      if seq_idx < length (pi_seq_pkt i) then
        rbind (pkt_ctor (pi_port_flags i) (pi_fill_pattern i) (pi_user_pattern i) (pi_seq_pkt i ! seq_idx) (g_ident g) type)
          (\<lambda>(pkt, ident). Inr (g\<lparr>g_info := i\<lparr>pi_seq_pkt := (pi_seq_pkt i)[seq_idx := pkt]\<rparr>, g_ident := ident\<rparr>))
      else Inl Fault)"

section \<open>What the constructors leave in the packet\<close>

lemma of_be16_be16 [simp]: "of_be16 (be16 w) = w"
  by (rule bit_word_eqI) (auto simp: of_be16_def be16_def bit_simps)

lemma rd_prefix:
  assumes "rd m i n = Inr (x @ y)"
  shows "rd m i (length x) = Inr x"
proof -
  have n: "length (x @ y) = n" by (rule rd_length[OF assms])
  moreover have le: "i + n \<le> length m" and t: "take n (drop i m) = x @ y"
    using assms by (auto simp: rd_def split: if_splits)
  moreover have "take (length x) (drop i m) = take (length x) (take n (drop i m))" using n by (simp add: min_def)
  ultimately show ?thesis by (simp add: rd_def)
qed

lemma ipv4_phdr_cksum_fields:
  assumes "rd m (ip + 12) 4 = Inr s" "rd m (ip + 16) 4 = Inr d" "rd m (ip + 9) 1 = Inr pr" "rd m (ip + 2) 2 = Inr (be16 tlen)"
  shows "rte_ipv4_phdr_cksum m ip = Inr (rte_raw_cksum (s @ d @ [0] @ pr @ be16 (tlen - 20)))"
proof -
  have "rd m (ip + 12) 8 = Inr (s @ d)" by (rule rd_append[OF assms(1,2)]) simp_all
  then show ?thesis using assms(3,4) by (simp add: rte_ipv4_phdr_cksum_def)
qed

text \<open>What the IPv4 constructor leaves in memory.\<close>

lemma pktgen_ipv4_ctor_ok:
  assumes len: "ip + 20 \<le> length (pk_hdr pkt)"
  defines "tlen \<equiv> pk_pktSize pkt - pk_ether_hdr_size pkt"
  shows "\<exists>m h. pktgen_ipv4_ctor pkt ident ip = Inr (pkt\<lparr>pk_hdr := m\<rparr>, ident + 27) \<and> length m = length (pk_hdr pkt) \<and>
    rd m ip 20 = Inr h \<and> rte_raw_cksum h = 0xffff \<and>
    rd m (ip + 12) 4 = Inr (be32 (pk_ip_src pkt)) \<and> rd m (ip + 16) 4 = Inr (be32 (pk_ip_dst pkt)) \<and>
    rd m (ip + 9) 1 = Inr [ucast (pk_ipProto pkt)] \<and> rd m (ip + 2) 2 = Inr (be16 tlen) \<and>
    (\<forall>i n. i + n \<le> ip \<or> ip + 20 \<le> i \<longrightarrow> rd m i n = rd (pk_hdr pkt) i n)"
proof -
  let ?ws = "[(ip, replicate 20 0), (ip, [0x45]), (ip + 2, be16 tlen), (ip + 8, [pk_ttl pkt]),
      (ip + 1, [pk_tos pkt]), (ip + 4, be16 (ident + 27)), (ip + 6, [0, 0]), (ip + 9, [ucast (pk_ipProto pkt)]),
      (ip + 12, be32 (pk_ip_src pkt)), (ip + 16, be32 (pk_ip_dst pkt)), (ip + 10, le16 0)]"
  obtain m1 where m1: "wrs (pk_hdr pkt) ?ws = Inr m1" "length m1 = length (pk_hdr pkt)"
    using wrs_ok[of ?ws "pk_hdr pkt"] len by auto
  obtain h1 where h1: "rd m1 ip 20 = Inr h1" "length h1 = 20" using rd_ok[of ip 20 m1] m1(2) len by auto
  have z: "rd m1 (ip + 10) 2 = Inr (le16 0)" using rd_wrs_at[of _ "butlast ?ws" "ip + 10" "le16 0" "[]" m1] m1(1) by simp
  obtain xs ys where h: "h1 = xs @ le16 0 @ ys" "length xs = 10" using rd_around[OF h1(1) z] by auto
  define c where "c = (if rte_raw_cksum h1 = 0xffff then rte_raw_cksum h1 else NOT (rte_raw_cksum h1))"
  obtain m where m: "wr m1 (ip + 10) (le16 c) = Inr m" using m1(2) len by simp
  have R: "rd m ip 20 = Inr (xs @ le16 c @ ys)" using rd_wr_inside[of m1 ip 20 xs "le16 0" ys "le16 c" m] h1 h m by simp
  have ver: "rte_raw_cksum (xs @ le16 c @ ys) = 0xffff"
    unfolding c_def h(1) by (rule ipv4_cksum_verifies) (use h h1(2) in auto)
  have keep: "rd m i n = rd m1 i n" if "i + n \<le> ip + 10 \<or> ip + 12 \<le> i" for i n
    using that by (intro rd_wr_other[OF m]) auto
  have src: "rd m1 (ip + 12) 4 = Inr (be32 (pk_ip_src pkt))"
    using rd_wrs_at[of _ "take 8 ?ws" "ip + 12" "be32 (pk_ip_src pkt)" "drop 9 ?ws" m1] m1(1) by (simp add: disjoint_from_def)
  have dst: "rd m1 (ip + 16) 4 = Inr (be32 (pk_ip_dst pkt))"
    using rd_wrs_at[of _ "take 9 ?ws" "ip + 16" "be32 (pk_ip_dst pkt)" "drop 10 ?ws" m1] m1(1) by (simp add: disjoint_from_def)
  have pr: "rd m1 (ip + 9) 1 = Inr [ucast (pk_ipProto pkt)]"
    using rd_wrs_at[of _ "take 7 ?ws" "ip + 9" "[ucast (pk_ipProto pkt)]" "drop 8 ?ws" m1] m1(1) by (simp add: disjoint_from_def)
  have tlen: "rd m1 (ip + 2) 2 = Inr (be16 tlen)"
    using rd_wrs_at[of _ "take 2 ?ws" "ip + 2" "be16 tlen" "drop 3 ?ws" m1] m1(1) by (simp add: disjoint_from_def)
  have out: "rd m i n = rd (pk_hdr pkt) i n" if "i + n \<le> ip \<or> ip + 20 \<le> i" for i n
    using keep[of i n] rd_wrs_skip[OF m1(1), of i n] that by (auto simp: disjoint_from_def)
  have "rte_ipv4_cksum m1 ip = Inr c" using h1(1) by (simp add: rte_ipv4_cksum_def c_def Let_def)
  then have "pktgen_ipv4_ctor pkt ident ip = Inr (pkt\<lparr>pk_hdr := m\<rparr>, ident + 27)"
    using m1(1) m by (simp add: pktgen_ipv4_ctor_def Let_def tlen_def)
  then show ?thesis using R ver keep src dst pr tlen out m1(2) wr_length[OF m]
    by (intro exI[of _ m] exI[of _ "xs @ le16 c @ ys"] conjI) simp_all
qed

lemma l4_cksum_nonzero: "l4_cksum d p \<noteq> 0"
proof -
  let ?f = "fold_cksum ((ucast (rte_raw_cksum d) :: u32) + ucast p)"
  have "unat ?f \<le> 65535"
    unfolding fold_cksum_sum using u16_le[of "rte_raw_cksum d"] u16_le[of p] by (intro fold16_once) simp
  then have "unat (l4_cksum d p) \<noteq> 0"
    using unat_cksum_field[of ?f] by (auto simp: l4_cksum_def Let_def)
  then show ?thesis by auto
qed

text \<open>
  A transport header built over a filled header area: the checksum field at \<open>l4 + k\<close> is zeroed,
  computed and stored; the datagram then verifies against the pseudo header.
\<close>

lemma ipv4_l4_cksum_ok:
  assumes m1: "length m1 = L" and ipl: "ip + 20 \<le> L" and tlen: "20 + k + 2 \<le> unat tlen" "l4 + (unat tlen - 20) \<le> L"
    and l4: "ip + 20 \<le> l4" "even k"
    and f: "rd m1 (ip + 12) 4 = Inr (be32 s)" "rd m1 (ip + 16) 4 = Inr (be32 d)" "rd m1 (ip + 9) 1 = Inr [pr]"
      "rd m1 (ip + 2) 2 = Inr (be16 tlen)" "rd m1 (l4 + k) 2 = Inr (le16 0)"
  defines "p \<equiv> rte_raw_cksum (be32 s @ be32 d @ [0] @ [pr] @ be16 (tlen - 20))"
  shows "\<exists>c m. rte_ipv4_udptcp_cksum m1 ip l4 = Inr c \<and> c \<noteq> 0 \<and> wr m1 (l4 + k) (le16 c) = Inr m \<and> length m = L \<and>
    (\<exists>D. rd m l4 (unat tlen - 20) = Inr D \<and> l4_verifies D p) \<and>
    (\<forall>i n. i + n \<le> l4 + k \<or> l4 + k + 2 \<le> i \<longrightarrow> rd m i n = rd m1 i n)"
proof -
  obtain D1 where D1: "rd m1 l4 (unat tlen - 20) = Inr D1" "length D1 = unat tlen - 20"
    using rd_ok[of l4 "unat tlen - 20" m1] tlen m1 by auto
  have "k + 2 \<le> unat tlen - 20" using tlen by simp
  then obtain xs ys where D: "D1 = xs @ le16 0 @ ys" "length xs = k" using rd_around[OF D1(1) f(5)] by blast
  define c where "c = l4_cksum D1 p"
  have ph: "rte_ipv4_phdr_cksum m1 ip = Inr p"
    using ipv4_phdr_cksum_fields[OF f(1-4)] by (simp add: p_def)
  have c: "rte_ipv4_udptcp_cksum m1 ip l4 = Inr c"
    using f(4) D1 ph tlen by (simp add: rte_ipv4_udptcp_cksum_def c_def l4_cksum_def Let_def)
  obtain m where m: "wr m1 (l4 + k) (le16 c) = Inr m" using m1 tlen by simp
  have R: "rd m l4 (unat tlen - 20) = Inr (xs @ le16 c @ ys)"
    using rd_wr_inside[of m1 l4 "unat tlen - 20" xs "le16 0" ys "le16 c" m] D D1 m by simp
  have V: "l4_verifies (xs @ le16 c @ ys) p"
    unfolding c_def D(1) by (rule l4_cksum_verifies) (use D D1(2) l4(2) u16_le[of tlen] in auto)
  show ?thesis using c m R V l4_cksum_nonzero[of D1 p] wr_length[OF m] m1 rd_wr_other[OF m]
    by (auto simp: c_def)
qed


lemma ipv4_l4_fields:
  assumes len: "ip + 20 \<le> length (pk_hdr pkt)" and k: "ip + 20 + k + 2 \<le> length (pk_hdr pkt)"
    and us: "\<forall>(off, bs) \<in> set us. ip + 20 \<le> off \<and> off + length bs \<le> length (pk_hdr pkt)"
  shows "\<exists>m1. wrs (pk_hdr pkt) (ipv4_pseudo_writes pkt ip @ us @ [(ip + 20 + k, le16 0)]) = Inr m1 \<and>
    length m1 = length (pk_hdr pkt) \<and> rd m1 (ip + 12) 4 = Inr (be32 (pk_ip_src pkt)) \<and>
    rd m1 (ip + 16) 4 = Inr (be32 (pk_ip_dst pkt)) \<and> rd m1 (ip + 9) 1 = Inr [ucast (pk_ipProto pkt)] \<and>
    rd m1 (ip + 2) 2 = Inr (be16 (pk_pktSize pkt - pk_ether_hdr_size pkt)) \<and> rd m1 (ip + 20 + k) 2 = Inr (le16 0) \<and>
    (\<forall>i n. i + n \<le> ip \<longrightarrow> rd m1 i n = rd (pk_hdr pkt) i n)"
proof -
  let ?ws = "ipv4_pseudo_writes pkt ip @ us @ [(ip + 20 + k, le16 0)]"
  note psd = ipv4_pseudo_writes_def
  have "\<forall>(off, bs) \<in> set ?ws. off + length bs \<le> length (pk_hdr pkt)"
    using len us k by (auto simp: psd)
  then obtain m1 where m1: "wrs (pk_hdr pkt) ?ws = Inr m1" "length m1 = length (pk_hdr pkt)"
    using wrs_ok by blast
  have after: "disjoint_from i n w" if "i + n \<le> ip + 20" "w \<in> set (us @ [(ip + 20 + k, le16 0)])" for i n w
    using us that by (auto simp: disjoint_from_def)
  have at: "rd m1 off (length bs) = Inr bs"
    if "ipv4_pseudo_writes pkt ip = as @ (off, bs) # cs" "\<forall>w \<in> set cs. disjoint_from off (length bs) w" "off + length bs \<le> ip + 20"
    for as off bs cs
  proof (rule rd_wrs_at[of "pk_hdr pkt" as off bs "cs @ us @ [(ip + 20 + k, le16 0)]"])
    show "wrs (pk_hdr pkt) (as @ (off, bs) # cs @ us @ [(ip + 20 + k, le16 0)]) = Inr m1" using m1(1) that(1) by simp
    show "\<forall>w\<in>set (cs @ us @ [(ip + 20 + k, le16 0)]). disjoint_from off (length bs) w"
      using that(2) after[OF that(3)] by (metis UnE set_append)
  qed simp
  have src: "rd m1 (ip + 12) 4 = Inr (be32 (pk_ip_src pkt))"
    using at[of "[]" "ip + 12" "be32 (pk_ip_src pkt)"] by (simp add: psd disjoint_from_def)
  have dst: "rd m1 (ip + 16) 4 = Inr (be32 (pk_ip_dst pkt))"
    using at[of "take 1 (ipv4_pseudo_writes pkt ip)" "ip + 16" "be32 (pk_ip_dst pkt)"] by (simp add: psd disjoint_from_def)
  have tl: "rd m1 (ip + 2) 2 = Inr (be16 (pk_pktSize pkt - pk_ether_hdr_size pkt))"
    using at[of "take 2 (ipv4_pseudo_writes pkt ip)" "ip + 2" "be16 (pk_pktSize pkt - pk_ether_hdr_size pkt)"]
    by (simp add: psd disjoint_from_def)
  have pr: "rd m1 (ip + 9) 1 = Inr [ucast (pk_ipProto pkt)]"
    using at[of "take 3 (ipv4_pseudo_writes pkt ip)" "ip + 9" "[ucast (pk_ipProto pkt)]"] by (simp add: psd disjoint_from_def)
  have ck: "rd m1 (ip + 20 + k) 2 = Inr (le16 0)"
    using rd_wrs_at[of "pk_hdr pkt" "ipv4_pseudo_writes pkt ip @ us" "ip + 20 + k" "le16 0" "[]" m1] m1(1) by simp
  have out: "rd m1 i n = rd (pk_hdr pkt) i n" if "i + n \<le> ip" for i n
    by (rule rd_wrs_skip[OF m1(1)]) (use that after[of i n] in \<open>auto simp: psd disjoint_from_def\<close>)
  show ?thesis using m1 src dst tl pr ck out by blast
qed

lemma ipv4_l4_writes_ok:
  assumes len: "ip + 20 \<le> length (pk_hdr pkt)"
  defines "tlen \<equiv> pk_pktSize pkt - pk_ether_hdr_size pkt"
  assumes tlen: "20 + k + 2 \<le> unat tlen" "ip + unat tlen \<le> length (pk_hdr pkt)" "even k"
    and us: "\<forall>(off, bs) \<in> set us. ip + 20 \<le> off \<and> off + length bs \<le> length (pk_hdr pkt)"
  defines "p \<equiv> rte_raw_cksum (be32 (pk_ip_src pkt) @ be32 (pk_ip_dst pkt) @ [0] @ [ucast (pk_ipProto pkt)] @ be16 (tlen - 20))"
  shows "\<exists>m1 c m D. wrs (pk_hdr pkt) (ipv4_pseudo_writes pkt ip @ us @ [(ip + 20 + k, le16 0)]) = Inr m1 \<and>
    rte_ipv4_udptcp_cksum m1 ip (ip + 20) = Inr c \<and> c \<noteq> 0 \<and> wr m1 (ip + 20 + k) (le16 c) = Inr m \<and>
    length m = length (pk_hdr pkt) \<and> rd m (ip + 20) (unat tlen - 20) = Inr D \<and> l4_verifies D p \<and>
    (\<forall>i n. i + n \<le> ip \<longrightarrow> rd m i n = rd (pk_hdr pkt) i n) \<and>
    (\<forall>i n. i + n \<le> ip + 20 + k \<or> ip + 20 + k + 2 \<le> i \<longrightarrow> rd m i n = rd m1 i n)"
proof -
  have kk: "ip + 20 + k + 2 \<le> length (pk_hdr pkt)" using tlen by simp
  obtain m1 where m1: "wrs (pk_hdr pkt) (ipv4_pseudo_writes pkt ip @ us @ [(ip + 20 + k, le16 0)]) = Inr m1"
      "length m1 = length (pk_hdr pkt)"
    and f: "rd m1 (ip + 12) 4 = Inr (be32 (pk_ip_src pkt))" "rd m1 (ip + 16) 4 = Inr (be32 (pk_ip_dst pkt))"
      "rd m1 (ip + 9) 1 = Inr [ucast (pk_ipProto pkt)]" "rd m1 (ip + 2) 2 = Inr (be16 tlen)" "rd m1 (ip + 20 + k) 2 = Inr (le16 0)"
    and out: "\<forall>i n. i + n \<le> ip \<longrightarrow> rd m1 i n = rd (pk_hdr pkt) i n"
    using ipv4_l4_fields[OF len kk us] unfolding tlen_def by blast
  have d: "ip + 20 + (unat tlen - 20) \<le> length m1" using tlen m1(2) by simp
  obtain c m D where c: "rte_ipv4_udptcp_cksum m1 ip (ip + 20) = Inr c" "c \<noteq> 0" and m: "wr m1 (ip + 20 + k) (le16 c) = Inr m"
    and L: "length m = length m1" and D: "rd m (ip + 20) (unat tlen - 20) = Inr D" "l4_verifies D p"
    and keep: "\<forall>i n. i + n \<le> ip + 20 + k \<or> ip + 20 + k + 2 \<le> i \<longrightarrow> rd m i n = rd m1 i n"
    using ipv4_l4_cksum_ok[of m1 "length m1" ip k tlen "ip + 20", OF refl _ tlen(1) d _ tlen(3) f] len m1(2)
    unfolding p_def by auto
  have "\<forall>i n. i + n \<le> ip \<longrightarrow> rd m i n = rd (pk_hdr pkt) i n" using keep out by auto
  then show ?thesis using m1 c m L D keep by metis
qed

lemma pktgen_udp_hdr_ctor_ipv4:
  assumes len: "ip + 36 \<le> length (pk_hdr pkt)"
  defines "tlen \<equiv> pk_pktSize pkt - pk_ether_hdr_size pkt"
  assumes tlen: "28 \<le> unat tlen" "ip + unat tlen \<le> length (pk_hdr pkt)"
  defines "p \<equiv> rte_raw_cksum (be32 (pk_ip_src pkt) @ be32 (pk_ip_dst pkt) @ [0] @ [ucast (pk_ipProto pkt)] @ be16 (tlen - 20))"
  shows "\<exists>m D. pktgen_udp_hdr_ctor pkt ip PG_ETHER_TYPE_IPv4 = Inr (pkt\<lparr>pk_hdr := m\<rparr>) \<and> length m = length (pk_hdr pkt) \<and>
    rd m (ip + 20) (unat tlen - 20) = Inr D \<and> l4_verifies D p \<and>
    (\<forall>i n. i + n \<le> ip \<longrightarrow> rd m i n = rd (pk_hdr pkt) i n)"
proof -
  let ?us = "udp_writes pkt (ip + 20) (pk_pktSize pkt - (pk_ether_hdr_size pkt + 20)) @
    (if pk_dport pkt = VXLAN_PORT_ID then vxlan_writes pkt (ip + 20 + 8) else [])"
  have "\<forall>(off, bs) \<in> set ?us. ip + 20 \<le> off \<and> off + length bs \<le> length (pk_hdr pkt)"
    using len by (cases "pk_dport pkt = VXLAN_PORT_ID") (simp_all add: udp_writes_def vxlan_writes_def)
  moreover have "ip + 20 \<le> length (pk_hdr pkt)" using len by simp
  moreover have "20 + 6 + 2 \<le> unat tlen" using tlen by simp
  ultimately obtain m1 c m D where
    r: "wrs (pk_hdr pkt) (ipv4_pseudo_writes pkt ip @ ?us @ [(ip + 20 + 6, le16 0)]) = Inr m1"
      "rte_ipv4_udptcp_cksum m1 ip (ip + 20) = Inr c" "c \<noteq> 0" "wr m1 (ip + 20 + 6) (le16 c) = Inr m"
    and q: "length m = length (pk_hdr pkt)" "rd m (ip + 20) (unat tlen - 20) = Inr D" "l4_verifies D p"
      "\<forall>i n. i + n \<le> ip \<longrightarrow> rd m i n = rd (pk_hdr pkt) i n"
    using ipv4_l4_writes_ok[of ip pkt 6 ?us] tlen unfolding tlen_def p_def by (auto simp del: add_2_eq_Suc add_2_eq_Suc')
  have "pktgen_udp_hdr_ctor pkt ip PG_ETHER_TYPE_IPv4 = Inr (pkt\<lparr>pk_hdr := m\<rparr>)"
    using r by (simp add: pktgen_udp_hdr_ctor_def Let_def nonzero_cksum_def)
  then show ?thesis using q by blast
qed

lemma pktgen_tcp_hdr_ctor_ipv4:
  assumes len: "ip + 40 \<le> length (pk_hdr pkt)"
  defines "tlen \<equiv> pk_pktSize pkt - pk_ether_hdr_size pkt"
  assumes tlen: "38 \<le> unat tlen" "ip + unat tlen \<le> length (pk_hdr pkt)"
  defines "p \<equiv> rte_raw_cksum (be32 (pk_ip_src pkt) @ be32 (pk_ip_dst pkt) @ [0] @ [ucast (pk_ipProto pkt)] @ be16 (tlen - 20))"
  shows "\<exists>m D. pktgen_tcp_hdr_ctor pkt ip PG_ETHER_TYPE_IPv4 = Inr (pkt\<lparr>pk_hdr := m\<rparr>) \<and> length m = length (pk_hdr pkt) \<and>
    rd m (ip + 20) (unat tlen - 20) = Inr D \<and> l4_verifies D p \<and>
    (\<forall>i n. i + n \<le> ip \<longrightarrow> rd m i n = rd (pk_hdr pkt) i n)"
proof -
  let ?us = "butlast (tcp_writes pkt (ip + 20))"
  have w: "tcp_writes pkt (ip + 20) = ?us @ [(ip + 20 + 16, le16 0)]" by (simp add: tcp_writes_def)
  have "\<forall>(off, bs) \<in> set ?us. ip + 20 \<le> off \<and> off + length bs \<le> length (pk_hdr pkt)"
    using len by (simp add: tcp_writes_def)
  moreover have "ip + 20 \<le> length (pk_hdr pkt)" using len by simp
  moreover have "20 + 16 + 2 \<le> unat tlen" using tlen by simp
  ultimately obtain m1 c m D where
    r: "wrs (pk_hdr pkt) (ipv4_pseudo_writes pkt ip @ ?us @ [(ip + 20 + 16, le16 0)]) = Inr m1"
      "rte_ipv4_udptcp_cksum m1 ip (ip + 20) = Inr c" "wr m1 (ip + 20 + 16) (le16 c) = Inr m"
    and q: "length m = length (pk_hdr pkt)" "rd m (ip + 20) (unat tlen - 20) = Inr D" "l4_verifies D p"
      "\<forall>i n. i + n \<le> ip \<longrightarrow> rd m i n = rd (pk_hdr pkt) i n"
    using ipv4_l4_writes_ok[of ip pkt 16 ?us] tlen unfolding tlen_def p_def by auto
  have "pktgen_tcp_hdr_ctor pkt ip PG_ETHER_TYPE_IPv4 = Inr (pkt\<lparr>pk_hdr := m\<rparr>)"
    using r w by (simp add: pktgen_tcp_hdr_ctor_def)
  then show ?thesis using q by blast
qed


lemma pktgen_gtpu_hdr_ctor_ok:
  assumes "hdr + 48 \<le> length (pk_hdr pkt)"
  shows "\<exists>m. pktgen_gtpu_hdr_ctor pkt hdr proto 0x30 0 0 0 = Inr (pkt\<lparr>pk_hdr := m\<rparr>) \<and> length m = length (pk_hdr pkt)"
proof -
  define gtp where "gtp = hdr + 20 + (if proto = PG_IPPROTO_UDP then 8 else 20)"
  let ?ws = "[(gtp, replicate 8 0), (gtp, [0x30]), (gtp + 1, [0xff]), (gtp + 4, be32 (pk_gtpu_teid pkt))]"
  have g: "gtp + 8 \<le> length (pk_hdr pkt)" using assms by (simp add: gtp_def)
  then obtain m1 where m1: "wrs (pk_hdr pkt) ?ws = Inr m1" "length m1 = length (pk_hdr pkt)"
    using wrs_ok[of ?ws "pk_hdr pkt"] by auto
  have v: "rd m1 gtp 1 = Inr [0x30]"
    using rd_wrs_at[of "pk_hdr pkt" "take 1 ?ws" gtp "[0x30]" "drop 2 ?ws" m1] m1(1) by (simp add: disjoint_from_def)
  then have o: "gtpu_option 2 gtp b (m1, q) = Inr (m1, q)" "gtpu_option 1 gtp b (m1, q) = Inr (m1, q)"
    "gtpu_option 4 gtp b (m1, q) = Inr (m1, q)" for b q
    by (simp_all add: gtpu_option_def)
  obtain m2 where m2: "wr m1 (gtp + 2) (be16 (pk_pktSize pkt - (of_nat (if proto = PG_IPPROTO_UDP then 8 else 20) + 8 + pk_ether_hdr_size pkt))) = Inr m2"
    using g m1(2) by simp
  have "pktgen_gtpu_hdr_ctor pkt hdr proto 0x30 0 0 0 = Inr (pkt\<lparr>pk_hdr := m2\<rparr>)"
    unfolding pktgen_gtpu_hdr_ctor_def Let_def gtp_def[symmetric] using m1(1) o m2 by simp
  then show ?thesis using wr_length[OF m2] m1(2) by auto
qed

definition l3_offset :: "u32 \<Rightarrow> nat" where
  "l3_offset flags = (if flags AND SEND_VLAN_ID \<noteq> 0 \<or> flags AND SEND_MPLS_LABEL \<noteq> 0 then 18
     else if flags AND SEND_Q_IN_Q_IDS \<noteq> 0 then 22 else 14)"

lemma pktgen_ether_hdr_ctor_ok:
  assumes "length (pk_hdr pkt) = DEFAULT_MBUF_SIZE" "length (pk_eth_src pkt) = 6" "length (pk_eth_dst pkt) = 6"
  shows "\<exists>m. pktgen_ether_hdr_ctor flags pkt =
      Inr (l3_offset flags, pkt\<lparr>pk_hdr := m, pk_ether_hdr_size := of_nat (l3_offset flags)\<rparr>) \<and> length m = DEFAULT_MBUF_SIZE \<and>
      rd m 0 12 = Inr (pk_eth_dst pkt @ pk_eth_src pkt)"
proof -
  let ?as = "[(6, pk_eth_src pkt), (0, pk_eth_dst pkt)]"
  have main: "\<exists>m0 m. wrs (pk_hdr pkt) ?as = Inr m0 \<and> wrs m0 ws = Inr m \<and> length m = DEFAULT_MBUF_SIZE \<and>
      rd m 0 12 = Inr (pk_eth_dst pkt @ pk_eth_src pkt)"
    if "\<forall>(off, bs) \<in> set ws. 12 \<le> off \<and> off + length bs \<le> DEFAULT_MBUF_SIZE" for ws
  proof -
    obtain m0 where m0: "wrs (pk_hdr pkt) ?as = Inr m0" "length m0 = DEFAULT_MBUF_SIZE"
      using wrs_ok[of ?as "pk_hdr pkt"] assms by auto
    have "\<forall>(off, bs) \<in> set ws. off + length bs \<le> length m0" using that m0(2) by auto
    then obtain m where m: "wrs m0 ws = Inr m" "length m = length m0" using wrs_ok by blast
    have a: "wrs (pk_hdr pkt) (?as @ ws) = Inr m" using m0(1) m(1) by (simp only: wrs_append rbind_Inr)
    have 1: "rd m 0 6 = Inr (pk_eth_dst pkt)"
      using rd_wrs_at[of "pk_hdr pkt" "[(6, pk_eth_src pkt)]" 0 "pk_eth_dst pkt" ws m] a that assms
      by (fastforce simp: disjoint_from_def)
    have 2: "rd m 6 6 = Inr (pk_eth_src pkt)"
      using rd_wrs_at[of "pk_hdr pkt" "[]" 6 "pk_eth_src pkt" "(0, pk_eth_dst pkt) # ws" m] a that assms
      by (fastforce simp: disjoint_from_def)
    show ?thesis using m0 m rd_append[OF 1 2] by auto
  qed
  note e = pktgen_ether_hdr_ctor_def l3_offset_def Let_def
  consider "flags AND SEND_VLAN_ID \<noteq> 0" | "flags AND SEND_VLAN_ID = 0" "flags AND SEND_MPLS_LABEL \<noteq> 0"
    | "flags AND SEND_VLAN_ID = 0" "flags AND SEND_MPLS_LABEL = 0" "flags AND SEND_Q_IN_Q_IDS \<noteq> 0"
    | "flags AND SEND_VLAN_ID = 0" "flags AND SEND_MPLS_LABEL = 0" "flags AND SEND_Q_IN_Q_IDS = 0" by blast
  then show ?thesis
  proof cases
    case 1
    then show ?thesis
      using main[of "[(12, be16 PG_ETHER_TYPE_VLAN), (14, be16 (pk_vlanid pkt OR push_bit 13 (ucast (pk_cos pkt)))), (16, be16 (pk_ethType pkt))]"]
      by (auto simp: e)
  next
    case 2
    then show ?thesis using main[of "[(12, be16 0x8847), (14, be32 (pk_mpls_entry pkt OR push_bit 8 1))]"]
      by (auto simp: e)
  next
    case 3
    then show ?thesis
      using main[of "[(12, be16 0x88A8), (14, be16 (pk_qinq_outerid pkt)), (16, be16 PG_ETHER_TYPE_VLAN),
                       (18, be16 (pk_qinq_innerid pkt)), (20, be16 (pk_ethType pkt))]"] by (auto simp: e)
  next
    case 4
    then show ?thesis using main[of "[(12, be16 (pk_ethType pkt))]"] by (auto simp: e)
  qed
qed

text \<open>
  A well-formed IPv4 packet of \<open>n\<close> bytes whose network header is at \<open>l3\<close>: the header checksum and
  the transport checksum verify, and the total length covers the rest of the packet.
\<close>

definition ipv4_packet_ok :: "u8 list \<Rightarrow> nat \<Rightarrow> nat \<Rightarrow> bool" where
  "ipv4_packet_ok m l3 n \<longleftrightarrow>
     (case rd m l3 20 of Inl _ \<Rightarrow> False | Inr h \<Rightarrow> rte_raw_cksum h = 0xffff) \<and>
     rd m (l3 + 2) 2 = Inr (be16 (of_nat (n - l3))) \<and>
     (case rd m (l3 + 20) (n - l3 - 20) of Inl _ \<Rightarrow> False | Inr D \<Rightarrow>
        (case rte_ipv4_phdr_cksum m l3 of Inl _ \<Rightarrow> False | Inr p \<Rightarrow> l4_verifies D p))"

lemma unat_size_minus:
  assumes "60 \<le> (s :: u16)" "s \<le> 1514" "l3 \<le> 60"
  shows "unat (s - of_nat l3) = unat s - l3" "s - of_nat l3 = of_nat (unat s - l3)"
proof -
  have "unat s \<ge> 60" using assms(1) by (simp add: word_le_nat_alt)
  moreover have l: "unat (of_nat l3 :: u16) = l3" using assms(3) by (simp add: unat_of_nat)
  ultimately show 1: "unat (s - of_nat l3) = unat s - l3"
    using assms(3) by (subst unat_sub) (simp_all add: word_le_nat_alt)
  show "s - of_nat l3 = of_nat (unat s - l3)" by (simp add: 1[symmetric])
qed

lemma pktgen_l3_ipv4_ok:
  assumes hdr: "length (pk_hdr pkt) = DEFAULT_MBUF_SIZE" and l3: "l3 \<le> 22"
    and ehs: "pk_ether_hdr_size pkt = of_nat l3" and sz: "60 \<le> pk_pktSize pkt" "pk_pktSize pkt \<le> 1514"
    and ty: "pk_ethType pkt = PG_ETHER_TYPE_IPv4" "pk_ipProto pkt = PG_IPPROTO_TCP \<or> pk_ipProto pkt = PG_IPPROTO_UDP"
  shows "\<exists>pkt'. pktgen_l3_ctor flags pkt ident l3 type = Inr (pkt', ident + 27) \<and>
    length (pk_hdr pkt') = DEFAULT_MBUF_SIZE \<and> pk_pktSize pkt' = pk_pktSize pkt \<and>
    ipv4_packet_ok (pk_hdr pkt') l3 (unat (pk_pktSize pkt))"
proof -
  let ?n = "unat (pk_pktSize pkt)"
  have n: "60 \<le> ?n" "?n \<le> 1514" using sz by (simp_all add: word_le_nat_alt)
  define tlen where "tlen = pk_pktSize pkt - pk_ether_hdr_size pkt"
  have t: "unat tlen = ?n - l3" "tlen = of_nat (?n - l3)"
    unfolding tlen_def ehs using unat_size_minus[OF sz, of l3] l3 by auto
  have fin: "\<exists>pkt'. pktgen_ipv4_ctor p1 ident l3 = Inr (pkt', ident + 27) \<and> length (pk_hdr pkt') = DEFAULT_MBUF_SIZE \<and>
      pk_pktSize pkt' = pk_pktSize pkt \<and> ipv4_packet_ok (pk_hdr pkt') l3 ?n"
    if "length (pk_hdr p1) = DEFAULT_MBUF_SIZE" "pk_pktSize p1 = pk_pktSize pkt" "pk_ether_hdr_size p1 = pk_ether_hdr_size pkt"
      "rd (pk_hdr p1) (l3 + 20) (unat tlen - 20) = Inr D"
      "l4_verifies D (rte_raw_cksum (be32 (pk_ip_src p1) @ be32 (pk_ip_dst p1) @ [0] @ [ucast (pk_ipProto p1)] @ be16 (tlen - 20)))"
    for p1 D
  proof -
    note hy = that
    obtain m h where m: "pktgen_ipv4_ctor p1 ident l3 = Inr (p1\<lparr>pk_hdr := m\<rparr>, ident + 27)" "length m = DEFAULT_MBUF_SIZE"
      "rd m l3 20 = Inr h" "rte_raw_cksum h = 0xffff"
      and f: "rd m (l3 + 12) 4 = Inr (be32 (pk_ip_src p1))" "rd m (l3 + 16) 4 = Inr (be32 (pk_ip_dst p1))"
        "rd m (l3 + 9) 1 = Inr [ucast (pk_ipProto p1)]" "rd m (l3 + 2) 2 = Inr (be16 tlen)"
      and k: "rd m (l3 + 20) (unat tlen - 20) = rd (pk_hdr p1) (l3 + 20) (unat tlen - 20)"
      using pktgen_ipv4_ctor_ok[of l3 p1 ident] hy(1-3) l3 unfolding tlen_def by auto
    have "ipv4_packet_ok m l3 ?n"
      using m(3,4) f(4) k hy(4,5) ipv4_phdr_cksum_fields[OF f] t by (simp add: ipv4_packet_ok_def)
    then show ?thesis using m hy(2) by auto
  qed
  have gtp: "\<exists>m. pktgen_gtpu_hdr_ctor pkt l3 (pk_ipProto pkt) 0x30 0 0 0 = Inr (pkt\<lparr>pk_hdr := m\<rparr>) \<and> length m = DEFAULT_MBUF_SIZE"
    using pktgen_gtpu_hdr_ctor_ok[of l3 pkt] hdr l3 by simp
  have udp: "\<exists>m D. pktgen_udp_hdr_ctor p1 l3 PG_ETHER_TYPE_IPv4 = Inr (p1\<lparr>pk_hdr := m\<rparr>) \<and> length m = DEFAULT_MBUF_SIZE \<and>
      rd m (l3 + 20) (unat tlen - 20) = Inr D \<and>
      l4_verifies D (rte_raw_cksum (be32 (pk_ip_src p1) @ be32 (pk_ip_dst p1) @ [0] @ [ucast (pk_ipProto p1)] @ be16 (tlen - 20)))"
    if "length (pk_hdr p1) = DEFAULT_MBUF_SIZE" "pk_pktSize p1 = pk_pktSize pkt" "pk_ether_hdr_size p1 = pk_ether_hdr_size pkt" for p1
    using pktgen_udp_hdr_ctor_ipv4[of l3 p1] that n t l3 unfolding tlen_def by fastforce
  have tcp: "\<exists>m D. pktgen_tcp_hdr_ctor p1 l3 PG_ETHER_TYPE_IPv4 = Inr (p1\<lparr>pk_hdr := m\<rparr>) \<and> length m = DEFAULT_MBUF_SIZE \<and>
      rd m (l3 + 20) (unat tlen - 20) = Inr D \<and>
      l4_verifies D (rte_raw_cksum (be32 (pk_ip_src p1) @ be32 (pk_ip_dst p1) @ [0] @ [ucast (pk_ipProto p1)] @ be16 (tlen - 20)))"
    if "length (pk_hdr p1) = DEFAULT_MBUF_SIZE" "pk_pktSize p1 = pk_pktSize pkt" "pk_ether_hdr_size p1 = pk_ether_hdr_size pkt" for p1
    using pktgen_tcp_hdr_ctor_ipv4[of l3 p1] that n t l3 unfolding tlen_def by fastforce
  from ty(2) show ?thesis
  proof
    assume pr: "pk_ipProto pkt = PG_IPPROTO_TCP"
    obtain m0 where m0: "(if pk_dport pkt \<noteq> PG_IPPROTO_L4_GTPU_PORT then Inr pkt
        else pktgen_gtpu_hdr_ctor pkt l3 (pk_ipProto pkt) 0x30 0 0 0) = Inr (pkt\<lparr>pk_hdr := m0\<rparr>)" "length m0 = DEFAULT_MBUF_SIZE"
      using gtp hdr by (cases "pk_dport pkt = PG_IPPROTO_L4_GTPU_PORT") (auto intro: that[of "pk_hdr pkt"])
    then show ?thesis using tcp[of "pkt\<lparr>pk_hdr := m0\<rparr>"] fin ty(1) pr by (fastforce simp: pktgen_l3_ctor_def)
  next
    assume pr: "pk_ipProto pkt = PG_IPPROTO_UDP"
    obtain p1 where p1: "(if flags AND SEND_VXLAN_PACKETS \<noteq> 0 then Inr (pkt\<lparr>pk_dport := VXLAN_PORT_ID\<rparr>)
        else if pk_dport pkt \<noteq> PG_IPPROTO_L4_GTPU_PORT then Inr pkt
        else pktgen_gtpu_hdr_ctor pkt l3 (pk_ipProto pkt) 0x30 0 0 0) = Inr p1" "length (pk_hdr p1) = DEFAULT_MBUF_SIZE"
      "pk_pktSize p1 = pk_pktSize pkt" "pk_ether_hdr_size p1 = pk_ether_hdr_size pkt"
      using gtp hdr
      by (cases "flags AND SEND_VXLAN_PACKETS \<noteq> 0"; cases "pk_dport pkt = PG_IPPROTO_L4_GTPU_PORT")
         (auto intro: that[of pkt] that[of "pkt\<lparr>pk_dport := VXLAN_PORT_ID\<rparr>"])
    then show ?thesis using udp[OF p1(2-4)] fin ty(1) pr by (fastforce simp: pktgen_l3_ctor_def)
  qed
qed

text \<open>A length that wraps below the header size makes the checksum run past the packet buffer.\<close>

lemma ipv4_l4_length_fault:
  assumes len: "ip + 20 + k + 2 \<le> length (pk_hdr pkt)"
    and tl: "length (pk_hdr pkt) < ip + unat (pk_pktSize pkt - pk_ether_hdr_size pkt)"
    and us: "\<forall>(off, bs) \<in> set us. ip + 20 \<le> off \<and> off + length bs \<le> length (pk_hdr pkt)"
  shows "rbind (wrs (pk_hdr pkt) (ipv4_pseudo_writes pkt ip @ us @ [(ip + 20 + k, le16 0)]))
     (\<lambda>m. rbind (rte_ipv4_udptcp_cksum m ip (ip + 20)) (f m)) = Inl Fault"
proof -
  obtain m1 where m1: "wrs (pk_hdr pkt) (ipv4_pseudo_writes pkt ip @ us @ [(ip + 20 + k, le16 0)]) = Inr m1"
      "length m1 = length (pk_hdr pkt)" "rd m1 (ip + 2) 2 = Inr (be16 (pk_pktSize pkt - pk_ether_hdr_size pkt))"
    using ipv4_l4_fields[OF _ len us] len by auto
  then show ?thesis using tl len by (simp add: rte_ipv4_udptcp_cksum_def Let_def rd_def)
qed

lemma pktgen_udp_hdr_ctor_fault:
  assumes len: "ip + 36 \<le> length (pk_hdr pkt)"
    and tl: "length (pk_hdr pkt) < ip + unat (pk_pktSize pkt - pk_ether_hdr_size pkt)"
  shows "pktgen_udp_hdr_ctor pkt ip PG_ETHER_TYPE_IPv4 = Inl Fault"
proof -
  let ?us = "udp_writes pkt (ip + 20) (pk_pktSize pkt - (pk_ether_hdr_size pkt + 20)) @
    (if pk_dport pkt = VXLAN_PORT_ID then vxlan_writes pkt (ip + 20 + 8) else [])"
  have us: "\<forall>(off, bs) \<in> set ?us. ip + 20 \<le> off \<and> off + length bs \<le> length (pk_hdr pkt)"
    using len by (cases "pk_dport pkt = VXLAN_PORT_ID") (simp_all add: udp_writes_def vxlan_writes_def)
  have "ip + 20 + 6 + 2 \<le> length (pk_hdr pkt)" using len by simp
  from ipv4_l4_length_fault[OF this tl us] show ?thesis
    unfolding pktgen_udp_hdr_ctor_def Let_def by (simp only: simp_thms if_True append_assoc)
qed

text \<open>The transport and network constructors change nothing of the template but the bytes.\<close>

lemma ctor_hdr_only:
  "pktgen_udp_hdr_ctor pkt ip type = Inr pkt' \<Longrightarrow> \<exists>m. pkt' = pkt\<lparr>pk_hdr := m\<rparr>"
  "pktgen_ipv4_ctor pkt ident ip = Inr (pkt', ident') \<Longrightarrow> \<exists>m. pkt' = pkt\<lparr>pk_hdr := m\<rparr>"
  by (auto simp: pktgen_udp_hdr_ctor_def pktgen_ipv4_ctor_def Let_def rbind_eq_Inr split: if_splits)

lemma pktgen_fill_pattern_length [simp]: "length (pktgen_fill_pattern m f u) = length m"
  by (simp add: pktgen_fill_pattern_def split: fill_pattern.split)

lemma pktgen_gre_hdr_ctor_ok:
  assumes "length (pk_hdr pkt) = DEFAULT_MBUF_SIZE"
  shows "\<exists>m. pktgen_gre_hdr_ctor pkt ident 14 =
      Inr (42, pkt\<lparr>pk_hdr := m, pk_ether_hdr_size := pk_ether_hdr_size pkt + 28\<rparr>, ident + 27) \<and> length m = DEFAULT_MBUF_SIZE"
proof -
  let ?ws = "gre_ip_writes pkt (ident + 27) 14 36"
  obtain m1 where m1: "wrs (pk_hdr pkt) ?ws = Inr m1" "length m1 = DEFAULT_MBUF_SIZE"
    using wrs_ok[of ?ws "pk_hdr pkt"] assms by (auto simp: gre_ip_writes_def)
  then obtain c where c: "rte_ipv4_cksum m1 14 = Inr c" by (auto simp: rte_ipv4_cksum_def rd_def Let_def)
  let ?vs = "[(14 + 10, le16 c), (14 + 20, [0x20, 0]), (14 + 22, be16 PG_ETHER_TYPE_IPv4), (14 + 24, be32 (pk_gre_key pkt))]"
  obtain m where "wrs m1 ?vs = Inr m" "length m = DEFAULT_MBUF_SIZE"
    using wrs_ok[of ?vs m1] m1(2) by auto
  then show ?thesis using m1 c by (intro exI[of _ m]) (simp add: pktgen_gre_hdr_ctor_def Let_def)
qed

section \<open>Construction never leaves the buffer\<close>

lemma rd_defined: "i + n \<le> length m \<Longrightarrow> \<exists>bs. rd m i n = Inr bs \<and> length bs = n"
  using rd_ok[of i n m] by auto

lemma ipv6_l4_writes_ok:
  assumes len: "ip + 60 \<le> length (pk_hdr pkt)"
  defines "tlen \<equiv> pk_pktSize pkt - (pk_ether_hdr_size pkt + 40)"
  assumes tlen: "ip + 40 + unat tlen \<le> length (pk_hdr pkt)"
    and us: "\<forall>(off, bs) \<in> set us. ip + 40 \<le> off \<and> off + length bs \<le> length (pk_hdr pkt)"
  shows "\<exists>m c. wrs (pk_hdr pkt) (ipv6_pseudo_writes pkt ip @ us) = Inr m \<and> length m = length (pk_hdr pkt) \<and>
    rte_ipv6_udptcp_cksum m ip (ip + 40) = Inr c"
proof -
  let ?ws = "ipv6_pseudo_writes pkt ip @ us"
  have "\<forall>(off, bs) \<in> set ?ws. off + length bs \<le> length (pk_hdr pkt)"
    using us len by (auto simp: ipv6_pseudo_writes_def)
  then obtain m where m: "wrs (pk_hdr pkt) ?ws = Inr m" "length m = length (pk_hdr pkt)"
    using wrs_ok[of ?ws "pk_hdr pkt"] by auto
  have "\<forall>(off, bs) \<in> set (drop 5 (ipv6_pseudo_writes pkt ip) @ us). disjoint_from (ip + 4) 2 (off, bs)"
    using us by (auto simp: ipv6_pseudo_writes_def disjoint_from_def)
  then have "rd m (ip + 4) 2 = Inr (be16 tlen)"
    using rd_wrs_at[of "pk_hdr pkt" "take 4 (ipv6_pseudo_writes pkt ip)" "ip + 4" "be16 tlen" "drop 5 (ipv6_pseudo_writes pkt ip) @ us" m] m(1)
    by (simp add: ipv6_pseudo_writes_def tlen_def)
  moreover obtain d where "rd m (ip + 40) (unat tlen) = Inr d" using rd_defined[of "ip + 40" "unat tlen" m] m(2) tlen by auto
  moreover obtain a where "rd m (ip + 8) 32 = Inr a" using rd_defined[of "ip + 8" 32 m] m(2) len by auto
  moreover obtain b where "rd m (ip + 6) 1 = Inr b" using rd_defined[of "ip + 6" 1 m] m(2) len by auto
  ultimately have "\<exists>c. rte_ipv6_udptcp_cksum m ip (ip + 40) = Inr c"
    by (simp add: rte_ipv6_udptcp_cksum_def rte_ipv6_phdr_cksum_def Let_def)
  then show ?thesis using m by blast
qed

lemma pktgen_l4_ipv6_ok:
  assumes "ip + 60 \<le> length (pk_hdr pkt)"
    "ip + 40 + unat (pk_pktSize pkt - (pk_ether_hdr_size pkt + 40)) \<le> length (pk_hdr pkt)"
  shows "\<exists>m. pktgen_udp_hdr_ctor pkt ip PG_ETHER_TYPE_IPv6 = Inr (pkt\<lparr>pk_hdr := m\<rparr>) \<and> length m = length (pk_hdr pkt)"
    and "\<exists>m. pktgen_tcp_hdr_ctor pkt ip PG_ETHER_TYPE_IPv6 = Inr (pkt\<lparr>pk_hdr := m\<rparr>) \<and> length m = length (pk_hdr pkt)"
proof -
  let ?us = "udp_writes pkt (ip + 40) (pk_pktSize pkt - (pk_ether_hdr_size pkt + 40)) @ [(ip + 40 + 6, le16 0)]"
  have "\<forall>(off, bs) \<in> set ?us. ip + 40 \<le> off \<and> off + length bs \<le> length (pk_hdr pkt)" using assms(1) by (simp add: udp_writes_def)
  from ipv6_l4_writes_ok[OF assms this] assms(1)
  show "\<exists>m. pktgen_udp_hdr_ctor pkt ip PG_ETHER_TYPE_IPv6 = Inr (pkt\<lparr>pk_hdr := m\<rparr>) \<and> length m = length (pk_hdr pkt)"
    by (auto simp: pktgen_udp_hdr_ctor_def Let_def)
  have "\<forall>(off, bs) \<in> set (tcp_writes pkt (ip + 40)). ip + 40 \<le> off \<and> off + length bs \<le> length (pk_hdr pkt)"
    using assms(1) by (simp add: tcp_writes_def)
  from ipv6_l4_writes_ok[OF assms this] assms(1)
  show "\<exists>m. pktgen_tcp_hdr_ctor pkt ip PG_ETHER_TYPE_IPv6 = Inr (pkt\<lparr>pk_hdr := m\<rparr>) \<and> length m = length (pk_hdr pkt)"
    by (auto simp: pktgen_tcp_hdr_ctor_def Let_def)
qed

lemma pktgen_ipv6_ctor_ok:
  assumes "ip + 60 \<le> length (pk_hdr pkt)"
  shows "\<exists>m. pktgen_ipv6_ctor pkt ip = Inr (pkt\<lparr>pk_hdr := m\<rparr>)"
  using wrs_ok[of "[(ip, replicate 40 0), (ip, be32 0x60000000), (ip + 4, be16 (pk_pktSize pkt - (pk_ether_hdr_size pkt + 40))), (ip + 7, [4]),
                (ip + 6, [ucast (pk_ipProto pkt)]), (ip + 32, be32 (pk_ip_dst pkt)), (ip + 16, be32 (pk_ip_src pkt))]" "pk_hdr pkt"] assms
  by (auto simp: pktgen_ipv6_ctor_def Let_def)

lemma pktgen_icmp_ctor_ok:
  assumes "ip + 60 \<le> length (pk_hdr pkt)" "ip + 28 + unat (pk_pktSize pkt - (pk_ether_hdr_size pkt + 20)) \<le> length (pk_hdr pkt)"
  shows "\<exists>m. pktgen_icmp_ctor pkt ip type = Inr (pkt\<lparr>pk_hdr := m\<rparr>) \<and> length m = length (pk_hdr pkt)"
proof -
  let ?ws = "[(ip + 12, be32 (pk_ip_src pkt)), (ip + 16, be32 (pk_ip_dst pkt)),
      (ip + 2, be16 (pk_pktSize pkt - (pk_ether_hdr_size pkt + 20))), (ip + 9, [ucast (pk_ipProto pkt)])] @ icmp_writes (ip + 28) type"
  have "\<forall>(off, bs) \<in> set ?ws. off + length bs \<le> length (pk_hdr pkt)" using assms(1) by (auto simp: icmp_writes_def)
  then obtain m where "wrs (pk_hdr pkt) ?ws = Inr m" "length m = length (pk_hdr pkt)" using wrs_ok[of ?ws "pk_hdr pkt"] by auto
  moreover obtain d where "rd m (ip + 28) (unat (pk_pktSize pkt - (pk_ether_hdr_size pkt + 20))) = Inr d"
    using rd_defined[of "ip + 28" _ m] assms(2) calculation(2) by metis
  ultimately show ?thesis using assms(1)
    by (intro exI[of _ "take (30 + ip) m @ le16 (nonzero_cksum (rte_raw_cksum d)) @ drop (32 + ip) m"])
       (simp add: pktgen_icmp_ctor_def Let_def)
qed

lemma pktgen_l3_ctor_total:
  assumes hdr: "length (pk_hdr pkt) = DEFAULT_MBUF_SIZE" and l3: "l3 \<le> 22" and mac: "length (pk_eth_src pkt) = 6" "length (pk_eth_dst pkt) = 6"
    and ehs: "pk_ether_hdr_size pkt = of_nat l3" and sz: "60 \<le> pk_pktSize pkt" "pk_pktSize pkt \<le> 1514"
    and v6: "pk_ethType pkt = PG_ETHER_TYPE_IPv6 \<Longrightarrow> 62 \<le> pk_pktSize pkt"
  shows "\<exists>r. pktgen_l3_ctor flags pkt ident l3 type = Inr r"
proof -
  have n: "60 \<le> unat (pk_pktSize pkt)" "unat (pk_pktSize pkt) \<le> 1514" using sz by (simp_all add: word_le_nat_alt)
  have t20: "unat (pk_pktSize pkt - (pk_ether_hdr_size pkt + 20)) \<le> 1514"
    using unat_size_minus(1)[OF sz, of "l3 + 20"] l3 n by (simp add: ehs)
  consider "pk_ethType pkt = PG_ETHER_TYPE_IPv4" "pk_ipProto pkt = PG_IPPROTO_TCP \<or> pk_ipProto pkt = PG_IPPROTO_UDP"
    | "pk_ethType pkt = PG_ETHER_TYPE_IPv4" "pk_ipProto pkt = PG_IPPROTO_ICMP"
    | "pk_ethType pkt = PG_ETHER_TYPE_IPv6"
    | "pk_ethType pkt = PG_ETHER_TYPE_ARP"
    | "pk_ethType pkt = PG_ETHER_TYPE_IPv4" "pk_ipProto pkt \<notin> {PG_IPPROTO_TCP, PG_IPPROTO_UDP, PG_IPPROTO_ICMP}"
    | "pk_ethType pkt \<notin> {PG_ETHER_TYPE_IPv4, PG_ETHER_TYPE_IPv6, PG_ETHER_TYPE_ARP}" by blast
  then show ?thesis
  proof cases
    case 1
    then show ?thesis using pktgen_l3_ipv4_ok[OF hdr l3 ehs sz] by blast
  next
    case 2
    obtain m where m: "pktgen_icmp_ctor pkt l3 type = Inr (pkt\<lparr>pk_hdr := m\<rparr>)" "length m = DEFAULT_MBUF_SIZE"
      using pktgen_icmp_ctor_ok[of l3 pkt type] hdr l3 t20 by auto
    then show ?thesis using 2 pktgen_ipv4_ctor_ok[of l3 "pkt\<lparr>pk_hdr := m\<rparr>" ident] l3 by (auto simp: pktgen_l3_ctor_def)
  next
    case 3
    have s62: "62 \<le> unat (pk_pktSize pkt)" using v6[OF 3] by (simp add: word_le_nat_alt)
    have "unat (pk_ether_hdr_size pkt + 40) = l3 + 40" using l3 by (simp add: ehs unat_word_ariths unat_of_nat)
    then have t40: "unat (pk_pktSize pkt - (pk_ether_hdr_size pkt + 40)) \<le> 1514"
      using s62 n l3 by (simp add: unat_sub_if')
    have a: "l3 + 60 \<le> length (pk_hdr pkt)"
      "l3 + 40 + unat (pk_pktSize pkt - (pk_ether_hdr_size pkt + 40)) \<le> length (pk_hdr pkt)" using hdr l3 t40 by simp_all
    obtain mu mt where u: "pktgen_udp_hdr_ctor pkt l3 PG_ETHER_TYPE_IPv6 = Inr (pkt\<lparr>pk_hdr := mu\<rparr>)" "length mu = DEFAULT_MBUF_SIZE"
      and t: "pktgen_tcp_hdr_ctor pkt l3 PG_ETHER_TYPE_IPv6 = Inr (pkt\<lparr>pk_hdr := mt\<rparr>)" "length mt = DEFAULT_MBUF_SIZE"
      using pktgen_l4_ipv6_ok[OF a] hdr by auto
    have "\<exists>m'. pktgen_ipv6_ctor (pkt\<lparr>pk_hdr := m\<rparr>) l3 = Inr m'" if "length m = DEFAULT_MBUF_SIZE" for m
      using pktgen_ipv6_ctor_ok[of l3 "pkt\<lparr>pk_hdr := m\<rparr>"] l3 that by auto
    from this[OF u(2)] this[OF t(2)] show ?thesis using 3 u(1) t(1) by (auto simp: pktgen_l3_ctor_def)
  next
    case 4
    then show ?thesis using wrs_ok[of "[(l3, be16 1), (l3 + 2, be16 PG_ETHER_TYPE_IPv4), (l3 + 4, [6]), (l3 + 5, [4]), (l3 + 6, be16 2),
        (l3 + 8, pk_eth_src pkt), (l3 + 8, be32 (pk_ip_src pkt)), (l3 + 18, pk_eth_dst pkt), (l3 + 24, be32 (pk_ip_dst pkt))]" "pk_hdr pkt"]
      hdr l3 mac by (auto simp: pktgen_l3_ctor_def pktgen_arp_ctor_def)
  qed (simp_all add: pktgen_l3_ctor_def)
qed

lemma pkt_ctor_total:
  assumes "length (pk_hdr pkt) = DEFAULT_MBUF_SIZE" and "length (pk_eth_src pkt) = 6" and "length (pk_eth_dst pkt) = 6"
    and "flags AND SEND_GRE_IPv4_HEADER = 0" and "flags AND SEND_GRE_ETHER_HEADER = 0"
    and "60 \<le> pk_pktSize pkt" and "pk_pktSize pkt \<le> 1514" and "pk_ethType pkt = PG_ETHER_TYPE_IPv6 \<Longrightarrow> 62 \<le> pk_pktSize pkt"
  shows "\<exists>r. pkt_ctor flags fill user pkt ident type = Inr r"
proof -
  let ?p = "pkt\<lparr>pk_hdr := pktgen_fill_pattern (pk_hdr pkt) fill user\<rparr>"
  obtain m where m: "pktgen_ether_hdr_ctor flags ?p =
      Inr (l3_offset flags, ?p\<lparr>pk_hdr := m, pk_ether_hdr_size := of_nat (l3_offset flags)\<rparr>)" "length m = DEFAULT_MBUF_SIZE"
    using pktgen_ether_hdr_ctor_ok[of ?p flags] assms(1-3) by auto
  have "l3_offset flags \<le> 22" by (simp add: l3_offset_def)
  then show ?thesis
    using pktgen_l3_ctor_total[of "?p\<lparr>pk_hdr := m, pk_ether_hdr_size := of_nat (l3_offset flags)\<rparr>" "l3_offset flags" flags ident type]
      m assms by (auto simp: pkt_ctor_def Let_def)
qed

section \<open>Properties\<close>

text \<open>
  C4: an IPv4 packet template of legal size (60 to 1514 bytes) carrying TCP or UDP, with or
  without a VLAN tag, MPLS label, Q-in-Q tags, VXLAN or GTP-U, is built without leaving the
  header area; the IP header checksum and the TCP or UDP checksum of the result both verify,
  and the IP total length covers exactly the bytes after the link header.
\<close>

theorem pkt_ctor_ipv4_checksums:
  assumes "length (pk_hdr pkt) = DEFAULT_MBUF_SIZE" and "length (pk_eth_src pkt) = 6" and "length (pk_eth_dst pkt) = 6"
    and "flags AND SEND_GRE_IPv4_HEADER = 0" and "flags AND SEND_GRE_ETHER_HEADER = 0"
    and "60 \<le> pk_pktSize pkt" and "pk_pktSize pkt \<le> 1514" and "pk_ethType pkt = PG_ETHER_TYPE_IPv4"
    and "pk_ipProto pkt = PG_IPPROTO_TCP \<or> pk_ipProto pkt = PG_IPPROTO_UDP"
  shows "\<exists>pkt'. pkt_ctor flags fill user pkt ident type = Inr (pkt', ident + 27) \<and>
    pk_pktSize pkt' = pk_pktSize pkt \<and> ipv4_packet_ok (pk_hdr pkt') (l3_offset flags) (unat (pk_pktSize pkt))"
proof -
  let ?p = "pkt\<lparr>pk_hdr := pktgen_fill_pattern (pk_hdr pkt) fill user\<rparr>"
  obtain m where m: "pktgen_ether_hdr_ctor flags ?p =
      Inr (l3_offset flags, ?p\<lparr>pk_hdr := m, pk_ether_hdr_size := of_nat (l3_offset flags)\<rparr>)" "length m = DEFAULT_MBUF_SIZE"
    using pktgen_ether_hdr_ctor_ok[of ?p flags] assms(1-3) by auto
  have "l3_offset flags \<le> 22" by (simp add: l3_offset_def)
  then show ?thesis
    using pktgen_l3_ipv4_ok[of "?p\<lparr>pk_hdr := m, pk_ether_hdr_size := of_nat (l3_offset flags)\<rparr>" "l3_offset flags" flags ident type]
      m assms by (auto simp: pkt_ctor_def Let_def)
qed

definition example_pkt :: pkt_seq where
  "example_pkt = \<lparr>pk_eth_dst = [2, 0, 0, 0, 0, 2], pk_eth_src = [2, 0, 0, 0, 0, 1], pk_ip_src = 0xC0A80001, pk_ip_dst = 0xC0A80101,
     pk_ip_mask = 0xFFFFFF00, pk_sport = 1234, pk_dport = 5678, pk_ethType = PG_ETHER_TYPE_IPv4, pk_ipProto = PG_IPPROTO_UDP,
     pk_vlanid = 1, pk_cos = 0, pk_tos = 0, pk_ether_hdr_size = 14, pk_mpls_entry = 0, pk_qinq_outerid = 0, pk_qinq_innerid = 0,
     pk_gre_key = 0, pk_pktSize = 60, pk_ttl = 4, pk_gtpu_teid = 0, pk_vni_flags = 0, pk_group_id = 0, pk_vxlan_id = 0,
     pk_hdr = replicate DEFAULT_MBUF_SIZE 0\<rparr>"

theorem pkt_ctor_ipv4_checksums_witness:
  "\<exists>pkt'. pkt_ctor SEND_VLAN_ID ABC_FILL_PATTERN [] example_pkt 0 (-1) = Inr (pkt', 27) \<and> pk_pktSize pkt' = 60 \<and>
     ipv4_packet_ok (pk_hdr pkt') 18 60"
  using pkt_ctor_ipv4_checksums[of example_pkt SEND_VLAN_ID ABC_FILL_PATTERN "[]" 0 "-1"]
  by (simp add: example_pkt_def port_flag_defs l3_offset_def)

text \<open>
  C5: whatever protocol, tag or encapsulation other than GRE is selected, building a template of
  legal size reads and writes only its own buffer and returns; an IPv6 template needs 62 bytes,
  so that the longest link header (22) and the IPv6 header (40) fit.
\<close>

theorem pkt_ctor_stays_in_buffer:
  assumes "length (pk_hdr pkt) = DEFAULT_MBUF_SIZE" and "length (pk_eth_src pkt) = 6" and "length (pk_eth_dst pkt) = 6"
    and "flags AND SEND_GRE_IPv4_HEADER = 0" and "flags AND SEND_GRE_ETHER_HEADER = 0"
    and "60 \<le> pk_pktSize pkt" and "pk_pktSize pkt \<le> 1514" and "pk_ethType pkt = PG_ETHER_TYPE_IPv6 \<longrightarrow> 62 \<le> pk_pktSize pkt"
  shows "\<exists>pkt' ident'. pkt_ctor flags fill user pkt ident type = Inr (pkt', ident')"
  using pkt_ctor_total[OF assms(1-7)] assms(8) by auto

theorem pkt_ctor_stays_in_buffer_witness:
  "\<exists>pkt' ident'. pkt_ctor SEND_Q_IN_Q_IDS NO_FILL_PATTERN [] (example_pkt\<lparr>pk_ethType := PG_ETHER_TYPE_IPv6, pk_pktSize := 62\<rparr>) 0 (-1) = Inr (pkt', ident')"
  using pkt_ctor_stays_in_buffer[of "example_pkt\<lparr>pk_ethType := PG_ETHER_TYPE_IPv6, pk_pktSize := 62\<rparr>" SEND_Q_IN_Q_IDS NO_FILL_PATTERN "[]" 0 "-1"]
  by (simp add: example_pkt_def port_flag_defs)

text \<open>
  With GRE enabled every construction of the same template adds 28 to its link-header
  size. Once that exceeds the packet size (for a 60-byte packet, at the second construction)
  the length computation wraps and the checksum reads far outside the packet buffer.
\<close>

theorem pkt_ctor_gre_grows_until_fault:
  assumes "length (pk_hdr pkt) = DEFAULT_MBUF_SIZE" and "flags AND SEND_GRE_IPv4_HEADER \<noteq> 0"
    and "pk_ethType pkt = PG_ETHER_TYPE_IPv4" and "pk_ipProto pkt = PG_IPPROTO_UDP" and "pk_dport pkt \<noteq> 2152"
    and "flags AND SEND_VXLAN_PACKETS = 0"
  shows "(\<forall>pkt' ident'. pkt_ctor flags fill user pkt ident type = Inr (pkt', ident') \<longrightarrow>
            pk_ether_hdr_size pkt' = pk_ether_hdr_size pkt + 28) \<and>
         (unat (pk_pktSize pkt) < unat (pk_ether_hdr_size pkt) + 28 \<and> unat (pk_ether_hdr_size pkt) \<le> 2000 \<longrightarrow>
            pkt_ctor flags fill user pkt ident type = Inl Fault)"
proof -
  let ?p = "pkt\<lparr>pk_hdr := pktgen_fill_pattern (pk_hdr pkt) fill user\<rparr>"
  obtain m where m: "pktgen_gre_hdr_ctor ?p ident 14 =
      Inr (42, ?p\<lparr>pk_hdr := m, pk_ether_hdr_size := pk_ether_hdr_size pkt + 28\<rparr>, ident + 27)" "length m = DEFAULT_MBUF_SIZE"
    using pktgen_gre_hdr_ctor_ok[of ?p ident] assms(1) by auto
  define q where "q = ?p\<lparr>pk_hdr := m, pk_ether_hdr_size := pk_ether_hdr_size pkt + 28\<rparr>"
  have q: "pkt_ctor flags fill user pkt ident type =
      rbind (pktgen_udp_hdr_ctor q 42 PG_ETHER_TYPE_IPv4) (\<lambda>pkt. pktgen_ipv4_ctor pkt (ident + 27) 42)"
    using m(1) assms by (simp add: pkt_ctor_def Let_def pktgen_l3_ctor_def q_def)
  have "pk_ether_hdr_size pkt' = pk_ether_hdr_size pkt + 28"
    if "pkt_ctor flags fill user pkt ident type = Inr (pkt', ident')" for pkt' ident'
  proof -
    note r = that[unfolded q rbind_eq_Inr]
    then obtain q1 where q1: "pktgen_udp_hdr_ctor q 42 PG_ETHER_TYPE_IPv4 = Inr q1" "pktgen_ipv4_ctor q1 (ident + 27) 42 = Inr (pkt', ident')"
      by blast
    then show ?thesis using ctor_hdr_only(1)[OF q1(1)] ctor_hdr_only(2)[OF q1(2)] by (auto simp: q_def)
  qed
  moreover have "pkt_ctor flags fill user pkt ident type = Inl Fault"
    if small: "unat (pk_pktSize pkt) < unat (pk_ether_hdr_size pkt) + 28" "unat (pk_ether_hdr_size pkt) \<le> 2000"
  proof -
    have e: "unat (pk_ether_hdr_size pkt + 28) = unat (pk_ether_hdr_size pkt) + 28"
      using small(2) by (simp add: unat_word_ariths)
    have "unat (pk_pktSize pkt - (pk_ether_hdr_size pkt + 28)) =
        65536 + unat (pk_pktSize pkt) - (unat (pk_ether_hdr_size pkt) + 28)"
      using small(1) e by (simp add: unat_sub_if')
    then have "pktgen_udp_hdr_ctor q 42 PG_ETHER_TYPE_IPv4 = Inl Fault"
      using small(2) m(2) by (intro pktgen_udp_hdr_ctor_fault) (simp_all add: q_def)
    then show ?thesis by (simp add: q)
  qed
  ultimately show ?thesis by blast
qed

theorem pkt_ctor_gre_grows_until_fault_witness:
  "pkt_ctor SEND_GRE_IPv4_HEADER ABC_FILL_PATTERN [] (example_pkt\<lparr>pk_ether_hdr_size := 14 + 28\<rparr>) 27 (-1) = Inl Fault"
  using pkt_ctor_gre_grows_until_fault[of "example_pkt\<lparr>pk_ether_hdr_size := 14 + 28\<rparr>" SEND_GRE_IPv4_HEADER ABC_FILL_PATTERN "[]" 27 "-1"]
  by (simp add: example_pkt_def port_flag_defs)

text \<open>
  The VXLAN identifier is shifted after conversion to network order, so the 24-bit VNI on
  the wire is the identifier's upper 16 bits: every identifier below 65536 is sent as VNI 0.
\<close>

theorem pktgen_udp_hdr_ctor_vxlan_vni:
  assumes "ip + 36 \<le> length (pk_hdr pkt)" and "pk_dport pkt = VXLAN_PORT_ID" and "unat (pk_vxlan_id pkt) < 65536"
    and "pktgen_udp_hdr_ctor pkt ip PG_ETHER_TYPE_IPv4 = Inr pkt'"
  shows "rd (pk_hdr pkt') (ip + 20 + 8 + 4) 3 = Inr [0, 0, 0]"
proof -
  let ?us = "udp_writes pkt (ip + 20) (pk_pktSize pkt - (pk_ether_hdr_size pkt + 20)) @ vxlan_writes pkt (ip + 20 + 8)"
  have "rbind (wrs (pk_hdr pkt) (ipv4_pseudo_writes pkt ip @ ?us @ [(ip + 20 + 6, le16 0)])) (\<lambda>m.
        rbind (rte_ipv4_udptcp_cksum m ip (ip + 20)) (\<lambda>c.
        rbind (wr m (ip + 20 + 6) (le16 (nonzero_cksum c))) (\<lambda>m. Inr (pkt\<lparr>pk_hdr := m\<rparr>)))) = Inr pkt'"
    using assms(4) unfolding pktgen_udp_hdr_ctor_def Let_def assms(2) by (simp only: simp_thms if_True append_assoc)
  then obtain m1 c m where m1: "wrs (pk_hdr pkt) (ipv4_pseudo_writes pkt ip @ ?us @ [(ip + 20 + 6, le16 0)]) = Inr m1"
    and m: "wr m1 (ip + 20 + 6) (le16 (nonzero_cksum c)) = Inr m" "pkt\<lparr>pk_hdr := m\<rparr> = pkt'"
    unfolding rbind_eq_Inr by blast
  define v where "v = [0] @ take 3 (be32 (pk_vxlan_id pkt))"
  have lv: "length v = 4" by (simp add: v_def)
  have "ipv4_pseudo_writes pkt ip @ ?us @ [(ip + 20 + 6, le16 0)] =
      (ipv4_pseudo_writes pkt ip @ udp_writes pkt (ip + 20) (pk_pktSize pkt - (pk_ether_hdr_size pkt + 20)) @
        [(ip + 20 + 8, be16 (pk_vni_flags pkt)), (ip + 20 + 8 + 2, be16 (pk_group_id pkt))]) @
      (ip + 20 + 8 + 4, v) # [(ip + 20 + 6, le16 0)]"
    by (simp add: vxlan_writes_def v_def)
  from m1[unfolded this] have "rd m1 (ip + 20 + 8 + 4) 4 = Inr v"
    by (rule rd_wrs_at) (simp_all add: disjoint_from_def lv)
  then have "rd m (ip + 20 + 8 + 4) 4 = Inr v"
    using rd_wr_other[OF m(1), of "ip + 20 + 8 + 4" 4] by simp
  moreover have "ucast (drop_bit n (pk_vxlan_id pkt)) = (0 :: u8)" if "16 \<le> n" for n
  proof -
    have "(65536 :: nat) \<le> 2 ^ n" using power_increasing[OF that, of "2 :: nat"] by simp
    then have "drop_bit n (unat (pk_vxlan_id pkt)) = 0" using assms(3) by (simp add: drop_bit_eq_div)
    then have "unat (drop_bit n (pk_vxlan_id pkt)) = 0" by (simp only: unat_drop_bit_eq)
    then show ?thesis by (simp add: unat_eq_0)
  qed
  ultimately have "rd m (ip + 20 + 8 + 4) 4 = Inr ([0, 0, 0] @ [ucast (drop_bit 8 (pk_vxlan_id pkt))])"
    by (simp add: be32_def v_def)
  then have "rd m (ip + 20 + 8 + 4) 3 = Inr [0, 0, 0]"
    using rd_prefix[of m "ip + 20 + 8 + 4" 4 "[0, 0, 0]"] by (simp add: eval_nat_numeral)
  then show ?thesis using m(2) by auto
qed

theorem pktgen_udp_hdr_ctor_vxlan_vni_witness:
  "\<exists>pkt'. pktgen_udp_hdr_ctor (example_pkt\<lparr>pk_dport := 4789, pk_vxlan_id := 42\<rparr>) 14 PG_ETHER_TYPE_IPv4 = Inr pkt' \<and>
     rd (pk_hdr pkt') 46 3 = Inr [0, 0, 0]"
proof -
  let ?p = "example_pkt\<lparr>pk_dport := 4789, pk_vxlan_id := 42\<rparr>"
  obtain m where "pktgen_udp_hdr_ctor ?p 14 PG_ETHER_TYPE_IPv4 = Inr (?p\<lparr>pk_hdr := m\<rparr>)"
    using pktgen_udp_hdr_ctor_ipv4[of 14 ?p] by (auto simp: example_pkt_def)
  then show ?thesis using pktgen_udp_hdr_ctor_vxlan_vni[of 14 ?p "?p\<lparr>pk_hdr := m\<rparr>"] by (auto simp: example_pkt_def)
qed

text \<open>
  In an ARP packet the sender's IP address is written over the first four bytes of the
  sender's hardware address; the sender protocol address keeps the fill pattern.
\<close>

theorem pktgen_arp_ctor_sender:
  assumes "arp + 28 \<le> length (pk_hdr pkt)" and "length (pk_eth_src pkt) = 6" and "length (pk_eth_dst pkt) = 6"
  shows "\<exists>m. pktgen_arp_ctor pkt arp = Inr (pkt\<lparr>pk_hdr := m\<rparr>) \<and> rd m (arp + 8) 4 = Inr (be32 (pk_ip_src pkt)) \<and>
    rd m (arp + 14) 4 = rd (pk_hdr pkt) (arp + 14) 4 \<and> rd m (arp + 24) 4 = Inr (be32 (pk_ip_dst pkt))"
proof -
  let ?ws = "[(arp, be16 1), (arp + 2, be16 PG_ETHER_TYPE_IPv4), (arp + 4, [6]), (arp + 5, [4]), (arp + 6, be16 2),
        (arp + 8, pk_eth_src pkt), (arp + 8, be32 (pk_ip_src pkt)), (arp + 18, pk_eth_dst pkt),
        (arp + 24, be32 (pk_ip_dst pkt))]"
  obtain m where m: "wrs (pk_hdr pkt) ?ws = Inr m" using wrs_ok[of ?ws "pk_hdr pkt"] assms by auto
  have 1: "rd m (arp + 8) 4 = Inr (be32 (pk_ip_src pkt))"
    using rd_wrs_at[of "pk_hdr pkt" "take 6 ?ws" "arp + 8" "be32 (pk_ip_src pkt)" "drop 7 ?ws" m] m by (simp add: disjoint_from_def)
  have 2: "rd m (arp + 24) 4 = Inr (be32 (pk_ip_dst pkt))"
    using rd_wrs_at[of "pk_hdr pkt" "take 8 ?ws" "arp + 24" "be32 (pk_ip_dst pkt)" "[]" m] m by simp
  have 3: "rd m (arp + 14) 4 = rd (pk_hdr pkt) (arp + 14) 4"
    by (rule rd_wrs_skip[OF m]) (simp add: disjoint_from_def assms)
  show ?thesis using m 1 2 3 by (auto simp: pktgen_arp_ctor_def)
qed

theorem pktgen_arp_ctor_sender_witness:
  "\<exists>m. pktgen_arp_ctor example_pkt 14 = Inr (example_pkt\<lparr>pk_hdr := m\<rparr>) \<and> rd m 22 4 = Inr [192, 168, 0, 1] \<and>
     rd m 28 4 = Inr [0, 0, 0, 0] \<and> rd m 38 4 = Inr [192, 168, 1, 1]"
proof -
  have b: "be32 0xC0A80001 = [192, 168, 0, 1]" "be32 0xC0A80101 = [192, 168, 1, 1]" by (simp_all add: be32_def)
  have r: "rd (replicate 2176 0) 28 4 = Inr [0, 0, 0, 0 :: u8]" by (simp add: rd_def numeral_eq_Suc)
  show ?thesis using pktgen_arp_ctor_sender[of 14 example_pkt] b r by (simp add: example_pkt_def)
qed

end
