(* ===== verification/Cmds.thy ===== *)
theory Cmds
  imports Packet
begin

text \<open>
  The port commands (app/pktgen-cmds.c), the transmit rate (\<open>pktgen_wire_size\<close> and
  \<open>pktgen_packet_rate\<close> of app/pktgen.c) and rate pacing (app/pktgen-rate.c). A command takes the
  state of the port it is applied to and returns it changed; most commands rebuild a packet
  template and mark the transmit queues for an update, which is \<open>ctor_update\<close>.
\<close>

section \<open>Rates\<close>

definition pkt_wire :: "pkt_seq \<Rightarrow> u64" where
  "pkt_wire p = ucast (pk_pktSize p) + PKT_OVERHEAD_SIZE"

definition pktgen_wire_size :: "port_info \<Rightarrow> u64 res" where
  "pktgen_wire_size i =
     (if pktgen_tst_port_flags SEND_PCAP_PKTS i then
        (case pi_pcap i of None \<Rightarrow> Inl Fault | Some (_, sz) \<Rightarrow> Inr (sz + PKT_OVERHEAD_SIZE))
      else if pktgen_tst_port_flags SEND_RATE_PACKETS i then Inr (pkt_wire (pi_seq_pkt i ! RATE_PKT))
      else if pi_seqCnt i > 0 then
        (if unat (pi_seqCnt i) \<le> length (pi_seq_pkt i)
         then Inr (sum_list (map pkt_wire (take (unat (pi_seqCnt i)) (pi_seq_pkt i))) div ucast (pi_seqCnt i))
         else Inl Fault)
      else Inr (pkt_wire (pi_seq_pkt i ! SINGLE_PKT)))"

definition pktgen_packet_rate :: "pktgen_st \<Rightarrow> pktgen_st res" where
  "pktgen_packet_rate g =
     rbind (pktgen_wire_size (g_info g)) (\<lambda>w.
       let wire = w * 8; link = ucast (pi_link_speed (g_info g)) * 1000000 in
       if wire = 0 then Inl Fault
       else
         let pps = g_scale g (link div wire) (pi_tx_rate (g_info g));
             cpp = (if pps > 0 then g_hz g div pps else g_hz g)
         in Inr (upd_info (\<lambda>i. i\<lparr>pi_tx_pps := pps,
                   pi_tx_cycles := cpp * ucast (pi_tx_burst i) * of_nat (g_txcnt g)\<rparr>) g))"

definition ctor_update :: "nat \<Rightarrow> pktgen_st \<Rightarrow> pktgen_st res" where
  "ctor_update n g = rbind (pktgen_packet_ctor n (-1) g) pktgen_set_tx_update"

definition set_pkt :: "nat \<Rightarrow> (pkt_seq \<Rightarrow> pkt_seq) \<Rightarrow> pktgen_st \<Rightarrow> pktgen_st" where
  "set_pkt n f = upd_info (upd_pkt n f)"

section \<open>Exclusive modes\<close>

text \<open>Turning a mode on clears both groups of exclusive modes first.\<close>

definition exclusive_on :: "u32 \<Rightarrow> port_info \<Rightarrow> port_info" where
  "exclusive_on fl i =
     pktgen_set_port_flags fl (pktgen_clr_port_flags EXCLUSIVE_PKT_MODES (pktgen_clr_port_flags EXCLUSIVE_MODES i))"

definition exclusive_set :: "u32 \<Rightarrow> bool \<Rightarrow> port_info \<Rightarrow> port_info" where
  "exclusive_set fl on i = (if on then exclusive_on fl i else pktgen_clr_port_flags fl i)"

definition enable_random :: "bool \<Rightarrow> pktgen_st \<Rightarrow> pktgen_st" where
  "enable_random on = upd_info (exclusive_set SEND_RANDOM_PKTS on)"

definition enable_icmp_echo :: "bool \<Rightarrow> pktgen_st \<Rightarrow> pktgen_st" where
  "enable_icmp_echo on = upd_info (if on then pktgen_set_port_flags ICMP_ECHO_ENABLE_FLAG else pktgen_clr_port_flags ICMP_ECHO_ENABLE_FLAG)"

definition enable_process :: "bool \<Rightarrow> pktgen_st \<Rightarrow> pktgen_st" where
  "enable_process on = upd_info (if on then pktgen_set_port_flags PROCESS_INPUT_PKTS else pktgen_clr_port_flags PROCESS_INPUT_PKTS)"

definition enable_garp :: "bool \<Rightarrow> pktgen_st \<Rightarrow> pktgen_st" where
  "enable_garp on = upd_info (if on then pktgen_set_port_flags (PROCESS_GARP_PKTS OR PROCESS_INPUT_PKTS)
     else pktgen_clr_port_flags (PROCESS_GARP_PKTS OR PROCESS_INPUT_PKTS))"

definition enable_pcap :: "bool \<Rightarrow> pktgen_st \<Rightarrow> pktgen_st" where
  "enable_pcap on g =
     (case pi_pcap (g_info g) of
        Some (cnt, _) \<Rightarrow> if cnt \<noteq> 0 then upd_info (\<lambda>i. (exclusive_set SEND_PCAP_PKTS on i)\<lparr>pi_tx_cycles := 0\<rparr>) g else g
      | None \<Rightarrow> g)"

definition enable_vxlan :: "bool \<Rightarrow> pktgen_st \<Rightarrow> pktgen_st res" where
  "enable_vxlan on g = ctor_update SINGLE_PKT (upd_info (exclusive_set SEND_VXLAN_PACKETS on) g)"

definition enable_vlan :: "bool \<Rightarrow> pktgen_st \<Rightarrow> pktgen_st res" where
  "enable_vlan on g = ctor_update SINGLE_PKT (upd_info (exclusive_set SEND_VLAN_ID on) g)"

definition enable_mpls :: "bool \<Rightarrow> pktgen_st \<Rightarrow> pktgen_st res" where
  "enable_mpls on g = ctor_update SINGLE_PKT (upd_info (exclusive_set SEND_MPLS_LABEL on) g)"

definition enable_qinq :: "bool \<Rightarrow> pktgen_st \<Rightarrow> pktgen_st res" where
  "enable_qinq on g = ctor_update SINGLE_PKT (upd_info (exclusive_set SEND_Q_IN_Q_IDS on) g)"

definition enable_gre :: "bool \<Rightarrow> pktgen_st \<Rightarrow> pktgen_st res" where
  "enable_gre on g = ctor_update SINGLE_PKT (upd_info (exclusive_set SEND_GRE_IPv4_HEADER on) g)"

definition enable_gre_eth :: "bool \<Rightarrow> pktgen_st \<Rightarrow> pktgen_st res" where
  "enable_gre_eth on g = ctor_update SINGLE_PKT (upd_info (exclusive_set SEND_GRE_ETHER_HEADER on) g)"

text \<open>Ranges cannot be enabled while the port is sending; the command then does nothing at all.\<close>

definition enable_range :: "bool \<Rightarrow> pktgen_st \<Rightarrow> pktgen_st res" where
  "enable_range on g =
     (if on \<and> pktgen_tst_port_flags SENDING_PACKETS (g_info g) then Inr g
      else pktgen_packet_rate (upd_info (exclusive_set SEND_RANGE_PKTS on) g))"

abbreviation (input) TSTAMP_SIZE :: u16 where "TSTAMP_SIZE \<equiv> 16"

definition enable_latency :: "bool \<Rightarrow> pktgen_st \<Rightarrow> pktgen_st res" where
  "enable_latency on g =
     (let g1 = (if on
        then set_pkt SINGLE_PKT (\<lambda>p. if pk_pktSize p < MIN_PKT_SIZE + TSTAMP_SIZE
               then p\<lparr>pk_pktSize := pk_pktSize p + TSTAMP_SIZE\<rparr> else p) (upd_info (exclusive_on SEND_LATENCY_PKTS) g)
        else upd_info (pktgen_clr_port_flags SEND_LATENCY_PKTS)
               (set_pkt SINGLE_PKT (\<lambda>p. if pk_pktSize p \<ge> MIN_PKT_SIZE + TSTAMP_SIZE
               then p\<lparr>pk_pktSize := pk_pktSize p - TSTAMP_SIZE\<rparr> else p) g))
      in ctor_update SINGLE_PKT (set_pkt SINGLE_PKT (\<lambda>p. p\<lparr>pk_ipProto := PG_IPPROTO_UDP\<rparr>) g1))"

definition pktgen_set_port_seqCnt :: "u32 \<Rightarrow> pktgen_st \<Rightarrow> pktgen_st" where
  "pktgen_set_port_seqCnt cnt0 =
     (let cnt = (if cnt0 > 16 then 16 else cnt0) in
      upd_info (\<lambda>i. exclusive_set SEND_SEQ_PKTS (cnt \<noteq> 0) (i\<lparr>pi_seqCnt := ucast cnt\<rparr>)))"

section \<open>Transmission control\<close>

definition pktgen_start_transmitting :: "pktgen_st \<Rightarrow> pktgen_st res" where
  "pktgen_start_transmitting g =
     (if pktgen_tst_port_flags SENDING_PACKETS (g_info g) then Inr g
      else rbind (pktgen_set_tx_update g) (\<lambda>g.
        let i1 = (g_info g)\<lparr>pi_current_tx_count := pi_transmit_count (g_info g)\<rparr>;
            i2 = (if pi_current_tx_count i1 = 0 then pktgen_set_port_flags SEND_FOREVER i1 else i1)
        in Inr (g\<lparr>g_info := pktgen_set_port_flags SENDING_PACKETS i2\<rparr>)))"

definition pktgen_stop_transmitting :: "pktgen_st \<Rightarrow> pktgen_st res" where
  "pktgen_stop_transmitting g =
     (if pktgen_tst_port_flags SENDING_PACKETS (g_info g)
      then rbind (set_q_flags_upto (g_txcnt g) DO_TX_FLUSH
                   (pktgen_clr_port_flags (SENDING_PACKETS OR SEND_FOREVER) (g_info g))) (\<lambda>i. Inr (g\<lparr>g_info := i\<rparr>))
      else Inr g)"

definition pktgen_prime_ports :: "pktgen_st \<Rightarrow> pktgen_st res" where
  "pktgen_prime_ports g =
     rbind (pktgen_set_tx_update g) (\<lambda>g.
     rbind (set_q_flags_upto (g_txcnt g) DO_TX_FLUSH
       (pktgen_set_port_flags SENDING_PACKETS ((g_info g)\<lparr>pi_current_tx_count := ucast (pi_prime_cnt (g_info g))\<rparr>)))
       (\<lambda>i. Inr (g\<lparr>g_info := i\<rparr>)))"

definition single_set_tx_count :: "u32 \<Rightarrow> pktgen_st \<Rightarrow> pktgen_st" where
  "single_set_tx_count cnt = upd_info (\<lambda>i. i\<lparr>pi_transmit_count := ucast cnt\<rparr>)"

definition rate_set_tx_count :: "u32 \<Rightarrow> pktgen_st \<Rightarrow> pktgen_st" where
  "rate_set_tx_count cnt = upd_info (\<lambda>i. i\<lparr>pi_transmit_count := ucast cnt\<rparr>)"

definition pktgen_set_port_prime :: "u32 \<Rightarrow> pktgen_st \<Rightarrow> pktgen_st" where
  "pktgen_set_port_prime cnt =
     upd_info (\<lambda>i. i\<lparr>pi_prime_cnt := ucast (if cnt > 4 then 4 else if cnt = 0 then 1 else cnt)\<rparr>)"

definition clamp_burst :: "u32 \<Rightarrow> u32" where
  "clamp_burst b = (if b = 0 then 1 else if b > DEFAULT_PKT_BURST then DEFAULT_PKT_BURST else b)"

definition single_set_tx_burst :: "u32 \<Rightarrow> pktgen_st \<Rightarrow> pktgen_st res" where
  "single_set_tx_burst b g =
     pktgen_packet_rate (upd_info (\<lambda>i. i\<lparr>pi_tx_burst := ucast (clamp_burst b), pi_tx_cycles := 0\<rparr>) g)"

definition rate_set_tx_burst :: "u32 \<Rightarrow> pktgen_st \<Rightarrow> pktgen_st res" where
  "rate_set_tx_burst b g =
     pktgen_packet_rate (upd_info (\<lambda>i. i\<lparr>pi_tx_burst := ucast (clamp_burst b), pi_tx_cycles := 0\<rparr>) g)"

definition debug_set_tx_cycles :: "u32 \<Rightarrow> pktgen_st \<Rightarrow> pktgen_st" where
  "debug_set_tx_cycles c = upd_info (\<lambda>i. i\<lparr>pi_tx_cycles := ucast c\<rparr>)"

text \<open>\<open>rate\<close> is the result of \<open>strtod\<close>.\<close>

definition single_set_tx_rate :: "rat \<Rightarrow> pktgen_st \<Rightarrow> pktgen_st res" where
  "single_set_tx_rate rate g =
     (let r = (if rate = 0 then 1 / 100 else if rate > 100 then 100 else rate) in
      pktgen_packet_rate (upd_info (\<lambda>i. i\<lparr>pi_tx_rate := r, pi_tx_cycles := 0\<rparr>) g))"

definition single_set_jitter :: "u64 \<Rightarrow> u64 \<Rightarrow> pktgen_st \<Rightarrow> pktgen_st" where
  "single_set_jitter timer_hz threshold =
     upd_info (\<lambda>i. i\<lparr>pi_jitter_threshold := threshold, pi_jitter_count := 0,
                     pi_jitter_threshold_clks := threshold * (timer_hz div 1000000)\<rparr>)"

definition pktgen_send_arp_requests :: "u32 \<Rightarrow> pktgen_st \<Rightarrow> pktgen_st" where
  "pktgen_send_arp_requests type =
     upd_info (pktgen_set_port_flags (if type = 5 then SEND_GRATUITOUS_ARP else SEND_ARP_REQUEST))"

definition pktgen_ping4 :: "pktgen_st \<Rightarrow> pktgen_st res" where
  "pktgen_ping4 g =
     (let g1 = upd_info (\<lambda>i. upd_pkt PING_PKT (\<lambda>_. (pi_seq_pkt i ! SINGLE_PKT)\<lparr>pk_ipProto := PG_IPPROTO_ICMP\<rparr>) i) g in
      rbind (pktgen_packet_ctor PING_PKT 8 g1)
        (\<lambda>g. pktgen_set_tx_update (upd_info (pktgen_set_port_flags SEND_PING4_REQUEST) g)))"

section \<open>Packet templates\<close>

definition proto_of :: "char \<Rightarrow> u16" where
  "proto_of c = (if c = CHR ''u'' then PG_IPPROTO_UDP else if c = CHR ''i'' then PG_IPPROTO_ICMP else PG_IPPROTO_TCP)"

definition set_proto :: "char \<Rightarrow> pkt_seq \<Rightarrow> pkt_seq" where
  "set_proto c p =
     (let p1 = p\<lparr>pk_ipProto := proto_of c\<rparr> in if c = CHR ''i'' then p1\<lparr>pk_ethType := PG_ETHER_TYPE_IPv4\<rparr> else p1)"

definition single_set_proto :: "string \<Rightarrow> pktgen_st \<Rightarrow> pktgen_st res" where
  "single_set_proto type g =
     rbind (c_str_at type 0) (\<lambda>c. ctor_update SINGLE_PKT (set_pkt SINGLE_PKT (set_proto c) g))"

definition rate_set_proto :: "string \<Rightarrow> pktgen_st \<Rightarrow> pktgen_st res" where
  "rate_set_proto type g =
     rbind (c_str_at type 0) (\<lambda>c. ctor_update RATE_PKT (set_pkt RATE_PKT (set_proto c) g))"

definition range_set_proto :: "string \<Rightarrow> pktgen_st \<Rightarrow> pktgen_st res" where
  "range_set_proto type g =
     rbind (c_str_at type 0) (\<lambda>c.
       Inr (upd_info (\<lambda>i. i\<lparr>pi_range := (pi_range i)\<lparr>rg_ip_proto := proto_of c\<rparr>\<rparr>) (set_pkt RANGE_PKT (set_proto c) g)))"

text \<open>Which EtherType a type string selects; characters are read only as far as the tests go.\<close>

definition ethtype_at :: "nat list \<Rightarrow> string \<Rightarrow> u16 res" where
  "ethtype_at ks type =
     rbind (c_str_at type 0) (\<lambda>c0. if c0 = CHR ''a'' then Inr PG_ETHER_TYPE_ARP
       else rfold (\<lambda>acc k. if acc \<noteq> 0 then Inr acc
              else rbind (c_str_at type k) (\<lambda>c. Inr (if c = CHR ''4'' then PG_ETHER_TYPE_IPv4
                     else if c = CHR ''6'' then PG_ETHER_TYPE_IPv6 else 0))) 0 ks)"

definition ethtype_or_ipv4 :: "u16 \<Rightarrow> u16" where
  "ethtype_or_ipv4 t = (if t = 0 then PG_ETHER_TYPE_IPv4 else t)"

definition range_set_pkt_type :: "string \<Rightarrow> pktgen_st \<Rightarrow> pktgen_st res" where
  "range_set_pkt_type type g =
     rbind (ethtype_at [3] type) (\<lambda>t. Inr (set_pkt RANGE_PKT (\<lambda>p. p\<lparr>pk_ethType := ethtype_or_ipv4 t\<rparr>) g))"

definition set_pkt_type :: "u16 \<Rightarrow> pkt_seq \<Rightarrow> pkt_seq" where
  "set_pkt_type t p =
     (let old = pk_ethType p; p1 = p\<lparr>pk_ethType := t\<rparr>;
          p2 = (if old = PG_ETHER_TYPE_IPv6 \<and> t = PG_ETHER_TYPE_IPv4 \<and> pk_pktSize p1 \<ge> MIN_v6_PKT_SIZE
                then p1\<lparr>pk_pktSize := MIN_PKT_SIZE + (pk_pktSize p1 - MIN_v6_PKT_SIZE)\<rparr> else p1)
      in if old = PG_ETHER_TYPE_IPv4 \<and> t = PG_ETHER_TYPE_IPv6 \<and> pk_pktSize p2 < MIN_v6_PKT_SIZE
         then p2\<lparr>pk_pktSize := MIN_v6_PKT_SIZE + (pk_pktSize p2 - MIN_PKT_SIZE)\<rparr> else p2)"

definition single_set_pkt_type :: "string \<Rightarrow> pktgen_st \<Rightarrow> pktgen_st res" where
  "single_set_pkt_type type g =
     rbind (ethtype_at [3, 2] type) (\<lambda>t. ctor_update SINGLE_PKT (set_pkt SINGLE_PKT (set_pkt_type (ethtype_or_ipv4 t)) g))"

definition rate_set_pkt_type :: "string \<Rightarrow> pktgen_st \<Rightarrow> pktgen_st res" where
  "rate_set_pkt_type type g =
     rbind (ethtype_at [3, 2] type) (\<lambda>t. ctor_update RATE_PKT (set_pkt RATE_PKT (set_pkt_type (ethtype_or_ipv4 t)) g))"

definition single_set_vlan_id :: "u16 \<Rightarrow> pktgen_st \<Rightarrow> pktgen_st res" where
  "single_set_vlan_id v g =
     ctor_update SINGLE_PKT (set_pkt SINGLE_PKT (\<lambda>p. p\<lparr>pk_vlanid := v\<rparr>) (upd_info (\<lambda>i. i\<lparr>pi_vlanid := v\<rparr>) g))"

definition single_set_cos :: "u8 \<Rightarrow> pktgen_st \<Rightarrow> pktgen_st res" where
  "single_set_cos v g =
     ctor_update SINGLE_PKT (set_pkt SINGLE_PKT (\<lambda>p. p\<lparr>pk_cos := v\<rparr>) (upd_info (\<lambda>i. i\<lparr>pi_cos := v\<rparr>) g))"

definition single_set_tos :: "u8 \<Rightarrow> pktgen_st \<Rightarrow> pktgen_st res" where
  "single_set_tos v g =
     ctor_update SINGLE_PKT (set_pkt SINGLE_PKT (\<lambda>p. p\<lparr>pk_tos := v\<rparr>) (upd_info (\<lambda>i. i\<lparr>pi_tos := v\<rparr>) g))"

definition single_set_vxlan :: "u16 \<Rightarrow> u16 \<Rightarrow> u32 \<Rightarrow> pktgen_st \<Rightarrow> pktgen_st res" where
  "single_set_vxlan fl gid vid g =
     ctor_update SINGLE_PKT (set_pkt SINGLE_PKT (\<lambda>p. p\<lparr>pk_vni_flags := fl, pk_group_id := gid, pk_vxlan_id := vid\<rparr>)
       (upd_info (\<lambda>i. i\<lparr>pi_vni_flags := fl, pi_group_id := gid, pi_vxlan_id := vid\<rparr>) g))"

definition range_set_mpls_entry :: "u32 \<Rightarrow> pktgen_st \<Rightarrow> pktgen_st res" where
  "range_set_mpls_entry v g =
     ctor_update SINGLE_PKT (set_pkt SINGLE_PKT (\<lambda>p. p\<lparr>pk_mpls_entry := v\<rparr>) (upd_info (\<lambda>i. i\<lparr>pi_mpls_entry := v\<rparr>) g))"

definition single_set_qinqids :: "u16 \<Rightarrow> u16 \<Rightarrow> pktgen_st \<Rightarrow> pktgen_st res" where
  "single_set_qinqids oid iid g =
     ctor_update SINGLE_PKT (set_pkt SINGLE_PKT (\<lambda>p. p\<lparr>pk_qinq_outerid := oid, pk_qinq_innerid := iid\<rparr>) g)"

definition range_set_qinqids :: "u16 \<Rightarrow> u16 \<Rightarrow> pktgen_st \<Rightarrow> pktgen_st res" where
  "range_set_qinqids oid iid g =
     ctor_update RANGE_PKT (set_pkt RANGE_PKT (\<lambda>p. p\<lparr>pk_qinq_outerid := oid, pk_qinq_innerid := iid\<rparr>) g)"

definition range_set_gre_key :: "u32 \<Rightarrow> pktgen_st \<Rightarrow> pktgen_st res" where
  "range_set_gre_key v g =
     ctor_update SINGLE_PKT (set_pkt SINGLE_PKT (\<lambda>p. p\<lparr>pk_gre_key := v\<rparr>) (upd_info (\<lambda>i. i\<lparr>pi_gre_key := v\<rparr>) g))"

text \<open>The size a user asks for, frame check sequence included, and the size that is stored.\<close>

definition clamp_pkt_size :: "u16 \<Rightarrow> u16 \<Rightarrow> u16" where
  "clamp_pkt_size ethType sz0 =
     (let sz1 = (if sz0 < PG_ETHER_CRC_LEN then PG_ETHER_CRC_LEN else sz0);
          sz2 = (if sz1 - PG_ETHER_CRC_LEN < MIN_PKT_SIZE then MIN_PKT_SIZE + PG_ETHER_CRC_LEN else sz1);
          sz3 = (if sz2 - PG_ETHER_CRC_LEN > MAX_PKT_SIZE then MAX_PKT_SIZE + PG_ETHER_CRC_LEN else sz2);
          sz4 = (if ethType = PG_ETHER_TYPE_IPv6 \<and> sz3 < MIN_v6_PKT_SIZE + PG_ETHER_CRC_LEN
                 then MIN_v6_PKT_SIZE + PG_ETHER_CRC_LEN else sz3)
      in sz4 - PG_ETHER_CRC_LEN)"

definition set_pkt_size_at :: "nat \<Rightarrow> u16 \<Rightarrow> pktgen_st \<Rightarrow> pktgen_st res" where
  "set_pkt_size_at n sz g =
     rbind (pktgen_packet_ctor n (-1) (set_pkt n (\<lambda>p. p\<lparr>pk_pktSize := clamp_pkt_size (pk_ethType p) sz\<rparr>) g)) (\<lambda>g.
     rbind (pktgen_packet_rate g) pktgen_set_tx_update)"

definition single_set_pkt_size :: "u16 \<Rightarrow> pktgen_st \<Rightarrow> pktgen_st res" where
  "single_set_pkt_size = set_pkt_size_at SINGLE_PKT"

definition rate_set_pkt_size :: "u16 \<Rightarrow> pktgen_st \<Rightarrow> pktgen_st res" where
  "rate_set_pkt_size = set_pkt_size_at RATE_PKT"

definition set_port_value_at :: "nat \<Rightarrow> char \<Rightarrow> u32 \<Rightarrow> pktgen_st \<Rightarrow> pktgen_st res" where
  "set_port_value_at n type v g =
     ctor_update n (set_pkt n (\<lambda>p. if type = CHR ''d'' then p\<lparr>pk_dport := ucast v\<rparr> else p\<lparr>pk_sport := ucast v\<rparr>) g)"

definition single_set_port_value :: "char \<Rightarrow> u32 \<Rightarrow> pktgen_st \<Rightarrow> pktgen_st res" where
  "single_set_port_value = set_port_value_at SINGLE_PKT"

definition rate_set_port_value :: "char \<Rightarrow> u32 \<Rightarrow> pktgen_st \<Rightarrow> pktgen_st res" where
  "rate_set_port_value = set_port_value_at RATE_PKT"

text \<open>
  \<open>size_to_mask\<close> (lib/common/pg_inet.h) builds a netmask from a prefix length; the loop's shift
  of a signed one by 31 is taken as the compiler's two's-complement result. A length above 32
  shifts by a negative amount.
\<close>

fun size_to_mask_loop :: "nat \<Rightarrow> u32 \<Rightarrow> u32" where
  "size_to_mask_loop 0 m = m"
| "size_to_mask_loop (Suc n) m = size_to_mask_loop n m OR push_bit (31 - n) 1"

definition size_to_mask :: "nat \<Rightarrow> u32 res" where
  "size_to_mask len =
     (if len = 0 then Inr 0 else if len = 8 then Inr 0xFF000000 else if len = 16 then Inr 0xFFFF0000
      else if len = 24 then Inr 0xFFFFFF00 else if len = 32 then Inr 0xFFFFFFFF
      else if len \<le> 32 then Inr (size_to_mask_loop len 0) else Inl Fault)"

text \<open>The address is given in host order (the sources convert it with \<open>ntohl\<close>).\<close>

definition set_ipaddr_at :: "nat \<Rightarrow> char \<Rightarrow> u32 \<Rightarrow> nat \<Rightarrow> pktgen_st \<Rightarrow> pktgen_st res" where
  "set_ipaddr_at n type addr prefixlen g =
     (if type = CHR ''s''
      then rbind (size_to_mask prefixlen) (\<lambda>m. ctor_update n (set_pkt n (\<lambda>p. p\<lparr>pk_ip_mask := m, pk_ip_src := addr\<rparr>) g))
      else ctor_update n (set_pkt n (\<lambda>p. p\<lparr>pk_ip_dst := addr\<rparr>) g))"

definition single_set_ipaddr :: "char \<Rightarrow> u32 \<Rightarrow> nat \<Rightarrow> pktgen_st \<Rightarrow> pktgen_st res" where
  "single_set_ipaddr = set_ipaddr_at SINGLE_PKT"

definition rate_set_ipaddr :: "char \<Rightarrow> u32 \<Rightarrow> nat \<Rightarrow> pktgen_st \<Rightarrow> pktgen_st res" where
  "rate_set_ipaddr = set_ipaddr_at RATE_PKT"

definition single_set_mac :: "string \<Rightarrow> u8 list \<Rightarrow> pktgen_st \<Rightarrow> pktgen_st res" where
  "single_set_mac which mac g =
     (if which = ''dst'' then ctor_update SINGLE_PKT (set_pkt SINGLE_PKT (\<lambda>p. p\<lparr>pk_eth_dst := mac\<rparr>) g)
      else if which = ''src'' then ctor_update SINGLE_PKT (set_pkt SINGLE_PKT (\<lambda>p. p\<lparr>pk_eth_src := mac\<rparr>) g)
      else pktgen_set_tx_update g)"

definition single_set_dst_mac :: "u8 list \<Rightarrow> pktgen_st \<Rightarrow> pktgen_st res" where
  "single_set_dst_mac mac g = ctor_update SINGLE_PKT (set_pkt SINGLE_PKT (\<lambda>p. p\<lparr>pk_eth_dst := mac\<rparr>) g)"

definition single_set_src_mac :: "u8 list \<Rightarrow> pktgen_st \<Rightarrow> pktgen_st res" where
  "single_set_src_mac mac g = ctor_update SINGLE_PKT (set_pkt SINGLE_PKT (\<lambda>p. p\<lparr>pk_eth_src := mac\<rparr>) g)"

definition rate_set_dst_mac :: "u8 list \<Rightarrow> pktgen_st \<Rightarrow> pktgen_st res" where
  "rate_set_dst_mac mac g = ctor_update RATE_PKT (set_pkt RATE_PKT (\<lambda>p. p\<lparr>pk_eth_dst := mac\<rparr>) g)"

definition rate_set_src_mac :: "u8 list \<Rightarrow> pktgen_st \<Rightarrow> pktgen_st res" where
  "rate_set_src_mac mac g = ctor_update RATE_PKT (set_pkt RATE_PKT (\<lambda>p. p\<lparr>pk_eth_src := mac\<rparr>) g)"

definition single_set_ttl_value :: "u8 \<Rightarrow> pktgen_st \<Rightarrow> pktgen_st res" where
  "single_set_ttl_value ttl g = ctor_update SINGLE_PKT (set_pkt SINGLE_PKT (\<lambda>p. p\<lparr>pk_ttl := ttl\<rparr>) g)"

definition rate_set_ttl_value :: "u8 \<Rightarrow> pktgen_st \<Rightarrow> pktgen_st res" where
  "rate_set_ttl_value ttl g = ctor_update RATE_PKT (set_pkt RATE_PKT (\<lambda>p. p\<lparr>pk_ttl := ttl\<rparr>) g)"

text \<open>
  Sequence packets: the index is not checked by these commands. The two addresses are the
  host-order values the IPv4 view of the address union has after the copy.
\<close>

definition pktgen_set_seq ::
  "nat \<Rightarrow> u8 list \<Rightarrow> u8 list \<Rightarrow> u32 \<Rightarrow> u32 \<Rightarrow> nat \<Rightarrow> u32 \<Rightarrow> u32 \<Rightarrow> char \<Rightarrow> char \<Rightarrow> u16 \<Rightarrow> u32 \<Rightarrow> u32 \<Rightarrow>
   pktgen_st \<Rightarrow> pktgen_st res" where
  "pktgen_set_seq n daddr saddr ip_daddr ip_saddr plen sport dport type proto vlanid pktsize teid g =
     (if n \<ge> length (pi_seq_pkt (g_info g)) then Inl Fault
      else rbind (size_to_mask plen) (\<lambda>mask.
        ctor_update n (set_pkt n (\<lambda>p. p\<lparr>pk_eth_dst := daddr, pk_eth_src := saddr, pk_ip_mask := mask,
          pk_ip_src := ip_saddr, pk_ip_dst := ip_daddr, pk_dport := ucast dport, pk_sport := ucast sport,
          pk_pktSize := ucast (pktsize - 4), pk_ipProto := proto_of proto,
          pk_ethType := (if proto \<noteq> CHR ''i'' \<and> type = CHR ''6'' then PG_ETHER_TYPE_IPv6 else PG_ETHER_TYPE_IPv4),
          pk_vlanid := vlanid, pk_gtpu_teid := teid\<rparr>) g)))"

definition pktgen_set_cos_tos_seq :: "nat \<Rightarrow> u32 \<Rightarrow> u32 \<Rightarrow> pktgen_st \<Rightarrow> pktgen_st res" where
  "pktgen_set_cos_tos_seq n cosv tosv g =
     (if n \<ge> length (pi_seq_pkt (g_info g)) then Inl Fault
      else ctor_update n (set_pkt n (\<lambda>p. p\<lparr>pk_cos := ucast cosv, pk_tos := ucast tosv\<rparr>) g))"

definition pktgen_set_vxlan_seq :: "nat \<Rightarrow> u32 \<Rightarrow> u32 \<Rightarrow> u32 \<Rightarrow> pktgen_st \<Rightarrow> pktgen_st res" where
  "pktgen_set_vxlan_seq n fl gid vid g =
     (if n \<ge> length (pi_seq_pkt (g_info g)) then Inl Fault
      else ctor_update n (set_pkt n (\<lambda>p. p\<lparr>pk_vni_flags := ucast fl, pk_group_id := ucast gid, pk_vxlan_id := vid\<rparr>) g))"

section \<open>Fill pattern\<close>

definition pattern_set_type :: "string \<Rightarrow> pktgen_st \<Rightarrow> pktgen_st" where
  "pattern_set_type s =
     upd_info (\<lambda>i. if take 3 s = ''abc'' then i\<lparr>pi_fill_pattern := ABC_FILL_PATTERN\<rparr>
       else if take 4 s = ''none'' then i\<lparr>pi_fill_pattern := NO_FILL_PATTERN\<rparr>
       else if take 4 s = ''user'' then i\<lparr>pi_fill_pattern := USER_FILL_PATTERN\<rparr>
       else if take 4 s = ''zero'' then i\<lparr>pi_fill_pattern := ZERO_FILL_PATTERN\<rparr> else i)"

text \<open>
  The string is copied by \<open>strcpy\<close> into an array of 17 bytes. A leading quote is dropped
  together with the last character; \<open>snprintf\<close> then stores at most 15 characters.
\<close>

definition pattern_set_user_pattern :: "string \<Rightarrow> pktgen_st \<Rightarrow> pktgen_st res" where
  "pattern_set_user_pattern s g =
     (if length s > 16 then Inl Fault
      else
        let cp = (case s of [] \<Rightarrow> [] | c # cs \<Rightarrow> if c = CHR 0x22 \<or> c = CHR 0x27 then tl (butlast s) else s);
            u = map of_char (take 15 cp)
        in Inr (upd_info (\<lambda>i. i\<lparr>pi_user_pattern := u @ replicate (USER_PATTERN_SIZE - length u) 0,
                                 pi_fill_pattern := USER_FILL_PATTERN\<rparr>) g))"

section \<open>Range description\<close>

definition is_min :: "string \<Rightarrow> bool" where "is_min w \<longleftrightarrow> w = ''min'' \<or> w = ''minimum''"
definition is_max :: "string \<Rightarrow> bool" where "is_max w \<longleftrightarrow> w = ''max'' \<or> w = ''maximum''"
definition is_inc :: "string \<Rightarrow> bool" where "is_inc w \<longleftrightarrow> w = ''inc'' \<or> w = ''increment''"
definition is_start :: "string \<Rightarrow> bool" where "is_start w \<longleftrightarrow> w = ''start''"

definition upd_range :: "(range_info \<Rightarrow> range_info) \<Rightarrow> pktgen_st \<Rightarrow> pktgen_st" where
  "upd_range f = upd_info (\<lambda>i. i\<lparr>pi_range := f (pi_range i)\<rparr>)"

definition inet_mtoh64 :: "u8 list \<Rightarrow> u64" where
  "inet_mtoh64 mac =
     ucast (mac ! 5) + push_bit 8 (ucast (mac ! 4)) + push_bit 16 (ucast (mac ! 3)) +
     push_bit 24 (ucast (mac ! 2)) + push_bit 32 (ucast (mac ! 1)) + push_bit 40 (ucast (mac ! 0))"

definition inet_h64tom :: "u64 \<Rightarrow> u8 list" where
  "inet_h64tom v = map (\<lambda>k. ucast (drop_bit k v AND 0xFF)) [40, 32, 24, 16, 8, 0]"

definition range_set_dest_mac :: "string \<Rightarrow> u8 list \<Rightarrow> pktgen_st \<Rightarrow> pktgen_st" where
  "range_set_dest_mac w mac g =
     (let v = inet_mtoh64 mac in
      if is_min w then upd_range (\<lambda>r. r\<lparr>rg_dst_mac_min := v\<rparr>) g
      else if is_max w then upd_range (\<lambda>r. r\<lparr>rg_dst_mac_max := v\<rparr>) g
      else if is_inc w then upd_range (\<lambda>r. r\<lparr>rg_dst_mac_inc := v\<rparr>) g
      else if is_start w then set_pkt RANGE_PKT (\<lambda>p. p\<lparr>pk_eth_dst := mac\<rparr>) (upd_range (\<lambda>r. r\<lparr>rg_dst_mac := v\<rparr>) g)
      else g)"

definition range_set_src_mac :: "string \<Rightarrow> u8 list \<Rightarrow> pktgen_st \<Rightarrow> pktgen_st" where
  "range_set_src_mac w mac g =
     (let v = inet_mtoh64 mac in
      if is_min w then upd_range (\<lambda>r. r\<lparr>rg_src_mac_min := v\<rparr>) g
      else if is_max w then upd_range (\<lambda>r. r\<lparr>rg_src_mac_max := v\<rparr>) g
      else if is_inc w then upd_range (\<lambda>r. r\<lparr>rg_src_mac_inc := v\<rparr>) g
      else if is_start w then set_pkt RANGE_PKT (\<lambda>p. p\<lparr>pk_eth_src := mac\<rparr>) (upd_range (\<lambda>r. r\<lparr>rg_src_mac := v\<rparr>) g)
      else g)"

definition range_set_src_ip :: "string \<Rightarrow> u32 \<Rightarrow> pktgen_st \<Rightarrow> pktgen_st" where
  "range_set_src_ip w v =
     upd_range (\<lambda>r. if is_min w then r\<lparr>rg_src_ip_min := v\<rparr> else if is_max w then r\<lparr>rg_src_ip_max := v\<rparr>
       else if is_inc w then r\<lparr>rg_src_ip_inc := v\<rparr> else if is_start w then r\<lparr>rg_src_ip := v\<rparr> else r)"

definition range_set_dst_ip :: "string \<Rightarrow> u32 \<Rightarrow> pktgen_st \<Rightarrow> pktgen_st" where
  "range_set_dst_ip w v =
     upd_range (\<lambda>r. if is_min w then r\<lparr>rg_dst_ip_min := v\<rparr> else if is_max w then r\<lparr>rg_dst_ip_max := v\<rparr>
       else if is_inc w then r\<lparr>rg_dst_ip_inc := v\<rparr> else if is_start w then r\<lparr>rg_dst_ip := v\<rparr> else r)"

definition range_set_src_port :: "string \<Rightarrow> u16 \<Rightarrow> pktgen_st \<Rightarrow> pktgen_st" where
  "range_set_src_port w v =
     upd_range (\<lambda>r. if is_inc w then r\<lparr>rg_src_port_inc := (if v > 64 then 64 else v)\<rparr>
       else if is_min w then r\<lparr>rg_src_port_min := v\<rparr> else if is_max w then r\<lparr>rg_src_port_max := v\<rparr>
       else if is_start w then r\<lparr>rg_src_port := v\<rparr> else r)"

definition range_set_dst_port :: "string \<Rightarrow> u16 \<Rightarrow> pktgen_st \<Rightarrow> pktgen_st" where
  "range_set_dst_port w v =
     upd_range (\<lambda>r. if is_inc w then r\<lparr>rg_dst_port_inc := (if v > 64 then 64 else v)\<rparr>
       else if is_min w then r\<lparr>rg_dst_port_min := v\<rparr> else if is_max w then r\<lparr>rg_dst_port_max := v\<rparr>
       else if is_start w then r\<lparr>rg_dst_port := v\<rparr> else r)"

definition range_set_gtpu_teid :: "string \<Rightarrow> u32 \<Rightarrow> pktgen_st \<Rightarrow> pktgen_st" where
  "range_set_gtpu_teid w v g =
     (if is_inc w then (if v \<noteq> 0 then upd_range (\<lambda>r. r\<lparr>rg_gtpu_teid_inc := v\<rparr>) g else g)
      else if is_min w then upd_range (\<lambda>r. r\<lparr>rg_gtpu_teid_min := v\<rparr>) g
      else if is_max w then upd_range (\<lambda>r. r\<lparr>rg_gtpu_teid_max := v\<rparr>) g
      else if is_start w then set_pkt RANGE_PKT (\<lambda>p. p\<lparr>pk_gtpu_teid := v\<rparr>) (upd_range (\<lambda>r. r\<lparr>rg_gtpu_teid := v\<rparr>) g)
      else g)"

definition range_set_ttl :: "string \<Rightarrow> u8 \<Rightarrow> pktgen_st \<Rightarrow> pktgen_st" where
  "range_set_ttl w v =
     upd_range (\<lambda>r. if is_inc w then r\<lparr>rg_ttl_inc := v\<rparr> else if is_min w then r\<lparr>rg_ttl_min := v\<rparr>
       else if is_max w then r\<lparr>rg_ttl_max := v\<rparr> else if is_start w then r\<lparr>rg_ttl := v\<rparr> else r)"

definition range_set_vlan_id :: "string \<Rightarrow> u16 \<Rightarrow> pktgen_st \<Rightarrow> pktgen_st" where
  "range_set_vlan_id w v =
     upd_range (\<lambda>r. if is_inc w then r\<lparr>rg_vlan_id_inc := (if v > 64 then 64 else v)\<rparr>
       else
         let id = (if v < 1 \<or> v > 4095 then 1 else v) in
         if is_min w then r\<lparr>rg_vlan_id_min := id\<rparr> else if is_max w then r\<lparr>rg_vlan_id_max := id\<rparr>
         else if is_start w then r\<lparr>rg_vlan_id := id\<rparr> else r)"

definition range_set_tos_id :: "string \<Rightarrow> u8 \<Rightarrow> pktgen_st \<Rightarrow> pktgen_st" where
  "range_set_tos_id w v =
     upd_range (\<lambda>r. if is_inc w then r\<lparr>rg_tos_inc := ucast v\<rparr> else if is_min w then r\<lparr>rg_tos_min := v\<rparr>
       else if is_max w then r\<lparr>rg_tos_max := v\<rparr> else if is_start w then r\<lparr>rg_tos := v\<rparr> else r)"

definition range_set_cos_id :: "string \<Rightarrow> u8 \<Rightarrow> pktgen_st \<Rightarrow> pktgen_st" where
  "range_set_cos_id w v =
     upd_range (\<lambda>r. if is_inc w then r\<lparr>rg_cos_inc := ucast (if v > 7 then 7 else v)\<rparr> else if is_min w then r\<lparr>rg_cos_min := v\<rparr>
       else if is_max w then r\<lparr>rg_cos_max := v\<rparr> else if is_start w then r\<lparr>rg_cos := v\<rparr> else r)"

definition clamp_range_size :: "u16 \<Rightarrow> u16" where
  "clamp_range_size v =
     (if v < PG_ETHER_MIN_LEN then MIN_PKT_SIZE else if v > PG_ETHER_MAX_LEN then MAX_PKT_SIZE else v - PG_ETHER_CRC_LEN)"

definition range_set_pkt_size :: "string \<Rightarrow> u16 \<Rightarrow> pktgen_st \<Rightarrow> pktgen_st" where
  "range_set_pkt_size w v =
     upd_range (\<lambda>r. if is_inc w then r\<lparr>rg_pkt_size_inc := (if v > PG_ETHER_MAX_LEN then PG_ETHER_MAX_LEN else v)\<rparr>
       else if is_start w then r\<lparr>rg_pkt_size := clamp_range_size v\<rparr>
       else if is_min w then r\<lparr>rg_pkt_size_min := clamp_range_size v\<rparr>
       else if is_max w then r\<lparr>rg_pkt_size_max := clamp_range_size v\<rparr> else r)"

section \<open>Rate pacing\<close>

text \<open>
  \<open>calculate_rate\<close>: the products are computed in \<open>int\<close>, where overflow is undefined; the
  divisions fault when their divisor is zero. The field \<open>pps_rate\<close>, a \<open>double\<close> that is only
  displayed, is left out.
\<close>

definition calculate_rate :: "pktgen_st \<Rightarrow> pktgen_st res" where
  "calculate_rate g =
     (let r = pi_rate (g_info g);
          bits = uint (rt_vlines r) * uint (rt_pixels r) * uint (rt_color_bits r);
          bpv = word_of_int (bits div 8) :: u32;
          bps = bpv * ucast (rt_fps r) * 8
      in if bits \<ge> 2 ^ 31 then Inl Fault
         else if rt_payload r = 0 then Inl Fault
         else
           let ppv = bpv div ucast (rt_payload r); total = ppv * ucast (rt_fps r) in
           if total = 0 then Inl Fault
           else
             let cpp = g_hz g div ucast total in
             Inr (upd_info (\<lambda>i. i\<lparr>pi_rate := r\<lparr>rt_bytes_per_vframe := bpv, rt_bits_per_sec := bps,
                      rt_pkts_per_vframe := ppv, rt_total_pkts_per_sec := total, rt_cycles_per_pkt := cpp\<rparr>,
                    pi_tx_cycles := cpp\<rparr>) g))"

definition pktgen_rate_init :: "pktgen_st \<Rightarrow> pktgen_st res" where
  "pktgen_rate_init g =
     calculate_rate (upd_info (\<lambda>i. i\<lparr>pi_rate := (pi_rate i)\<lparr>rt_fps := 60, rt_vlines := 720, rt_pixels := 1280,
       rt_color_bits := 20, rt_payload := 800, rt_overhead := 62\<rparr>\<rparr>) g)"

definition update_rate_values :: "pktgen_st \<Rightarrow> pktgen_st res" where
  "update_rate_values g =
     (let r = pi_rate (g_info g) in
      calculate_rate (upd_info (\<lambda>i. i\<lparr>pi_tx_burst := 1\<rparr>)
        (set_pkt RATE_PKT (\<lambda>p. p\<lparr>pk_ipProto := PG_IPPROTO_UDP, pk_pktSize := (rt_payload r + rt_overhead r) - PG_ETHER_CRC_LEN\<rparr>) g)))"

definition rate_set_value :: "string \<Rightarrow> u32 \<Rightarrow> pktgen_st \<Rightarrow> pktgen_st" where
  "rate_set_value w v =
     upd_info (\<lambda>i. let r = pi_rate i in i\<lparr>pi_rate :=
       (if w = ''fps'' then r\<lparr>rt_fps := ucast (if v < 1 then 1 else if v > 120 then 120 else v)\<rparr>
        else if w = ''lines'' then r\<lparr>rt_vlines := ucast v\<rparr>
        else if w = ''pixels'' then r\<lparr>rt_pixels := ucast v\<rparr>
        else if w = ''color'' then r\<lparr>rt_color_bits := ucast (if v > 32 then 32 else if v < 1 then 1 else v)\<rparr>
        else if w = ''payload'' then
          (if v + ucast (rt_overhead r) \<le> 1514 then r\<lparr>rt_payload := ucast v\<rparr> else r)
        else if w = ''overhead'' then
          (if ucast (rt_payload r) + v \<le> 1514 then r\<lparr>rt_overhead := ucast v\<rparr> else r)
        else r)\<rparr>)"

definition pktgen_rate_setup :: "pktgen_st \<Rightarrow> pktgen_st res" where
  "pktgen_rate_setup g = pktgen_rate_init (upd_info (\<lambda>i. upd_pkt RATE_PKT (\<lambda>_. pi_seq_pkt i ! SINGLE_PKT) i) g)"

definition enable_rate :: "bool \<Rightarrow> pktgen_st \<Rightarrow> pktgen_st res" where
  "enable_rate on g =
     (if on then
        rbind (single_set_proto ''udp'' (upd_info (exclusive_on SEND_RATE_PACKETS) g)) update_rate_values
      else
        pktgen_packet_rate (set_pkt RATE_PKT (\<lambda>p. p\<lparr>pk_pktSize := MIN_PKT_SIZE\<rparr>)
          (upd_info (\<lambda>i. (pktgen_clr_port_flags SEND_RATE_PACKETS i)\<lparr>pi_tx_burst := ucast DEFAULT_PKT_BURST\<rparr>) g)))"

section \<open>Defaults\<close>

text \<open>
  \<open>peer\<close> is the MAC address pair of the neighbouring port, or \<open>None\<close> when that port has no
  packets: its single and its rate template's source address, copied in this order.
\<close>

definition pktgen_port_defaults :: "(u8 list \<times> u8 list) option \<Rightarrow> nat \<Rightarrow> pktgen_st \<Rightarrow> pktgen_st res" where
  "pktgen_port_defaults peer n g =
     (let pid = (ucast (pi_pid (g_info g)) :: u32);
          other = (if pid AND 1 = 0 then pid + 1 else pid - 1)
      in if n \<ge> length (pi_seq_pkt (g_info g)) then Inl Fault
         else
           rbind (ctor_update n
             (upd_info (\<lambda>i. i\<lparr>pi_transmit_count := 0, pi_current_tx_count := 0, pi_tx_rate := 100,
                             pi_tx_burst := ucast DEFAULT_PKT_BURST, pi_vlanid := 1, pi_cos := 0, pi_tos := 0,
                             pi_seqCnt := 0, pi_seqIdx := 0, pi_prime_cnt := 1, pi_delta := 0\<rparr>)
               (set_pkt n (\<lambda>p. p\<lparr>pk_pktSize := MIN_PKT_SIZE, pk_sport := 1234, pk_dport := 5678, pk_ttl := 4,
                  pk_ipProto := PG_IPPROTO_TCP, pk_ethType := PG_ETHER_TYPE_IPv4, pk_vlanid := 1, pk_cos := 0, pk_tos := 0,
                  pk_ip_mask := 0xFFFFFF00, pk_ip_src := 0xC0A80000 OR push_bit 8 pid OR 1,
                  pk_ip_dst := 0xC0A80000 OR push_bit 8 other OR 1,
                  pk_eth_dst := (case peer of Some (_, rate_mac) \<Rightarrow> rate_mac | None \<Rightarrow> replicate 6 0)\<rparr>) g)))
             (\<lambda>g. Inr (g\<lparr>g_flags := g_flags g OR 0x00000001\<rparr>)))"


section \<open>Addresses and masks\<close>

lemma size_to_mask_loop_bit:
  "n \<le> 32 \<Longrightarrow> k < 32 \<Longrightarrow> bit (size_to_mask_loop n m) k \<longleftrightarrow> bit m k \<or> 32 - n \<le> k"
proof (induction n)
  case (Suc n)
  then show ?case by (auto simp: bit_simps)
qed auto

lemma size_to_mask_const:
  "size_to_mask_loop 0 0 = 0" "size_to_mask_loop 8 0 = 0xFF000000" "size_to_mask_loop 16 0 = 0xFFFF0000"
  "size_to_mask_loop 24 0 = 0xFFFFFF00" "size_to_mask_loop 32 0 = 0xFFFFFFFF"
  by code_simp+

text \<open>
  A prefix length of at most 32 gives the netmask whose leading bits, that many of them, are
  one and whose other bits are zero; the five lengths the code answers from constants agree with
  the loop.
\<close>

theorem size_to_mask_prefix:
  assumes "len \<le> 32"
  shows "\<exists>m. size_to_mask len = Inr m \<and> (\<forall>k < 32. bit m k \<longleftrightarrow> 32 - len \<le> k)"
proof -
  have "size_to_mask len = Inr (size_to_mask_loop len 0)"
    using assms unfolding size_to_mask_def by (auto simp only: size_to_mask_const split: if_split)
  then show ?thesis using size_to_mask_loop_bit[OF assms, of _ 0] by auto
qed

theorem size_to_mask_prefix_witness: "\<exists>m. size_to_mask 19 = Inr m \<and> (\<forall>k < 32. bit m k \<longleftrightarrow> 13 \<le> k)"
  using size_to_mask_prefix[of 19] by simp

lemma bit_255: "bit (255 :: int) n \<longleftrightarrow> n < 8" "bit (255 :: nat) n \<longleftrightarrow> n < 8"
proof -
  have m: "mask 8 = (255 :: int)" "mask 8 = (255 :: nat)" by (simp_all add: mask_eq_exp_minus_1)
  show "bit (255 :: int) n \<longleftrightarrow> n < 8" "bit (255 :: nat) n \<longleftrightarrow> n < 8" unfolding m[symmetric] bit_mask_iff by auto
qed

lemma add_push_bit_or:
  assumes "\<And>n. k \<le> n \<Longrightarrow> \<not> bit x n"
  shows "x + push_bit k y = x OR push_bit k (y :: u64)"
  by (rule disjunctive_add_eq_or, rule bit_word_eqI) (auto simp: bit_simps dest: assms)

text \<open>
  A MAC address packed into a 64-bit number and unpacked again is the same address.
\<close>

theorem inet_h64tom_mtoh64:
  assumes "length mac = 6"
  shows "inet_h64tom (inet_mtoh64 mac) = mac"
proof -
  obtain a b c d e f where m: "mac = [a, b, c, d, e, f]"
    using assms by (auto simp: numeral_eq_Suc length_Suc_conv)
  have "inet_mtoh64 mac = ucast f OR push_bit 8 (ucast e) OR push_bit 16 (ucast d) OR push_bit 24 (ucast c) OR
      push_bit 32 (ucast b) OR push_bit 40 (ucast a)"
    unfolding inet_mtoh64_def m
    by (simp add: add_push_bit_or bit_simps byte_high_bit or.assoc)
  then show ?thesis by (simp add: inet_h64tom_def m) (intro conjI; rule bit_word_eqI; auto simp: bit_simps bit_255 byte_high_bit)
qed

theorem inet_h64tom_mtoh64_witness: "inet_h64tom (inet_mtoh64 [0x02, 0x1A, 0xFF, 0, 0x80, 7]) = [0x02, 0x1A, 0xFF, 0, 0x80, 7]"
  using inet_h64tom_mtoh64[of "[0x02, 0x1A, 0xFF, 0, 0x80, 7]"] by simp

section \<open>Rate pacing values\<close>

definition rate_fits :: "pktgen_st \<Rightarrow> bool" where
  "rate_fits g \<longleftrightarrow> unat (rt_payload (pi_rate (g_info g))) + unat (rt_overhead (pi_rate (g_info g))) \<le> 1514"

lemma unat_add_ucast_le:
  fixes v :: u32 and x :: u16
  assumes "unat v + unat x < 2 ^ 32" "v + ucast x \<le> 1514"
  shows "unat v + unat x \<le> 1514" "unat (ucast v :: u16) = unat v"
proof -
  have x: "unat (ucast x :: u32) = unat x"
    using unsigned_less[where 'a = nat, of x] by (simp add: unsigned_ucast_eq take_bit_eq_mod)
  show 1: "unat v + unat x \<le> 1514" using assms x by (simp add: word_le_nat_alt unat_word_ariths)
  show "unat (ucast v :: u16) = unat v" using 1 by (simp add: unsigned_ucast_eq take_bit_eq_mod)
qed

definition example_info :: port_info where
       "example_info = \<lparr>pi_pid = 0, pi_tx_burst = 64, pi_tx_rate = 100, pi_port_flags = 0, pi_transmit_count = 0,
       pi_current_tx_count = 0,
          pi_tx_cycles = 0, pi_tx_pps = 0, pi_delta = 0, pi_seqIdx = 0, pi_seqCnt = 0, pi_prime_cnt = 1, pi_vlanid = 1,
       pi_cos = 0, pi_tos = 0,
     pi_seq_pkt = replicate NUM_TOTAL_PKTS example_pkt,
          pi_range = \<lparr>rg_src_ip_inc = 0, rg_dst_ip_inc = 0, rg_src_port_inc = 0, rg_dst_port_inc = 0, rg_vlan_id_inc =
       0, rg_tos_inc = 0, rg_cos_inc = 0, rg_pkt_size_inc = 0, rg_src_mac_inc = 0, rg_dst_mac_inc = 0, rg_ttl_inc = 0,
       rg_src_ip = 0, rg_src_ip_min = 0, rg_src_ip_max = 0, rg_dst_ip = 0, rg_dst_ip_min = 0, rg_dst_ip_max = 0, rg_ip_proto
       = 0, rg_src_port = 0, rg_src_port_min = 0, rg_src_port_max = 0, rg_dst_port = 0, rg_dst_port_min = 0, rg_dst_port_max
       = 0, rg_vlan_id = 0, rg_vlan_id_min = 0, rg_vlan_id_max = 0, rg_cos = 0, rg_cos_min = 0, rg_cos_max = 0, rg_tos = 0,
       rg_tos_min = 0, rg_tos_max = 0, rg_pkt_size = 0, rg_pkt_size_min = 0, rg_pkt_size_max = 0, rg_dst_mac = 0,
       rg_dst_mac_min = 0, rg_dst_mac_max = 0, rg_src_mac = 0, rg_src_mac_min = 0, rg_src_mac_max = 0, rg_ttl = 0, rg_ttl_min
       = 0, rg_ttl_max = 0, rg_gtpu_teid = 0, rg_gtpu_teid_inc = 0, rg_gtpu_teid_min = 0, rg_gtpu_teid_max = 0, rg_vxlan_gid
       = 0, rg_vxlan_gid_inc = 0, rg_vxlan_gid_min = 0, rg_vxlan_gid_max = 0, rg_vxlan_vid = 0, rg_vxlan_vid_inc = 0,
       rg_vxlan_vid_min = 0, rg_vxlan_vid_max = 0, rg_vni_flags = 0\<rparr>,
     pi_mpls_entry = 0, pi_gre_key = 0,
     pi_rate = \<lparr>rt_fps = 60, rt_vlines = 720, rt_pixels = 1280, rt_color_bits = 20, rt_payload = 800, rt_overhead = 62,
            rt_bytes_per_vframe = 0, rt_bits_per_sec = 0, rt_pkts_per_vframe = 0, rt_total_pkts_per_sec = 0,
       rt_cycles_per_pkt = 0\<rparr>,
          pi_vni_flags = 0, pi_group_id = 0, pi_vxlan_id = 0, pi_jitter_threshold = 0, pi_jitter_threshold_clks = 0,
       pi_jitter_count = 0,
     pi_link_speed = 10000, pi_q_flags = replicate 8 0, pi_pcap = None, pi_user_pattern = replicate USER_PATTERN_SIZE 0,
     pi_fill_pattern = ABC_FILL_PATTERN\<rparr>"

definition example_port :: pktgen_st where
       "example_port = \<lparr>g_info = example_info, g_flags = 0, g_ident = 0, g_hz = 2000000000, g_txcnt = 2, g_scale =
       (\<lambda>q r. q)\<rparr>"

text \<open>
  Setting a rate value keeps payload and overhead within a full Ethernet frame, except for
  32-bit values so large that the check's own addition wraps around: the largest one is accepted
  as a payload of 65535 bytes whenever there is any overhead.
\<close>

theorem rate_set_value_fits:
  assumes "rate_fits g"
  shows "(unat v < 2 ^ 32 - 1514 \<longrightarrow> rate_fits (rate_set_value w v g)) \<and>
    (rt_overhead (pi_rate (g_info g)) \<noteq> 0 \<longrightarrow>
       rt_payload (pi_rate (g_info (rate_set_value ''payload'' 0xFFFFFFFF g))) = 0xFFFF)"
proof -
  let ?r = "pi_rate (g_info g)"
  have b: "unat (rt_payload ?r) \<le> 1514" "unat (rt_overhead ?r) \<le> 1514" using assms by (auto simp: rate_fits_def)
  have "rate_fits (rate_set_value w v g)" if "unat v < 2 ^ 32 - 1514"
  proof -
    have n: "unat v + unat (rt_overhead ?r) < 2 ^ 32" "unat v + unat (rt_payload ?r) < 2 ^ 32" using that b by simp_all
    show ?thesis
      using assms unat_add_ucast_le[OF n(1)] unat_add_ucast_le[OF n(2)]
      by (auto simp: rate_set_value_def rate_fits_def upd_info_def Let_def add.commute)
  qed
  moreover have "rt_payload (pi_rate (g_info (rate_set_value ''payload'' 0xFFFFFFFF g))) = 0xFFFF" if "rt_overhead ?r \<noteq> 0"
  proof -
    have "unat (rt_overhead ?r) \<noteq> 0" using that by (simp add: unat_eq_0)
    then have "(0xFFFFFFFF :: u32) + ucast (rt_overhead ?r) \<le> 1514"
      using b(2) unsigned_less[where 'a = nat, of "rt_overhead ?r"]
      by (auto simp add: word_le_nat_alt unat_word_ariths unsigned_ucast_eq take_bit_eq_mod mod_if)
    then show ?thesis by (simp add: rate_set_value_def upd_info_def Let_def)
  qed
  ultimately show ?thesis by blast
qed

theorem rate_set_value_fits_witness:
  "rate_fits (rate_set_value ''overhead'' 700 example_port) \<and>
   rt_payload (pi_rate (g_info (rate_set_value ''payload'' 0xFFFFFFFF example_port))) = 0xFFFF"
proof -
  have "rate_fits example_port" "rt_overhead (pi_rate (g_info example_port)) \<noteq> 0"
    by (simp_all add: rate_fits_def example_port_def example_info_def)
  then show ?thesis using rate_set_value_fits[of example_port 700 "''overhead''"] by simp
qed

text \<open>
  Zero lines or zero pixels are accepted as rate values, and using them stops the program with a division
  by zero: no packet fits the frame, and the cycles per packet are divided by the packet rate.
\<close>

theorem update_rate_values_zero_lines:
  "update_rate_values (rate_set_value ''lines'' 0 g) = Inl Fault \<and> update_rate_values (rate_set_value ''pixels'' 0 g) = Inl Fault"
  by (simp add: update_rate_values_def calculate_rate_def rate_set_value_def upd_info_def set_pkt_def upd_pkt_def Let_def)

end
