(* ===== verification/PortInv.thy ===== *)
theory PortInv
  imports Cmds
begin

text \<open>
  The invariant of a port and the commands that keep it. \<open>port_inv\<close> bounds the arrays, the single
  packet's size, the burst, prime and sequence counts, and allows at most one of the exclusive
  sending modes; \<open>port_step\<close> is one command of app/pktgen-cmds.c or app/pktgen-rate.c. Then what
  starting and stopping, rebuilding the single packet and the packet rate compute on such a port.
\<close>

section \<open>What packet construction leaves alone\<close>

definition same_shape :: "pkt_seq \<Rightarrow> pkt_seq \<Rightarrow> bool" where
  "same_shape p q \<longleftrightarrow> length (pk_hdr q) = length (pk_hdr p) \<and> pk_eth_src q = pk_eth_src p \<and>
     pk_eth_dst q = pk_eth_dst p \<and> pk_pktSize q = pk_pktSize p \<and>
     pk_ethType q = pk_ethType p \<and> pk_ipProto q = pk_ipProto p"

lemma same_shape_refl [simp]: "same_shape p p"
  by (simp add: same_shape_def)

lemma same_shape_trans: "same_shape p q \<Longrightarrow> same_shape q r \<Longrightarrow> same_shape p r"
  by (simp add: same_shape_def)

lemma same_shape_hdr:
  "length m = length (pk_hdr p) \<Longrightarrow> same_shape p (p\<lparr>pk_hdr := m, pk_ether_hdr_size := k\<rparr>)"
  by (simp add: same_shape_def)

lemma pktgen_ipv4_ctor_shape: "pktgen_ipv4_ctor p idt ip = Inr (q, idt') \<Longrightarrow> same_shape p q"
  by (auto simp: pktgen_ipv4_ctor_def Let_def rbind_eq_Inr same_shape_def dest!: wrs_length wr_length)

lemma pktgen_ipv6_ctor_shape: "pktgen_ipv6_ctor p ip = Inr q \<Longrightarrow> same_shape p q"
  by (auto simp: pktgen_ipv6_ctor_def Let_def rbind_eq_Inr same_shape_def dest!: wrs_length wr_length)

lemma pktgen_tcp_hdr_ctor_shape: "pktgen_tcp_hdr_ctor p ip t = Inr q \<Longrightarrow> same_shape p q"
  by (auto simp: pktgen_tcp_hdr_ctor_def Let_def rbind_eq_Inr same_shape_def dest!: wrs_length wr_length split: if_splits)

lemma pktgen_udp_hdr_ctor_shape: "pktgen_udp_hdr_ctor p ip t = Inr q \<Longrightarrow> same_shape p q"
  by (auto simp: pktgen_udp_hdr_ctor_def Let_def rbind_eq_Inr same_shape_def dest!: wrs_length wr_length split: if_splits)

lemma gtpu_option_length: "gtpu_option fl gtp bs (m, k) = Inr (m', k') \<Longrightarrow> length m' = length m"
  by (auto simp: gtpu_option_def rbind_eq_Inr dest!: wr_length split: if_splits)

lemma pktgen_gtpu_hdr_ctor_shape: "pktgen_gtpu_hdr_ctor p hdr pr fl sn np ne = Inr q \<Longrightarrow> same_shape p q"
  by (auto simp: pktgen_gtpu_hdr_ctor_def Let_def rbind_eq_Inr same_shape_def dest!: wrs_length wr_length gtpu_option_length)

lemma pktgen_icmp_ctor_shape: "pktgen_icmp_ctor p ip t = Inr q \<Longrightarrow> same_shape p q"
  by (auto simp: pktgen_icmp_ctor_def Let_def rbind_eq_Inr same_shape_def dest!: wrs_length wr_length)

lemma pktgen_arp_ctor_shape: "pktgen_arp_ctor p ip = Inr q \<Longrightarrow> same_shape p q"
  by (auto simp: pktgen_arp_ctor_def Let_def rbind_eq_Inr same_shape_def dest!: wrs_length)

lemma pktgen_ether_hdr_ctor_shape: "pktgen_ether_hdr_ctor fl p = Inr (l, q) \<Longrightarrow> same_shape p q"
  by (auto simp only: pktgen_ether_hdr_ctor_def Let_def rbind_eq_Inr prod.inject sum.inject simp_thms
    dest!: wrs_length split: if_splits intro!: same_shape_hdr)

lemma pktgen_gre_ctor_shape:
  "pktgen_gre_hdr_ctor p idt k = Inr (l, q, idt') \<Longrightarrow> same_shape p q"
  "pktgen_gre_ether_hdr_ctor p idt k = Inr (l, q, idt') \<Longrightarrow> same_shape p q"
  by (auto simp: pktgen_gre_hdr_ctor_def pktgen_gre_ether_hdr_ctor_def Let_def rbind_eq_Inr same_shape_def dest!: wrs_length)

lemmas ctor_shapes = pktgen_ipv4_ctor_shape pktgen_ipv6_ctor_shape pktgen_tcp_hdr_ctor_shape pktgen_udp_hdr_ctor_shape
  pktgen_gtpu_hdr_ctor_shape pktgen_icmp_ctor_shape pktgen_arp_ctor_shape pktgen_ether_hdr_ctor_shape pktgen_gre_ctor_shape

lemma pktgen_l3_ctor_shape:
  assumes "pktgen_l3_ctor fl p idt l3 t = Inr (q, idt')"
  shows "same_shape p q"
  using assms
  by (auto simp: pktgen_l3_ctor_def rbind_eq_Inr split: if_splits dest!: ctor_shapes) (auto simp: same_shape_def)

lemma pkt_ctor_shape:
  assumes "pkt_ctor fl f u p idt t = Inr (q, idt')"
  shows "same_shape p q"
proof -
  let ?p = "p\<lparr>pk_hdr := pktgen_fill_pattern (pk_hdr p) f u\<rparr>"
  have "same_shape p ?p" by (simp add: same_shape_def)
  moreover have "same_shape ?p q"
    using assms
    by (auto simp: pkt_ctor_def Let_def rbind_eq_Inr split: if_splits dest!: pktgen_gre_ctor_shape pktgen_ether_hdr_ctor_shape pktgen_l3_ctor_shape)
       (auto elim: same_shape_trans)
  ultimately show ?thesis by (rule same_shape_trans)
qed

section \<open>The port invariant\<close>

text \<open>
  At most one exclusive mode is on: \<open>mode_bits\<close> are the bits of the two groups of exclusive
  flags.
\<close>

definition mode_bits :: "nat list" where
  "mode_bits = [12, 13, 14, 15, 16, 17, 20, 21, 22, 23, 24, 25]"

definition one_mode :: "u32 \<Rightarrow> bool" where
  "one_mode fl \<longleftrightarrow> (\<forall>a \<in> set mode_bits. \<forall>b \<in> set mode_bits. bit fl a \<longrightarrow> bit fl b \<longrightarrow> a = b)"

lemma bit_exclusive: "n \<in> set mode_bits \<Longrightarrow> bit (EXCLUSIVE_MODES OR EXCLUSIVE_PKT_MODES) n"
  by (auto simp: mode_bits_def EXCLUSIVE_MODES_def EXCLUSIVE_PKT_MODES_def port_flag_defs bit_simps)

lemma one_mode_clr [simp]: "one_mode fl \<Longrightarrow> one_mode (fl AND NOT x)"
  by (auto simp: one_mode_def bit_simps)

lemma one_mode_on:
  assumes "one_mode x"
  shows "one_mode ((fl AND NOT EXCLUSIVE_MODES) AND NOT EXCLUSIVE_PKT_MODES OR x)"
  using assms bit_exclusive by (auto simp: one_mode_def bit_simps)

lemma one_mode_other:
  assumes "one_mode fl" and "\<forall>a \<in> set mode_bits. \<not> bit x a"
  shows "one_mode (fl OR x)"
  using assms by (auto simp: one_mode_def bit_simps)

definition pkt_ok :: "nat \<Rightarrow> pkt_seq \<Rightarrow> bool" where
  "pkt_ok n p \<longleftrightarrow> length (pk_hdr p) = DEFAULT_MBUF_SIZE \<and> length (pk_eth_src p) = 6 \<and> length (pk_eth_dst p) = 6 \<and>
     (n = SINGLE_PKT \<longrightarrow> MIN_PKT_SIZE \<le> pk_pktSize p \<and> pk_pktSize p \<le> MAX_PKT_SIZE)"

definition port_inv :: "pktgen_st \<Rightarrow> bool" where
  "port_inv g \<longleftrightarrow>
     length (pi_seq_pkt (g_info g)) = NUM_TOTAL_PKTS \<and> length (pi_q_flags (g_info g)) = 8 \<and> g_txcnt g \<le> 8 \<and>
     length (pi_user_pattern (g_info g)) = USER_PATTERN_SIZE \<and> (\<forall>n < NUM_TOTAL_PKTS. pkt_ok n (pi_seq_pkt (g_info g) ! n)) \<and>
     one_mode (pi_port_flags (g_info g)) \<and> 1 \<le> pi_tx_burst (g_info g) \<and> pi_tx_burst (g_info g) \<le> 64 \<and>
     1 \<le> pi_prime_cnt (g_info g) \<and> pi_prime_cnt (g_info g) \<le> 4 \<and> pi_seqCnt (g_info g) \<le> 16"

text \<open>Changes of the port's own fields that keep the invariant, and the operations that do.\<close>

definition info_ok :: "(port_info \<Rightarrow> port_info) \<Rightarrow> bool" where
  "info_ok h \<longleftrightarrow> (\<forall>g. port_inv g \<longrightarrow> port_inv (upd_info h g))"

named_theorems inv_op

lemma set_pkt_inv:
  assumes "port_inv g" "\<And>p. pkt_ok n p \<Longrightarrow> pkt_ok n (f p)"
  shows "port_inv (set_pkt n f g)"
proof (cases "n < NUM_TOTAL_PKTS")
  case True
  with assms show ?thesis by (auto simp: port_inv_def set_pkt_def upd_info_def upd_pkt_def nth_list_update)
next
  case False
  with assms(1) have "set_pkt n f g = g" by (simp add: port_inv_def set_pkt_def upd_info_def upd_pkt_def list_update_beyond)
  with assms(1) show ?thesis by simp
qed

lemma upd_info_inv: "port_inv g \<Longrightarrow> info_ok h \<Longrightarrow> port_inv (upd_info h g)"
  by (simp add: info_ok_def)

lemma upd_range_inv: "port_inv g \<Longrightarrow> port_inv (upd_range f g)"
  by (simp add: port_inv_def upd_range_def upd_info_def)

lemma set_q_flags_upto_frame:
  assumes "set_q_flags_upto n fl i = Inr i'"
  shows "\<exists>q. i' = i\<lparr>pi_q_flags := q\<rparr> \<and> length q = length (pi_q_flags i)"
  using assms
proof (induction n arbitrary: i')
  case 0
  then show ?case by (auto intro: exI[of _ "pi_q_flags i"])
next
  case (Suc n)
  then obtain j where "set_q_flags_upto n fl i = Inr j" "pktgen_set_q_flags n fl j = Inr i'" by (auto simp: rbind_eq_Inr)
  with Suc.IH[of j] show ?case by (auto simp: pktgen_set_q_flags_def split: if_splits)
qed

lemma q_flags_inv:
  "set_q_flags_upto n fl (g_info g) = Inr i \<Longrightarrow> port_inv g \<Longrightarrow> port_inv (g\<lparr>g_info := i\<rparr>)"
  by (auto simp: port_inv_def dest!: set_q_flags_upto_frame)

lemma pktgen_set_tx_update_inv [inv_op]: "pktgen_set_tx_update g = Inr g' \<Longrightarrow> port_inv g \<Longrightarrow> port_inv g'"
  by (auto simp: pktgen_set_tx_update_def rbind_eq_Inr intro: q_flags_inv)

lemma pktgen_packet_ctor_inv:
  assumes run: "pktgen_packet_ctor n t g = Inr g'" and inv: "port_inv g"
  shows "port_inv g'"
proof -
  from run obtain q ident where n: "n < length (pi_seq_pkt (g_info g))"
    and c: "pkt_ctor (pi_port_flags (g_info g)) (pi_fill_pattern (g_info g)) (pi_user_pattern (g_info g))
              (pi_seq_pkt (g_info g) ! n) (g_ident g) t = Inr (q, ident)"
    and g': "g' = g\<lparr>g_info := (g_info g)\<lparr>pi_seq_pkt := (pi_seq_pkt (g_info g))[n := q]\<rparr>, g_ident := ident\<rparr>"
    by (auto simp: pktgen_packet_ctor_def Let_def rbind_eq_Inr split: if_splits)
  from pkt_ctor_shape[OF c] inv n have "pkt_ok n q" by (auto simp: same_shape_def port_inv_def pkt_ok_def)
  with inv n show ?thesis by (auto simp: port_inv_def g' nth_list_update)
qed

lemma ctor_update_inv: "ctor_update n g = Inr g' \<Longrightarrow> port_inv g \<Longrightarrow> port_inv g'"
  by (auto simp: ctor_update_def rbind_eq_Inr intro: pktgen_packet_ctor_inv pktgen_set_tx_update_inv)

lemma port_inv_cycles [simp]:
  "port_inv (upd_info (\<lambda>i. i\<lparr>pi_tx_pps := a i, pi_tx_cycles := b i\<rparr>) g) = port_inv g"
  "port_inv (upd_info (\<lambda>i. i\<lparr>pi_rate := c i, pi_tx_cycles := b i\<rparr>) g) = port_inv g"
  by (simp_all add: port_inv_def upd_info_def)

lemma pktgen_packet_rate_inv: "pktgen_packet_rate g = Inr g' \<Longrightarrow> port_inv g \<Longrightarrow> port_inv g'"
  unfolding pktgen_packet_rate_def Let_def
  by (auto simp only: rbind_eq_Inr sum.inject port_inv_cycles split: if_split_asm)

lemma calculate_rate_inv: "calculate_rate g = Inr g' \<Longrightarrow> port_inv g \<Longrightarrow> port_inv g'"
  unfolding calculate_rate_def Let_def
  by (auto simp only: sum.inject sum.distinct port_inv_cycles split: if_split_asm)

lemma one_mode_flags [simp]:
  "one_mode (SEND_RANDOM_PKTS)" "one_mode (SEND_PCAP_PKTS)" "one_mode (SEND_VXLAN_PACKETS)" "one_mode SEND_VLAN_ID"
  "one_mode SEND_MPLS_LABEL" "one_mode SEND_Q_IN_Q_IDS" "one_mode SEND_GRE_IPv4_HEADER" "one_mode SEND_GRE_ETHER_HEADER"
  "one_mode SEND_RANGE_PKTS" "one_mode SEND_LATENCY_PKTS" "one_mode SEND_SEQ_PKTS" "one_mode SEND_RATE_PACKETS"
  by (simp_all add: one_mode_def mode_bits_def port_flag_defs bit_simps)

lemma set_flags_ok: "\<forall>a \<in> set mode_bits. \<not> bit x a \<Longrightarrow> info_ok (pktgen_set_port_flags x)"
  by (simp add: info_ok_def port_inv_def upd_info_def pktgen_set_port_flags_def one_mode_other)

lemma clr_flags_ok: "info_ok (pktgen_clr_port_flags x)"
  by (simp add: info_ok_def port_inv_def upd_info_def pktgen_clr_port_flags_def)

lemma exclusive_on_ok: "one_mode x \<Longrightarrow> info_ok (exclusive_on x)"
  by (simp add: info_ok_def port_inv_def upd_info_def exclusive_on_def pktgen_set_port_flags_def
      pktgen_clr_port_flags_def one_mode_on)

lemma exclusive_set_ok: "one_mode x \<Longrightarrow> info_ok (exclusive_set x on)"
  using exclusive_on_ok[of x] clr_flags_ok[of x] by (cases on) (simp_all add: exclusive_set_def info_ok_def upd_info_def)

lemmas info_oks = set_flags_ok clr_flags_ok exclusive_on_ok exclusive_set_ok

lemma info_fields [simp]:
  "info_ok (\<lambda>i. i\<lparr>pi_vlanid := v16\<rparr>)" "info_ok (\<lambda>i. i\<lparr>pi_cos := v8\<rparr>)" "info_ok (\<lambda>i. i\<lparr>pi_tos := v8\<rparr>)"
  "info_ok (\<lambda>i. i\<lparr>pi_vni_flags := a, pi_group_id := b, pi_vxlan_id := c\<rparr>)" "info_ok (\<lambda>i. i\<lparr>pi_mpls_entry := v32\<rparr>)"
  "info_ok (\<lambda>i. i\<lparr>pi_gre_key := v32\<rparr>)" "info_ok (\<lambda>i. i\<lparr>pi_tx_burst := 1\<rparr>)"
  by (simp_all add: info_ok_def port_inv_def upd_info_def)

lemma upd_info_comp: "upd_info (\<lambda>i. f (h i)) g = upd_info f (upd_info h g)"
  by (simp add: upd_info_def)

lemma info_ok_comp: "info_ok f \<Longrightarrow> info_ok h \<Longrightarrow> info_ok (\<lambda>i. f (h i))"
  by (simp add: info_ok_def upd_info_comp)

lemma tx_cycles_inv: "info_ok h \<Longrightarrow> port_inv g \<Longrightarrow> port_inv (upd_info (\<lambda>i. (h i)\<lparr>pi_tx_cycles := c\<rparr>) g)"
  by (simp add: info_ok_def port_inv_def upd_info_def)

lemma set_ipaddr_at_inv: "set_ipaddr_at n c a len g = Inr g' \<Longrightarrow> port_inv g \<Longrightarrow> port_inv g'"
  by (auto simp: set_ipaddr_at_def rbind_eq_Inr split: if_splits intro!: set_pkt_inv elim!: ctor_update_inv)
    (simp_all add: pkt_ok_def)

lemma set_proto_ok: "pkt_ok n p \<Longrightarrow> pkt_ok n (set_proto c p)"
  by (simp add: set_proto_def Let_def pkt_ok_def)

lemma set_pkt_type_ok: "pkt_ok n p \<Longrightarrow> pkt_ok n (set_pkt_type t p)"
  by (auto simp: set_pkt_type_def Let_def pkt_ok_def word_le_nat_alt word_less_nat_alt unat_word_ariths unat_sub_if')

lemma clamp_pkt_size_bounds: "MIN_PKT_SIZE \<le> clamp_pkt_size t sz \<and> clamp_pkt_size t sz \<le> MAX_PKT_SIZE"
  by (auto simp: clamp_pkt_size_def Let_def word_le_nat_alt word_less_nat_alt unat_sub_if')

lemma set_pkt_size_at_inv: "set_pkt_size_at n sz g = Inr g' \<Longrightarrow> port_inv g \<Longrightarrow> port_inv g'"
  using clamp_pkt_size_bounds
  by (auto simp: set_pkt_size_at_def rbind_eq_Inr intro!: set_pkt_inv
      elim!: pktgen_packet_ctor_inv pktgen_packet_rate_inv pktgen_set_tx_update_inv) (simp add: pkt_ok_def)

lemma unat_ucast_16: "unat (ucast (w :: u32) :: u16) = unat w mod 65536"
  by (simp add: unsigned_ucast_eq take_bit_eq_mod)

lemma clamp_burst_bounds: "1 \<le> (ucast (clamp_burst b) :: u16)" "(ucast (clamp_burst b) :: u16) \<le> 64"
  by (auto simp: clamp_burst_def word_le_nat_alt word_less_nat_alt unat_ucast_16 word_unat_eq_iff)

lemma start_flags_inv:
  "port_inv g \<Longrightarrow> port_inv (g\<lparr>g_info := pktgen_set_port_flags SENDING_PACKETS (pktgen_set_port_flags SEND_FOREVER ((g_info g)\<lparr>pi_current_tx_count := c\<rparr>))\<rparr>)"
  "port_inv g \<Longrightarrow> port_inv (g\<lparr>g_info := pktgen_set_port_flags SENDING_PACKETS ((g_info g)\<lparr>pi_current_tx_count := c\<rparr>)\<rparr>)"
  by (simp_all add: port_inv_def pktgen_set_port_flags_def) (auto intro!: one_mode_other simp: mode_bits_def port_flag_defs bit_simps)

lemma q_flags_info_inv:
  "set_q_flags_upto n fl (h (g_info g)) = Inr i \<Longrightarrow> info_ok h \<Longrightarrow> port_inv g \<Longrightarrow> port_inv (g\<lparr>g_info := i\<rparr>)"
  using q_flags_inv[of n fl "upd_info h g" i] by (simp add: upd_info_def info_ok_def)

lemma prime_flags_ok: "info_ok (\<lambda>i. pktgen_set_port_flags SENDING_PACKETS (i\<lparr>pi_current_tx_count := c i\<rparr>))"
  by (auto simp: info_ok_def port_inv_def upd_info_def pktgen_set_port_flags_def intro!: one_mode_other)
     (auto simp: mode_bits_def port_flag_defs bit_simps)

lemma latency_ok:
  "pkt_ok n p \<Longrightarrow> pkt_ok n (if pk_pktSize p < MIN_PKT_SIZE + TSTAMP_SIZE then p\<lparr>pk_pktSize := pk_pktSize p + TSTAMP_SIZE\<rparr> else p)"
  "pkt_ok n p \<Longrightarrow> pkt_ok n (if pk_pktSize p \<ge> MIN_PKT_SIZE + TSTAMP_SIZE then p\<lparr>pk_pktSize := pk_pktSize p - TSTAMP_SIZE\<rparr> else p)"
  by (auto simp: pkt_ok_def word_le_nat_alt word_less_nat_alt unat_word_ariths unat_sub_if')

lemma copy_single_inv:
  assumes "port_inv g" "n \<noteq> SINGLE_PKT" "\<And>p. pkt_ok n p \<Longrightarrow> pkt_ok n (f p)"
  shows "port_inv (upd_info (\<lambda>i. upd_pkt n (\<lambda>_. f (pi_seq_pkt i ! SINGLE_PKT)) i) g)"
proof -
  have "pkt_ok SINGLE_PKT (pi_seq_pkt (g_info g) ! SINGLE_PKT)" using assms(1) by (simp add: port_inv_def)
  then have "pkt_ok n (f (pi_seq_pkt (g_info g) ! SINGLE_PKT))" using assms(2,3) by (simp add: pkt_ok_def)
  then show ?thesis
    using set_pkt_inv[OF assms(1), of n "\<lambda>_. f (pi_seq_pkt (g_info g) ! SINGLE_PKT)"] by (simp add: set_pkt_def upd_info_def)
qed

lemma ping_copy_inv:
  "port_inv g \<Longrightarrow> port_inv (upd_info (\<lambda>i. upd_pkt PING_PKT (\<lambda>_. (pi_seq_pkt i ! SINGLE_PKT)\<lparr>pk_ipProto := v\<rparr>) i) g)"
  by (rule copy_single_inv) (simp_all add: pkt_ok_def)

lemma rate_copy_inv:
  "port_inv g \<Longrightarrow> port_inv (upd_info (\<lambda>i. upd_pkt RATE_PKT (\<lambda>_. pi_seq_pkt i ! SINGLE_PKT) i) g)"
  by (rule copy_single_inv[where f = "\<lambda>p. p"]) simp_all

lemma ping_flag: "\<forall>a \<in> set mode_bits. \<not> bit SEND_PING4_REQUEST a"
  by (simp add: mode_bits_def port_flag_defs bit_simps)

lemma rate_off_inv:
  assumes "port_inv g"
  shows "port_inv (set_pkt RATE_PKT (\<lambda>p. p\<lparr>pk_pktSize := s\<rparr>)
     (upd_info (\<lambda>i. (pktgen_clr_port_flags fl i)\<lparr>pi_tx_burst := 64\<rparr>) g))"
proof (rule set_pkt_inv)
  show "port_inv (upd_info (\<lambda>i. (pktgen_clr_port_flags fl i)\<lparr>pi_tx_burst := 64\<rparr>) g)"
    using assms by (simp add: port_inv_def upd_info_def pktgen_clr_port_flags_def)
qed (simp add: pkt_ok_def)

lemma port_inv_flags: "port_inv g \<Longrightarrow> port_inv (g\<lparr>g_flags := fl\<rparr>)"
  by (simp add: port_inv_def)

lemma defaults_info_inv:
  "port_inv g \<Longrightarrow> port_inv (upd_info (\<lambda>i. i\<lparr>pi_transmit_count := 0, pi_current_tx_count := 0, pi_tx_rate := 100,
     pi_tx_burst := 64, pi_vlanid := 1, pi_cos := 0, pi_tos := 0,
     pi_seqCnt := 0, pi_seqIdx := 0, pi_prime_cnt := 1, pi_delta := 0\<rparr>) g)"
  by (simp add: port_inv_def upd_info_def)

lemma enable_vxlan_inv [inv_op]: "enable_vxlan on g = Inr g' \<Longrightarrow> port_inv g \<Longrightarrow> port_inv g'"
  unfolding enable_vxlan_def by (erule ctor_update_inv) (simp add: upd_info_inv info_oks)

lemma enable_vlan_inv [inv_op]: "enable_vlan on g = Inr g' \<Longrightarrow> port_inv g \<Longrightarrow> port_inv g'"
  unfolding enable_vlan_def by (erule ctor_update_inv) (simp add: upd_info_inv info_oks)

lemma enable_mpls_inv [inv_op]: "enable_mpls on g = Inr g' \<Longrightarrow> port_inv g \<Longrightarrow> port_inv g'"
  unfolding enable_mpls_def by (erule ctor_update_inv) (simp add: upd_info_inv info_oks)

lemma enable_qinq_inv [inv_op]: "enable_qinq on g = Inr g' \<Longrightarrow> port_inv g \<Longrightarrow> port_inv g'"
  unfolding enable_qinq_def by (erule ctor_update_inv) (simp add: upd_info_inv info_oks)

lemma enable_gre_inv [inv_op]: "enable_gre on g = Inr g' \<Longrightarrow> port_inv g \<Longrightarrow> port_inv g'"
  unfolding enable_gre_def by (erule ctor_update_inv) (simp add: upd_info_inv info_oks)

lemma enable_gre_eth_inv [inv_op]: "enable_gre_eth on g = Inr g' \<Longrightarrow> port_inv g \<Longrightarrow> port_inv g'"
  unfolding enable_gre_eth_def by (erule ctor_update_inv) (simp add: upd_info_inv info_oks)

lemma enable_random_inv [inv_op]: "port_inv g \<Longrightarrow> port_inv (enable_random on g)"
  unfolding enable_random_def by (simp add: upd_info_inv info_oks)

lemma enable_icmp_echo_inv [inv_op]: "port_inv g \<Longrightarrow> port_inv (enable_icmp_echo on g)"
  unfolding enable_icmp_echo_def by (cases on) (simp_all add: upd_info_inv info_oks mode_bits_def port_flag_defs bit_simps)

lemma enable_process_inv [inv_op]: "port_inv g \<Longrightarrow> port_inv (enable_process on g)"
  unfolding enable_process_def by (cases on) (simp_all add: upd_info_inv info_oks mode_bits_def port_flag_defs bit_simps)

lemma enable_garp_inv [inv_op]: "port_inv g \<Longrightarrow> port_inv (enable_garp on g)"
  unfolding enable_garp_def by (cases on) (simp_all add: upd_info_inv info_oks mode_bits_def port_flag_defs bit_simps)

lemma pktgen_send_arp_requests_inv [inv_op]: "port_inv g \<Longrightarrow> port_inv (pktgen_send_arp_requests type g)"
  unfolding pktgen_send_arp_requests_def by (rule upd_info_inv) (simp_all add: info_oks mode_bits_def port_flag_defs bit_simps)

lemma enable_pcap_inv [inv_op]: "port_inv g \<Longrightarrow> port_inv (enable_pcap on g)"
  unfolding enable_pcap_def
  by (auto intro!: tx_cycles_inv[where h = "exclusive_set SEND_PCAP_PKTS on"] simp: info_oks split: option.split)

lemma pktgen_set_port_seqCnt_inv [inv_op]: "port_inv g \<Longrightarrow> port_inv (pktgen_set_port_seqCnt cnt g)"
  unfolding pktgen_set_port_seqCnt_def Let_def
  by (erule upd_info_inv, rule info_ok_comp[OF exclusive_set_ok])
    (auto simp: info_ok_def port_inv_def upd_info_def word_le_nat_alt word_less_nat_alt unat_ucast_16)

lemma single_set_tx_count_inv [inv_op]: "port_inv g \<Longrightarrow> port_inv (single_set_tx_count cnt g)"
  by (simp add: single_set_tx_count_def upd_info_def port_inv_def Let_def)

lemma rate_set_tx_count_inv [inv_op]: "port_inv g \<Longrightarrow> port_inv (rate_set_tx_count cnt g)"
  by (simp add: rate_set_tx_count_def upd_info_def port_inv_def Let_def)

lemma debug_set_tx_cycles_inv [inv_op]: "port_inv g \<Longrightarrow> port_inv (debug_set_tx_cycles c g)"
  by (simp add: debug_set_tx_cycles_def upd_info_def port_inv_def Let_def)

lemma single_set_jitter_inv [inv_op]: "port_inv g \<Longrightarrow> port_inv (single_set_jitter hz th g)"
  by (simp add: single_set_jitter_def upd_info_def port_inv_def Let_def)

lemma pattern_set_type_inv [inv_op]: "port_inv g \<Longrightarrow> port_inv (pattern_set_type s g)"
  by (simp add: pattern_set_type_def upd_info_def port_inv_def Let_def)

lemma rate_set_value_inv [inv_op]: "port_inv g \<Longrightarrow> port_inv (rate_set_value w v g)"
  by (simp add: rate_set_value_def upd_info_def port_inv_def Let_def)

lemma pktgen_set_port_prime_inv [inv_op]: "port_inv g \<Longrightarrow> port_inv (pktgen_set_port_prime cnt g)"
  by (auto simp: pktgen_set_port_prime_def upd_info_def port_inv_def word_le_nat_alt unat_ucast_16 word_less_nat_alt word_unat_eq_iff)

lemma range_set_src_ip_inv [inv_op]: "port_inv g \<Longrightarrow> port_inv (range_set_src_ip w v g)"
  by (simp add: range_set_src_ip_def upd_range_inv)

lemma range_set_dst_ip_inv [inv_op]: "port_inv g \<Longrightarrow> port_inv (range_set_dst_ip w v g)"
  by (simp add: range_set_dst_ip_def upd_range_inv)

lemma range_set_src_port_inv [inv_op]: "port_inv g \<Longrightarrow> port_inv (range_set_src_port w v g)"
  by (simp add: range_set_src_port_def upd_range_inv)

lemma range_set_dst_port_inv [inv_op]: "port_inv g \<Longrightarrow> port_inv (range_set_dst_port w v g)"
  by (simp add: range_set_dst_port_def upd_range_inv)

lemma range_set_ttl_inv [inv_op]: "port_inv g \<Longrightarrow> port_inv (range_set_ttl w v g)"
  by (simp add: range_set_ttl_def upd_range_inv)

lemma range_set_vlan_id_inv [inv_op]: "port_inv g \<Longrightarrow> port_inv (range_set_vlan_id w v g)"
  by (simp add: range_set_vlan_id_def upd_range_inv)

lemma range_set_tos_id_inv [inv_op]: "port_inv g \<Longrightarrow> port_inv (range_set_tos_id w v g)"
  by (simp add: range_set_tos_id_def upd_range_inv)

lemma range_set_cos_id_inv [inv_op]: "port_inv g \<Longrightarrow> port_inv (range_set_cos_id w v g)"
  by (simp add: range_set_cos_id_def upd_range_inv)

lemma range_set_pkt_size_inv [inv_op]: "port_inv g \<Longrightarrow> port_inv (range_set_pkt_size w v g)"
  by (simp add: range_set_pkt_size_def upd_range_inv)

lemma range_set_gtpu_teid_inv [inv_op]: "port_inv g \<Longrightarrow> port_inv (range_set_gtpu_teid w v g)"
  by (auto simp: range_set_gtpu_teid_def upd_range_inv intro!: set_pkt_inv) (simp_all add: pkt_ok_def)

lemma range_set_dest_mac_inv [inv_op]: "length mac = 6 \<Longrightarrow> port_inv g \<Longrightarrow> port_inv (range_set_dest_mac w mac g)"
  by (auto simp: range_set_dest_mac_def Let_def upd_range_inv intro!: set_pkt_inv) (simp add: pkt_ok_def)

lemma range_set_src_mac_inv [inv_op]: "length mac = 6 \<Longrightarrow> port_inv g \<Longrightarrow> port_inv (range_set_src_mac w mac g)"
  by (auto simp: range_set_src_mac_def Let_def upd_range_inv intro!: set_pkt_inv) (simp add: pkt_ok_def)

lemma single_set_vlan_id_inv [inv_op]: "single_set_vlan_id v g = Inr g' \<Longrightarrow> port_inv g \<Longrightarrow> port_inv g'"
  unfolding single_set_vlan_id_def by (erule ctor_update_inv) (intro set_pkt_inv upd_info_inv; simp add: pkt_ok_def info_fields)

lemma single_set_cos_inv [inv_op]: "single_set_cos v g = Inr g' \<Longrightarrow> port_inv g \<Longrightarrow> port_inv g'"
  unfolding single_set_cos_def by (erule ctor_update_inv) (intro set_pkt_inv upd_info_inv; simp add: pkt_ok_def info_fields)

lemma single_set_tos_inv [inv_op]: "single_set_tos v g = Inr g' \<Longrightarrow> port_inv g \<Longrightarrow> port_inv g'"
  unfolding single_set_tos_def by (erule ctor_update_inv) (intro set_pkt_inv upd_info_inv; simp add: pkt_ok_def info_fields)

lemma single_set_vxlan_inv [inv_op]: "single_set_vxlan fl gid vid g = Inr g' \<Longrightarrow> port_inv g \<Longrightarrow> port_inv g'"
  unfolding single_set_vxlan_def by (erule ctor_update_inv) (intro set_pkt_inv upd_info_inv; simp add: pkt_ok_def info_fields)

lemma range_set_mpls_entry_inv [inv_op]: "range_set_mpls_entry v g = Inr g' \<Longrightarrow> port_inv g \<Longrightarrow> port_inv g'"
  unfolding range_set_mpls_entry_def by (erule ctor_update_inv) (intro set_pkt_inv upd_info_inv; simp add: pkt_ok_def info_fields)

lemma single_set_qinqids_inv [inv_op]: "single_set_qinqids oid iid g = Inr g' \<Longrightarrow> port_inv g \<Longrightarrow> port_inv g'"
  unfolding single_set_qinqids_def by (erule ctor_update_inv) (intro set_pkt_inv upd_info_inv; simp add: pkt_ok_def info_fields)

lemma range_set_qinqids_inv [inv_op]: "range_set_qinqids oid iid g = Inr g' \<Longrightarrow> port_inv g \<Longrightarrow> port_inv g'"
  unfolding range_set_qinqids_def by (erule ctor_update_inv) (intro set_pkt_inv upd_info_inv; simp add: pkt_ok_def info_fields)

lemma range_set_gre_key_inv [inv_op]: "range_set_gre_key v g = Inr g' \<Longrightarrow> port_inv g \<Longrightarrow> port_inv g'"
  unfolding range_set_gre_key_def by (erule ctor_update_inv) (intro set_pkt_inv upd_info_inv; simp add: pkt_ok_def info_fields)

lemma single_set_ttl_value_inv [inv_op]: "single_set_ttl_value v g = Inr g' \<Longrightarrow> port_inv g \<Longrightarrow> port_inv g'"
  unfolding single_set_ttl_value_def by (erule ctor_update_inv) (intro set_pkt_inv upd_info_inv; simp add: pkt_ok_def info_fields)

lemma rate_set_ttl_value_inv [inv_op]: "rate_set_ttl_value v g = Inr g' \<Longrightarrow> port_inv g \<Longrightarrow> port_inv g'"
  unfolding rate_set_ttl_value_def by (erule ctor_update_inv) (intro set_pkt_inv upd_info_inv; simp add: pkt_ok_def info_fields)

lemma single_set_dst_mac_inv [inv_op]: "single_set_dst_mac mac g = Inr g' \<Longrightarrow> length mac = 6 \<Longrightarrow> port_inv g \<Longrightarrow> port_inv g'"
  unfolding single_set_dst_mac_def by (erule ctor_update_inv) (intro set_pkt_inv upd_info_inv; simp add: pkt_ok_def info_fields)

lemma single_set_src_mac_inv [inv_op]: "single_set_src_mac mac g = Inr g' \<Longrightarrow> length mac = 6 \<Longrightarrow> port_inv g \<Longrightarrow> port_inv g'"
  unfolding single_set_src_mac_def by (erule ctor_update_inv) (intro set_pkt_inv upd_info_inv; simp add: pkt_ok_def info_fields)

lemma rate_set_dst_mac_inv [inv_op]: "rate_set_dst_mac mac g = Inr g' \<Longrightarrow> length mac = 6 \<Longrightarrow> port_inv g \<Longrightarrow> port_inv g'"
  unfolding rate_set_dst_mac_def by (erule ctor_update_inv) (intro set_pkt_inv upd_info_inv; simp add: pkt_ok_def info_fields)

lemma rate_set_src_mac_inv [inv_op]: "rate_set_src_mac mac g = Inr g' \<Longrightarrow> length mac = 6 \<Longrightarrow> port_inv g \<Longrightarrow> port_inv g'"
  unfolding rate_set_src_mac_def by (erule ctor_update_inv) (intro set_pkt_inv upd_info_inv; simp add: pkt_ok_def info_fields)

lemma single_set_mac_inv [inv_op]: "single_set_mac w mac g = Inr g' \<Longrightarrow> length mac = 6 \<Longrightarrow> port_inv g \<Longrightarrow> port_inv g'"
  by (auto simp: single_set_mac_def split: if_splits intro!: set_pkt_inv elim!: ctor_update_inv pktgen_set_tx_update_inv)
    (simp_all add: pkt_ok_def)

lemma single_set_port_value_inv [inv_op]: "single_set_port_value c v g = Inr g' \<Longrightarrow> port_inv g \<Longrightarrow> port_inv g'"
  unfolding single_set_port_value_def set_port_value_at_def by (erule ctor_update_inv) (intro set_pkt_inv; simp add: pkt_ok_def)

lemma single_set_ipaddr_inv [inv_op]: "single_set_ipaddr c a len g = Inr g' \<Longrightarrow> port_inv g \<Longrightarrow> port_inv g'"
  unfolding single_set_ipaddr_def by (rule set_ipaddr_at_inv)

lemma single_set_proto_inv [inv_op]: "single_set_proto s g = Inr g' \<Longrightarrow> port_inv g \<Longrightarrow> port_inv g'"
  unfolding single_set_proto_def
  by (auto simp: rbind_eq_Inr intro!: set_pkt_inv set_proto_ok elim!: ctor_update_inv)

lemma single_set_pkt_type_inv [inv_op]: "single_set_pkt_type s g = Inr g' \<Longrightarrow> port_inv g \<Longrightarrow> port_inv g'"
  unfolding single_set_pkt_type_def
  by (auto simp: rbind_eq_Inr intro!: set_pkt_inv set_pkt_type_ok elim!: ctor_update_inv)

lemma single_set_pkt_size_inv [inv_op]: "single_set_pkt_size sz g = Inr g' \<Longrightarrow> port_inv g \<Longrightarrow> port_inv g'"
  unfolding single_set_pkt_size_def by (rule set_pkt_size_at_inv)

lemma single_set_tx_burst_inv [inv_op]: "single_set_tx_burst b g = Inr g' \<Longrightarrow> port_inv g \<Longrightarrow> port_inv g'"
  unfolding single_set_tx_burst_def by (erule pktgen_packet_rate_inv) (auto simp: upd_info_def port_inv_def clamp_burst_bounds)

lemma rate_set_port_value_inv [inv_op]: "rate_set_port_value c v g = Inr g' \<Longrightarrow> port_inv g \<Longrightarrow> port_inv g'"
  unfolding rate_set_port_value_def set_port_value_at_def by (erule ctor_update_inv) (intro set_pkt_inv; simp add: pkt_ok_def)

lemma rate_set_ipaddr_inv [inv_op]: "rate_set_ipaddr c a len g = Inr g' \<Longrightarrow> port_inv g \<Longrightarrow> port_inv g'"
  unfolding rate_set_ipaddr_def by (rule set_ipaddr_at_inv)

lemma rate_set_proto_inv [inv_op]: "rate_set_proto s g = Inr g' \<Longrightarrow> port_inv g \<Longrightarrow> port_inv g'"
  unfolding rate_set_proto_def
  by (auto simp: rbind_eq_Inr intro!: set_pkt_inv set_proto_ok elim!: ctor_update_inv)

lemma rate_set_pkt_type_inv [inv_op]: "rate_set_pkt_type s g = Inr g' \<Longrightarrow> port_inv g \<Longrightarrow> port_inv g'"
  unfolding rate_set_pkt_type_def
  by (auto simp: rbind_eq_Inr intro!: set_pkt_inv set_pkt_type_ok elim!: ctor_update_inv)

lemma rate_set_pkt_size_inv [inv_op]: "rate_set_pkt_size sz g = Inr g' \<Longrightarrow> port_inv g \<Longrightarrow> port_inv g'"
  unfolding rate_set_pkt_size_def by (rule set_pkt_size_at_inv)

lemma rate_set_tx_burst_inv [inv_op]: "rate_set_tx_burst b g = Inr g' \<Longrightarrow> port_inv g \<Longrightarrow> port_inv g'"
  unfolding rate_set_tx_burst_def by (erule pktgen_packet_rate_inv) (auto simp: upd_info_def port_inv_def clamp_burst_bounds)

lemma range_set_proto_inv [inv_op]: "range_set_proto s g = Inr g' \<Longrightarrow> port_inv g \<Longrightarrow> port_inv g'"
  by (auto simp: range_set_proto_def rbind_eq_Inr upd_range_def[symmetric] intro!: upd_range_inv set_pkt_inv set_proto_ok)

lemma range_set_pkt_type_inv [inv_op]: "range_set_pkt_type s g = Inr g' \<Longrightarrow> port_inv g \<Longrightarrow> port_inv g'"
  by (auto simp: range_set_pkt_type_def rbind_eq_Inr intro!: set_pkt_inv) (simp add: pkt_ok_def)

lemma single_set_tx_rate_inv [inv_op]: "single_set_tx_rate r g = Inr g' \<Longrightarrow> port_inv g \<Longrightarrow> port_inv g'"
  unfolding single_set_tx_rate_def Let_def by (erule pktgen_packet_rate_inv) (simp add: upd_info_def port_inv_def)

lemma pktgen_start_transmitting_inv [inv_op]: "pktgen_start_transmitting g = Inr g' \<Longrightarrow> port_inv g \<Longrightarrow> port_inv g'"
  by (auto simp: pktgen_start_transmitting_def Let_def rbind_eq_Inr split: if_splits dest!: pktgen_set_tx_update_inv intro!: start_flags_inv)

lemma pktgen_stop_transmitting_inv [inv_op]: "pktgen_stop_transmitting g = Inr g' \<Longrightarrow> port_inv g \<Longrightarrow> port_inv g'"
  by (auto simp: pktgen_stop_transmitting_def rbind_eq_Inr split: if_splits intro!: q_flags_info_inv clr_flags_ok)

lemma pktgen_prime_ports_inv [inv_op]: "pktgen_prime_ports g = Inr g' \<Longrightarrow> port_inv g \<Longrightarrow> port_inv g'"
  by (auto simp: pktgen_prime_ports_def rbind_eq_Inr dest!: pktgen_set_tx_update_inv intro!: q_flags_info_inv prime_flags_ok)

lemma enable_range_inv [inv_op]: "enable_range on g = Inr g' \<Longrightarrow> port_inv g \<Longrightarrow> port_inv g'"
  by (auto simp: enable_range_def split: if_splits intro!: upd_info_inv info_oks elim!: pktgen_packet_rate_inv)

lemma enable_latency_inv [inv_op]: "enable_latency on g = Inr g' \<Longrightarrow> port_inv g \<Longrightarrow> port_inv g'"
  unfolding enable_latency_def Let_def
  by (erule ctor_update_inv) (cases on; simp only: if_True if_False; intro set_pkt_inv upd_info_inv latency_ok info_oks; simp add: pkt_ok_def)

lemma pktgen_ping4_inv [inv_op]: "pktgen_ping4 g = Inr g' \<Longrightarrow> port_inv g \<Longrightarrow> port_inv g'"
  by (auto simp: pktgen_ping4_def Let_def rbind_eq_Inr intro!: ping_copy_inv upd_info_inv set_flags_ok ping_flag elim!: pktgen_packet_ctor_inv pktgen_set_tx_update_inv)

lemma pktgen_set_seq_inv [inv_op]: "pktgen_set_seq n daddr saddr ipd ips plen sport dport type proto vlanid sz teid g = Inr g' \<Longrightarrow> length daddr = 6 \<Longrightarrow> length saddr = 6 \<Longrightarrow> n < NUM_SEQ_PKTS \<Longrightarrow> port_inv g \<Longrightarrow> port_inv g'"
  by (auto simp: pktgen_set_seq_def rbind_eq_Inr split: if_splits intro!: set_pkt_inv elim!: ctor_update_inv) (simp_all add: pkt_ok_def)

lemma pktgen_set_cos_tos_seq_inv [inv_op]: "pktgen_set_cos_tos_seq n c t g = Inr g' \<Longrightarrow> port_inv g \<Longrightarrow> port_inv g'"
  by (auto simp: pktgen_set_cos_tos_seq_def split: if_splits intro!: set_pkt_inv elim!: ctor_update_inv) (simp add: pkt_ok_def)

lemma pktgen_set_vxlan_seq_inv [inv_op]: "pktgen_set_vxlan_seq n fl gid vid g = Inr g' \<Longrightarrow> port_inv g \<Longrightarrow> port_inv g'"
  by (auto simp: pktgen_set_vxlan_seq_def split: if_splits intro!: set_pkt_inv elim!: ctor_update_inv) (simp add: pkt_ok_def)

lemma pattern_set_user_pattern_inv [inv_op]: "pattern_set_user_pattern s g = Inr g' \<Longrightarrow> port_inv g \<Longrightarrow> port_inv g'"
  by (auto simp: pattern_set_user_pattern_def Let_def upd_info_def port_inv_def split: if_splits)

lemma update_rate_values_inv [inv_op]: "update_rate_values g = Inr g' \<Longrightarrow> port_inv g \<Longrightarrow> port_inv g'"
  unfolding update_rate_values_def Let_def by (erule calculate_rate_inv) (intro upd_info_inv set_pkt_inv; simp add: pkt_ok_def info_fields)

lemma pktgen_rate_init_inv [inv_op]: "pktgen_rate_init g = Inr g' \<Longrightarrow> port_inv g \<Longrightarrow> port_inv g'"
  unfolding pktgen_rate_init_def by (erule calculate_rate_inv) (simp add: upd_info_def port_inv_def)

lemma pktgen_rate_setup_inv [inv_op]: "pktgen_rate_setup g = Inr g' \<Longrightarrow> port_inv g \<Longrightarrow> port_inv g'"
  unfolding pktgen_rate_setup_def by (erule pktgen_rate_init_inv) (rule rate_copy_inv)

lemma enable_rate_inv [inv_op]: "enable_rate on g = Inr g' \<Longrightarrow> port_inv g \<Longrightarrow> port_inv g'"
  by (auto simp: enable_rate_def rbind_eq_Inr split: if_splits intro!: rate_off_inv upd_info_inv exclusive_on_ok
    elim!: update_rate_values_inv single_set_proto_inv pktgen_packet_rate_inv)

lemma pktgen_port_defaults_inv [inv_op]: "pktgen_port_defaults peer n g = Inr g' \<Longrightarrow> (\<forall>a b. peer = Some (a, b) \<longrightarrow> length b = 6) \<Longrightarrow> port_inv g \<Longrightarrow> port_inv g'"
  by (auto simp: pktgen_port_defaults_def Let_def rbind_eq_Inr split: if_splits option.splits intro!: defaults_info_inv set_pkt_inv
    port_inv_flags elim!: ctor_update_inv) (auto simp: pkt_ok_def)

section \<open>Sequences of commands\<close>

text \<open>One command on the port; a command that faults has no step.\<close>

inductive port_step :: "pktgen_st \<Rightarrow> pktgen_st \<Rightarrow> bool" where
  step_enable_vxlan: "enable_vxlan on g = Inr g' \<Longrightarrow> port_step g g'"
| step_enable_vlan: "enable_vlan on g = Inr g' \<Longrightarrow> port_step g g'"
| step_enable_mpls: "enable_mpls on g = Inr g' \<Longrightarrow> port_step g g'"
| step_enable_qinq: "enable_qinq on g = Inr g' \<Longrightarrow> port_step g g'"
| step_enable_gre: "enable_gre on g = Inr g' \<Longrightarrow> port_step g g'"
| step_enable_gre_eth: "enable_gre_eth on g = Inr g' \<Longrightarrow> port_step g g'"
| step_enable_random: "port_step g (enable_random on g)"
| step_enable_icmp_echo: "port_step g (enable_icmp_echo on g)"
| step_enable_process: "port_step g (enable_process on g)"
| step_enable_garp: "port_step g (enable_garp on g)"
| step_send_arp_requests: "port_step g (pktgen_send_arp_requests type g)"
| step_enable_pcap: "port_step g (enable_pcap on g)"
| step_set_port_seqCnt: "port_step g (pktgen_set_port_seqCnt cnt g)"
| step_single_set_tx_count: "port_step g (single_set_tx_count cnt g)"
| step_rate_set_tx_count: "port_step g (rate_set_tx_count cnt g)"
| step_debug_set_tx_cycles: "port_step g (debug_set_tx_cycles c g)"
| step_single_set_jitter: "port_step g (single_set_jitter hz th g)"
| step_pattern_set_type: "port_step g (pattern_set_type s g)"
| step_rate_set_value: "port_step g (rate_set_value w v g)"
| step_set_port_prime: "port_step g (pktgen_set_port_prime cnt g)"
| step_range_set_src_ip: "port_step g (range_set_src_ip w v g)"
| step_range_set_dst_ip: "port_step g (range_set_dst_ip w v g)"
| step_range_set_src_port: "port_step g (range_set_src_port w v g)"
| step_range_set_dst_port: "port_step g (range_set_dst_port w v g)"
| step_range_set_ttl: "port_step g (range_set_ttl w v g)"
| step_range_set_vlan_id: "port_step g (range_set_vlan_id w v g)"
| step_range_set_tos_id: "port_step g (range_set_tos_id w v g)"
| step_range_set_cos_id: "port_step g (range_set_cos_id w v g)"
| step_range_set_pkt_size: "port_step g (range_set_pkt_size w v g)"
| step_range_set_gtpu_teid: "port_step g (range_set_gtpu_teid w v g)"
| step_range_set_dest_mac: "length mac = 6 \<Longrightarrow> port_step g (range_set_dest_mac w mac g)"
| step_range_set_src_mac: "length mac = 6 \<Longrightarrow> port_step g (range_set_src_mac w mac g)"
| step_single_set_vlan_id: "single_set_vlan_id v g = Inr g' \<Longrightarrow> port_step g g'"
| step_single_set_cos: "single_set_cos v g = Inr g' \<Longrightarrow> port_step g g'"
| step_single_set_tos: "single_set_tos v g = Inr g' \<Longrightarrow> port_step g g'"
| step_single_set_vxlan: "single_set_vxlan fl gid vid g = Inr g' \<Longrightarrow> port_step g g'"
| step_range_set_mpls_entry: "range_set_mpls_entry v g = Inr g' \<Longrightarrow> port_step g g'"
| step_single_set_qinqids: "single_set_qinqids oid iid g = Inr g' \<Longrightarrow> port_step g g'"
| step_range_set_qinqids: "range_set_qinqids oid iid g = Inr g' \<Longrightarrow> port_step g g'"
| step_range_set_gre_key: "range_set_gre_key v g = Inr g' \<Longrightarrow> port_step g g'"
| step_single_set_ttl_value: "single_set_ttl_value v g = Inr g' \<Longrightarrow> port_step g g'"
| step_rate_set_ttl_value: "rate_set_ttl_value v g = Inr g' \<Longrightarrow> port_step g g'"
| step_single_set_dst_mac: "single_set_dst_mac mac g = Inr g' \<Longrightarrow> length mac = 6 \<Longrightarrow> port_step g g'"
| step_single_set_src_mac: "single_set_src_mac mac g = Inr g' \<Longrightarrow> length mac = 6 \<Longrightarrow> port_step g g'"
| step_rate_set_dst_mac: "rate_set_dst_mac mac g = Inr g' \<Longrightarrow> length mac = 6 \<Longrightarrow> port_step g g'"
| step_rate_set_src_mac: "rate_set_src_mac mac g = Inr g' \<Longrightarrow> length mac = 6 \<Longrightarrow> port_step g g'"
| step_single_set_mac: "single_set_mac w mac g = Inr g' \<Longrightarrow> length mac = 6 \<Longrightarrow> port_step g g'"
| step_single_set_port_value: "single_set_port_value c v g = Inr g' \<Longrightarrow> port_step g g'"
| step_single_set_ipaddr: "single_set_ipaddr c a len g = Inr g' \<Longrightarrow> port_step g g'"
| step_single_set_proto: "single_set_proto s g = Inr g' \<Longrightarrow> port_step g g'"
| step_single_set_pkt_type: "single_set_pkt_type s g = Inr g' \<Longrightarrow> port_step g g'"
| step_single_set_pkt_size: "single_set_pkt_size sz g = Inr g' \<Longrightarrow> port_step g g'"
| step_single_set_tx_burst: "single_set_tx_burst b g = Inr g' \<Longrightarrow> port_step g g'"
| step_rate_set_port_value: "rate_set_port_value c v g = Inr g' \<Longrightarrow> port_step g g'"
| step_rate_set_ipaddr: "rate_set_ipaddr c a len g = Inr g' \<Longrightarrow> port_step g g'"
| step_rate_set_proto: "rate_set_proto s g = Inr g' \<Longrightarrow> port_step g g'"
| step_rate_set_pkt_type: "rate_set_pkt_type s g = Inr g' \<Longrightarrow> port_step g g'"
| step_rate_set_pkt_size: "rate_set_pkt_size sz g = Inr g' \<Longrightarrow> port_step g g'"
| step_rate_set_tx_burst: "rate_set_tx_burst b g = Inr g' \<Longrightarrow> port_step g g'"
| step_range_set_proto: "range_set_proto s g = Inr g' \<Longrightarrow> port_step g g'"
| step_range_set_pkt_type: "range_set_pkt_type s g = Inr g' \<Longrightarrow> port_step g g'"
| step_single_set_tx_rate: "single_set_tx_rate r g = Inr g' \<Longrightarrow> port_step g g'"
| step_start_transmitting: "pktgen_start_transmitting g = Inr g' \<Longrightarrow> port_step g g'"
| step_stop_transmitting: "pktgen_stop_transmitting g = Inr g' \<Longrightarrow> port_step g g'"
| step_prime_ports: "pktgen_prime_ports g = Inr g' \<Longrightarrow> port_step g g'"
| step_enable_range: "enable_range on g = Inr g' \<Longrightarrow> port_step g g'"
| step_enable_latency: "enable_latency on g = Inr g' \<Longrightarrow> port_step g g'"
| step_ping4: "pktgen_ping4 g = Inr g' \<Longrightarrow> port_step g g'"
| step_set_seq: "pktgen_set_seq n daddr saddr ipd ips plen sport dport type proto vlanid sz teid g = Inr g' \<Longrightarrow> length daddr = 6 \<Longrightarrow> length saddr = 6 \<Longrightarrow> n < NUM_SEQ_PKTS \<Longrightarrow> port_step g g'"
| step_set_cos_tos_seq: "pktgen_set_cos_tos_seq n c t g = Inr g' \<Longrightarrow> port_step g g'"
| step_set_vxlan_seq: "pktgen_set_vxlan_seq n fl gid vid g = Inr g' \<Longrightarrow> port_step g g'"
| step_pattern_set_user_pattern: "pattern_set_user_pattern s g = Inr g' \<Longrightarrow> port_step g g'"
| step_rate_setup: "pktgen_rate_setup g = Inr g' \<Longrightarrow> port_step g g'"
| step_enable_rate: "enable_rate on g = Inr g' \<Longrightarrow> port_step g g'"
| step_port_defaults: "pktgen_port_defaults peer n g = Inr g' \<Longrightarrow> (\<forall>a b. peer = Some (a, b) \<longrightarrow> length b = 6) \<Longrightarrow> port_step g g'"

lemma port_step_inv: "port_step g g' \<Longrightarrow> port_inv g \<Longrightarrow> port_inv g'"
  by (induction rule: port_step.induct) (rule inv_op; assumption)+

lemma port_steps_inv: "port_step\<^sup>*\<^sup>* g g' \<Longrightarrow> port_inv g \<Longrightarrow> port_inv g'"
  by (induction rule: rtranclp_induct) (auto dest: port_step_inv)

lemma example_port_inv: "port_inv example_port"
  by (auto simp: port_inv_def example_port_def example_info_def pkt_ok_def example_pkt_def one_mode_def)

lemma example_port_flags [simp]: "pi_port_flags (g_info example_port) = 0" "g_txcnt example_port = 2"
  by (simp_all add: example_port_def example_info_def)

text \<open>
  C1: any sequence of port commands keeps the port invariant: at most one of the exclusive modes
  (PCAP, range, sequence, random, latency, rate, VLAN, MPLS, Q-in-Q, VXLAN and the two GRE modes)
  is on, the single packet is 60 to 1514 bytes long, the burst is 1 to 64, the prime count 1 to 4,
  the sequence count at most 16, and the packet buffers, addresses and queue flags keep their sizes.
\<close>

theorem port_commands_keep_inv:
  assumes "port_step\<^sup>*\<^sup>* g g'" and "port_inv g"
  shows "port_inv g'"
  using assms by (rule port_steps_inv)

theorem port_commands_keep_inv_witness:
  "port_inv (pktgen_set_port_seqCnt 99 (enable_random True example_port))"
proof -
  have "port_step\<^sup>*\<^sup>* example_port (pktgen_set_port_seqCnt 99 (enable_random True example_port))"
    by (rule rtranclp_trans[OF r_into_rtranclp r_into_rtranclp]) (rule step_enable_random step_set_port_seqCnt)+
  then show ?thesis using port_commands_keep_inv example_port_inv by blast
qed

section \<open>Starting and stopping\<close>

lemma set_q_flags_upto_ok:
  "n \<le> length (pi_q_flags i) \<Longrightarrow>
   set_q_flags_upto n fl i = Inr (i\<lparr>pi_q_flags := map (\<lambda>x. x OR fl) (take n (pi_q_flags i)) @ drop n (pi_q_flags i)\<rparr>)"
proof (induction n)
  case (Suc n)
  have "n < length (pi_q_flags i)" using Suc.prems by simp
  then have "map (\<lambda>x. x OR fl) (take (Suc n) (pi_q_flags i)) @ drop (Suc n) (pi_q_flags i) =
     (map (\<lambda>x. x OR fl) (take n (pi_q_flags i)) @ drop n (pi_q_flags i))
       [n := (map (\<lambda>x. x OR fl) (take n (pi_q_flags i)) @ drop n (pi_q_flags i)) ! n OR fl]"
    by (simp add: take_Suc_conv_app_nth list_update_append nth_append Cons_nth_drop_Suc[symmetric])
  with Suc show ?case by (simp add: pktgen_set_q_flags_def)
qed simp

lemma q_flags_ok: "port_inv g \<Longrightarrow> g_txcnt g \<le> length (pi_q_flags (g_info g))"
  by (simp add: port_inv_def)

lemma flag_off_on:
  "fl AND SENDING_PACKETS = 0 \<Longrightarrow> fl AND SEND_FOREVER = 0 \<Longrightarrow> fl AND NOT (SENDING_PACKETS OR SEND_FOREVER) = fl"
  by (rule bit_word_eqI) (auto simp: bit_eq_iff bit_simps)

text \<open>
  Starting a port that is not sending loads the transmit count, sends forever exactly
  when that count is zero and marks every transmit queue of the port; stopping it then restores the port flags and marks every
  transmit queue for a flush. Neither command fails.
\<close>

theorem transmit_start_stop:
  assumes inv: "port_inv g"
    and idle: "\<not> pktgen_tst_port_flags (SENDING_PACKETS OR SEND_FOREVER) (g_info g)"
  shows "\<exists>g1 g2. pktgen_start_transmitting g = Inr g1 \<and> pktgen_stop_transmitting g1 = Inr g2 \<and>
     pktgen_tst_port_flags SENDING_PACKETS (g_info g1) \<and>
     pktgen_tst_port_flags SEND_FOREVER (g_info g1) = (pi_transmit_count (g_info g) = 0) \<and>
     pi_current_tx_count (g_info g1) = pi_transmit_count (g_info g) \<and>
     pi_port_flags (g_info g2) = pi_port_flags (g_info g) \<and>
     (\<forall>q < g_txcnt g. pi_q_flags (g_info g1) ! q = pi_q_flags (g_info g) ! q OR CLEAR_FAST_ALLOC_FLAG \<and>
        pi_q_flags (g_info g2) ! q = pi_q_flags (g_info g) ! q OR CLEAR_FAST_ALLOC_FLAG OR DO_TX_FLUSH)"
proof -
  have q: "g_txcnt g \<le> length (pi_q_flags (g_info g))" using inv by (rule q_flags_ok)
  have s0: "pi_port_flags (g_info g) AND SENDING_PACKETS = 0" and f0: "pi_port_flags (g_info g) AND SEND_FOREVER = 0"
    using idle by (auto simp: pktgen_tst_port_flags_def bit.conj_disj_distrib bit_eq_iff bit_simps)
  have sf: "SENDING_PACKETS AND SENDING_PACKETS \<noteq> 0" "SEND_FOREVER AND SEND_FOREVER \<noteq> 0" "SENDING_PACKETS AND SEND_FOREVER = 0"
    by (simp_all add: port_flag_defs)
  let ?i = "(g_info g)\<lparr>pi_q_flags := map (\<lambda>x. x OR CLEAR_FAST_ALLOC_FLAG) (take (g_txcnt g) (pi_q_flags (g_info g))) @
              drop (g_txcnt g) (pi_q_flags (g_info g)), pi_current_tx_count := pi_transmit_count (g_info g)\<rparr>"
  let ?fl = "if pi_transmit_count (g_info g) = 0 then SEND_FOREVER OR SENDING_PACKETS else SENDING_PACKETS"
  have start: "pktgen_start_transmitting g = Inr (g\<lparr>g_info := ?i\<lparr>pi_port_flags := pi_port_flags (g_info g) OR ?fl\<rparr>\<rparr>)"
    using s0 by (simp add: pktgen_start_transmitting_def pktgen_tst_port_flags_def pktgen_set_tx_update_def
        set_q_flags_upto_ok[OF q] Let_def pktgen_set_port_flags_def or.assoc)
  have clr: "(pi_port_flags (g_info g) OR ?fl) AND NOT (SENDING_PACKETS OR SEND_FOREVER) = pi_port_flags (g_info g)"
    using flag_off_on[OF s0 f0] by (auto simp: bit.conj_disj_distrib2 bit_eq_iff bit_simps)
  let ?g1 = "g\<lparr>g_info := ?i\<lparr>pi_port_flags := pi_port_flags (g_info g) OR ?fl\<rparr>\<rparr>"
  have on: "pktgen_tst_port_flags SENDING_PACKETS (g_info ?g1)"
    using sf by (auto simp: pktgen_tst_port_flags_def bit.conj_disj_distrib2)
  have forever: "pktgen_tst_port_flags SEND_FOREVER (g_info ?g1) = (pi_transmit_count (g_info g) = 0)"
    using sf f0 by (auto simp: pktgen_tst_port_flags_def bit.conj_disj_distrib2)
  have stop: "pktgen_stop_transmitting ?g1 = Inr (?g1\<lparr>g_info := (g_info ?g1)\<lparr>pi_port_flags := pi_port_flags (g_info g),
      pi_q_flags := map (\<lambda>x. x OR DO_TX_FLUSH) (take (g_txcnt g) (pi_q_flags ?i)) @ drop (g_txcnt g) (pi_q_flags ?i)\<rparr>\<rparr>)"
    unfolding pktgen_stop_transmitting_def if_P[OF on] pktgen_clr_port_flags_def
    using q by (subst set_q_flags_upto_ok) (simp_all add: clr del: bit.de_Morgan_disj)
  show ?thesis
    unfolding start
    by (rule exI, rule exI, rule conjI, rule refl, rule conjI, rule stop) (use q on forever in \<open>auto simp: nth_append or.assoc\<close>)
qed

theorem transmit_start_stop_witness:
  "\<exists>g1 g2. pktgen_start_transmitting example_port = Inr g1 \<and> pktgen_stop_transmitting g1 = Inr g2 \<and>
     pktgen_tst_port_flags SENDING_PACKETS (g_info g1) \<and> pi_port_flags (g_info g2) = 0"
  using transmit_start_stop[OF example_port_inv] by (auto simp: pktgen_tst_port_flags_def)

section \<open>Commands that rebuild the single packet\<close>

definition single :: "pktgen_st \<Rightarrow> pkt_seq" where
  "single g = pi_seq_pkt (g_info g) ! SINGLE_PKT"

definition no_gre :: "pktgen_st \<Rightarrow> bool" where
  "no_gre g \<longleftrightarrow> pi_port_flags (g_info g) AND SEND_GRE_IPv4_HEADER = 0 \<and> pi_port_flags (g_info g) AND SEND_GRE_ETHER_HEADER = 0"

lemma and_flag_eq_0: "(w :: u32) AND push_bit n 1 = 0 \<longleftrightarrow> \<not> bit w n"
  unfolding push_bit_eq_mult mult_1 by (rule and_exp_eq_0_iff_not_bit)

lemma no_gre_bits: "no_gre g \<longleftrightarrow> \<not> bit (pi_port_flags (g_info g)) 23 \<and> \<not> bit (pi_port_flags (g_info g)) 24"
  unfolding no_gre_def SEND_GRE_IPv4_HEADER_def SEND_GRE_ETHER_HEADER_def and_flag_eq_0 by (rule refl)

lemma port_inv_single:
  "port_inv g \<Longrightarrow> MIN_PKT_SIZE \<le> pk_pktSize (single g) \<and> pk_pktSize (single g) \<le> MAX_PKT_SIZE \<and> length (pk_hdr (single g)) = DEFAULT_MBUF_SIZE \<and>
     length (pk_eth_src (single g)) = 6 \<and> length (pk_eth_dst (single g)) = 6"
proof -
  assume "port_inv g"
  then have "pkt_ok SINGLE_PKT (single g)" by (simp add: port_inv_def single_def)
  then show ?thesis by (simp add: pkt_ok_def)
qed

lemma ctor_update_single:
  assumes inv: "port_inv g" and gre: "no_gre g" and v6: "pk_ethType (single g) = PG_ETHER_TYPE_IPv6 \<Longrightarrow> 62 \<le> pk_pktSize (single g)"
  shows "\<exists>g'. ctor_update SINGLE_PKT g = Inr g' \<and> port_inv g' \<and> pi_port_flags (g_info g') = pi_port_flags (g_info g) \<and>
    same_shape (single g) (single g')"
proof -
  let ?i = "g_info g"
  obtain q ident where q: "pkt_ctor (pi_port_flags ?i) (pi_fill_pattern ?i) (pi_user_pattern ?i) (single g) (g_ident g) (-1) = Inr (q, ident)"
    using pkt_ctor_total[of "single g" "pi_port_flags ?i" "pi_fill_pattern ?i" "pi_user_pattern ?i" "g_ident g" "-1"]
      port_inv_single[OF inv] gre v6 by (auto simp: no_gre_def)
  let ?g = "g\<lparr>g_info := ?i\<lparr>pi_seq_pkt := (pi_seq_pkt ?i)[SINGLE_PKT := q]\<rparr>, g_ident := ident\<rparr>"
  have len: "length (pi_seq_pkt ?i) = NUM_TOTAL_PKTS" using inv by (simp add: port_inv_def)
  have c: "pktgen_packet_ctor SINGLE_PKT (-1) g = Inr ?g" using q len by (simp add: pktgen_packet_ctor_def Let_def single_def)
  obtain g' where u: "pktgen_set_tx_update ?g = Inr g'" and g': "single g' = q" "pi_port_flags (g_info g') = pi_port_flags ?i"
    using q_flags_ok[OF inv] len by (simp add: pktgen_set_tx_update_def set_q_flags_upto_ok single_def)
  have "ctor_update SINGLE_PKT g = Inr g'" using c u by (simp add: ctor_update_def)
  then show ?thesis using ctor_update_inv[OF _ inv] pkt_ctor_shape[OF q] g' by auto
qed

lemma single_set_pkt [simp]: "port_inv g \<Longrightarrow> single (set_pkt SINGLE_PKT f g) = f (single g)"
  by (simp add: single_def set_pkt_def upd_info_def upd_pkt_def port_inv_def)

lemma no_gre_set_pkt [simp]: "no_gre (set_pkt n f g) = no_gre g"
  by (simp add: no_gre_def set_pkt_def upd_info_def upd_pkt_def)

lemma no_gre_cong: "pi_port_flags (g_info g') = pi_port_flags (g_info g) \<Longrightarrow> no_gre g' = no_gre g"
  by (simp add: no_gre_def)

lemma single_upd_flags [simp]:
  "single (upd_info (exclusive_on fl) g) = single g" "single (upd_info (pktgen_clr_port_flags fl) g) = single g"
  by (simp_all add: single_def upd_info_def exclusive_on_def pktgen_set_port_flags_def pktgen_clr_port_flags_def)

lemma ctor_update_ipv4:
  assumes "port_inv g" "no_gre g" "single g = p" "pk_ethType p = PG_ETHER_TYPE_IPv4"
  shows "\<exists>g'. ctor_update SINGLE_PKT g = Inr g' \<and> port_inv g' \<and> no_gre g' \<and> same_shape p (single g')"
  using ctor_update_single[OF assms(1,2)] assms(2-4) by (auto simp: no_gre_def)

lemma no_gre_latency [simp]: "no_gre (upd_info (exclusive_on SEND_LATENCY_PKTS) g)"
proof -
  have "bit (EXCLUSIVE_MODES OR EXCLUSIVE_PKT_MODES) n" if "n = 23 \<or> n = 24" for n
    by (rule bit_exclusive) (use that in \<open>auto simp: mode_bits_def\<close>)
  moreover have "\<not> bit SEND_LATENCY_PKTS 23" "\<not> bit SEND_LATENCY_PKTS 24" by (simp_all add: port_flag_defs)
  ultimately show ?thesis
    by (auto simp: no_gre_bits upd_info_def exclusive_on_def pktgen_set_port_flags_def pktgen_clr_port_flags_def bit_simps)
qed

lemma no_gre_clr [simp]: "no_gre g \<Longrightarrow> no_gre (upd_info (pktgen_clr_port_flags fl) g)"
  by (auto simp: no_gre_def upd_info_def pktgen_clr_port_flags_def bit_eq_iff bit_simps)

text \<open>
  Turning latency measurement on and off again gives back packets below 76 bytes unchanged
  but takes 16 bytes away from any larger packet, because the size is only raised when it is
  below 76 and lowered whenever it is at least 76.
\<close>

theorem latency_on_off_size:
  assumes inv: "port_inv g" and v4: "pk_ethType (single g) = PG_ETHER_TYPE_IPv4"
  shows "\<exists>g1 g2. enable_latency True g = Inr g1 \<and> enable_latency False g1 = Inr g2 \<and>
    pk_pktSize (single g1) \<ge> MIN_PKT_SIZE + TSTAMP_SIZE \<and>
    pk_pktSize (single g2) = (if pk_pktSize (single g) < MIN_PKT_SIZE + TSTAMP_SIZE then pk_pktSize (single g) else pk_pktSize (single g) - TSTAMP_SIZE)"
proof -
  let ?s = "pk_pktSize (single g)"
  let ?up = "\<lambda>p. if pk_pktSize p < MIN_PKT_SIZE + TSTAMP_SIZE then p\<lparr>pk_pktSize := pk_pktSize p + TSTAMP_SIZE\<rparr> else p"
  let ?dn = "\<lambda>p. if pk_pktSize p \<ge> MIN_PKT_SIZE + TSTAMP_SIZE then p\<lparr>pk_pktSize := pk_pktSize p - TSTAMP_SIZE\<rparr> else p"
  let ?udp = "\<lambda>p. p\<lparr>pk_ipProto := PG_IPPROTO_UDP\<rparr>"
  have udp: "pkt_ok n p \<Longrightarrow> pkt_ok n (?udp p)" for n p by (simp add: pkt_ok_def)
  let ?a = "upd_info (exclusive_on SEND_LATENCY_PKTS) g"
  let ?b = "set_pkt SINGLE_PKT ?up ?a"
  have a: "port_inv ?a" by (intro upd_info_inv inv info_oks one_mode_flags)
  have b: "port_inv ?b" by (intro set_pkt_inv a latency_ok)
  have b1: "port_inv (set_pkt SINGLE_PKT ?udp ?b)" by (intro set_pkt_inv b udp)
  have sb: "single (set_pkt SINGLE_PKT ?udp ?b) = ?udp (?up (single g))"
    by (simp only: single_set_pkt[OF b] single_set_pkt[OF a] single_upd_flags)
  have nb: "no_gre (set_pkt SINGLE_PKT ?udp ?b)" by (simp only: no_gre_set_pkt no_gre_latency)
  have tb: "pk_ethType (?udp (?up (single g))) = PG_ETHER_TYPE_IPv4" using v4 by simp
  obtain g1 where g1: "ctor_update SINGLE_PKT (set_pkt SINGLE_PKT ?udp ?b) = Inr g1" "port_inv g1" "no_gre g1"
      "same_shape (?udp (?up (single g))) (single g1)"
    using ctor_update_ipv4[OF b1 nb sb tb] by blast
  have on: "enable_latency True g = Inr g1" unfolding enable_latency_def Let_def if_True by (rule g1(1))
  have s1: "pk_ethType (single g1) = PG_ETHER_TYPE_IPv4" "pk_pktSize (single g1) = (if ?s < 76 then ?s + 16 else ?s)"
    using g1(4) v4 by (auto simp: same_shape_def)
  let ?c = "set_pkt SINGLE_PKT ?dn g1"
  have c: "port_inv ?c" by (intro set_pkt_inv g1(2) latency_ok)
  have d: "port_inv (upd_info (pktgen_clr_port_flags SEND_LATENCY_PKTS) ?c)" by (intro upd_info_inv c info_oks)
  have e: "port_inv (set_pkt SINGLE_PKT ?udp (upd_info (pktgen_clr_port_flags SEND_LATENCY_PKTS) ?c))" by (intro set_pkt_inv d udp)
  have se: "single (set_pkt SINGLE_PKT ?udp (upd_info (pktgen_clr_port_flags SEND_LATENCY_PKTS) ?c)) = ?udp (?dn (single g1))"
    by (simp only: single_set_pkt[OF d] single_set_pkt[OF g1(2)] single_upd_flags)
  have ne: "no_gre (set_pkt SINGLE_PKT ?udp (upd_info (pktgen_clr_port_flags SEND_LATENCY_PKTS) ?c))"
    unfolding no_gre_set_pkt by (rule no_gre_clr) (simp only: no_gre_set_pkt g1(3))
  have te: "pk_ethType (?udp (?dn (single g1))) = PG_ETHER_TYPE_IPv4" using s1(1) by simp
  obtain g2 where g2: "ctor_update SINGLE_PKT (set_pkt SINGLE_PKT ?udp (upd_info (pktgen_clr_port_flags SEND_LATENCY_PKTS) ?c)) = Inr g2"
      "same_shape (?udp (?dn (single g1))) (single g2)"
    using ctor_update_ipv4[OF e ne se te] by blast
  have off: "enable_latency False g1 = Inr g2" unfolding enable_latency_def Let_def if_False by (rule g2(1))
  have "60 \<le> unat ?s" "unat ?s \<le> 1514" using port_inv_single[OF inv] by (auto simp: word_le_nat_alt)
  then have "pk_pktSize (single g1) \<ge> 76" and "pk_pktSize (single g2) = (if ?s < 76 then ?s else ?s - 16)"
    using s1(2) g2(2) by (auto simp: same_shape_def word_le_nat_alt word_less_nat_alt unat_word_ariths word_unat_eq_iff unat_sub_if')
  then show ?thesis using on off by auto
qed

lemma example_port_single: "single example_port = example_pkt" "no_gre example_port"
  "pk_ethType example_pkt = PG_ETHER_TYPE_IPv4" "pk_pktSize example_pkt = 60"
  by (simp_all add: single_def no_gre_def example_port_def example_info_def example_pkt_def)

theorem latency_on_off_size_witness:
  "\<exists>g1 g2. enable_latency True example_port = Inr g1 \<and> enable_latency False g1 = Inr g2 \<and> pk_pktSize (single g2) = 60"
  using latency_on_off_size[OF example_port_inv] by (auto simp: example_port_single)

lemma ethtype_ip: "ethtype_at [3, 2] ''ipv6'' = Inr PG_ETHER_TYPE_IPv6" "ethtype_at [3, 2] ''ipv4'' = Inr PG_ETHER_TYPE_IPv4"
  by (simp_all add: ethtype_at_def c_str_at_def)

lemma single_set_pkt_type_run:
  assumes inv: "port_inv g" and gre: "no_gre g" and e: "ethtype_at [3, 2] s = Inr t" "t \<noteq> 0"
    and v6: "t = PG_ETHER_TYPE_IPv6 \<Longrightarrow> 62 \<le> pk_pktSize (set_pkt_type t (single g))"
  shows "\<exists>g'. single_set_pkt_type s g = Inr g' \<and> port_inv g' \<and> no_gre g' \<and> same_shape (set_pkt_type t (single g)) (single g')"
proof -
  let ?g = "set_pkt SINGLE_PKT (set_pkt_type t) g"
  have i: "port_inv ?g" by (intro set_pkt_inv inv set_pkt_type_ok)
  have n: "no_gre ?g" using gre by simp
  have s: "single ?g = set_pkt_type t (single g)" using inv by (rule single_set_pkt)
  have "pk_ethType (set_pkt_type t (single g)) = t" by (simp add: set_pkt_type_def Let_def)
  then obtain g' where g': "ctor_update SINGLE_PKT ?g = Inr g'" "port_inv g'" "pi_port_flags (g_info g') = pi_port_flags (g_info ?g)"
      "same_shape (set_pkt_type t (single g)) (single g')"
    using ctor_update_single[OF i n] v6 unfolding s by metis
  moreover have "single_set_pkt_type s g = ctor_update SINGLE_PKT ?g" using e by (simp add: single_set_pkt_type_def ethtype_or_ipv4_def)
  moreover have "no_gre g'" using no_gre_cong[OF g'(3)] n by simp
  ultimately show ?thesis by auto
qed

lemma set_pkt_type_v6_size:
  "pk_ethType p = PG_ETHER_TYPE_IPv4 \<Longrightarrow> MIN_PKT_SIZE \<le> pk_pktSize p \<Longrightarrow>
   pk_pktSize (set_pkt_type PG_ETHER_TYPE_IPv6 p) = (if pk_pktSize p < MIN_v6_PKT_SIZE then pk_pktSize p + 14 else pk_pktSize p)"
  by (simp add: set_pkt_type_def Let_def)

lemma set_pkt_type_v4_size:
  "pk_ethType p = PG_ETHER_TYPE_IPv6 \<Longrightarrow> MIN_v6_PKT_SIZE \<le> pk_pktSize p \<Longrightarrow>
   pk_pktSize (set_pkt_type PG_ETHER_TYPE_IPv4 p) = pk_pktSize p - 14"
  by (simp add: set_pkt_type_def Let_def)

text \<open>
  Switching the single packet from IPv4 to IPv6 and back keeps its size when it is below 74
  bytes and takes 14 bytes away from any larger packet.
\<close>

theorem pkt_type_v6_v4_size:
  assumes inv: "port_inv g" and gre: "no_gre g" and v4: "pk_ethType (single g) = PG_ETHER_TYPE_IPv4"
  shows "\<exists>g1 g2. single_set_pkt_type ''ipv6'' g = Inr g1 \<and> single_set_pkt_type ''ipv4'' g1 = Inr g2 \<and>
    pk_pktSize (single g1) \<ge> MIN_v6_PKT_SIZE \<and> pk_ethType (single g2) = PG_ETHER_TYPE_IPv4 \<and>
    pk_pktSize (single g2) = (if pk_pktSize (single g) < MIN_v6_PKT_SIZE then pk_pktSize (single g) else pk_pktSize (single g) - 14)"
proof -
  let ?s = "pk_pktSize (single g)"
  have s: "60 \<le> ?s" "?s \<le> 1514" using port_inv_single[OF inv] by auto
  have a: "pk_pktSize (set_pkt_type PG_ETHER_TYPE_IPv6 (single g)) = (if ?s < 74 then ?s + 14 else ?s)"
    using set_pkt_type_v6_size[OF v4] s by simp
  have a74: "74 \<le> (if ?s < 74 then ?s + 14 else ?s)"
    using s by (auto simp: word_le_nat_alt word_less_nat_alt unat_word_ariths)
  then have "62 \<le> pk_pktSize (set_pkt_type PG_ETHER_TYPE_IPv6 (single g))" unfolding a by (auto simp: word_le_nat_alt)
  then obtain g1 where g1: "single_set_pkt_type ''ipv6'' g = Inr g1" "port_inv g1" "no_gre g1"
      "same_shape (set_pkt_type PG_ETHER_TYPE_IPv6 (single g)) (single g1)"
    using single_set_pkt_type_run[OF inv gre ethtype_ip(1)] by auto
  have s1: "pk_ethType (single g1) = PG_ETHER_TYPE_IPv6" "pk_pktSize (single g1) = (if ?s < 74 then ?s + 14 else ?s)"
    using g1(4) a by (simp_all add: same_shape_def set_pkt_type_def Let_def)
  obtain g2 where g2: "single_set_pkt_type ''ipv4'' g1 = Inr g2" "same_shape (set_pkt_type PG_ETHER_TYPE_IPv4 (single g1)) (single g2)"
    using single_set_pkt_type_run[OF g1(2,3) ethtype_ip(2)] by auto
  have "pk_pktSize (single g2) = pk_pktSize (single g1) - 14" "pk_ethType (single g2) = PG_ETHER_TYPE_IPv4"
    using g2(2) set_pkt_type_v4_size[OF s1(1)] a74 s1(2) by (simp_all add: same_shape_def set_pkt_type_def Let_def)
  then show ?thesis using g1(1) g2(1) s1(2) a74 by auto
qed

theorem pkt_type_v6_v4_size_witness:
  "\<exists>g1 g2. single_set_pkt_type ''ipv6'' example_port = Inr g1 \<and> single_set_pkt_type ''ipv4'' g1 = Inr g2 \<and> pk_pktSize (single g2) = 60"
  using pkt_type_v6_v4_size[OF example_port_inv] by (auto simp: example_port_single)

section \<open>Line rate\<close>

lemma pkt_wire_bounds: "24 \<le> unat (pkt_wire p) \<and> unat (pkt_wire p) \<le> 65559"
proof -
  have "unat (pkt_wire p) = unat (pk_pktSize p) + 24"
    using unsigned_less[where 'a = nat, of "pk_pktSize p"] by (simp add: pkt_wire_def unat_word_ariths unsigned_ucast_eq take_bit_eq_mod)
  then show ?thesis using unsigned_less[where 'a = nat, of "pk_pktSize p"] by simp
qed

lemma sum_pkt_wire:
  "length ps \<le> 16 \<Longrightarrow> 24 * length ps \<le> unat (sum_list (map pkt_wire ps)) \<and> unat (sum_list (map pkt_wire ps)) \<le> 65559 * length ps"
proof (induction ps)
  case (Cons p ps)
  then have "unat (pkt_wire p) + unat (sum_list (map pkt_wire ps)) < 2 ^ 64" using pkt_wire_bounds[of p] by simp
  then have "unat (sum_list (map pkt_wire (p # ps))) = unat (pkt_wire p) + unat (sum_list (map pkt_wire ps))"
    by (simp add: unat_word_ariths)
  then show ?case using Cons pkt_wire_bounds[of p] by simp
qed simp

lemma div_le_of_mult: "a \<le> b * n \<Longrightarrow> a div n \<le> (b :: nat)"
  by (cases "n = 0") (auto simp: less_mult_imp_div_less div_le_mono dest: div_le_mono[of a "b * n" n])

lemma pktgen_wire_size_bounds:
  assumes inv: "port_inv g" and pcap: "\<not> pktgen_tst_port_flags SEND_PCAP_PKTS (g_info g)"
  shows "\<exists>w. pktgen_wire_size (g_info g) = Inr w \<and> 24 \<le> unat w \<and> unat w \<le> 65559"
proof (cases "\<not> pktgen_tst_port_flags SEND_RATE_PACKETS (g_info g) \<and> 0 < pi_seqCnt (g_info g)")
  case True
  let ?n = "unat (pi_seqCnt (g_info g))"
  let ?ps = "take ?n (pi_seq_pkt (g_info g))"
  have n: "0 < ?n" "?n \<le> 16" "length ?ps = ?n" using True inv by (auto simp: port_inv_def word_le_nat_alt word_less_nat_alt)
  have "unat (sum_list (map pkt_wire ?ps) div ucast (pi_seqCnt (g_info g))) = unat (sum_list (map pkt_wire ?ps)) div ?n"
    using unsigned_less[where 'a = nat, of "pi_seqCnt (g_info g)"] by (simp add: unat_div unsigned_ucast_eq take_bit_eq_mod)
  moreover have "24 \<le> unat (sum_list (map pkt_wire ?ps)) div ?n" "unat (sum_list (map pkt_wire ?ps)) div ?n \<le> 65559"
    using sum_pkt_wire[of ?ps] n by (auto simp: less_eq_div_iff_mult_less_eq intro: div_le_of_mult)
  moreover have "?n \<le> length (pi_seq_pkt (g_info g))" using n inv by (simp add: port_inv_def)
  ultimately show ?thesis using True pcap by (auto simp: pktgen_wire_size_def)
next
  case False
  then show ?thesis using pcap pkt_wire_bounds by (auto simp: pktgen_wire_size_def)
qed

text \<open>
  At full rate the packet rate computed for a port is the largest whole number of packets
  per second whose bits, with preamble, inter-frame gap and checksum, fit the link speed.
  \<open>g_scale\<close> is the double expression of the source; at 100 percent it gives back its argument.
\<close>

theorem packet_rate_fills_link:
  assumes inv: "port_inv g" and pcap: "\<not> pktgen_tst_port_flags SEND_PCAP_PKTS (g_info g)"
    and full: "pi_tx_rate (g_info g) = 100" "g_scale g = scale" "\<forall>q. scale q 100 = q"
  shows "\<exists>g' w. pktgen_packet_rate g = Inr g' \<and> pktgen_wire_size (g_info g) = Inr w \<and>
    unat (pi_tx_pps (g_info g')) * (unat w * 8) \<le> unat (pi_link_speed (g_info g)) * 1000000 \<and>
    unat (pi_link_speed (g_info g)) * 1000000 < (unat (pi_tx_pps (g_info g')) + 1) * (unat w * 8)"
proof -
  obtain w where w: "pktgen_wire_size (g_info g) = Inr w" "24 \<le> unat w" "unat w \<le> 65559"
    using pktgen_wire_size_bounds[OF inv pcap] by blast
  let ?link = "(ucast (pi_link_speed (g_info g)) * 1000000) :: u64"
  have w8: "unat (w * 8) = unat w * 8" using w by (simp add: unat_word_ariths)
  then have nz: "w * 8 \<noteq> 0" using w(2) by (metis mult_is_0 not_numeral_le_zero unat_0 zero_neq_numeral)
  have link: "unat ?link = unat (pi_link_speed (g_info g)) * 1000000"
    using unsigned_less[where 'a = nat, of "pi_link_speed (g_info g)"]
    by (simp add: unat_word_ariths unsigned_ucast_eq take_bit_eq_mod)
  obtain g' where g': "pktgen_packet_rate g = Inr g'" "pi_tx_pps (g_info g') = ?link div (w * 8)"
    using w(1) nz full by (simp add: pktgen_packet_rate_def Let_def upd_info_def)
  have "unat (pi_tx_pps (g_info g')) = unat ?link div (unat w * 8)" using g'(2) w8 by (simp add: unat_div)
  moreover have "n div d * d \<le> n" "n < (n div d + 1) * d" if "0 < d" for n d :: nat
    using that dividend_less_div_times[OF that, of n] by simp_all
  ultimately show ?thesis using g'(1) w link by (metis mult_pos_pos not_gr0 not_numeral_le_zero zero_less_numeral)
qed

theorem packet_rate_fills_link_witness:
  "\<exists>g' w. pktgen_packet_rate example_port = Inr g' \<and> pktgen_wire_size (g_info example_port) = Inr w \<and>
    unat (pi_tx_pps (g_info g')) * (unat w * 8) \<le> 10000 * 1000000 \<and> 10000 * 1000000 < (unat (pi_tx_pps (g_info g')) + 1) * (unat w * 8)"
proof -
  have "pi_tx_rate (g_info example_port) = 100" "g_scale example_port = (\<lambda>q r. q)" "pi_link_speed (g_info example_port) = 10000"
    by (simp_all add: example_port_def example_info_def)
  then show ?thesis using packet_rate_fills_link[OF example_port_inv, of "\<lambda>q r. q"] by (auto simp: pktgen_tst_port_flags_def)
qed

end
