(* ===== verification/Range.thy ===== *)
theory Range
  imports Cmds
begin

text \<open>
  The range generator (app/pktgen-range.c). \<open>pktgen_range_ctor\<close> moves every field of the range
  packet one increment on and wraps it at the limits of its range; three function-static flags
  remember whether the first VLAN, CoS and ToS increments have been made. The locale
  \<open>range_cycle\<close> states what one field promises, a cycle through its range, and is interpreted on
  \<open>pktgen_range_ctor\<close> for each field that is a plain counter.
\<close>

section \<open>Wrapping one field\<close>

text \<open>
  The two shapes of the source: two independent tests for the ports, the TTL and the tunnel
  identifier, and a test with \<open>else\<close> for the other fields.
\<close>

definition wrap_if :: "'a :: len word \<Rightarrow> 'a word \<Rightarrow> 'a word \<Rightarrow> 'a word" where
  "wrap_if mn mx p = (let q = (if p < mn then mx else p) in if q > mx then mn else q)"

definition wrap_else :: "'a :: len word \<Rightarrow> 'a word \<Rightarrow> 'a word \<Rightarrow> 'a word" where
  "wrap_else mn mx p = (if p < mn then mx else if p > mx then mn else p)"

section \<open>The range packet\<close>

record range_statics =
  min_vlan_set :: bool
  min_cos_set :: bool
  min_tos_set :: bool

definition range_gtpu :: "range_info \<Rightarrow> pkt_seq \<Rightarrow> pkt_seq" where
  "range_gtpu r p =
     (if pk_dport p = PG_IPPROTO_L4_GTPU_PORT then
        if rg_gtpu_teid_inc r \<noteq> 0
        then p\<lparr>pk_gtpu_teid := wrap_if (rg_gtpu_teid_min r) (rg_gtpu_teid_max r) (pk_gtpu_teid p + rg_gtpu_teid_inc r)\<rparr>
        else p\<lparr>pk_gtpu_teid := rg_gtpu_teid r\<rparr>
      else p)"

definition range_ports :: "range_info \<Rightarrow> pkt_seq \<Rightarrow> pkt_seq" where
  "range_ports r p =
     p\<lparr>pk_sport := (if rg_src_port_inc r \<noteq> 0
          then wrap_if (rg_src_port_min r) (rg_src_port_max r) (pk_sport p + rg_src_port_inc r) else rg_src_port r),
       pk_dport := (if rg_dst_port_inc r \<noteq> 0
          then wrap_if (rg_dst_port_min r) (rg_dst_port_max r) (pk_dport p + rg_dst_port_inc r) else rg_dst_port r)\<rparr>"

definition range_ip :: "range_info \<Rightarrow> pkt_seq \<Rightarrow> pkt_seq" where
  "range_ip r p =
     p\<lparr>pk_ttl := (if rg_ttl_inc r \<noteq> 0
          then wrap_if (rg_ttl_min r) (rg_ttl_max r) (pk_ttl p + rg_ttl_inc r) else rg_ttl r),
       pk_ip_src := (if rg_src_ip_inc r \<noteq> 0
          then wrap_else (rg_src_ip_min r) (rg_src_ip_max r) (pk_ip_src p + rg_src_ip_inc r) else rg_src_ip r),
       pk_ip_dst := (if rg_dst_ip_inc r \<noteq> 0
          then wrap_else (rg_dst_ip_min r) (rg_dst_ip_max r) (pk_ip_dst p + rg_dst_ip_inc r) else rg_dst_ip r)\<rparr>"

text \<open>
  VLAN, CoS, ToS: the sum is made in 32 bits; the first time the field has its least legal value
  it counts as zero.
\<close>

definition range_vlan :: "range_info \<Rightarrow> pkt_seq \<times> range_statics \<Rightarrow> pkt_seq \<times> range_statics" where
  "range_vlan r = (\<lambda>(p, s).
     if rg_vlan_id_inc r \<noteq> 0 then
       let first = (pk_vlanid p = 1 \<and> \<not> min_vlan_set s);
           v = (if first then 0 else ucast (pk_vlanid p)) :: u32
       in (p\<lparr>pk_vlanid := ucast (wrap_else (ucast (rg_vlan_id_min r)) (ucast (rg_vlan_id_max r)) (v + ucast (rg_vlan_id_inc r)))\<rparr>,
           if first then s\<lparr>min_vlan_set := True\<rparr> else s)
     else (p\<lparr>pk_vlanid := rg_vlan_id r\<rparr>, s))"

definition range_cos :: "range_info \<Rightarrow> pkt_seq \<times> range_statics \<Rightarrow> pkt_seq \<times> range_statics" where
  "range_cos r = (\<lambda>(p, s).
     if rg_cos_inc r \<noteq> 0 then
       let first = (pk_cos p = 0 \<and> \<not> min_cos_set s);
           v = (if first then 0 else ucast (pk_cos p)) :: u32
       in (p\<lparr>pk_cos := ucast (wrap_else (ucast (rg_cos_min r)) (ucast (rg_cos_max r)) (v + ucast (rg_cos_inc r)))\<rparr>,
           if first then s\<lparr>min_cos_set := True\<rparr> else s)
     else (p\<lparr>pk_cos := rg_cos r\<rparr>, s))"

definition range_tos :: "range_info \<Rightarrow> pkt_seq \<times> range_statics \<Rightarrow> pkt_seq \<times> range_statics" where
  "range_tos r = (\<lambda>(p, s).
     if rg_tos_inc r \<noteq> 0 then
       let first = (pk_tos p = 0 \<and> \<not> min_tos_set s);
           v = (if first then 0 else ucast (pk_tos p)) :: u32
       in (p\<lparr>pk_tos := ucast (wrap_else (ucast (rg_tos_min r)) (ucast (rg_tos_max r)) (v + ucast (rg_tos_inc r)))\<rparr>,
           if first then s\<lparr>min_tos_set := True\<rparr> else s)
     else (p\<lparr>pk_tos := rg_tos r\<rparr>, s))"

definition range_size :: "range_info \<Rightarrow> pkt_seq \<Rightarrow> pkt_seq" where
  "range_size r p =
     (if rg_pkt_size_inc r \<noteq> 0
      then p\<lparr>pk_pktSize := ucast (wrap_else (ucast (rg_pkt_size_min r)) (ucast (rg_pkt_size_max r))
               (ucast (pk_pktSize p) + ucast (rg_pkt_size_inc r) :: u32))\<rparr>
      else p\<lparr>pk_pktSize := rg_pkt_size r\<rparr>)"

definition range_macs :: "range_info \<Rightarrow> pkt_seq \<Rightarrow> pkt_seq" where
  "range_macs r p =
     p\<lparr>pk_eth_src := (if rg_src_mac_inc r \<noteq> 0
          then inet_h64tom (wrap_else (rg_src_mac_min r) (rg_src_mac_max r) (inet_mtoh64 (pk_eth_src p) + rg_src_mac_inc r))
          else inet_h64tom (rg_src_mac r)),
       pk_eth_dst := (if rg_dst_mac_inc r \<noteq> 0
          then inet_h64tom (wrap_else (rg_dst_mac_min r) (rg_dst_mac_max r) (inet_mtoh64 (pk_eth_dst p) + rg_dst_mac_inc r))
          else inet_h64tom (rg_dst_mac r))\<rparr>"

text \<open>
  The VXLAN identifier: the source adds the increment of the group identifier and stores the
  result as the group identifier.
\<close>

definition range_vxlan :: "range_info \<Rightarrow> pkt_seq \<Rightarrow> pkt_seq" where
  "range_vxlan r p =
     (let p1 = (if rg_vxlan_gid_inc r \<noteq> 0
                then p\<lparr>pk_group_id := ucast (wrap_else (rg_vxlan_gid_min r) (rg_vxlan_gid_max r)
                         (ucast (pk_group_id p) + rg_vxlan_gid_inc r))\<rparr>
                else p\<lparr>pk_group_id := ucast (rg_vxlan_gid r)\<rparr>)
      in if rg_vxlan_vid_inc r \<noteq> 0
         then p1\<lparr>pk_group_id := ucast (wrap_else (rg_vxlan_vid_min r) (rg_vxlan_vid_max r)
                   (pk_vxlan_id p1 + rg_vxlan_gid_inc r))\<rparr>
         else p1\<lparr>pk_vxlan_id := rg_vxlan_vid r\<rparr>)"

definition pktgen_range_ctor :: "range_info \<Rightarrow> pkt_seq \<times> range_statics \<Rightarrow> pkt_seq \<times> range_statics" where
  "pktgen_range_ctor r = (\<lambda>(p, s).
     if pk_ethType p = PG_ETHER_TYPE_IPv4 \<and> (pk_ipProto p = PG_IPPROTO_TCP \<or> pk_ipProto p = PG_IPPROTO_UDP)
     then
       let p1 = range_ip r (range_ports r (range_gtpu r p));
           (p2, s2) = range_tos r (range_cos r (range_vlan r (p1, s)))
       in (range_vxlan r (range_macs r (range_size r p2)), s2)
     else (p, s))"

text \<open>The default ranges of a port.\<close>

definition pktgen_range_setup :: "pktgen_st \<Rightarrow> pktgen_st" where
  "pktgen_range_setup g =
     (let i = g_info g; sp = pi_seq_pkt i ! SINGLE_PKT; pid = (ucast (pi_pid i) :: u32);
          net = (\<lambda>n h. 0xC0A80000 OR push_bit 8 (n AND 0xFF) OR h) in
      set_pkt RANGE_PKT (\<lambda>p. p\<lparr>pk_pktSize := MIN_PKT_SIZE\<rparr>)
        (upd_range (\<lambda>r. r\<lparr>rg_ip_proto := pk_ipProto sp,
           rg_dst_ip := net (pid + 1) 1, rg_dst_ip_min := net (pid + 1) 1, rg_dst_ip_max := net (pid + 1) 254, rg_dst_ip_inc := 1,
           rg_src_ip := net pid 1, rg_src_ip_min := net pid 1, rg_src_ip_max := net pid 254, rg_src_ip_inc := 0,
           rg_dst_port := pk_dport sp, rg_dst_port_inc := 1, rg_dst_port_min := 0, rg_dst_port_max := 65535,
           rg_src_port := pk_sport sp, rg_src_port_inc := 1, rg_src_port_min := 0, rg_src_port_max := 65535,
           rg_ttl := pk_ttl sp, rg_ttl_inc := 0, rg_ttl_min := 0, rg_ttl_max := 255,
           rg_vlan_id := pk_vlanid sp, rg_vlan_id_inc := 0, rg_vlan_id_min := 1, rg_vlan_id_max := 4095,
           rg_cos := pk_cos sp, rg_cos_inc := 0, rg_cos_min := 0, rg_cos_max := 7,
           rg_tos := pk_tos sp, rg_tos_inc := 0, rg_tos_min := 0, rg_tos_max := 255,
           rg_pkt_size := MIN_PKT_SIZE, rg_pkt_size_inc := 0, rg_pkt_size_min := MIN_PKT_SIZE, rg_pkt_size_max := MAX_PKT_SIZE,
           rg_vxlan_gid := ucast (pk_group_id sp), rg_vxlan_gid_inc := 0, rg_vxlan_gid_min := 0, rg_vxlan_gid_max := 65535,
           rg_vxlan_vid := pk_vxlan_id sp, rg_vxlan_vid_inc := 0, rg_vxlan_vid_min := 0, rg_vxlan_vid_max := 65535,
           rg_vni_flags := ucast (pi_vni_flags i),
           rg_dst_mac := inet_mtoh64 (pk_eth_dst sp), rg_dst_mac_inc := 0, rg_dst_mac_min := 0, rg_dst_mac_max := 0,
           rg_src_mac := inet_mtoh64 (pk_eth_src sp), rg_src_mac_inc := 0, rg_src_mac_min := 0, rg_src_mac_max := 0\<rparr>) g))"

section \<open>Which fields each part changes\<close>

lemma range_gtpu_keeps [simp]:
  "pk_sport (range_gtpu r p) = pk_sport p" "pk_dport (range_gtpu r p) = pk_dport p"
  "pk_ttl (range_gtpu r p) = pk_ttl p" "pk_ip_src (range_gtpu r p) = pk_ip_src p"
  "pk_ip_dst (range_gtpu r p) = pk_ip_dst p" "pk_vlanid (range_gtpu r p) = pk_vlanid p"
  "pk_cos (range_gtpu r p) = pk_cos p" "pk_tos (range_gtpu r p) = pk_tos p"
  "pk_pktSize (range_gtpu r p) = pk_pktSize p" "pk_eth_src (range_gtpu r p) = pk_eth_src p"
  "pk_eth_dst (range_gtpu r p) = pk_eth_dst p" "pk_ethType (range_gtpu r p) = pk_ethType p"
  "pk_ipProto (range_gtpu r p) = pk_ipProto p" "pk_hdr (range_gtpu r p) = pk_hdr p"
  by (simp_all add: range_gtpu_def Let_def)

lemma range_ports_keeps [simp]:
  "pk_ttl (range_ports r p) = pk_ttl p" "pk_ip_src (range_ports r p) = pk_ip_src p"
  "pk_ip_dst (range_ports r p) = pk_ip_dst p" "pk_vlanid (range_ports r p) = pk_vlanid p"
  "pk_cos (range_ports r p) = pk_cos p" "pk_tos (range_ports r p) = pk_tos p"
  "pk_pktSize (range_ports r p) = pk_pktSize p" "pk_eth_src (range_ports r p) = pk_eth_src p"
  "pk_eth_dst (range_ports r p) = pk_eth_dst p" "pk_ethType (range_ports r p) = pk_ethType p"
  "pk_ipProto (range_ports r p) = pk_ipProto p" "pk_hdr (range_ports r p) = pk_hdr p"
  by (simp_all add: range_ports_def Let_def)

lemma range_ip_keeps [simp]:
  "pk_sport (range_ip r p) = pk_sport p" "pk_dport (range_ip r p) = pk_dport p"
  "pk_vlanid (range_ip r p) = pk_vlanid p" "pk_cos (range_ip r p) = pk_cos p" "pk_tos (range_ip r p) = pk_tos p"
  "pk_pktSize (range_ip r p) = pk_pktSize p" "pk_eth_src (range_ip r p) = pk_eth_src p"
  "pk_eth_dst (range_ip r p) = pk_eth_dst p" "pk_ethType (range_ip r p) = pk_ethType p"
  "pk_ipProto (range_ip r p) = pk_ipProto p" "pk_hdr (range_ip r p) = pk_hdr p"
  by (simp_all add: range_ip_def Let_def)

lemma range_size_keeps [simp]:
  "pk_sport (range_size r p) = pk_sport p" "pk_dport (range_size r p) = pk_dport p"
  "pk_ttl (range_size r p) = pk_ttl p" "pk_ip_src (range_size r p) = pk_ip_src p"
  "pk_ip_dst (range_size r p) = pk_ip_dst p" "pk_vlanid (range_size r p) = pk_vlanid p"
  "pk_cos (range_size r p) = pk_cos p" "pk_tos (range_size r p) = pk_tos p"
  "pk_eth_src (range_size r p) = pk_eth_src p" "pk_eth_dst (range_size r p) = pk_eth_dst p"
  "pk_ethType (range_size r p) = pk_ethType p" "pk_ipProto (range_size r p) = pk_ipProto p"
  "pk_hdr (range_size r p) = pk_hdr p"
  by (simp_all add: range_size_def Let_def)

lemma range_macs_keeps [simp]:
  "pk_sport (range_macs r p) = pk_sport p" "pk_dport (range_macs r p) = pk_dport p"
  "pk_ttl (range_macs r p) = pk_ttl p" "pk_ip_src (range_macs r p) = pk_ip_src p"
  "pk_ip_dst (range_macs r p) = pk_ip_dst p" "pk_vlanid (range_macs r p) = pk_vlanid p"
  "pk_cos (range_macs r p) = pk_cos p" "pk_tos (range_macs r p) = pk_tos p"
  "pk_pktSize (range_macs r p) = pk_pktSize p" "pk_ethType (range_macs r p) = pk_ethType p"
  "pk_ipProto (range_macs r p) = pk_ipProto p" "pk_hdr (range_macs r p) = pk_hdr p"
  by (simp_all add: range_macs_def Let_def)

lemma range_vxlan_keeps [simp]:
  "pk_sport (range_vxlan r p) = pk_sport p" "pk_dport (range_vxlan r p) = pk_dport p"
  "pk_ttl (range_vxlan r p) = pk_ttl p" "pk_ip_src (range_vxlan r p) = pk_ip_src p"
  "pk_ip_dst (range_vxlan r p) = pk_ip_dst p" "pk_vlanid (range_vxlan r p) = pk_vlanid p"
  "pk_cos (range_vxlan r p) = pk_cos p" "pk_tos (range_vxlan r p) = pk_tos p"
  "pk_pktSize (range_vxlan r p) = pk_pktSize p" "pk_eth_src (range_vxlan r p) = pk_eth_src p"
  "pk_eth_dst (range_vxlan r p) = pk_eth_dst p" "pk_ethType (range_vxlan r p) = pk_ethType p"
  "pk_ipProto (range_vxlan r p) = pk_ipProto p" "pk_hdr (range_vxlan r p) = pk_hdr p"
  by (simp_all add: range_vxlan_def Let_def)

lemma range_vlan_keeps [simp]:
  "pk_sport (fst (range_vlan r ps)) = pk_sport (fst ps)" "pk_dport (fst (range_vlan r ps)) = pk_dport (fst ps)"
  "pk_ttl (fst (range_vlan r ps)) = pk_ttl (fst ps)" "pk_ip_src (fst (range_vlan r ps)) = pk_ip_src (fst ps)"
  "pk_ip_dst (fst (range_vlan r ps)) = pk_ip_dst (fst ps)" "pk_cos (fst (range_vlan r ps)) = pk_cos (fst ps)"
  "pk_tos (fst (range_vlan r ps)) = pk_tos (fst ps)" "pk_pktSize (fst (range_vlan r ps)) = pk_pktSize (fst ps)"
  "pk_eth_src (fst (range_vlan r ps)) = pk_eth_src (fst ps)" "pk_eth_dst (fst (range_vlan r ps)) = pk_eth_dst (fst ps)"
  "pk_ethType (fst (range_vlan r ps)) = pk_ethType (fst ps)" "pk_ipProto (fst (range_vlan r ps)) = pk_ipProto (fst ps)"
  "pk_hdr (fst (range_vlan r ps)) = pk_hdr (fst ps)"
  by (simp_all add: range_vlan_def Let_def case_prod_beta)

lemma range_cos_keeps [simp]:
  "pk_sport (fst (range_cos r ps)) = pk_sport (fst ps)" "pk_dport (fst (range_cos r ps)) = pk_dport (fst ps)"
  "pk_ttl (fst (range_cos r ps)) = pk_ttl (fst ps)" "pk_ip_src (fst (range_cos r ps)) = pk_ip_src (fst ps)"
  "pk_ip_dst (fst (range_cos r ps)) = pk_ip_dst (fst ps)" "pk_vlanid (fst (range_cos r ps)) = pk_vlanid (fst ps)"
  "pk_tos (fst (range_cos r ps)) = pk_tos (fst ps)" "pk_pktSize (fst (range_cos r ps)) = pk_pktSize (fst ps)"
  "pk_eth_src (fst (range_cos r ps)) = pk_eth_src (fst ps)" "pk_eth_dst (fst (range_cos r ps)) = pk_eth_dst (fst ps)"
  "pk_ethType (fst (range_cos r ps)) = pk_ethType (fst ps)" "pk_ipProto (fst (range_cos r ps)) = pk_ipProto (fst ps)"
  "pk_hdr (fst (range_cos r ps)) = pk_hdr (fst ps)"
  by (simp_all add: range_cos_def Let_def case_prod_beta)

lemma range_tos_keeps [simp]:
  "pk_sport (fst (range_tos r ps)) = pk_sport (fst ps)" "pk_dport (fst (range_tos r ps)) = pk_dport (fst ps)"
  "pk_ttl (fst (range_tos r ps)) = pk_ttl (fst ps)" "pk_ip_src (fst (range_tos r ps)) = pk_ip_src (fst ps)"
  "pk_ip_dst (fst (range_tos r ps)) = pk_ip_dst (fst ps)" "pk_vlanid (fst (range_tos r ps)) = pk_vlanid (fst ps)"
  "pk_cos (fst (range_tos r ps)) = pk_cos (fst ps)" "pk_pktSize (fst (range_tos r ps)) = pk_pktSize (fst ps)"
  "pk_eth_src (fst (range_tos r ps)) = pk_eth_src (fst ps)" "pk_eth_dst (fst (range_tos r ps)) = pk_eth_dst (fst ps)"
  "pk_ethType (fst (range_tos r ps)) = pk_ethType (fst ps)" "pk_ipProto (fst (range_tos r ps)) = pk_ipProto (fst ps)"
  "pk_hdr (fst (range_tos r ps)) = pk_hdr (fst ps)"
  by (simp_all add: range_tos_def Let_def case_prod_beta)


definition range_active :: "pkt_seq \<Rightarrow> bool" where
  "range_active p \<longleftrightarrow> pk_ethType p = PG_ETHER_TYPE_IPv4 \<and> (pk_ipProto p = PG_IPPROTO_TCP \<or> pk_ipProto p = PG_IPPROTO_UDP)"

lemma pktgen_range_ctor_fields:
  assumes "range_active p"
  shows "pk_sport (fst (pktgen_range_ctor r (p, s))) = pk_sport (range_ports r p)"
    "pk_dport (fst (pktgen_range_ctor r (p, s))) = pk_dport (range_ports r p)"
    "pk_ttl (fst (pktgen_range_ctor r (p, s))) = pk_ttl (range_ip r p)"
    "pk_ip_src (fst (pktgen_range_ctor r (p, s))) = pk_ip_src (range_ip r p)"
    "pk_ip_dst (fst (pktgen_range_ctor r (p, s))) = pk_ip_dst (range_ip r p)"
    "pk_pktSize (fst (pktgen_range_ctor r (p, s))) = pk_pktSize (range_size r p)"
    "length (pk_eth_src (fst (pktgen_range_ctor r (p, s)))) = 6"
    "length (pk_eth_dst (fst (pktgen_range_ctor r (p, s)))) = 6"
    "pk_hdr (fst (pktgen_range_ctor r (p, s))) = pk_hdr p"
    "range_active (fst (pktgen_range_ctor r (p, s)))"
proof -
  let ?p1 = "range_ip r (range_ports r (range_gtpu r p))"
  let ?ps = "range_tos r (range_cos r (range_vlan r (?p1, s)))"
  have c: "fst (pktgen_range_ctor r (p, s)) = range_vxlan r (range_macs r (range_size r (fst ?ps)))"
    using assms by (simp add: pktgen_range_ctor_def range_active_def Let_def case_prod_beta)
  show "pk_sport (fst (pktgen_range_ctor r (p, s))) = pk_sport (range_ports r p)"
    "pk_dport (fst (pktgen_range_ctor r (p, s))) = pk_dport (range_ports r p)"
    unfolding c by (simp_all, simp_all add: range_ports_def)
  show "pk_ttl (fst (pktgen_range_ctor r (p, s))) = pk_ttl (range_ip r p)"
    "pk_ip_src (fst (pktgen_range_ctor r (p, s))) = pk_ip_src (range_ip r p)"
    "pk_ip_dst (fst (pktgen_range_ctor r (p, s))) = pk_ip_dst (range_ip r p)"
    unfolding c by (simp_all, simp_all add: range_ip_def)
  show "pk_pktSize (fst (pktgen_range_ctor r (p, s))) = pk_pktSize (range_size r p)"
    unfolding c by (simp, simp add: range_size_def)
  show "length (pk_eth_src (fst (pktgen_range_ctor r (p, s)))) = 6" "length (pk_eth_dst (fst (pktgen_range_ctor r (p, s)))) = 6"
    unfolding c by (simp_all, simp_all add: range_macs_def inet_h64tom_def)
  show "pk_hdr (fst (pktgen_range_ctor r (p, s))) = pk_hdr p" "range_active (fst (pktgen_range_ctor r (p, s)))"
    unfolding c range_active_def using assms by (simp_all add: range_active_def)
qed

section \<open>A field cycles through its range\<close>

locale range_cycle =
  fixes step :: "'s \<Rightarrow> 's" and val mn mx inc :: "'s \<Rightarrow> nat" and ok :: "'s \<Rightarrow> bool"
  assumes ok_step: "ok s \<Longrightarrow> ok (step s)"
    and limits: "ok s \<Longrightarrow> mn (step s) = mn s \<and> mx (step s) = mx s \<and> inc (step s) = inc s"
    and in_range: "ok s \<Longrightarrow> mn s \<le> val s \<and> val s \<le> mx s \<and> 0 < inc s"
    and step_val: "ok s \<Longrightarrow> val (step s) = (if val s + inc s \<le> mx s then val s + inc s else mn s)"
begin

definition period :: "'s \<Rightarrow> nat" where
  "period s = (mx s - mn s) div inc s + 1"

lemma iter_ok: "ok s \<Longrightarrow> ok ((step ^^ k) s) \<and> mn ((step ^^ k) s) = mn s \<and> mx ((step ^^ k) s) = mx s \<and> inc ((step ^^ k) s) = inc s"
  by (induction k) (auto simp: ok_step limits)

lemma iter_in_range: "ok s \<Longrightarrow> mn s \<le> val ((step ^^ k) s) \<and> val ((step ^^ k) s) \<le> mx s"
  using iter_ok[of s k] in_range[of "(step ^^ k) s"] by simp

lemma below_period: "ok s \<Longrightarrow> mn s + inc s * j \<le> mx s \<longleftrightarrow> j < period s"
  using in_range[of s] by (auto simp: period_def less_Suc_eq_le less_eq_div_iff_mult_less_eq mult.commute)

lemma iter_cycle:
  assumes "ok s" "val s = mn s"
  shows "val ((step ^^ k) s) = mn s + inc s * (k mod period s)"
proof (induction k)
  case 0
  then show ?case using assms by simp
next
  case (Suc k)
  let ?j = "k mod period s"
  have v: "val ((step ^^ Suc k) s) = (if mn s + inc s * Suc ?j \<le> mx s then mn s + inc s * Suc ?j else mn s)"
    using step_val[of "(step ^^ k) s"] iter_ok[OF assms(1), of k] Suc by (simp add: algebra_simps)
  have "?j < period s" by (simp add: period_def)
  then have "Suc k mod period s = (if Suc ?j < period s then Suc ?j else 0)" by (auto simp: mod_Suc)
  then show ?case unfolding v using below_period[OF assms(1), of "Suc ?j"] by auto
qed

end

definition range_next :: "range_info \<times> pkt_seq \<times> range_statics \<Rightarrow> range_info \<times> pkt_seq \<times> range_statics" where
  "range_next = (\<lambda>(r, ps). (r, pktgen_range_ctor r ps))"

definition field_ok :: "nat \<Rightarrow> nat \<Rightarrow> nat \<Rightarrow> nat \<Rightarrow> nat \<Rightarrow> bool" where
  "field_ok w v mn mx inc \<longleftrightarrow> mn \<le> v \<and> v \<le> mx \<and> 0 < inc \<and> mx + inc < 2 ^ w"

definition cyc :: "nat \<Rightarrow> nat \<Rightarrow> nat \<Rightarrow> nat \<Rightarrow> nat" where
  "cyc v mn mx inc = (if v + inc \<le> mx then v + inc else mn)"

lemma wrap_step:
  fixes v :: "'a :: len word"
  assumes "field_ok LENGTH('a) (unat v) (unat mn) (unat mx) (unat inc)"
  shows "unat (wrap_if mn mx (v + inc)) = cyc (unat v) (unat mn) (unat mx) (unat inc)"
    and "unat (wrap_else mn mx (v + inc)) = cyc (unat v) (unat mn) (unat mx) (unat inc)"
proof -
  have "unat (v + inc) = unat v + unat inc" using assms by (simp add: field_ok_def unat_word_ariths)
  then show "unat (wrap_if mn mx (v + inc)) = cyc (unat v) (unat mn) (unat mx) (unat inc)"
    "unat (wrap_else mn mx (v + inc)) = cyc (unat v) (unat mn) (unat mx) (unat inc)"
    using assms by (auto simp: wrap_if_def wrap_else_def Let_def word_less_nat_alt field_ok_def cyc_def)
qed

lemma field_ok_next: "field_ok w v mn mx inc \<Longrightarrow> field_ok w (cyc v mn mx inc) mn mx inc"
  by (auto simp: field_ok_def cyc_def)

lemma field_ok_nonzero: "field_ok w v mn mx (unat (x :: 'b :: len word)) \<Longrightarrow> x \<noteq> 0"
  by (auto simp: field_ok_def)

lemma unat_ucast_16_32: "unat (ucast (x :: u16) :: u32) = unat x"
  using unsigned_less[where 'a = nat, of x] by (simp add: unsigned_ucast_eq take_bit_eq_mod)

lemma wrap_step_wide:
  fixes v mn mx inc :: u16
  assumes "field_ok 32 (unat v) (unat mn) (unat mx) (unat inc)"
  shows "unat (ucast (wrap_else (ucast mn) (ucast mx) (ucast v + ucast inc :: u32)) :: u16) = cyc (unat v) (unat mn) (unat mx) (unat inc)"
proof -
  have "unat (wrap_else (ucast mn) (ucast mx) (ucast v + ucast inc :: u32)) = cyc (unat v) (unat mn) (unat mx) (unat inc)"
    using wrap_step(2)[of "ucast v :: u32" "ucast mn" "ucast mx" "ucast inc"] assms by (simp add: unat_ucast_16_32)
  moreover have "cyc (unat v) (unat mn) (unat mx) (unat inc) < 65536"
    using assms unsigned_less[where 'a = nat, of mx] by (auto simp: cyc_def field_ok_def)
  ultimately show ?thesis by (simp add: unsigned_ucast_eq take_bit_eq_mod)
qed

text \<open>
  The counters of the range packet: for each, its value, limits and increment, and the condition
  that the range is legal, the value lies in it and no addition wraps around.
\<close>

definition src_ip_ok :: "range_info \<times> pkt_seq \<times> range_statics \<Rightarrow> bool" where
  "src_ip_ok = (\<lambda>(r, p, s). range_active p \<and>
     field_ok 32 (unat (pk_ip_src p)) (unat (rg_src_ip_min r)) (unat (rg_src_ip_max r)) (unat (rg_src_ip_inc r)))"

definition dst_ip_ok :: "range_info \<times> pkt_seq \<times> range_statics \<Rightarrow> bool" where
  "dst_ip_ok = (\<lambda>(r, p, s). range_active p \<and>
     field_ok 32 (unat (pk_ip_dst p)) (unat (rg_dst_ip_min r)) (unat (rg_dst_ip_max r)) (unat (rg_dst_ip_inc r)))"

definition src_port_ok :: "range_info \<times> pkt_seq \<times> range_statics \<Rightarrow> bool" where
  "src_port_ok = (\<lambda>(r, p, s). range_active p \<and>
     field_ok 16 (unat (pk_sport p)) (unat (rg_src_port_min r)) (unat (rg_src_port_max r)) (unat (rg_src_port_inc r)))"

definition dst_port_ok :: "range_info \<times> pkt_seq \<times> range_statics \<Rightarrow> bool" where
  "dst_port_ok = (\<lambda>(r, p, s). range_active p \<and>
     field_ok 16 (unat (pk_dport p)) (unat (rg_dst_port_min r)) (unat (rg_dst_port_max r)) (unat (rg_dst_port_inc r)))"

definition ttl_ok :: "range_info \<times> pkt_seq \<times> range_statics \<Rightarrow> bool" where
  "ttl_ok = (\<lambda>(r, p, s). range_active p \<and>
     field_ok 8 (unat (pk_ttl p)) (unat (rg_ttl_min r)) (unat (rg_ttl_max r)) (unat (rg_ttl_inc r)))"

definition size_ok :: "range_info \<times> pkt_seq \<times> range_statics \<Rightarrow> bool" where
  "size_ok = (\<lambda>(r, p, s). range_active p \<and>
     field_ok 32 (unat (pk_pktSize p)) (unat (rg_pkt_size_min r)) (unat (rg_pkt_size_max r)) (unat (rg_pkt_size_inc r)))"

lemma range_next_simps [simp]:
  "fst (range_next x) = fst x" "snd (range_next (r, p, s)) = pktgen_range_ctor r (p, s)"
  by (simp_all add: range_next_def case_prod_beta)

lemma range_counter:
  assumes ok: "\<And>r p s. ok (r, p, s) \<longleftrightarrow> range_active p \<and> field_ok w (v p) (mn r) (mx r) (inc r)"
    and nxt: "\<And>r p s. ok (r, p, s) \<Longrightarrow> v (fst (pktgen_range_ctor r (p, s))) = cyc (v p) (mn r) (mx r) (inc r)"
  shows "range_cycle range_next (\<lambda>(r, p, s). v p) (\<lambda>(r, p, s). mn r) (\<lambda>(r, p, s). mx r) (\<lambda>(r, p, s). inc r) ok"
proof
  fix x :: "range_info \<times> pkt_seq \<times> range_statics" assume "ok x"
  moreover obtain r p s where x: "x = (r, p, s)" by (cases x)
  ultimately have h: "ok (r, p, s)" by simp
  then have f: "range_active p" "field_ok w (v p) (mn r) (mx r) (inc r)" by (simp_all add: ok)
  obtain p' s' where n: "pktgen_range_ctor r (p, s) = (p', s')" by (cases "pktgen_range_ctor r (p, s)")
  note v' = nxt[OF h, unfolded n fst_conv] pktgen_range_ctor_fields(10)[OF f(1), of r s, unfolded n fst_conv]
  show "ok (range_next x)" using field_ok_next[OF f(2)] v' by (simp add: x range_next_def n ok)
  show "(\<lambda>(r, p, s). mn r) (range_next x) = (\<lambda>(r, p, s). mn r) x \<and> (\<lambda>(r, p, s). mx r) (range_next x) = (\<lambda>(r, p, s). mx r) x \<and>
      (\<lambda>(r, p, s). inc r) (range_next x) = (\<lambda>(r, p, s). inc r) x"
    by (simp add: x range_next_def n)
  show "(\<lambda>(r, p, s). mn r) x \<le> (\<lambda>(r, p, s). v p) x \<and> (\<lambda>(r, p, s). v p) x \<le> (\<lambda>(r, p, s). mx r) x \<and> 0 < (\<lambda>(r, p, s). inc r) x"
    using f(2) by (simp add: x field_ok_def)
  show "(\<lambda>(r, p, s). v p) (range_next x) = (if (\<lambda>(r, p, s). v p) x + (\<lambda>(r, p, s). inc r) x \<le> (\<lambda>(r, p, s). mx r) x
      then (\<lambda>(r, p, s). v p) x + (\<lambda>(r, p, s). inc r) x else (\<lambda>(r, p, s). mn r) x)"
    using v'(1) by (simp add: x range_next_def n cyc_def)
qed

interpretation src_ip: range_cycle range_next "\<lambda>(r, p, s). unat (pk_ip_src p)"
  "\<lambda>(r, p, s). unat (rg_src_ip_min r)" "\<lambda>(r, p, s). unat (rg_src_ip_max r)" "\<lambda>(r, p, s). unat (rg_src_ip_inc r)" src_ip_ok
  by (rule range_counter[where w = 32])
     (auto simp: src_ip_ok_def pktgen_range_ctor_fields range_ip_def wrap_step[where 'a = 32, simplified] dest: field_ok_nonzero)

interpretation dst_ip: range_cycle range_next "\<lambda>(r, p, s). unat (pk_ip_dst p)"
  "\<lambda>(r, p, s). unat (rg_dst_ip_min r)" "\<lambda>(r, p, s). unat (rg_dst_ip_max r)" "\<lambda>(r, p, s). unat (rg_dst_ip_inc r)" dst_ip_ok
  by (rule range_counter[where w = 32])
     (auto simp: dst_ip_ok_def pktgen_range_ctor_fields range_ip_def wrap_step[where 'a = 32, simplified] dest: field_ok_nonzero)

interpretation src_port: range_cycle range_next "\<lambda>(r, p, s). unat (pk_sport p)"
  "\<lambda>(r, p, s). unat (rg_src_port_min r)" "\<lambda>(r, p, s). unat (rg_src_port_max r)" "\<lambda>(r, p, s). unat (rg_src_port_inc r)" src_port_ok
  by (rule range_counter[where w = 16])
     (auto simp: src_port_ok_def pktgen_range_ctor_fields range_ports_def wrap_step[where 'a = 16, simplified] dest: field_ok_nonzero)

interpretation dst_port: range_cycle range_next "\<lambda>(r, p, s). unat (pk_dport p)"
  "\<lambda>(r, p, s). unat (rg_dst_port_min r)" "\<lambda>(r, p, s). unat (rg_dst_port_max r)" "\<lambda>(r, p, s). unat (rg_dst_port_inc r)" dst_port_ok
  by (rule range_counter[where w = 16])
     (auto simp: dst_port_ok_def pktgen_range_ctor_fields range_ports_def wrap_step[where 'a = 16, simplified] dest: field_ok_nonzero)

interpretation ttl: range_cycle range_next "\<lambda>(r, p, s). unat (pk_ttl p)"
  "\<lambda>(r, p, s). unat (rg_ttl_min r)" "\<lambda>(r, p, s). unat (rg_ttl_max r)" "\<lambda>(r, p, s). unat (rg_ttl_inc r)" ttl_ok
  by (rule range_counter[where w = 8])
     (auto simp: ttl_ok_def pktgen_range_ctor_fields range_ip_def wrap_step[where 'a = 8, simplified] dest: field_ok_nonzero)

interpretation size: range_cycle range_next "\<lambda>(r, p, s). unat (pk_pktSize p)"
  "\<lambda>(r, p, s). unat (rg_pkt_size_min r)" "\<lambda>(r, p, s). unat (rg_pkt_size_max r)" "\<lambda>(r, p, s). unat (rg_pkt_size_inc r)" size_ok
  by (rule range_counter[where w = 32])
     (auto simp: size_ok_def pktgen_range_ctor_fields range_size_def wrap_step_wide dest: field_ok_nonzero)

section \<open>Properties\<close>

text \<open>
  C6: a range packet that starts at the least destination address and destination port of its
  ranges walks through each range in steps of its increment and starts again at the least value:
  after \<open>k\<close> packets a field is its minimum plus the increment times \<open>k\<close> modulo the number of
  values, as long as no addition wraps around the field's width.
\<close>

theorem range_cycles:
  assumes "range_active p"
    and "rg_dst_ip_min r \<le> rg_dst_ip_max r" "rg_dst_ip_inc r \<noteq> 0" "unat (rg_dst_ip_max r) + unat (rg_dst_ip_inc r) < 2 ^ 32"
    and "rg_dst_port_min r \<le> rg_dst_port_max r" "rg_dst_port_inc r \<noteq> 0" "unat (rg_dst_port_max r) + unat (rg_dst_port_inc r) < 2 ^ 16"
    and "pk_ip_dst p = rg_dst_ip_min r" "pk_dport p = rg_dst_port_min r"
  shows "unat (pk_ip_dst (fst (snd ((range_next ^^ k) (r, p, s))))) = unat (rg_dst_ip_min r) +
      unat (rg_dst_ip_inc r) * (k mod ((unat (rg_dst_ip_max r) - unat (rg_dst_ip_min r)) div unat (rg_dst_ip_inc r) + 1)) \<and>
    unat (pk_dport (fst (snd ((range_next ^^ k) (r, p, s))))) = unat (rg_dst_port_min r) +
      unat (rg_dst_port_inc r) * (k mod ((unat (rg_dst_port_max r) - unat (rg_dst_port_min r)) div unat (rg_dst_port_inc r) + 1))"
proof -
  have nz: "0 < unat (rg_dst_ip_inc r)" "0 < unat (rg_dst_port_inc r)" using assms(3,6) by (simp_all add: unat_gt_0)
  have "dst_ip_ok (r, p, s)" "dst_port_ok (r, p, s)"
    using assms nz by (simp_all add: dst_ip_ok_def dst_port_ok_def field_ok_def word_le_nat_alt)
  from dst_ip.iter_cycle[OF this(1), of k] dst_port.iter_cycle[OF this(2), of k] show ?thesis
    using assms(8,9) by (simp add: dst_ip.period_def dst_port.period_def case_prod_beta)
qed

definition example_range :: range_info where
  "example_range = (pi_range example_info)\<lparr>rg_dst_ip_min := 10, rg_dst_ip_max := 14, rg_dst_ip_inc := 2,
     rg_dst_port_min := 100, rg_dst_port_max := 101, rg_dst_port_inc := 1\<rparr>"

theorem range_cycles_witness:
  "unat (pk_ip_dst (fst (snd ((range_next ^^ 7) (example_range, example_pkt\<lparr>pk_ip_dst := 10, pk_dport := 100\<rparr>,
      \<lparr>min_vlan_set = False, min_cos_set = False, min_tos_set = False\<rparr>))))) = 12"
  using range_cycles[of "example_pkt\<lparr>pk_ip_dst := 10, pk_dport := 100\<rparr>" example_range 7
    "\<lparr>min_vlan_set = False, min_cos_set = False, min_tos_set = False\<rparr>"]
  by (simp add: range_active_def example_pkt_def example_range_def example_info_def)

text \<open>
  A source port range that ends at the largest port number, 65535, and does not start at
  zero never starts again: the addition wraps below the minimum, which the code takes as a
  reason to use the maximum, so every further packet has port 65535.
\<close>

theorem range_src_port_sticks:
  assumes "range_active p" and "rg_src_port_max r = 65535" and "rg_src_port_inc r \<noteq> 0" and "rg_src_port_inc r \<le> rg_src_port_min r"
    and "pk_sport p = 65535"
  shows "pk_sport (fst (snd ((range_next ^^ k) (r, p, s)))) = 65535"
proof -
  have stick: "wrap_if (rg_src_port_min r) 65535 (65535 + rg_src_port_inc r) = 65535"
  proof -
    have n: "0 < unat (rg_src_port_inc r)" "unat (rg_src_port_inc r) \<le> unat (rg_src_port_min r)"
      using assms(3,4) by (simp_all add: unat_gt_0 word_le_nat_alt)
    have "unat (65535 + rg_src_port_inc r) = unat (rg_src_port_inc r) - 1"
      using n(1) unsigned_less[where 'a = nat, of "rg_src_port_inc r"] by (simp add: unat_word_ariths mod_if)
    then have "65535 + rg_src_port_inc r < rg_src_port_min r" using n by (simp add: word_less_nat_alt)
    then show ?thesis by (simp add: wrap_if_def)
  qed
  have "fst ((range_next ^^ k) (r, p, s)) = r \<and> range_active (fst (snd ((range_next ^^ k) (r, p, s)))) \<and>
      pk_sport (fst (snd ((range_next ^^ k) (r, p, s)))) = 65535"
  proof (induction k)
    case (Suc k)
    obtain p' s' where k: "(range_next ^^ k) (r, p, s) = (r, p', s')" "range_active p'" "pk_sport p' = 65535"
      using Suc by (cases "(range_next ^^ k) (r, p, s)") auto
    then show ?case
      using pktgen_range_ctor_fields(1,10)[OF k(2), of r s'] stick assms(2,3) by (simp add: range_ports_def)
  qed (use assms in simp)
  then show ?thesis by simp
qed

theorem range_src_port_sticks_witness:
  "pk_sport (fst (snd ((range_next ^^ 1000) (example_range\<lparr>rg_src_port_min := 1024, rg_src_port_max := 65535, rg_src_port_inc := 1\<rparr>,
      example_pkt\<lparr>pk_sport := 65535\<rparr>, \<lparr>min_vlan_set = False, min_cos_set = False, min_tos_set = False\<rparr>)))) = 65535"
  using range_src_port_sticks[of "example_pkt\<lparr>pk_sport := 65535\<rparr>"
    "example_range\<lparr>rg_src_port_min := 1024, rg_src_port_max := 65535, rg_src_port_inc := 1\<rparr>" 1000
    "\<lparr>min_vlan_set = False, min_cos_set = False, min_tos_set = False\<rparr>"]
  by (simp add: range_active_def example_pkt_def)

text \<open>
  When a VXLAN identifier increment is set, the identifier itself never changes; the group
  identifier is overwritten instead.
\<close>

theorem range_vxlan_id_fixed:
  assumes "range_active p" and "rg_vxlan_vid_inc r \<noteq> 0"
  shows "pk_vxlan_id (fst (pktgen_range_ctor r (p, s))) = pk_vxlan_id p \<and>
    pk_group_id (fst (pktgen_range_ctor r (p, s))) = ucast (wrap_else (rg_vxlan_vid_min r) (rg_vxlan_vid_max r) (pk_vxlan_id p + rg_vxlan_gid_inc r))"
  using assms
  by (simp add: pktgen_range_ctor_def range_active_def Let_def case_prod_beta range_vxlan_def)
     (simp add: range_macs_def range_size_def range_tos_def range_cos_def range_vlan_def range_ip_def range_ports_def range_gtpu_def
        Let_def case_prod_beta)

theorem range_vxlan_id_fixed_witness:
  "pk_vxlan_id (fst (pktgen_range_ctor (example_range\<lparr>rg_vxlan_vid_inc := 1\<rparr>) (example_pkt\<lparr>pk_vxlan_id := 7\<rparr>,
     \<lparr>min_vlan_set = False, min_cos_set = False, min_tos_set = False\<rparr>))) = 7"
  using range_vxlan_id_fixed[of "example_pkt\<lparr>pk_vxlan_id := 7\<rparr>" "example_range\<lparr>rg_vxlan_vid_inc := 1\<rparr>"
    "\<lparr>min_vlan_set = False, min_cos_set = False, min_tos_set = False\<rparr>"]
  by (simp add: range_active_def example_pkt_def)

end
