(* ===== verification/RandomBits.thy ===== *)
theory RandomBits
  imports Net
begin

text \<open>
  Random bit fields (app/pktgen-random.c) and the generator behind them (app/xorshift64star.h).
  A specification is a string of at most 32 characters over \<open>0\<close>, \<open>1\<close>, \<open>x\<close>, \<open>X\<close> and \<open>.\<close>; it is
  compiled into three masks that are applied to four bytes of every packet sent. The generator's
  state, a static variable of the source, is threaded through.
\<close>

section \<open>The generator\<close>

definition xorshift64star :: "u64 \<Rightarrow> u64 \<times> u64" where
  "xorshift64star x0 =
     (let x1 = x0 XOR drop_bit 12 x0; x2 = x1 XOR push_bit 25 x1; x3 = x2 XOR drop_bit 27 x2
      in (x3 * 0x2545F4914F6CDD1D, x3))"

definition pktgen_default_rnd_func :: "u64 \<Rightarrow> u32 \<times> u64" where
  "pktgen_default_rnd_func s = (let (v, s') = xorshift64star s in (ucast v, s'))"

section \<open>Specifications\<close>

record bf_spec =
  bf_offset :: u8
  bf_andMask :: u32
  bf_orMask :: u32
  bf_rndMask :: u32

record rnd_bits =
  active_specs :: u32
  specs :: "bf_spec list"

abbreviation (input) MAX_RND_BITFIELDS :: nat where "MAX_RND_BITFIELDS \<equiv> 32"
abbreviation (input) MAX_BITFIELD_SIZE :: nat where "MAX_BITFIELD_SIZE \<equiv> 32"

text \<open>Words in memory order: \<open>of_le32\<close> is a native load, \<open>htonl\<close> the byte swap.\<close>

definition of_le32 :: "u8 list \<Rightarrow> u32" where
  "of_le32 bs = ucast (bs ! 0) OR push_bit 8 (ucast (bs ! 1)) OR push_bit 16 (ucast (bs ! 2)) OR push_bit 24 (ucast (bs ! 3))"

definition of_be32 :: "u8 list \<Rightarrow> u32" where
  "of_be32 bs = ucast (bs ! 3) OR push_bit 8 (ucast (bs ! 2)) OR push_bit 16 (ucast (bs ! 1)) OR push_bit 24 (ucast (bs ! 0))"

definition htonl :: "u32 \<Rightarrow> u32" where
  "htonl w = of_le32 (be32 w)"

text \<open>The loop over the mask's characters; \<open>None\<close> is the early exit on an unknown character.\<close>

fun parse_mask :: "string \<Rightarrow> u32 \<times> u32 \<times> u32 \<Rightarrow> (u32 \<times> u32 \<times> u32) option" where
  "parse_mask [] acc = Some acc"
| "parse_mask (c # cs) (m0, m1, mr) =
     (let m0 = push_bit 1 m0; m1 = push_bit 1 m1; mr = push_bit 1 mr in
      if c = CHR ''0'' then parse_mask cs (m0 + 1, m1, mr)
      else if c = CHR ''1'' then parse_mask cs (m0, m1 + 1, mr)
      else if c = CHR ''.'' then parse_mask cs (m0, m1, mr)
      else if c = CHR ''x'' \<or> c = CHR ''X'' then parse_mask cs (m0, m1, mr + 1)
      else None)"

definition pktgen_set_random_bitfield :: "nat \<Rightarrow> u8 \<Rightarrow> string \<Rightarrow> rnd_bits \<Rightarrow> rnd_bits" where
  "pktgen_set_random_bitfield idx off msk rb =
     (if idx \<ge> MAX_RND_BITFIELDS then rb
      else if length msk > MAX_BITFIELD_SIZE then rb
      else if msk = [] then rb\<lparr>active_specs := active_specs rb AND NOT (push_bit idx 1)\<rparr>
      else
        (case parse_mask msk (0, 0, 0) of
           None \<Rightarrow> rb
         | Some (m0, m1, mr) \<Rightarrow>
             let pad = MAX_BITFIELD_SIZE - length msk;
                 m0 = push_bit pad m0; m1 = push_bit pad m1; mr = push_bit pad mr
             in rb\<lparr>active_specs := active_specs rb OR push_bit idx 1,
                   specs := (specs rb)[idx := \<lparr>bf_offset = off, bf_andMask = htonl (NOT (m0 OR mr)),
                                               bf_orMask = htonl m1, bf_rndMask = htonl mr\<rparr>]\<rparr>))"

text \<open>\<open>rte_zmalloc\<close> gives a zeroed structure.\<close>

definition zero_spec :: bf_spec where
  "zero_spec = \<lparr>bf_offset = 0, bf_andMask = 0, bf_orMask = 0, bf_rndMask = 0\<rparr>"

definition pktgen_rnd_bits_init :: rnd_bits where
  "pktgen_rnd_bits_init =
     fold (\<lambda>i rb. pktgen_set_random_bitfield i 0 [] (pktgen_set_random_bitfield i 0 (replicate 32 (CHR ''?'')) rb))
       [0..<MAX_RND_BITFIELDS] \<lparr>active_specs = 0, specs = replicate MAX_RND_BITFIELDS zero_spec\<rparr>"

section \<open>Application\<close>

text \<open>One specification on one packet: four bytes are read and written at the offset.\<close>

definition apply_spec :: "bf_spec \<Rightarrow> u8 list \<times> u64 \<Rightarrow> (u8 list \<times> u64) res" where
  "apply_spec sp = (\<lambda>(m, st).
     rbind (rd m (unat (bf_offset sp)) 4) (\<lambda>bs.
       let d = of_le32 bs AND bf_andMask sp OR bf_orMask sp;
           (d, st) = (if bf_rndMask sp \<noteq> 0
                      then let (v, st) = pktgen_default_rnd_func st in (d OR v AND bf_rndMask sp, st) else (d, st))
       in rbind (wr m (unat (bf_offset sp)) (le32 d)) (\<lambda>m. Inr (m, st))))"

lemma drop_bit_less:
  assumes "(act :: u32) \<noteq> 0"
  shows "unat (drop_bit (Suc 0) act) < unat act"
proof -
  have "unat (drop_bit (Suc 0) act) = unat act div 2" by (simp add: drop_bit_eq_div unat_div)
  moreover have "0 < unat act" using assms by (simp add: unat_gt_0)
  ultimately show ?thesis by simp
qed

text \<open>The loop \<open>while (active_specs > 0)\<close>; reading past the array of specifications is a fault.\<close>

function apply_active :: "u32 \<Rightarrow> nat \<Rightarrow> bf_spec list \<Rightarrow> u8 list \<times> u64 \<Rightarrow> (u8 list \<times> u64) res" where
  "apply_active act i sps ms =
     (if act = 0 then Inr ms
      else rbind (if act AND 1 \<noteq> 0 then (if i < length sps then apply_spec (sps ! i) ms else Inl Fault) else Inr ms)
             (apply_active (drop_bit 1 act) (Suc i) sps))"
  by auto

termination
  by (relation "measure (\<lambda>(act, _). unat act)") (simp_all add: drop_bit_less)

declare apply_active.simps [simp del]

definition pktgen_rnd_bits_apply :: "rnd_bits \<Rightarrow> u8 list list \<times> u64 \<Rightarrow> (u8 list list \<times> u64) res" where
  "pktgen_rnd_bits_apply rb = (\<lambda>(pkts, st).
     if active_specs rb = 0 then Inr (pkts, st)
     else rfold (\<lambda>(ps, st) m. rbind (apply_active (active_specs rb) 0 (specs rb) (m, st)) (\<lambda>(m, st). Inr (ps @ [m], st)))
            ([], st) pkts)"

section \<open>The generator never gets stuck at zero\<close>

lemma no_bits:
  fixes x :: u64 and f :: "nat \<Rightarrow> nat"
  assumes "\<And>n. bit x n \<Longrightarrow> \<exists>m. f m < f n \<and> bit x m"
  shows "x = 0"
proof -
  have "\<not> bit x n" for n
  proof (induction "f n" arbitrary: n rule: less_induct)
    case less
    then show ?case using assms by blast
  qed
  then show ?thesis by (intro bit_word_eqI) simp
qed

lemma xor_drop_bit_eq_0: "0 < k \<Longrightarrow> x XOR drop_bit k x = 0 \<longleftrightarrow> x = (0 :: u64)"
proof
  assume k: "0 < k" and z: "x XOR drop_bit k x = 0"
  show "x = 0"
  proof (rule no_bits[where f = "\<lambda>n. 64 - n"])
    fix n assume n: "bit x n"
    have "bit (x XOR drop_bit k x) n = False" using z by simp
    then have "bit x (k + n)" using n by (simp add: bit_simps)
    then show "\<exists>m. 64 - m < 64 - n \<and> bit x m" using k bit_imp_le_length[of x n] n by (intro exI[of _ "k + n"]) auto
  qed
qed simp

lemma xor_push_bit_eq_0: "0 < k \<Longrightarrow> x XOR push_bit k x = 0 \<longleftrightarrow> x = (0 :: u64)"
proof
  assume k: "0 < k" and z: "x XOR push_bit k x = 0"
  show "x = 0"
  proof (rule no_bits[where f = "\<lambda>n. n"])
    fix n assume n: "bit x n"
    have "bit (x XOR push_bit k x) n = False" using z by simp
    then have "k \<le> n" "bit x (n - k)" using n bit_imp_le_length[OF n] by (simp_all add: bit_simps)
    then show "\<exists>m < n. bit x m" using k by (intro exI[of _ "n - k"]) auto
  qed
qed simp

text \<open>
  The generator's state is zero after a step exactly when it was zero before: a generator
  seeded with anything but zero never reaches zero, and one left unseeded returns zero forever.
\<close>

theorem xorshift64star_zero:
  "(snd (xorshift64star x) = 0 \<longleftrightarrow> x = 0) \<and> fst (xorshift64star 0) = 0"
proof -
  have "(0 :: nat) < 12" "(0 :: nat) < 25" "(0 :: nat) < 27" by simp_all
  then show ?thesis
    by (simp only: xorshift64star_def Let_def snd_conv xor_drop_bit_eq_0 xor_push_bit_eq_0 simp_thms) simp
qed

section \<open>Masks\<close>

definition valid_mask :: "string \<Rightarrow> bool" where
  "valid_mask s \<longleftrightarrow> set s \<subseteq> set ''01.xX''"

text \<open>What a mask character asks of a bit, given its old value and a random bit.\<close>

definition mask_bit :: "char \<Rightarrow> bool \<Rightarrow> bool \<Rightarrow> bool" where
  "mask_bit c old rnd = (if c = CHR ''0'' then False else if c = CHR ''1'' then True else if c = CHR ''.'' then old else rnd)"

lemma bit_shift: "n < 32 \<Longrightarrow> bit (push_bit 1 m :: u32) n \<longleftrightarrow> n \<noteq> 0 \<and> bit m (n - 1)"
  by (subst bit_push_bit_iff) auto

lemma bit_shift_in: "n < 32 \<Longrightarrow> bit (push_bit 1 m + 1 :: u32) n \<longleftrightarrow> n = 0 \<or> bit m (n - 1)"
proof -
  have "push_bit 1 m AND 1 = (0 :: u32)"
    by (rule bit_word_eqI) (auto simp only: bit_and_iff bit_push_bit_iff bit_1_iff bit_0_eq)
  then have "push_bit 1 m + 1 = push_bit 1 m OR (1 :: u32)" by (rule disjunctive_add_eq_or)
  then show "n < 32 \<Longrightarrow> bit (push_bit 1 m + 1) n \<longleftrightarrow> n = 0 \<or> bit m (n - 1)"
    by (auto simp only: bit_or_iff bit_shift bit_1_iff)
qed

definition char_bit :: "string \<Rightarrow> char set \<Rightarrow> u32 \<Rightarrow> nat \<Rightarrow> bool" where
  "char_bit s C a n = (if n < length s then s ! (length s - 1 - n) \<in> C else bit a (n - length s))"

lemma char_bit_Cons:
  assumes "n < 32" and "\<And>k. k < 32 \<Longrightarrow> bit a' k \<longleftrightarrow> (if k = 0 then c \<in> C else bit a (k - 1))"
  shows "char_bit (c # s) C a n = char_bit s C a' n"
  using assms by (auto simp: char_bit_def nth_Cons' less_Suc_eq)

lemma parse_mask_bits:
  assumes "valid_mask s"
  shows "\<exists>m0 m1 mr. parse_mask s (a0, a1, ar) = Some (m0, m1, mr) \<and>
    (\<forall>n < 32. bit m0 n = char_bit s {CHR ''0''} a0 n \<and> bit m1 n = char_bit s {CHR ''1''} a1 n \<and> bit mr n = char_bit s {CHR ''x'', CHR ''X''} ar n)"
  using assms
proof (induction s arbitrary: a0 a1 ar)
  case (Cons c s)
  have v: "valid_mask s" and c: "c \<in> set ''01.xX''" using Cons.prems by (auto simp: valid_mask_def)
  let ?f = "\<lambda>C a. if c \<in> C then push_bit 1 a + 1 else push_bit 1 a :: u32"
  obtain m0 m1 mr where m: "parse_mask s (?f {CHR ''0''} a0, ?f {CHR ''1''} a1, ?f {CHR ''x'', CHR ''X''} ar) = Some (m0, m1, mr)"
    and b: "\<And>n. n < 32 \<Longrightarrow> bit m0 n = char_bit s {CHR ''0''} (?f {CHR ''0''} a0) n"
      "\<And>n. n < 32 \<Longrightarrow> bit m1 n = char_bit s {CHR ''1''} (?f {CHR ''1''} a1) n"
      "\<And>n. n < 32 \<Longrightarrow> bit mr n = char_bit s {CHR ''x'', CHR ''X''} (?f {CHR ''x'', CHR ''X''} ar) n"
    using Cons.IH[OF v] by blast
  have "parse_mask (c # s) (a0, a1, ar) = parse_mask s (?f {CHR ''0''} a0, ?f {CHR ''1''} a1, ?f {CHR ''x'', CHR ''X''} ar)"
    using c by (auto simp: Let_def)
  moreover have "char_bit (c # s) C a n = char_bit s C (?f C a) n" if "n < 32" for C a n
    by (rule char_bit_Cons[OF that]) (auto simp only: bit_shift_in bit_shift split: if_split)
  ultimately show ?case using m b by auto
qed (simp add: char_bit_def)

section \<open>Byte order\<close>

definition swap32 :: "u32 \<Rightarrow> u32" where
  "swap32 w = of_be32 (le32 w)"

lemma four_bytes: "length bs = 4 \<Longrightarrow> \<exists>a b c d. bs = [a, b, c, d]"
  by (auto simp: numeral_eq_Suc length_Suc_conv)

lemma swap32_bitwise: "swap32 (v AND w) = swap32 v AND swap32 w" "swap32 (v OR w) = swap32 v OR swap32 w"
  by (rule bit_word_eqI; auto simp: swap32_def of_be32_def le32_def bit_simps)+

lemma le32_of_le32: "length bs = 4 \<Longrightarrow> le32 (of_le32 bs) = bs"
  by (drule four_bytes, clarsimp simp: le32_def of_le32_def, intro conjI; rule bit_word_eqI; auto simp: bit_simps byte_high_bit)

lemma swap32_of_le32: "length bs = 4 \<Longrightarrow> swap32 (of_le32 bs) = of_be32 bs"
  by (simp add: swap32_def le32_of_le32)

lemma swap32_htonl: "swap32 (htonl w) = w"
proof -
  have "bit (of_be32 (be32 w)) n = bit w n" if "n < 32" for n
  proof -
    consider "n < 8" | "8 \<le> n" "n < 16" | "16 \<le> n" "n < 24" | "24 \<le> n" by linarith
    then show ?thesis using that by cases (auto simp: of_be32_def be32_def bit_simps less_diff_conv2)
  qed
  then show ?thesis by (intro bit_word_eqI) (simp add: htonl_def swap32_def le32_of_le32)
qed

section \<open>A single specification\<close>

lemma push_bit_one_nonzero:
  assumes "k < 32"
  shows "push_bit k (1 :: u32) \<noteq> 0"
proof
  assume z: "push_bit k (1 :: u32) = 0"
  have "bit (push_bit k (1 :: u32)) k" using assms by (simp only: bit_push_bit_iff bit_1_iff) simp
  then show False unfolding z by simp
qed

lemma apply_active_single:
  "k < 32 \<Longrightarrow> i + k < length sps \<Longrightarrow> apply_active (push_bit k 1) i sps ms = apply_spec (sps ! (i + k)) ms"
proof (induction k arbitrary: i)
  case 0
  have z: "drop_bit 1 (1 :: u32) = 0" by simp
  show ?case using 0 by (subst apply_active.simps) (cases "apply_spec (sps ! i) ms"; simp add: apply_active.simps[of 0])
next
  case (Suc k)
  have nz: "push_bit (Suc k) (1 :: u32) \<noteq> 0" using Suc.prems(1) by (rule push_bit_one_nonzero)
  have d: "drop_bit 1 (push_bit (Suc k) (1 :: u32)) = push_bit k 1"
    using Suc.prems(1) by (intro bit_word_eqI) (auto simp only: bit_drop_bit_eq bit_push_bit_iff bit_1_iff comp_apply; simp)
  have a: "push_bit (Suc k) (1 :: u32) AND 1 = 0"
    by (rule bit_word_eqI) (auto simp only: bit_and_iff bit_push_bit_iff bit_1_iff bit_0_eq)
  show ?case using Suc.IH[of "Suc i"] Suc.prems by (subst apply_active.simps) (simp only: nz d a if_False simp_thms rbind_Inr add_Suc_right add_Suc Suc_lessD)
qed

lemma apply_spec_word:
  assumes "unat (bf_offset sp) + 4 \<le> length m"
  shows "\<exists>m' st' bs bs'. apply_spec sp (m, st) = Inr (m', st') \<and> length m' = length m \<and>
    rd m (unat (bf_offset sp)) 4 = Inr bs \<and> rd m' (unat (bf_offset sp)) 4 = Inr bs' \<and>
    of_be32 bs' = (of_be32 bs AND swap32 (bf_andMask sp) OR swap32 (bf_orMask sp)) OR swap32 (fst (pktgen_default_rnd_func st)) AND swap32 (bf_rndMask sp) \<and>
    (\<forall>i n. i + n \<le> unat (bf_offset sp) \<or> unat (bf_offset sp) + 4 \<le> i \<longrightarrow> rd m' i n = rd m i n)"
proof -
  let ?o = "unat (bf_offset sp)"
  obtain bs where bs: "rd m ?o 4 = Inr bs" "length bs = 4" using rd_ok[OF assms] by auto
  obtain v st' where v: "pktgen_default_rnd_func st = (v, st')" by (cases "pktgen_default_rnd_func st")
  let ?d = "(of_le32 bs AND bf_andMask sp OR bf_orMask sp) OR v AND bf_rndMask sp"
  let ?st = "if bf_rndMask sp = 0 then st else st'"
  obtain m' where m': "wr m ?o (le32 ?d) = Inr m'" using assms by simp
  have "apply_spec sp (m, st) = Inr (m', ?st)"
    using bs(1) m' v by (auto simp: apply_spec_def Let_def)
  moreover have "rd m' ?o 4 = Inr (le32 ?d)" using rd_wr_same[OF m'] by simp
  moreover have "of_be32 (le32 ?d) = (of_be32 bs AND swap32 (bf_andMask sp) OR swap32 (bf_orMask sp)) OR swap32 v AND swap32 (bf_rndMask sp)"
    by (simp add: swap32_def[symmetric] swap32_bitwise swap32_of_le32[OF bs(2)])
  moreover have "\<forall>i n. i + n \<le> ?o \<or> ?o + 4 \<le> i \<longrightarrow> rd m' i n = rd m i n" using rd_wr_other[OF m'] by auto
  ultimately show ?thesis using bs(1) wr_length[OF m'] v by auto
qed

text \<open>
  C22: after one bit-field specification has been set, sending a packet replaces exactly the four
  bytes at its offset, and in them (most significant bit first) a bit under \<open>0\<close> is cleared,
  under \<open>1\<close> is set, under \<open>x\<close> or \<open>X\<close> becomes a bit of the next random value, and every other bit,
  under \<open>.\<close> or beyond the end of a shorter mask, is kept.
\<close>

theorem random_bitfield_applies:
  assumes mask: "valid_mask s" "s \<noteq> []" "length s \<le> 32" and idx: "idx < 32" "length (specs rb) = 32" "active_specs rb = 0"
    and off: "unat off + 4 \<le> length m"
  shows "\<exists>m' st' bs bs'. pktgen_rnd_bits_apply (pktgen_set_random_bitfield idx off s rb) ([m], st) = Inr ([m'], st') \<and>
    length m' = length m \<and> rd m (unat off) 4 = Inr bs \<and> rd m' (unat off) 4 = Inr bs' \<and>
    (\<forall>i n. i + n \<le> unat off \<or> unat off + 4 \<le> i \<longrightarrow> rd m' i n = rd m i n) \<and>
    (\<forall>j < 32. bit (of_be32 bs') (31 - j) =
       (if j < length s then mask_bit (s ! j) (bit (of_be32 bs) (31 - j)) (bit (swap32 (fst (pktgen_default_rnd_func st))) (31 - j)) else bit (of_be32 bs) (31 - j)))"
proof -
  obtain m0 m1 mr where p: "parse_mask s (0, 0, 0) = Some (m0, m1, mr)"
    and b: "\<And>n. n < 32 \<Longrightarrow> bit m0 n = char_bit s {CHR ''0''} 0 n" "\<And>n. n < 32 \<Longrightarrow> bit m1 n = char_bit s {CHR ''1''} 0 n"
      "\<And>n. n < 32 \<Longrightarrow> bit mr n = char_bit s {CHR ''x'', CHR ''X''} 0 n"
    using parse_mask_bits[OF mask(1), of 0 0 0] by blast
  let ?pad = "32 - length s"
  let ?sp = "\<lparr>bf_offset = off, bf_andMask = htonl (NOT (push_bit ?pad m0 OR push_bit ?pad mr)),
      bf_orMask = htonl (push_bit ?pad m1), bf_rndMask = htonl (push_bit ?pad mr)\<rparr>"
  have set: "pktgen_set_random_bitfield idx off s rb = rb\<lparr>active_specs := push_bit idx 1, specs := (specs rb)[idx := ?sp]\<rparr>"
    using mask(2,3) idx p by (simp add: pktgen_set_random_bitfield_def Let_def)
  have nz: "push_bit idx (1 :: u32) \<noteq> 0" using idx(1) by (rule push_bit_one_nonzero)
  obtain m' st' bs bs' where r: "apply_spec ?sp (m, st) = Inr (m', st')" "length m' = length m" "rd m (unat off) 4 = Inr bs" "rd m' (unat off) 4 = Inr bs'"
    and w: "of_be32 bs' = (of_be32 bs AND NOT (push_bit ?pad m0 OR push_bit ?pad mr) OR push_bit ?pad m1) OR swap32 (fst (pktgen_default_rnd_func st)) AND push_bit ?pad mr"
    and keep: "\<forall>i n. i + n \<le> unat off \<or> unat off + 4 \<le> i \<longrightarrow> rd m' i n = rd m i n"
    using apply_spec_word[of ?sp m st] off by (auto simp: swap32_htonl)
  have "apply_active (push_bit idx 1) 0 ((specs rb)[idx := ?sp]) (m, st) = Inr (m', st')"
    using apply_active_single[of idx 0 "(specs rb)[idx := ?sp]" "(m, st)"] idx r(1) by simp
  then have ap: "pktgen_rnd_bits_apply (pktgen_set_random_bitfield idx off s rb) ([m], st) = Inr ([m'], st')"
    unfolding set using nz by (simp add: pktgen_rnd_bits_apply_def)
  have bits: "bit (of_be32 bs') (31 - j) = (if j < length s then mask_bit (s ! j) (bit (of_be32 bs) (31 - j)) (bit (swap32 (fst (pktgen_default_rnd_func st))) (31 - j))
      else bit (of_be32 bs) (31 - j))" if j: "j < 32" for j
  proof -
    have pb: "bit (push_bit ?pad x :: u32) (31 - j) = (j < length s \<and> bit x (length s - Suc j))" for x
    proof -
      have "31 - j - ?pad = length s - Suc j" using mask(3) by simp
      moreover have "?pad \<le> 31 - j \<longleftrightarrow> j < length s" using mask(2,3) j by (auto simp: less_eq_iff_succ_less)
      ultimately show ?thesis using j by (simp only: bit_push_bit_iff) auto
    qed
    have cb: "char_bit s C 0 (length s - Suc j) = (s ! j \<in> C)" if "j < length s" for C
      using that by (auto simp: char_bit_def)
    have lt: "length s - Suc j < 32" using mask(3) by simp
    have "s ! j \<in> set ''01.xX''" if "j < length s" using nth_mem[OF that] mask(1) unfolding valid_mask_def by blast
    then show ?thesis unfolding w using j by (auto simp: bit_simps pb b[OF lt] cb mask_bit_def simp del: bit_push_bit_iff)
  qed
  show ?thesis using ap r(2-4) keep bits by blast
qed

definition example_bits :: rnd_bits where
  "example_bits = \<lparr>active_specs = 0, specs = replicate 32 zero_spec\<rparr>"

theorem random_bitfield_applies_witness:
  "\<exists>m' st' bs'. pktgen_rnd_bits_apply (pktgen_set_random_bitfield 3 14 ''01.x'' example_bits) ([replicate 64 0xFF], 1) = Inr ([m'], st') \<and>
     rd m' 14 4 = Inr bs' \<and> \<not> bit (of_be32 bs') 31 \<and> bit (of_be32 bs') 30"
proof -
  have off: "unat (14 :: u8) + 4 \<le> length (replicate 64 (0xFF :: u8))" by simp
  have hyps: "valid_mask ''01.x''" "''01.x'' \<noteq> []" "length ''01.x'' \<le> 32" "(3 :: nat) < 32" "length (specs example_bits) = 32"
    "active_specs example_bits = 0" by (simp_all add: valid_mask_def example_bits_def)
  obtain m' st' bs bs' where r: "pktgen_rnd_bits_apply (pktgen_set_random_bitfield 3 14 ''01.x'' example_bits) ([replicate 64 0xFF], 1) = Inr ([m'], st')"
      "rd m' (unat (14 :: u8)) 4 = Inr bs'"
    and b: "\<forall>j < 32. bit (of_be32 bs') (31 - j) = (if j < length ''01.x'' then mask_bit (''01.x'' ! j) (bit (of_be32 bs) (31 - j)) (bit (swap32 (fst (pktgen_default_rnd_func 1))) (31 - j))
        else bit (of_be32 bs) (31 - j))"
    using random_bitfield_applies[OF _ _ _ _ _ _ off, of "''01.x''" 3 example_bits 1] hyps by blast
  show ?thesis using r b[rule_format, of 0] b[rule_format, of 1] by (simp add: mask_bit_def)
qed

lemma parse_mask_unknown: "parse_mask (replicate 32 (CHR ''?'')) acc = None"
  by (cases acc) (simp add: numeral_eq_Suc)

text \<open>
  Initialisation leaves every specification inactive with its three masks zero. The mask of
  32 question marks it sets first is rejected, so the masks are those of a cleared word, not of
  the "all ignore" word the source's comment names.
\<close>

theorem rnd_bits_init_cleared:
  "pktgen_rnd_bits_init = \<lparr>active_specs = 0, specs = replicate MAX_RND_BITFIELDS zero_spec\<rparr>"
proof -
  let ?z = "\<lparr>active_specs = 0, specs = replicate MAX_RND_BITFIELDS zero_spec\<rparr>"
  let ?f = "\<lambda>i rb. pktgen_set_random_bitfield i 0 [] (pktgen_set_random_bitfield i 0 (replicate 32 (CHR ''?'')) rb)"
  have "?f i ?z = ?z" for i
    by (simp add: pktgen_set_random_bitfield_def parse_mask_unknown)
  then have "fold ?f xs ?z = ?z" for xs by (induction xs) simp_all
  then show ?thesis unfolding pktgen_rnd_bits_init_def by blast
qed

end
