(* ===== verification/Tx.thy ===== *)
theory Tx
  imports PortInv Range RandomBits
begin

text \<open>
  The transmit path of app/pktgen.c on one queue of a port: taking packets off the transmit
  count, filling the queue's table of mbufs, handing the table to the driver, and flushing it.
  The driver call \<open>rte_eth_tx_burst\<close> and the mempool are DPDK's and are parameters. Another
  thread may change the port flags while a burst is sent, so the loop that sends a burst reads
  them from a sequence of observations.
\<close>

section \<open>The transmit count\<close>

text \<open>
  \<open>pkt_atomic64_tx_count\<close>: read the count, compute what to take (the comparison is signed),
  compare-and-set, and start again when another thread got in between. \<open>tx_take\<close> is the value
  taken from a count that was read; the loop is a step relation over the threads' program
  counters. The log collects what the threads have taken.
\<close>

definition tx_take :: "u64 \<Rightarrow> u64 \<Rightarrow> u64" where
  "tx_take burst tmp1 = (if sint burst < sint tmp1 then burst else tmp1)"

datatype tx_pc = Load | Cmpset u64 | Return u64

inductive tx_count_step :: "u64 \<Rightarrow> u64 \<times> tx_pc list \<times> u64 list \<Rightarrow> u64 \<times> tx_pc list \<times> u64 list \<Rightarrow> bool" for burst where
  load_zero: "i < length pcs \<Longrightarrow> pcs ! i = Load \<Longrightarrow> cnt = 0 \<Longrightarrow>
    tx_count_step burst (cnt, pcs, lg) (cnt, pcs[i := Return 0], lg)"
| load: "i < length pcs \<Longrightarrow> pcs ! i = Load \<Longrightarrow> cnt \<noteq> 0 \<Longrightarrow>
    tx_count_step burst (cnt, pcs, lg) (cnt, pcs[i := Cmpset cnt], lg)"
| cas_ok: "i < length pcs \<Longrightarrow> pcs ! i = Cmpset tmp1 \<Longrightarrow> cnt = tmp1 \<Longrightarrow>
    tx_count_step burst (cnt, pcs, lg) (tmp1 - tx_take burst tmp1, pcs[i := Return (tx_take burst tmp1)], tx_take burst tmp1 # lg)"
| cas_fail: "i < length pcs \<Longrightarrow> pcs ! i = Cmpset tmp1 \<Longrightarrow> cnt \<noteq> tmp1 \<Longrightarrow>
    tx_count_step burst (cnt, pcs, lg) (cnt, pcs[i := Load], lg)"
| again: "i < length pcs \<Longrightarrow> pcs ! i = Return n \<Longrightarrow>
    tx_count_step burst (cnt, pcs, lg) (cnt, pcs[i := Load], lg)"

text \<open>The call as one thread sees it when no other interferes: the value returned and the new count.\<close>

definition pkt_atomic64_tx_count :: "u64 \<Rightarrow> u64 \<Rightarrow> u64 \<times> u64" where
  "pkt_atomic64_tx_count cnt burst =
     (if cnt = 0 then (0, cnt) else (tx_take burst cnt, cnt - tx_take burst cnt))"

section \<open>Mbufs\<close>

record mbuf =
  mb_addr :: nat
  mb_data :: "u8 list"
  mb_data_len :: u16
  mb_pkt_len :: u32
  mb_buf_len :: u16
  mb_ol_flags :: u64
  mb_udata :: "u16 \<times> u16 \<times> u32"

text \<open>
  \<open>mb_data\<close> is the buffer from the start of the packet data on, \<open>mb_addr\<close> the address of that
  start. \<open>rte_pktmbuf_reset\<close> clears the lengths and the offload flags; \<open>pktmbuf_reset\<close> then
  restores the lengths from the user data.
\<close>

definition rte_pktmbuf_reset :: "mbuf \<Rightarrow> mbuf" where
  "rte_pktmbuf_reset m = m\<lparr>mb_pkt_len := 0, mb_ol_flags := 0, mb_data_len := 0\<rparr>"

definition pktmbuf_reset :: "mbuf \<Rightarrow> mbuf" where
  "pktmbuf_reset m =
     (case mb_udata m of (dl, bl, pl) \<Rightarrow>
        (rte_pktmbuf_reset m)\<lparr>mb_data_len := dl, mb_pkt_len := pl, mb_buf_len := bl\<rparr>)"

definition reset_at :: "nat \<Rightarrow> mbuf list \<Rightarrow> mbuf list res" where
  "reset_at i ms = (if i < length ms then Inr (ms[i := pktmbuf_reset (ms ! i)]) else Inl Fault)"

text \<open>
  The unrolled loop of \<open>pg_pktmbuf_alloc_bulk\<close>, entered in its middle when the count is not a
  multiple of four. It ends only when the index meets the count.
\<close>

partial_function (option) duff_loop :: "nat \<Rightarrow> nat \<Rightarrow> mbuf list \<Rightarrow> (mbuf list res) option" where
  "duff_loop count idx ms =
     (if idx = count then Some (Inr ms)
      else case rfold (\<lambda>ms i. reset_at i ms) ms [idx, idx + 1, idx + 2, idx + 3] of
             Inl e \<Rightarrow> Some (Inl e)
           | Inr ms' \<Rightarrow> duff_loop count (idx + 4) ms')"

definition duff_reset :: "nat \<Rightarrow> mbuf list \<Rightarrow> (mbuf list res) option" where
  "duff_reset count ms =
     (case rfold (\<lambda>ms i. reset_at i ms) ms [0..<count mod 4] of
        Inl e \<Rightarrow> Some (Inl e) | Inr ms' \<Rightarrow> duff_loop count (count mod 4) ms')"

text \<open>
  \<open>get_bulk\<close> is \<open>rte_mempool_get_bulk\<close>, which gives all the mbufs asked for or none, and \<open>get\<close>
  is \<open>rte_mempool_get\<close>.
\<close>

fun get_loop :: "('p \<Rightarrow> (mbuf \<times> 'p) option) \<Rightarrow> nat \<Rightarrow> 'p \<Rightarrow> mbuf list \<times> 'p" where
  "get_loop get 0 pool = ([], pool)"
| "get_loop get (Suc n) pool =
     (case get pool of None \<Rightarrow> ([], pool)
      | Some (m, pool') \<Rightarrow> let (ms, pool'') = get_loop get n pool' in (pktmbuf_reset m # ms, pool''))"

definition pg_pktmbuf_alloc_bulk ::
  "(nat \<Rightarrow> 'p \<Rightarrow> (mbuf list \<times> 'p) option) \<Rightarrow> ('p \<Rightarrow> (mbuf \<times> 'p) option) \<Rightarrow> nat \<Rightarrow> 'p \<Rightarrow> (mbuf list \<times> 'p) res option" where
  "pg_pktmbuf_alloc_bulk get_bulk get count pool =
     (if count = 0 then Some (Inr ([], pool))
      else case get_bulk count pool of
             None \<Rightarrow> Some (Inr (get_loop get count pool))
           | Some (ms, pool') \<Rightarrow>
               (case duff_reset count ms of None \<Rightarrow> None
                | Some r \<Rightarrow> Some (rbind r (\<lambda>ms. Inr (ms, pool')))))"

section \<open>Sending a burst\<close>

text \<open>
  \<open>sending i\<close> is the flag \<open>SENDING_PACKETS\<close> as the loop sees it before its \<open>i\<close>th driver call and
  \<open>drv i n\<close> how many of \<open>n\<close> packets that call takes. \<open>prep\<close> is what is done to the packets not yet
  sent before the \<open>i\<close>th call (random bits and time stamps). The result is the packets the driver
  took; the table is empty afterwards whatever happens. Running out of fuel is \<open>Hang\<close>.
\<close>

fun send_burst_loop ::
  "nat \<Rightarrow> (nat \<Rightarrow> bool) \<Rightarrow> (nat \<Rightarrow> nat \<Rightarrow> nat) \<Rightarrow> (nat \<Rightarrow> mbuf list \<times> 's \<Rightarrow> (mbuf list \<times> 's) res) \<Rightarrow> nat \<Rightarrow> mbuf list \<times> 's \<Rightarrow>
   (mbuf list \<times> 's) res" where
  "send_burst_loop 0 sending drv prep i (pkts, s) = Inl Hang"
| "send_burst_loop (Suc fuel) sending drv prep i (pkts, s) =
     (if pkts = [] \<or> \<not> sending i then Inr ([], s)
      else rbind (prep i (pkts, s)) (\<lambda>(pkts, s).
        let ret = drv i (length pkts) in
        rbind (send_burst_loop fuel sending drv prep (Suc i) (drop ret pkts, s)) (\<lambda>(rest, s).
        Inr (take ret pkts @ rest, s))))"

text \<open>The time stamp's place in a packet, rounded up to an aligned address.\<close>

definition pktgen_tstamp_pointer :: "port_info \<Rightarrow> mbuf \<Rightarrow> nat \<Rightarrow> nat" where
  "pktgen_tstamp_pointer i m idx =
     (let p = pi_seq_pkt i ! idx;
          off = mb_addr m + 14 + (if pk_ethType p = PG_ETHER_TYPE_IPv4 then 20 else 40) +
                (if pk_ipProto p = PG_IPPROTO_UDP then 8 else 20)
      in (off + 7) div 8 * 8 - mb_addr m)"

definition le64 :: "u64 \<Rightarrow> u8 list" where
  "le64 w = map (\<lambda>k. ucast (drop_bit k w)) [0, 8, 16, 24, 32, 40, 48, 56]"

definition TSTAMP_MAGIC :: u16 where "TSTAMP_MAGIC = 0x5473"

definition tstamp_write :: "port_info \<Rightarrow> nat \<Rightarrow> u64 \<Rightarrow> mbuf \<Rightarrow> mbuf res" where
  "tstamp_write i idx now m =
     (let off = pktgen_tstamp_pointer i m idx in
      rbind (wrs (mb_data m) [(off, le64 now), (off + 8, le16 TSTAMP_MAGIC)]) (\<lambda>d. Inr (m\<lparr>mb_data := d\<rparr>)))"

text \<open>
  The template's headers are rebuilt for every mbuf, at the place right after an untagged
  Ethernet header; the mbuf itself gets only the stamp. \<open>now\<close> is the clock.
\<close>

fun pktgen_tstamp_apply :: "(nat \<Rightarrow> u64) \<Rightarrow> nat \<Rightarrow> mbuf list \<Rightarrow> pktgen_st \<Rightarrow> (mbuf list \<times> pktgen_st) res" where
  "pktgen_tstamp_apply now idx [] g = Inr ([], g)"
| "pktgen_tstamp_apply now idx (m # ms) g =
     (if idx \<ge> length (pi_seq_pkt (g_info g)) then Inl Fault
      else
        rbind (tstamp_write (g_info g) idx (now (length ms)) m) (\<lambda>m.
        rbind (pktgen_udp_hdr_ctor (pi_seq_pkt (g_info g) ! idx) 14 PG_ETHER_TYPE_IPv4) (\<lambda>p.
        rbind (pktgen_ipv4_ctor p (g_ident g) 14) (\<lambda>(p, ident).
        rbind (pktgen_tstamp_apply now idx ms (set_pkt idx (\<lambda>_. p) (g\<lparr>g_ident := ident\<rparr>))) (\<lambda>(ms, g).
        Inr (m # ms, g))))))"

definition burst_seq_idx :: "port_info \<Rightarrow> nat" where
  "burst_seq_idx i = (if pktgen_tst_port_flags SEND_RANGE_PKTS i then RANGE_PKT
     else if pktgen_tst_port_flags SEND_RATE_PACKETS i then RATE_PKT else SINGLE_PKT)"

definition burst_prep :: "rnd_bits \<Rightarrow> (nat \<Rightarrow> nat \<Rightarrow> u64) \<Rightarrow> port_info \<Rightarrow> nat \<Rightarrow> mbuf list \<times> pktgen_st \<times> u64 \<Rightarrow> (mbuf list \<times> pktgen_st \<times> u64) res" where
  "burst_prep rb now i k = (\<lambda>(ms, g, seed).
     rbind (if pktgen_tst_port_flags SEND_RANDOM_PKTS i
            then rbind (pktgen_rnd_bits_apply rb (map mb_data ms, seed))
                   (\<lambda>(ds, seed). Inr (map2 (\<lambda>m d. m\<lparr>mb_data := d\<rparr>) ms ds, seed))
            else Inr (ms, seed)) (\<lambda>(ms, seed).
     rbind (if pktgen_tst_port_flags (SEND_LATENCY_PKTS OR SEND_RATE_PACKETS) i
            then pktgen_tstamp_apply (now k) (burst_seq_idx i) ms g else Inr (ms, g)) (\<lambda>(ms, g).
     Inr (ms, g, seed))))"

text \<open>
  One transmit queue: the mbufs in its table (at most \<open>DEFAULT_PKT_BURST\<close>), the port, the port's
  random bit fields and the state of the generator.
\<close>

record txq =
  tx_tab :: "mbuf list"
  tx_port :: pktgen_st
  tx_rnd :: rnd_bits
  tx_seed :: u64

text \<open>What the transmit path gets from outside: the flag as other threads leave it, the driver and the clock.\<close>

record tx_env =
  env_fuel :: nat
  env_sending :: "nat \<Rightarrow> bool"
  env_drv :: "nat \<Rightarrow> nat \<Rightarrow> nat"
  env_now :: "nat \<Rightarrow> nat \<Rightarrow> u64"

definition pktgen_send_burst :: "tx_env \<Rightarrow> txq \<Rightarrow> (mbuf list \<times> txq) res" where
  "pktgen_send_burst e q =
     (if tx_tab q = [] then Inr ([], q)
      else rbind (send_burst_loop (env_fuel e) (env_sending e) (env_drv e)
                   (burst_prep (tx_rnd q) (env_now e) (g_info (tx_port q))) 0 (tx_tab q, tx_port q, tx_seed q))
             (\<lambda>(sent, g, seed). Inr (sent, q\<lparr>tx_tab := [], tx_port := g, tx_seed := seed\<rparr>)))"

definition pktgen_send_mbuf :: "tx_env \<Rightarrow> mbuf \<Rightarrow> txq \<Rightarrow> (mbuf list \<times> txq) res" where
  "pktgen_send_mbuf e m q =
     (if length (tx_tab q) \<ge> 64 then Inl Fault
      else
        let q1 = q\<lparr>tx_tab := tx_tab q @ [m]\<rparr> in
        if length (tx_tab q1) \<ge> unat (pi_tx_burst (g_info (tx_port q1))) then pktgen_send_burst e q1 else Inr ([], q1))"

text \<open>\<open>rte_eth_tx_done_cleanup\<close> only tells the driver to free sent mbufs.\<close>

definition pktgen_tx_flush :: "tx_env \<Rightarrow> nat \<Rightarrow> txq \<Rightarrow> (mbuf list \<times> txq) res" where
  "pktgen_tx_flush e qid q =
     rbind (pktgen_send_burst e q) (\<lambda>(sent, q).
     rbind (pktgen_clr_q_flags qid DO_TX_FLUSH (g_info (tx_port q))) (\<lambda>i.
     Inr (sent, q\<lparr>tx_port := (tx_port q)\<lparr>g_info := i\<rparr>\<rparr>)))"

text \<open>
  The number of mbufs to allocate is computed in 16 bits. \<open>alloc n\<close> is what
  \<open>pg_pktmbuf_alloc_bulk\<close> gives; it writes up to \<open>cnt\<close> entries of the table, of 64 entries, after
  those already there.
\<close>

definition send_pkts_alloc :: "(nat \<Rightarrow> mbuf list) \<Rightarrow> u64 \<Rightarrow> tx_env \<Rightarrow> txq \<Rightarrow> (mbuf list \<times> txq) res" where
  "send_pkts_alloc alloc txCnt e q =
     (let burst = pi_tx_burst (g_info (tx_port q)); txLen = (of_nat (length (tx_tab q)) :: u16);
          cnt0 = (ucast (txCnt - ucast txLen) :: u16);
          cnt = (if cnt0 > burst then burst else cnt0);
          ms = alloc (unat cnt)
      in if length (tx_tab q) + length ms > 64 then Inl Fault
         else pktgen_send_burst e (q\<lparr>tx_tab := tx_tab q @ ms\<rparr>))"

definition pktgen_send_pkts :: "(nat \<Rightarrow> mbuf list) \<Rightarrow> tx_env \<Rightarrow> txq \<Rightarrow> (mbuf list \<times> txq) res" where
  "pktgen_send_pkts alloc e q =
     (let g = tx_port q; i = g_info g in
      if \<not> pktgen_tst_port_flags SEND_FOREVER i then
        let (txCnt, left) = pkt_atomic64_tx_count (pi_current_tx_count i) (ucast (pi_tx_burst i));
            i1 = i\<lparr>pi_current_tx_count := left\<rparr> in
        if txCnt = 0
        then pktgen_send_burst (e\<lparr>env_sending := (\<lambda>_. False)\<rparr>)
               (q\<lparr>tx_port := g\<lparr>g_info := pktgen_clr_port_flags (SENDING_PACKETS OR SEND_FOREVER) i1\<rparr>\<rparr>)
        else send_pkts_alloc alloc txCnt e (q\<lparr>tx_port := g\<lparr>g_info := i1\<rparr>\<rparr>)
      else send_pkts_alloc alloc (ucast (pi_tx_burst i)) e q)"

section \<open>Filling the mempools\<close>

text \<open>
  The pools of a queue; \<open>pktgen_setup_cb\<close> writes a packet into every mbuf of one. \<open>su_ol\<close> are the
  \<open>ol_flags\<close> of the packet templates and \<open>su_capa\<close> the offloads the device offers.
\<close>

datatype mempool = Tx_mp | Rate_mp | Range_mp | Seq_mp | Pcap_mp | Special_mp

record tx_setup =
  su_port :: pktgen_st
  su_statics :: range_statics
  su_ol :: "u64 list"
  su_capa :: u64

definition setup_idx :: "mempool \<Rightarrow> port_info \<Rightarrow> (nat \<times> port_info) option" where
  "setup_idx mp i =
     (case mp of Tx_mp \<Rightarrow> Some (SINGLE_PKT, i) | Rate_mp \<Rightarrow> Some (RATE_PKT, i) | Range_mp \<Rightarrow> Some (RANGE_PKT, i)
      | Seq_mp \<Rightarrow> Some (unat (pi_seqIdx i),
          i\<lparr>pi_seqIdx := (if pi_seqIdx i + 1 \<ge> pi_seqCnt i then 0 else pi_seqIdx i + 1)\<rparr>)
      | _ \<Rightarrow> None)"

definition setup_ol_flags :: "u64 \<Rightarrow> pkt_seq \<Rightarrow> u64 \<Rightarrow> u64" where
  "setup_ol_flags capa p ol =
     (let ol1 = (if pk_ethType p = PG_ETHER_TYPE_IPv4 then (if capa AND 2 \<noteq> 0 then push_bit 54 1 OR push_bit 55 1 else ol)
                 else if pk_ethType p = PG_ETHER_TYPE_IPv6 then push_bit 54 1 OR push_bit 56 1 else ol)
      in if pk_ipProto p = PG_IPPROTO_UDP then (if capa AND 4 \<noteq> 0 then ol1 OR push_bit 52 3 else ol1)
         else if pk_ipProto p = PG_IPPROTO_TCP then (if capa AND 8 \<noteq> 0 then ol1 OR push_bit 52 1 else ol1)
         else ol1)"

definition setup_range :: "nat \<Rightarrow> tx_setup \<Rightarrow> tx_setup" where
  "setup_range idx s =
     (if idx = RANGE_PKT then
        let i = g_info (su_port s); (p, st) = pktgen_range_ctor (pi_range i) (pi_seq_pkt i ! idx, su_statics s)
        in s\<lparr>su_port := set_pkt idx (\<lambda>_. p) (su_port s), su_statics := st\<rparr>
      else s)"

definition setup_mbuf :: "pkt_seq \<Rightarrow> u64 \<Rightarrow> mbuf \<Rightarrow> mbuf res" where
  "setup_mbuf p ol m =
     rbind (wr (mb_data m) 0 (take 1514 (pk_hdr p))) (\<lambda>d.
     Inr (m\<lparr>mb_data := d, mb_pkt_len := ucast (pk_pktSize p), mb_data_len := pk_pktSize p, mb_ol_flags := ol,
            mb_udata := (pk_pktSize p, mb_buf_len m, ucast (pk_pktSize p))\<rparr>))"

definition pktgen_setup_cb :: "mempool \<Rightarrow> mbuf \<Rightarrow> tx_setup \<Rightarrow> (mbuf \<times> tx_setup) res" where
  "pktgen_setup_cb mp m0 s0 =
     (let m = rte_pktmbuf_reset m0 in
      case setup_idx mp (g_info (su_port s0)) of
        None \<Rightarrow> Inr (m, s0)
      | Some (idx, i) \<Rightarrow>
          if idx \<ge> length (pi_seq_pkt i) then Inl Fault
          else
            let s = setup_range idx (s0\<lparr>su_port := (su_port s0)\<lparr>g_info := i\<rparr>\<rparr>) in
            rbind (pktgen_packet_ctor idx (-1) (su_port s)) (\<lambda>g.
            let p = pi_seq_pkt (g_info g) ! idx; ol = setup_ol_flags (su_capa s) p (su_ol s ! idx) in
            rbind (setup_mbuf p ol m) (\<lambda>m.
            Inr (m, s\<lparr>su_port := g, su_ol := (su_ol s)[idx := ol]\<rparr>))))"

text \<open>\<open>rte_mempool_obj_iter\<close> calls the function on every mbuf of the pool.\<close>

fun setup_iter :: "mempool \<Rightarrow> mbuf list \<Rightarrow> tx_setup \<Rightarrow> (mbuf list \<times> tx_setup) res" where
  "setup_iter mp [] s = Inr ([], s)"
| "setup_iter mp (m # ms) s =
     rbind (pktgen_setup_cb mp m s) (\<lambda>(m, s). rbind (setup_iter mp ms s) (\<lambda>(ms, s). Inr (m # ms, s)))"

definition pktgen_setup_packets :: "nat \<Rightarrow> mempool \<Rightarrow> mbuf list \<Rightarrow> tx_setup \<Rightarrow> (mbuf list \<times> tx_setup) res" where
  "pktgen_setup_packets qid mp pool s =
     rbind (pktgen_clr_q_flags qid CLEAR_FAST_ALLOC_FLAG (g_info (su_port s))) (\<lambda>i.
     let s = s\<lparr>su_port := (su_port s)\<lparr>g_info := i\<rparr>\<rparr> in
     if mp = Pcap_mp then Inr (pool, s) else setup_iter mp pool s)"

section \<open>Receiving time stamps\<close>

text \<open>The latency counters of a port (\<open>port_info_t\<close>).\<close>

record latency_info =
  la_avg_latency :: u64
  la_prev_latency :: u64
  la_max_latency :: u64
  la_jitter_count :: u64
  la_magic_errors :: u32
  la_nb_pkts :: u32

definition of_le64 :: "u8 list \<Rightarrow> u64" where
  "of_le64 bs = foldr (\<lambda>b acc. push_bit 8 acc OR ucast b) bs 0"

definition recv_one :: "port_info \<Rightarrow> nat \<Rightarrow> u64 \<Rightarrow> mbuf \<Rightarrow> latency_info \<Rightarrow> latency_info res" where
  "recv_one i idx now m l =
     (let off = pktgen_tstamp_pointer i m idx in
      rbind (rd (mb_data m) (off + 8) 2) (\<lambda>mg.
      if of_le16 (mg ! 0) (mg ! 1) \<noteq> TSTAMP_MAGIC then Inr (l\<lparr>la_magic_errors := la_magic_errors l + 1\<rparr>)
      else
        rbind (rd (mb_data m) off 8) (\<lambda>ts.
        let lat = now - of_le64 ts;
            jitter = (if lat > la_prev_latency l then lat - la_prev_latency l else la_prev_latency l - lat) in
        Inr (l\<lparr>la_avg_latency := la_avg_latency l + lat,
               la_max_latency := (if lat > la_max_latency l then lat else la_max_latency l),
               la_jitter_count := (if jitter > pi_jitter_threshold_clks i then la_jitter_count l + 1 else la_jitter_count l),
               la_prev_latency := lat\<rparr>))))"

fun recv_loop :: "port_info \<Rightarrow> nat \<Rightarrow> (nat \<Rightarrow> u64) \<Rightarrow> mbuf list \<Rightarrow> latency_info \<Rightarrow> latency_info res" where
  "recv_loop i idx now [] l = Inr l"
| "recv_loop i idx now (m # ms) l = rbind (recv_one i idx (now (length ms)) m l) (recv_loop i idx now ms)"

definition pktgen_recv_tstamp :: "port_info \<Rightarrow> (nat \<Rightarrow> u64) \<Rightarrow> mbuf list \<Rightarrow> latency_info \<Rightarrow> latency_info res" where
  "pktgen_recv_tstamp i now pkts l =
     (if pktgen_tst_port_flags (SEND_LATENCY_PKTS OR SEND_RATE_PACKETS) i then
        rbind (recv_loop i (burst_seq_idx i) now pkts l) (\<lambda>l.
        Inr (l\<lparr>la_nb_pkts := la_nb_pkts l + of_nat (length pkts)\<rparr>))
      else Inr l)"

section \<open>The transmit count is never overdrawn\<close>

lemma sint_small: "unat (w :: u64) < 2 ^ 63 \<Longrightarrow> sint w = uint w"
proof -
  assume "unat w < 2 ^ 63"
  then have "int (unat w) < int (2 ^ 63)" by (rule iffD2[OF of_nat_less_iff])
  then have u: "uint w < 2 ^ 63" by (simp only: of_nat_power of_nat_numeral uint_nat[symmetric])
  have "sint w = signed_take_bit 63 (uint w)" by (simp add: sint_uint)
  also have "\<dots> = uint w" by (rule signed_take_bit_int_eq_self) (use u order_trans[OF _ uint_ge_0[of w], of "- (2 ^ 63)"] in auto)
  finally show ?thesis .
qed

lemma tx_take_min: "unat c < 2 ^ 63 \<Longrightarrow> unat burst < 2 ^ 63 \<Longrightarrow> tx_take burst c = (if burst < c then burst else c)"
  unfolding tx_take_def by (simp only: sint_small word_less_def)

lemma tx_take_bounds:
  assumes "unat c < 2 ^ 63" "unat burst < 2 ^ 63" "c \<noteq> 0" "burst \<noteq> 0"
  shows "0 < unat (tx_take burst c)" "unat (tx_take burst c) \<le> unat c" "unat (tx_take burst c) \<le> unat burst"
    "unat (c - tx_take burst c) = unat c - unat (tx_take burst c)"
proof -
  show 1: "0 < unat (tx_take burst c)" "unat (tx_take burst c) \<le> unat c" "unat (tx_take burst c) \<le> unat burst"
    using assms(3,4) unfolding tx_take_min[OF assms(1,2)] by (auto simp: word_less_nat_alt unat_gt_0)
  show "unat (c - tx_take burst c) = unat c - unat (tx_take burst c)" using 1(2) by (simp add: unat_sub word_le_nat_alt)
qed

definition tx_count_inv :: "u64 \<Rightarrow> u64 \<Rightarrow> u64 \<times> tx_pc list \<times> u64 list \<Rightarrow> bool" where
  "tx_count_inv burst tot = (\<lambda>(cnt, pcs, lg).
     unat cnt + sum_list (map unat lg) = unat tot \<and> (\<forall>n \<in> set lg. 0 < unat n \<and> unat n \<le> unat burst) \<and>
     (\<forall>t. Cmpset t \<in> set pcs \<longrightarrow> t \<noteq> 0) \<and> (Return 0 \<in> set pcs \<longrightarrow> cnt = 0))"

lemma set_update_cases: "x \<in> set (xs[i := y]) \<Longrightarrow> x = y \<or> x \<in> set xs"
  using set_update_subset_insert[of xs i y] by auto

lemma tx_count_step_inv:
  assumes "tx_count_step burst s s'" "tx_count_inv burst tot s" "unat tot < 2 ^ 63" "unat burst < 2 ^ 63" "burst \<noteq> 0"
  shows "tx_count_inv burst tot s'"
  using assms(1,2)
proof (induction rule: tx_count_step.induct)
  case (cas_ok i pcs tmp1 cnt lg)
  have nz: "tmp1 \<noteq> 0" using cas_ok.hyps(1,2) cas_ok.prems nth_mem[of i pcs] by (auto simp: tx_count_inv_def)
  have s: "unat tmp1 < 2 ^ 63" using cas_ok.prems cas_ok.hyps(3) assms(3) by (simp add: tx_count_inv_def)
  note t = tx_take_bounds[OF s assms(4) nz assms(5)]
  have nz': "tx_take burst tmp1 \<noteq> 0" using t(1) by auto
  have r: "Return 0 \<notin> set pcs" using cas_ok.prems cas_ok.hyps(3) nz by (auto simp: tx_count_inv_def)
  then show ?case using cas_ok.prems cas_ok.hyps(3) t nz' by (auto simp: tx_count_inv_def dest: set_update_cases)
qed (auto simp: tx_count_inv_def dest: set_update_cases)

lemma tx_count_steps_inv:
  assumes "(tx_count_step burst)\<^sup>*\<^sup>* s s'" "tx_count_inv burst tot s" "unat tot < 2 ^ 63" "unat burst < 2 ^ 63" "burst \<noteq> 0"
  shows "tx_count_inv burst tot s'"
  using assms by (induction rule: rtranclp_induct) (auto intro: tx_count_step_inv)

text \<open>
  C2: however the lcores that share a port interleave their calls of the transmit counter, what
  they have been given and what is left always add up to the count the port was started with,
  no lcore is ever given more than a burst, and as soon as one of them is told that the count is
  used up exactly the started count has been given out.
\<close>

theorem tx_count_exact:
  assumes "(tx_count_step burst)\<^sup>*\<^sup>* (tot, replicate lcores Load, []) (cnt, pcs, lg)"
    and "unat tot < 2 ^ 63" and "unat burst < 2 ^ 63" and "burst \<noteq> 0"
  shows "unat cnt + sum_list (map unat lg) = unat tot \<and> (\<forall>n \<in> set lg. unat n \<le> unat burst) \<and>
    (Return 0 \<in> set pcs \<longrightarrow> sum_list (map unat lg) = unat tot)"
proof -
  have "tx_count_inv burst tot (tot, replicate lcores Load, [])" by (auto simp: tx_count_inv_def)
  from tx_count_steps_inv[OF assms(1) this assms(2-4)] show ?thesis by (auto simp: tx_count_inv_def)
qed

lemma tx_count_run:
  "(tx_count_step 64)\<^sup>*\<^sup>* (70, [Load, Load], []) (6, [Cmpset 70, Return 64], [64])"
proof -
  have "tx_count_step 64 (70, [Load, Load], []) (70, [Cmpset 70, Load], [])"
    using tx_count_step.load[of 0 "[Load, Load]" 70 64 "[]"] by simp
  moreover have "tx_count_step 64 (70, [Cmpset 70, Load], []) (70, [Cmpset 70, Cmpset 70], [])"
    using tx_count_step.load[of 1 "[Cmpset 70, Load]" 70 64 "[]"] by simp
  moreover have "tx_count_step 64 (70, [Cmpset 70, Cmpset 70], []) (6, [Cmpset 70, Return 64], [64])"
    using tx_count_step.cas_ok[of 1 "[Cmpset 70, Cmpset 70]" 70 70 64 "[]"] by (simp add: tx_take_def)
  ultimately show ?thesis by (meson converse_rtranclp_into_rtranclp r_into_rtranclp)
qed

theorem tx_count_exact_witness: "unat (6 :: u64) + sum_list (map unat [64 :: u64]) = unat (70 :: u64)"
proof -
  have "replicate 2 Load = [Load, Load]" by (simp add: numeral_2_eq_2)
  then show ?thesis using tx_count_exact[of 64 70 2 6 "[Cmpset 70, Return 64]" "[64]"] tx_count_run by simp
qed

section \<open>The unrolled reset loop\<close>

lemma reset_fold:
  assumes "a \<le> b" "b \<le> length ms"
  shows "rfold (\<lambda>ms i. reset_at i ms) ms [a..<b] = Inr (take a ms @ map pktmbuf_reset (take (b - a) (drop a ms)) @ drop b ms)"
  using assms
proof (induction b)
  case (Suc b)
  show ?case
  proof (cases "a = Suc b")
    case False
    then have ab: "a \<le> b" "b < length ms" using Suc.prems by simp_all
    let ?ms = "take a ms @ map pktmbuf_reset (take (b - a) (drop a ms)) @ drop b ms"
    have L: "length (take a ms @ map pktmbuf_reset (take (b - a) (drop a ms))) = b" using ab by simp
    have "reset_at b ?ms = Inr (take a ms @ map pktmbuf_reset (take (b - a) (drop a ms)) @ pktmbuf_reset (ms ! b) # drop (Suc b) ms)"
      using ab L by (simp add: reset_at_def nth_append list_update_append Cons_nth_drop_Suc[symmetric])
    moreover have "take (Suc b - a) (drop a ms) = take (b - a) (drop a ms) @ [ms ! b]"
      using ab by (simp add: Suc_diff_le take_Suc_conv_app_nth)
    ultimately show ?thesis using Suc.IH ab by (simp add: rfold_append)
  qed simp
qed simp

lemma upt_four: "[idx, idx + 1, idx + 2, idx + 3] = [idx..<idx + 4]"
  by (simp add: upt_rec)

lemma duff_loop_ok:
  "idx \<le> length ms \<Longrightarrow> 4 dvd length ms - idx \<Longrightarrow> length ms = count \<Longrightarrow>
   duff_loop count idx ms = Some (Inr (take idx ms @ map pktmbuf_reset (drop idx ms)))"
proof (induction "count - idx" arbitrary: idx ms rule: less_induct)
  case less
  show ?case
  proof (cases "idx = count")
    case True
    then show ?thesis using less.prems by (subst duff_loop.simps) simp
  next
    case False
    then have "0 < length ms - idx" using less.prems by simp
    then have f: "idx + 4 \<le> length ms" using dvd_imp_le[OF less.prems(2)] by simp
    have d: "4 dvd length ms - (idx + 4)" using dvd_diff_nat[OF less.prems(2) dvd_refl] by simp
    let ?ms = "take idx ms @ map pktmbuf_reset (take 4 (drop idx ms)) @ drop (idx + 4) ms"
    have r: "rfold (\<lambda>ms i. reset_at i ms) ms [idx, idx + 1, idx + 2, idx + 3] = Inr ?ms"
      unfolding upt_four using reset_fold[of idx "idx + 4" ms] f by simp
    have "duff_loop count (idx + 4) ?ms = Some (Inr (take (idx + 4) ?ms @ map pktmbuf_reset (drop (idx + 4) ?ms)))"
      by (rule less.hyps) (use less.prems f False d in auto)
    moreover have "take (idx + 4) ?ms @ map pktmbuf_reset (drop (idx + 4) ?ms) = take idx ms @ map pktmbuf_reset (drop idx ms)"
      using f by (simp add: take_map[symmetric] drop_map[symmetric]) (metis append_take_drop_id drop_drop map_append add.commute)
    ultimately show ?thesis using False by (subst duff_loop.simps) (simp only: r sum.case if_False)
  qed
qed

text \<open>
  C13: the unrolled loop that resets a bulk of mbufs, entered at one of four places, ends and
  resets each of the mbufs exactly once, so allocating from a pool that has enough of them
  returns them all, reset.
\<close>

theorem alloc_bulk_resets_all:
  assumes "get_bulk count pool = Some (ms, pool')" and "length ms = count"
  shows "pg_pktmbuf_alloc_bulk get_bulk get count pool = Some (Inr (map pktmbuf_reset ms, pool')) \<or> count = 0"
proof (cases "count = 0")
  case False
  have le: "count mod 4 \<le> length ms" using assms(2) by simp
  let ?ms = "map pktmbuf_reset (take (count mod 4) ms) @ drop (count mod 4) ms"
  have r: "rfold (\<lambda>ms i. reset_at i ms) ms [0..<count mod 4] = Inr ?ms" using reset_fold[of 0 "count mod 4" ms] le by simp
  have "duff_loop count (count mod 4) ?ms = Some (Inr (take (count mod 4) ?ms @ map pktmbuf_reset (drop (count mod 4) ?ms)))"
    by (rule duff_loop_ok) (use assms(2) le in \<open>auto simp: dvd_minus_mod\<close>)
  moreover have "take (count mod 4) ?ms @ map pktmbuf_reset (drop (count mod 4) ?ms) = map pktmbuf_reset ms"
    using le by (simp flip: map_append)
  ultimately have "duff_reset count ms = Some (Inr (map pktmbuf_reset ms))" by (simp add: duff_reset_def r)
  then show ?thesis using False assms(1) by (simp add: pg_pktmbuf_alloc_bulk_def)
qed simp

definition example_mbuf :: mbuf where
  "example_mbuf = \<lparr>mb_addr = 0, mb_data = replicate 2048 0, mb_data_len = 0, mb_pkt_len = 0, mb_buf_len = 2048, mb_ol_flags = 0, mb_udata = (60, 2048, 60)\<rparr>"

theorem alloc_bulk_resets_all_witness:
  "pg_pktmbuf_alloc_bulk (\<lambda>n p. if n \<le> p then Some (replicate n example_mbuf, p - n) else None) (\<lambda>p. None) 5 9 =
     Some (Inr (map pktmbuf_reset (replicate 5 example_mbuf), 4))"
  using alloc_bulk_resets_all[of "\<lambda>n p. if n \<le> p then Some (replicate n example_mbuf, p - n) else None" 5 9
    "replicate 5 example_mbuf" 4 "\<lambda>p. None"] by simp


section \<open>Sending a burst\<close>

lemma send_burst_loop_step:
  assumes "pkts \<noteq> []" and "drv i (length pkts) \<le> length pkts" and "sending i"
    and "\<exists>N. \<forall>fuel \<ge> N. send_burst_loop fuel sending drv (\<lambda>_. Inr) (Suc i) (drop (drv i (length pkts)) pkts, s) =
            Inr (drop (drv i (length pkts)) pkts, s)"
  shows "\<exists>N. \<forall>fuel \<ge> N. send_burst_loop fuel sending drv (\<lambda>_. Inr) i (pkts, s) = Inr (pkts, s)"
proof -
  obtain N where N: "\<And>fuel. N \<le> fuel \<Longrightarrow>
      send_burst_loop fuel sending drv (\<lambda>_. Inr) (Suc i) (drop (drv i (length pkts)) pkts, s) = Inr (drop (drv i (length pkts)) pkts, s)"
    using assms(4) by blast
  have "send_burst_loop fuel sending drv (\<lambda>_. Inr) i (pkts, s) = Inr (pkts, s)" if hy: "Suc N \<le> fuel" for fuel
  proof -
    obtain f where f: "fuel = Suc f" "N \<le> f" using hy by (cases fuel) auto
    show ?thesis using assms(1,3) N[OF f(2)] by (simp add: f(1) Let_def)
  qed
  then show ?thesis by blast
qed

lemma send_burst_loop_all:
  assumes flag: "\<And>i. sending i" and bound: "\<And>i n. drv i n \<le> n" and fair: "\<And>i. \<exists>j \<ge> i. \<forall>n > 0. 0 < drv j n"
  shows "\<exists>N. \<forall>fuel \<ge> N. send_burst_loop fuel sending drv (\<lambda>_. Inr) i (pkts, s) = Inr (pkts, s)"
proof (induction "length pkts" arbitrary: pkts i rule: less_induct)
  case less
  have go: "\<exists>N. \<forall>fuel \<ge> N. send_burst_loop fuel sending drv (\<lambda>_. Inr) i (pkts, s) = Inr (pkts, s)"
    if ne: "pkts \<noteq> []" and good: "\<forall>n > 0. 0 < drv (i + d) n" for d i
    using good
  proof (induction d arbitrary: i)
    case 0
    then have "length (drop (drv i (length pkts)) pkts) < length pkts" using ne by simp
    from send_burst_loop_step[OF ne bound flag less.hyps[OF this]] show ?case .
  next
    case (Suc d)
    show ?case
    proof (cases "drv i (length pkts) = 0")
      case True
      have "\<forall>n > 0. 0 < drv (Suc i + d) n" using Suc.prems by simp
      from Suc.IH[OF this] have "\<exists>N. \<forall>fuel \<ge> N. send_burst_loop fuel sending drv (\<lambda>_. Inr) (Suc i)
          (drop (drv i (length pkts)) pkts, s) = Inr (drop (drv i (length pkts)) pkts, s)" unfolding True by simp
      from send_burst_loop_step[OF ne bound flag this] show ?thesis .
    next
      case False
      then have "length (drop (drv i (length pkts)) pkts) < length pkts" using ne by simp
      from send_burst_loop_step[OF ne bound flag less.hyps[OF this]] show ?thesis .
    qed
  qed
  show ?case
  proof (cases "pkts = []")
    case True
    have "send_burst_loop fuel sending drv (\<lambda>_. Inr) i (pkts, s) = Inr (pkts, s)" if "1 \<le> fuel" for fuel
      using that True by (cases fuel) auto
    then show ?thesis by blast
  next
    case False
    obtain j where j: "i \<le> j" "\<forall>n > 0. 0 < drv j n" using fair by blast
    then show ?thesis using go[OF False, of i "j - i"] by simp
  qed
qed

definition plain_port :: "port_info \<Rightarrow> bool" where
  "plain_port i \<longleftrightarrow> \<not> pktgen_tst_port_flags SEND_RANDOM_PKTS i \<and> \<not> pktgen_tst_port_flags (SEND_LATENCY_PKTS OR SEND_RATE_PACKETS) i"

lemma burst_prep_plain: "plain_port i \<Longrightarrow> burst_prep rb now i = (\<lambda>_. Inr)"
  by (auto simp: plain_port_def burst_prep_def fun_eq_iff)

lemma send_burst_complete:
  assumes "plain_port (g_info (tx_port q))" and "\<And>i. env_sending e i" and "\<And>i n. env_drv e i n \<le> n"
    and "\<And>i. \<exists>j \<ge> i. \<forall>n > 0. 0 < env_drv e j n"
  shows "\<exists>N. \<forall>fuel \<ge> N. pktgen_send_burst (e\<lparr>env_fuel := fuel\<rparr>) q = Inr (tx_tab q, q\<lparr>tx_tab := []\<rparr>)"
proof -
  obtain N where N: "\<forall>fuel \<ge> N. send_burst_loop fuel (env_sending e) (env_drv e) (\<lambda>_. Inr) 0
      (tx_tab q, tx_port q, tx_seed q) = Inr (tx_tab q, tx_port q, tx_seed q)"
    using send_burst_loop_all[where sending = "env_sending e" and drv = "env_drv e" and i = 0 and pkts = "tx_tab q"
      and s = "(tx_port q, tx_seed q)", OF assms(2-4)] by (elim exE)
  have "pktgen_send_burst (e\<lparr>env_fuel := fuel\<rparr>) q = Inr (tx_tab q, q\<lparr>tx_tab := []\<rparr>)" if "N \<le> fuel" for fuel
    using N that by (simp add: pktgen_send_burst_def burst_prep_plain[OF assms(1)])
  then show ?thesis by blast
qed


definition example_txq :: txq where
  "example_txq = \<lparr>tx_tab = [example_mbuf, example_mbuf\<lparr>mb_addr := 4096\<rparr>], tx_port = example_port,
     tx_rnd = \<lparr>active_specs = 0, specs = []\<rparr>, tx_seed = 1\<rparr>"

definition example_env :: tx_env where
  "example_env = \<lparr>env_fuel = 9, env_sending = (\<lambda>_. True), env_drv = (\<lambda>i n. if even i then 0 else min 1 n), env_now = (\<lambda>_ _. 0)\<rparr>"

lemma example_txq_plain: "plain_port (g_info (tx_port example_txq))"
  by (simp add: plain_port_def example_txq_def pktgen_tst_port_flags_def example_port_flags port_flag_defs)


section \<open>Packets lost when a port is stopped\<close>

text \<open>
  \<open>pktgen_stop_transmitting\<close> clears the sending flag before it asks for a flush, and the
  flush goes through the burst routine, whose loop runs only while the flag is set: the flush
  sends nothing, and the packets waiting in the table are dropped.
\<close>

theorem tx_flush_drops_after_stop:
  assumes "\<not> env_sending e 0" and "0 < env_fuel e" and "qid < length (pi_q_flags (g_info (tx_port q)))"
  shows "\<exists>q'. pktgen_tx_flush e qid q = Inr ([], q') \<and> tx_tab q' = [] \<and>
    pktgen_tst_q_flags qid DO_TX_FLUSH (g_info (tx_port q')) = Inr False"
proof -
  have "\<exists>q1. pktgen_send_burst e q = Inr ([], q1) \<and> tx_tab q1 = [] \<and> tx_port q1 = tx_port q"
    using assms(1,2) by (cases "env_fuel e") (auto simp: pktgen_send_burst_def)
  then show ?thesis using assms(3)
    by (auto simp: pktgen_tx_flush_def pktgen_clr_q_flags_def pktgen_tst_q_flags_def DO_TX_FLUSH_def and.assoc)
qed

theorem tx_flush_drops_after_stop_witness:
  "\<exists>q'. pktgen_tx_flush (example_env\<lparr>env_sending := \<lambda>_. False\<rparr>) 0 example_txq = Inr ([], q') \<and> tx_tab q' = [] \<and>
    pktgen_tst_q_flags 0 DO_TX_FLUSH (g_info (tx_port q')) = Inr False"
  by (rule tx_flush_drops_after_stop) (simp_all add: example_env_def example_txq_def example_port_def example_info_def)

section \<open>Filling the table up to the count\<close>

lemma unat_ucast_16_64: "unat (ucast (w :: u16) :: u64) = unat w"
  by (simp add: unsigned_ucast_eq take_bit_nat_eq_self less_le_trans[OF unsigned_less])

lemma tx_take_unat:
  assumes "unat c < 2 ^ 63" and "c \<noteq> 0"
  shows "unat (tx_take (ucast (b :: u16)) c) = min (unat b) (unat c)"
proof -
  have b: "unat (ucast b :: u64) = unat b" by (rule unat_ucast_16_64)
  then have "unat (ucast b :: u64) < 2 ^ 63" using unsigned_less[where 'a = nat, of b] by simp
  from tx_take_min[OF assms(1) this] show ?thesis by (auto simp: word_less_nat_alt b min_def)
qed

lemma unat_short_diff:
  fixes t :: u64
  assumes "n \<le> 64" and "unat t \<le> 64"
  shows "unat (ucast (t - ucast (of_nat n :: u16)) :: u16) = (if n \<le> unat t then unat t - n else 65536 + unat t - n)"
proof -
  have n: "unat (ucast (of_nat n :: u16) :: u64) = n" using assms(1) by (simp add: unat_ucast_16_64 unat_of_nat)
  have "(unat t + 18446744073709551616 - n) mod 65536 = 65536 + unat t - n" if "unat t < n"
  proof -
    have "unat t + 18446744073709551616 - n = (65536 + unat t - n) + 281474976710655 * 65536" using that assms by linarith
    moreover have "65536 + unat t - n < 65536" using that assms by linarith
    ultimately show ?thesis by (simp only: mod_mult_self1 mod_less)
  qed
  moreover have "unat (t - y) = (if n \<le> unat t then unat t - n else unat t + 18446744073709551616 - n)" if "unat y = n" for y
    using that by (simp add: unat_sub_if')
  note this[OF n]
  moreover have "unat (ucast w :: u16) = unat w mod 65536" for w :: u64 by (simp add: unsigned_ucast_eq take_bit_eq_mod)
  ultimately show ?thesis using assms by (cases "n \<le> unat t") simp_all
qed

lemma send_pkts_count:
  assumes "\<not> pktgen_tst_port_flags SEND_FOREVER (g_info (tx_port q))" and "unat (pi_current_tx_count (g_info (tx_port q))) < 2 ^ 63"
    and "pi_current_tx_count (g_info (tx_port q)) \<noteq> 0" and "pi_tx_burst (g_info (tx_port q)) \<noteq> 0"
  shows "pktgen_send_pkts alloc e q =
    send_pkts_alloc alloc (tx_take (ucast (pi_tx_burst (g_info (tx_port q)))) (pi_current_tx_count (g_info (tx_port q)))) e
      (q\<lparr>tx_port := upd_info (\<lambda>i. i\<lparr>pi_current_tx_count := pi_current_tx_count i - tx_take (ucast (pi_tx_burst i)) (pi_current_tx_count i)\<rparr>) (tx_port q)\<rparr>)"
proof -
  have "unat (tx_take (ucast (pi_tx_burst (g_info (tx_port q)))) (pi_current_tx_count (g_info (tx_port q)))) \<noteq> 0"
    unfolding tx_take_unat[OF assms(2,3)] using assms(3,4) by (auto simp: min_def unat_gt_0)
  then show ?thesis using assms(1,3)
    by (auto simp: pktgen_send_pkts_def pkt_atomic64_tx_count_def upd_info_def Let_def)
qed

lemma send_pkts_fill:
  fixes q :: txq
  defines "i \<equiv> g_info (tx_port q)"
  assumes "plain_port i" and "\<not> pktgen_tst_port_flags SEND_FOREVER i" and "pi_current_tx_count i \<noteq> 0"
    and "unat (pi_current_tx_count i) < 2 ^ 63" and "1 \<le> pi_tx_burst i" and "pi_tx_burst i \<le> 64"
    and "length (tx_tab q) \<le> min (unat (pi_tx_burst i)) (unat (pi_current_tx_count i))" and "\<forall>n \<le> unat (pi_tx_burst i). length (alloc n) = n"
    and "\<forall>k. env_sending e k" and "\<forall>k n. env_drv e k n \<le> n" and "\<forall>k. \<exists>j \<ge> k. \<forall>n > 0. 0 < env_drv e j n"
  shows "\<exists>N. \<forall>fuel \<ge> N. \<exists>q'. pktgen_send_pkts alloc (e\<lparr>env_fuel := fuel\<rparr>) q =
      Inr (tx_tab q @ alloc (min (unat (pi_tx_burst i)) (unat (pi_current_tx_count i)) - length (tx_tab q)), q') \<and> tx_tab q' = [] \<and>
      unat (pi_current_tx_count (g_info (tx_port q'))) =
        unat (pi_current_tx_count i) - min (unat (pi_tx_burst i)) (unat (pi_current_tx_count i)) \<and>
      pi_q_flags (g_info (tx_port q')) = pi_q_flags i"
proof -
  let ?t = "tx_take (ucast (pi_tx_burst i)) (pi_current_tx_count i)"
  let ?new = "alloc (unat ?t - length (tx_tab q))"
  let ?q = "q\<lparr>tx_port := upd_info (\<lambda>i. i\<lparr>pi_current_tx_count := pi_current_tx_count i - ?t\<rparr>) (tx_port q), tx_tab := tx_tab q @ ?new\<rparr>"
  have t: "unat ?t = min (unat (pi_tx_burst i)) (unat (pi_current_tx_count i))" by (rule tx_take_unat[OF assms(5,4)])
  have b: "unat (pi_tx_burst i) \<le> 64" using assms(7) by (simp add: word_le_nat_alt)
  have len: "length (tx_tab q) \<le> unat ?t" "unat ?t \<le> 64" "unat ?t \<le> unat (pi_tx_burst i)" using assms(8) b t by auto
  have cnt: "unat (ucast (?t - ucast (of_nat (length (tx_tab q)) :: u16)) :: u16) = unat ?t - length (tx_tab q)"
    using unat_short_diff[of "length (tx_tab q)" ?t] len by simp
  have al: "length ?new = unat ?t - length (tx_tab q)" using assms(9) len(3) by simp
  have nb: "pi_tx_burst i \<noteq> 0" using assms(6) by auto
  have plain: "plain_port (g_info (tx_port ?q))"
    using assms(2) by (simp add: plain_port_def pktgen_tst_port_flags_def upd_info_def i_def)
  have unfold: "pktgen_send_pkts alloc e' q = pktgen_send_burst e' ?q" for e'
    using send_pkts_count[of q alloc e'] assms(3,4,5) nb len cnt al
    by (auto simp: send_pkts_alloc_def Let_def word_less_nat_alt i_def upd_info_def)
  obtain N where N: "\<forall>fuel \<ge> N. pktgen_send_burst (e\<lparr>env_fuel := fuel\<rparr>) ?q = Inr (tx_tab ?q, ?q\<lparr>tx_tab := []\<rparr>)"
    using send_burst_complete[OF plain, of e] assms(10-12) by blast
  have "unat (pi_current_tx_count i - ?t) = unat (pi_current_tx_count i) - unat ?t"
    using t by (simp add: unat_sub word_le_nat_alt)
  then show ?thesis using N unfold t by (intro exI[of _ N]) (auto simp: upd_info_def i_def)
qed



lemma example_port_counts: "pi_tx_burst (g_info example_port) = 64" "pi_current_tx_count (g_info example_port) = 0"
  by (simp_all add: example_port_def example_info_def)



section \<open>Packets in the pool\<close>

text \<open>
  An mbuf that was filled for a packet template and is allocated later carries the template's
  headers and its size, but never an offload flag: the reset on allocation clears the flags that
  \<open>pktgen_setup_cb\<close> stored, and only the lengths are restored.
\<close>

theorem setup_cb_then_alloc:
  assumes "setup_idx mp (g_info (su_port s)) = Some (idx, i)" and "pktgen_setup_cb mp m s = Inr (m', s')"
  shows "rd (mb_data (pktmbuf_reset m')) 0 (min 1514 (length (pk_hdr (pi_seq_pkt (g_info (su_port s')) ! idx)))) =
      Inr (take 1514 (pk_hdr (pi_seq_pkt (g_info (su_port s')) ! idx))) \<and>
    mb_data_len (pktmbuf_reset m') = pk_pktSize (pi_seq_pkt (g_info (su_port s')) ! idx) \<and>
    mb_pkt_len (pktmbuf_reset m') = ucast (pk_pktSize (pi_seq_pkt (g_info (su_port s')) ! idx)) \<and>
    mb_buf_len (pktmbuf_reset m') = mb_buf_len m \<and> mb_ol_flags (pktmbuf_reset m') = 0"
proof -
  obtain p ol where m': "setup_mbuf p ol (rte_pktmbuf_reset m) = Inr m'" and p: "p = pi_seq_pkt (g_info (su_port s')) ! idx"
    using assms by (auto simp: pktgen_setup_cb_def Let_def rbind_eq_Inr split: if_splits)
  then obtain d where d: "wr (mb_data m) 0 (take 1514 (pk_hdr p)) = Inr d" and eq: "m' = (rte_pktmbuf_reset m)\<lparr>mb_data := d,
      mb_pkt_len := ucast (pk_pktSize p), mb_data_len := pk_pktSize p, mb_ol_flags := ol,
      mb_udata := (pk_pktSize p, mb_buf_len m, ucast (pk_pktSize p))\<rparr>"
    by (auto simp: setup_mbuf_def rbind_eq_Inr rte_pktmbuf_reset_def)
  show ?thesis using rd_wr_same[OF d] by (simp add: eq p pktmbuf_reset_def rte_pktmbuf_reset_def min.commute)
qed

section \<open>Time stamps\<close>

lemma length_le64 [simp]: "length (le64 w) = 8"
  by (simp add: le64_def)

lemma le64_step: "push_bit 8 (drop_bit (n + 8) w) OR ucast (ucast (drop_bit n w) :: u8) = (drop_bit n w :: u64)"
  by (rule bit_word_eqI) (auto simp: bit_simps dest: bit_imp_le_length)

lemma of_le64_le64: "of_le64 (le64 w) = w"
proof -
  have "push_bit 8 0 OR ucast (ucast (drop_bit 56 w) :: u8) = drop_bit 56 w"
  proof -
    have "drop_bit (56 + 8) w = 0" by (rule bit_word_eqI) (auto simp: bit_simps dest: bit_imp_le_length)
    then show ?thesis using le64_step[of 56 w] by (simp only: push_bit_of_0)
  qed
  then show ?thesis
    using le64_step[of 48 w] le64_step[of 40 w] le64_step[of 32 w] le64_step[of 24 w] le64_step[of 16 w] le64_step[of 8 w] le64_step[of 0 w]
    by (simp add: of_le64_def le64_def)
qed

lemma of_le16_le16: "le16 w = [a, b] \<Longrightarrow> of_le16 a b = w"
  unfolding le16_def of_le16_def by (auto intro!: bit_word_eqI simp: bit_simps)

lemma tstamp_pointer_mod:
  assumes "mb_addr m mod 8 = mb_addr m' mod 8"
  shows "pktgen_tstamp_pointer i m idx = pktgen_tstamp_pointer i m' idx"
proof -
  have "(a + k + 7) div 8 * 8 - a = (a mod 8 + k + 7) div 8 * 8 - a mod 8" for a k :: nat
  proof -
    define q r where "q = a div 8" and "r = a mod 8"
    have a: "a = 8 * q + r" by (simp add: q_def r_def)
    have "(8 * q + r + k + 7) div 8 = q + (r + k + 7) div 8" using div_mult_self2[of 8 "r + k + 7" q] by (simp add: ac_simps)
    then show ?thesis unfolding r_def[symmetric] unfolding a by simp
  qed
  note mod = this
  have "(mb_addr m + k + 7) div 8 * 8 - mb_addr m = (mb_addr m' + k + 7) div 8 * 8 - mb_addr m'" for k
    unfolding mod[of "mb_addr m"] mod[of "mb_addr m'"] assms ..
  from this[of 42] this[of 54] this[of 62] this[of 74] show ?thesis by (simp add: pktgen_tstamp_pointer_def Let_def)
qed

lemma tstamp_pointer_cong:
  assumes "pk_ethType (pi_seq_pkt i ! idx) = pk_ethType (pi_seq_pkt j ! idx)" and "pk_ipProto (pi_seq_pkt i ! idx) = pk_ipProto (pi_seq_pkt j ! idx)"
    and "mb_addr m mod 8 = mb_addr m' mod 8"
  shows "pktgen_tstamp_pointer i m idx = pktgen_tstamp_pointer j m' idx"
  unfolding tstamp_pointer_mod[OF assms(3)] using assms(1,2) by (simp add: pktgen_tstamp_pointer_def)

lemma recv_one_stamped:
  assumes "tstamp_write j idx t m = Inr m1" and "mb_data m2 = mb_data m1" and "mb_addr m1 mod 8 = mb_addr m2 mod 8"
    and "pk_ethType (pi_seq_pkt i ! idx) = pk_ethType (pi_seq_pkt j ! idx)" and "pk_ipProto (pi_seq_pkt i ! idx) = pk_ipProto (pi_seq_pkt j ! idx)"
  shows "\<exists>l'. recv_one i idx now m2 l = Inr l' \<and> la_avg_latency l' = la_avg_latency l + (now - t) \<and>
    la_magic_errors l' = la_magic_errors l \<and> la_nb_pkts l' = la_nb_pkts l \<and> la_prev_latency l' = now - t \<and>
    la_max_latency l' = max (la_max_latency l) (now - t)"
proof -
  let ?o = "pktgen_tstamp_pointer j m idx"
  obtain d where d: "wrs (mb_data m) [(?o, le64 t), (?o + 8, le16 TSTAMP_MAGIC)] = Inr d" "m1 = m\<lparr>mb_data := d\<rparr>"
    using assms(1) by (auto simp: tstamp_write_def Let_def rbind_eq_Inr)
  have off: "pktgen_tstamp_pointer i m2 idx = ?o"
    by (rule tstamp_pointer_cong) (use assms(3-5) d(2) in simp_all)
  have "rd d ?o 8 = Inr (le64 t)"
    by (rule rd_wrs_at[where ws = "[]", unfolded append_Nil, OF d(1)]) (simp_all add: disjoint_from_def)
  moreover have "rd d (?o + 8) 2 = Inr (le16 TSTAMP_MAGIC)"
    by (rule rd_wrs_at[where ws = "[(?o, le64 t)]" and vs = "[]", unfolded append_Cons append_Nil, OF d(1)]) simp_all
  moreover have "of_le16 (le16 TSTAMP_MAGIC ! 0) (le16 TSTAMP_MAGIC ! 1) = TSTAMP_MAGIC"
    by (rule of_le16_le16) (simp add: le16_def)
  ultimately show ?thesis using assms(2) d(2) by (auto simp: recv_one_def Let_def off of_le64_le64 max_def)
qed

lemma tstamp_apply_recv:
  assumes "pktgen_tstamp_apply now idx ms g = Inr (ms1, g')"
    and "list_all2 (\<lambda>a b. mb_data b = mb_data a \<and> mb_addr a mod 8 = mb_addr b mod 8) ms1 ms2"
    and "pk_ethType (pi_seq_pkt i ! idx) = pk_ethType (pi_seq_pkt (g_info g) ! idx)"
    and "pk_ipProto (pi_seq_pkt i ! idx) = pk_ipProto (pi_seq_pkt (g_info g) ! idx)"
  shows "\<exists>l'. recv_loop i idx rx ms2 l = Inr l' \<and> la_avg_latency l' = la_avg_latency l + (\<Sum>k < length ms. rx k - now k) \<and>
    la_magic_errors l' = la_magic_errors l \<and> la_nb_pkts l' = la_nb_pkts l \<and> length ms2 = length ms"
  using assms
proof (induction now idx ms g arbitrary: ms1 g' ms2 l rule: pktgen_tstamp_apply.induct)
  case (1 now idx g)
  then show ?case by auto
next
  case (2 now idx m ms g)
  let ?p = "pi_seq_pkt (g_info g) ! idx"
  from 2(2) obtain m1 p1 p2 ident tl1 where a: "idx < length (pi_seq_pkt (g_info g))"
    "tstamp_write (g_info g) idx (now (length ms)) m = Inr m1" "pktgen_udp_hdr_ctor ?p 14 PG_ETHER_TYPE_IPv4 = Inr p1"
    "pktgen_ipv4_ctor p1 (g_ident g) 14 = Inr (p2, ident)"
    "pktgen_tstamp_apply now idx ms (set_pkt idx (\<lambda>_. p2) (g\<lparr>g_ident := ident\<rparr>)) = Inr (tl1, g')" "ms1 = m1 # tl1"
    by (auto simp: rbind_eq_Inr split: if_splits)
  obtain m2 tl2 where b: "ms2 = m2 # tl2" "mb_data m2 = mb_data m1" "mb_addr m1 mod 8 = mb_addr m2 mod 8"
    "list_all2 (\<lambda>a b. mb_data b = mb_data a \<and> mb_addr a mod 8 = mb_addr b mod 8) tl1 tl2"
    using 2(3) unfolding a(6) by (cases ms2) auto
  have c: "pi_seq_pkt (g_info (set_pkt idx (\<lambda>_. p2) (g\<lparr>g_ident := ident\<rparr>))) ! idx = p2"
    using a(1) by (simp add: set_pkt_def upd_info_def upd_pkt_def)
  have sh: "same_shape ?p p2" using pktgen_udp_hdr_ctor_shape[OF a(3)] pktgen_ipv4_ctor_shape[OF a(4)] by (rule same_shape_trans)
  obtain l1 where l1: "recv_one i idx (rx (length ms)) m2 l = Inr l1" "la_avg_latency l1 = la_avg_latency l + (rx (length ms) - now (length ms))"
    "la_magic_errors l1 = la_magic_errors l" "la_nb_pkts l1 = la_nb_pkts l"
    using recv_one_stamped[OF a(2) b(2,3) 2(4,5)] by blast
  have nle: "\<not> length (pi_seq_pkt (g_info g)) \<le> idx" using a(1) by simp
  from 2(1)[OF nle a(2) a(3) a(4) refl a(5) b(4), of l1] 2(4,5) sh
  obtain l' where l': "recv_loop i idx rx tl2 l1 = Inr l'" "la_avg_latency l' = la_avg_latency l1 + (\<Sum>k < length ms. rx k - now k)"
    "la_magic_errors l' = la_magic_errors l1" "la_nb_pkts l' = la_nb_pkts l1" "length tl2 = length ms"
    unfolding c by (auto simp: same_shape_def)
  then show ?case using l1 by (simp add: b(1) add.commute add.left_commute)
qed


lemma example_tstamp_apply:
  "\<exists>m1 g'. pktgen_tstamp_apply now SINGLE_PKT [example_mbuf] (upd_info (pktgen_set_port_flags SEND_LATENCY_PKTS) example_port) = Inr ([m1], g')"
proof -
  let ?i = "g_info (upd_info (pktgen_set_port_flags SEND_LATENCY_PKTS) example_port)"
  have p: "pi_seq_pkt ?i ! SINGLE_PKT = example_pkt" "SINGLE_PKT < length (pi_seq_pkt ?i)"
    by (simp_all add: upd_info_def pktgen_set_port_flags_def example_port_def example_info_def)
  have "\<exists>d. wrs (mb_data example_mbuf) [(48, le64 (now 0)), (56, le16 TSTAMP_MAGIC)] = Inr d"
    using wrs_ok[of "[(48, le64 (now 0)), (56, le16 TSTAMP_MAGIC)]" "mb_data example_mbuf"] by (auto simp: example_mbuf_def)
  moreover have "pktgen_tstamp_pointer ?i example_mbuf SINGLE_PKT = 48"
    by (simp add: pktgen_tstamp_pointer_def p Let_def) (simp add: example_pkt_def example_mbuf_def)
  ultimately obtain m1 where m1: "tstamp_write ?i SINGLE_PKT (now 0) example_mbuf = Inr m1" by (auto simp: tstamp_write_def)
  obtain h where h: "pktgen_udp_hdr_ctor example_pkt 14 PG_ETHER_TYPE_IPv4 = Inr (example_pkt\<lparr>pk_hdr := h\<rparr>)" "length h = DEFAULT_MBUF_SIZE"
    using pktgen_udp_hdr_ctor_ipv4[of 14 example_pkt] by (auto simp: example_pkt_def)
  obtain h2 idt where h2: "pktgen_ipv4_ctor (example_pkt\<lparr>pk_hdr := h\<rparr>) (g_ident example_port) 14 = Inr (example_pkt\<lparr>pk_hdr := h2\<rparr>, idt)"
    using pktgen_ipv4_ctor_ok[of 14 "example_pkt\<lparr>pk_hdr := h\<rparr>" "g_ident example_port"] h(2) by auto
  show ?thesis using m1 h h2 p by (simp add: upd_info_def)
qed


section \<open>Sequence packets\<close>

definition ctor_ready :: "pkt_seq \<Rightarrow> bool" where
  "ctor_ready p \<longleftrightarrow> length (pk_hdr p) = DEFAULT_MBUF_SIZE \<and> length (pk_eth_src p) = 6 \<and> length (pk_eth_dst p) = 6 \<and>
     60 \<le> pk_pktSize p \<and> pk_pktSize p \<le> 1514 \<and> (pk_ethType p = PG_ETHER_TYPE_IPv6 \<longrightarrow> 62 \<le> pk_pktSize p)"

definition seq_pkts :: "tx_setup \<Rightarrow> pkt_seq list" where
  "seq_pkts s = pi_seq_pkt (g_info (su_port s))"

definition setup_ready :: "tx_setup \<Rightarrow> bool" where
  "setup_ready s \<longleftrightarrow> (let i = g_info (su_port s) in length (pi_seq_pkt i) = NUM_TOTAL_PKTS \<and> (\<forall>p \<in> set (pi_seq_pkt i). ctor_ready p) \<and>
     pi_port_flags i AND SEND_GRE_IPv4_HEADER = 0 \<and> pi_port_flags i AND SEND_GRE_ETHER_HEADER = 0 \<and>
     pi_seqIdx i < pi_seqCnt i \<and> pi_seqCnt i \<le> 16)"

lemma ctor_ready_shape: "same_shape p q \<Longrightarrow> ctor_ready p \<Longrightarrow> ctor_ready q"
  by (simp add: ctor_ready_def same_shape_def)

lemma ctor_ready_total: "ctor_ready p \<Longrightarrow> fl AND SEND_GRE_IPv4_HEADER = 0 \<Longrightarrow> fl AND SEND_GRE_ETHER_HEADER = 0 \<Longrightarrow>
  \<exists>q idt'. pkt_ctor fl f u p idt t = Inr (q, idt')"
  using pkt_ctor_total[of p fl f u idt t] by (auto simp: ctor_ready_def)

lemma packet_ctor_ready:
  assumes "idx < length (pi_seq_pkt (g_info g))" and "ctor_ready (pi_seq_pkt (g_info g) ! idx)"
    and "pi_port_flags (g_info g) AND SEND_GRE_IPv4_HEADER = 0" and "pi_port_flags (g_info g) AND SEND_GRE_ETHER_HEADER = 0"
  shows "\<exists>q idt. pktgen_packet_ctor idx t g =
    Inr (g\<lparr>g_info := (g_info g)\<lparr>pi_seq_pkt := (pi_seq_pkt (g_info g))[idx := q]\<rparr>, g_ident := idt\<rparr>) \<and>
    same_shape (pi_seq_pkt (g_info g) ! idx) q"
proof -
  obtain q idt where q: "pkt_ctor (pi_port_flags (g_info g)) (pi_fill_pattern (g_info g)) (pi_user_pattern (g_info g))
      (pi_seq_pkt (g_info g) ! idx) (g_ident g) t = Inr (q, idt)"
    using ctor_ready_total assms(2-4) by blast
  then show ?thesis using assms(1) pkt_ctor_shape[OF q] by (auto simp: pktgen_packet_ctor_def Let_def)
qed

lemma setup_mbuf_ok:
  assumes "1514 \<le> length (mb_data m)"
  shows "\<exists>m'. setup_mbuf p ol m = Inr m' \<and> mb_data_len m' = pk_pktSize p"
proof -
  have "0 + length (take 1514 (pk_hdr p)) \<le> length (mb_data m)" using assms by simp
  from wr_ok[OF this] show ?thesis by (auto simp: setup_mbuf_def)
qed

lemma seq_idx_next:
  assumes "(a :: u16) < c" and "c \<le> 16"
  shows "unat (if a + 1 \<ge> c then 0 else a + 1) = Suc (unat a) mod unat c"
proof -
  have a: "unat (a + 1) = Suc (unat a)" using assms unsigned_less[where 'a = nat, of a]
    by (simp add: unat_word_ariths word_less_nat_alt word_le_nat_alt)
  have le: "Suc (unat a) \<le> unat c" using assms(1) by (simp add: word_less_nat_alt)
  show ?thesis
  proof (cases "a + 1 \<ge> c")
    case True
    then have "Suc (unat a) = unat c" using le unfolding word_le_nat_alt a by simp
    then show ?thesis using True by simp
  next
    case False
    then have "Suc (unat a) < unat c" unfolding word_le_nat_alt a by simp
    then show ?thesis using False a by simp
  qed
qed

lemma setup_cb_seq:
  assumes ready: "setup_ready s" and m: "1514 \<le> length (mb_data m)"
  shows "\<exists>m' s'. pktgen_setup_cb Seq_mp m s = Inr (m', s') \<and>
    mb_data_len m' = pk_pktSize (seq_pkts s ! unat (pi_seqIdx (g_info (su_port s)))) \<and> setup_ready s' \<and>
    (\<forall>n < NUM_TOTAL_PKTS. pk_pktSize (seq_pkts s' ! n) = pk_pktSize (seq_pkts s ! n)) \<and>
    pi_seqCnt (g_info (su_port s')) = pi_seqCnt (g_info (su_port s)) \<and>
    unat (pi_seqIdx (g_info (su_port s'))) = Suc (unat (pi_seqIdx (g_info (su_port s)))) mod unat (pi_seqCnt (g_info (su_port s)))"
proof -
  let ?i = "g_info (su_port s)"
  let ?n = "if pi_seqIdx ?i + 1 \<ge> pi_seqCnt ?i then 0 else pi_seqIdx ?i + 1"
  let ?s = "s\<lparr>su_port := (su_port s)\<lparr>g_info := ?i\<lparr>pi_seqIdx := ?n\<rparr>\<rparr>\<rparr>"
  define k where "k = unat (pi_seqIdx ?i)"
  have r: "length (pi_seq_pkt ?i) = NUM_TOTAL_PKTS" "\<forall>p \<in> set (pi_seq_pkt ?i). ctor_ready p"
    "pi_port_flags ?i AND SEND_GRE_IPv4_HEADER = 0" "pi_port_flags ?i AND SEND_GRE_ETHER_HEADER = 0"
    "pi_seqIdx ?i < pi_seqCnt ?i" "pi_seqCnt ?i \<le> 16" using ready by (auto simp: setup_ready_def Let_def)
  have k: "k < 16" using r(5,6) by (simp add: k_def word_less_nat_alt word_le_nat_alt)
  obtain q idt where q: "pktgen_packet_ctor k (-1) (su_port ?s) = Inr ((su_port ?s)\<lparr>g_info := (g_info (su_port ?s))
      \<lparr>pi_seq_pkt := (pi_seq_pkt ?i)[k := q]\<rparr>, g_ident := idt\<rparr>)" "same_shape (pi_seq_pkt ?i ! k) q"
    using packet_ctor_ready[of k "su_port ?s" "-1"] r k by auto
  obtain m' where m': "setup_mbuf q (setup_ol_flags (su_capa s) q (su_ol s ! k)) (rte_pktmbuf_reset m) = Inr m'" "mb_data_len m' = pk_pktSize q"
    using setup_mbuf_ok[of "rte_pktmbuf_reset m"] m by (auto simp: rte_pktmbuf_reset_def)
  have size: "pk_pktSize q = pk_pktSize (pi_seq_pkt ?i ! k)" using q(2) by (simp add: same_shape_def)
  let ?s' = "?s\<lparr>su_port := (su_port ?s)\<lparr>g_info := (g_info (su_port ?s))\<lparr>pi_seq_pkt := (pi_seq_pkt ?i)[k := q]\<rparr>, g_ident := idt\<rparr>,
      su_ol := (su_ol s)[k := setup_ol_flags (su_capa s) q (su_ol s ! k)]\<rparr>"
  have run: "pktgen_setup_cb Seq_mp m s = Inr (m', ?s')"
    using q(1) m'(1) r(1) k by (simp add: pktgen_setup_cb_def setup_idx_def setup_range_def k_def)
  have nx: "unat ?n = Suc k mod unat (pi_seqCnt ?i)" unfolding k_def by (rule seq_idx_next[OF r(5,6)])
  then have "?n < pi_seqCnt ?i" using r(5) by (simp add: word_less_nat_alt mod_less_divisor)
  moreover have "ctor_ready q" using q(2) r(1,2) k by (auto intro: ctor_ready_shape)
  ultimately have "setup_ready ?s'" using r set_update_subset_insert[of "pi_seq_pkt ?i" k q] by (auto simp: setup_ready_def Let_def)
  moreover have "\<forall>n < NUM_TOTAL_PKTS. pk_pktSize (seq_pkts ?s' ! n) = pk_pktSize (seq_pkts s ! n)"
    using size r(1) k by (auto simp: seq_pkts_def nth_list_update)
  ultimately show ?thesis using run m'(2) size nx
    by (intro exI[of _ m'] exI[of _ ?s']) (simp add: seq_pkts_def k_def)
qed

lemma setup_iter_seq:
  assumes "setup_ready s" and "\<forall>m \<in> set pool. 1514 \<le> length (mb_data m)"
  shows "\<exists>ms s'. setup_iter Seq_mp pool s = Inr (ms, s') \<and> length ms = length pool \<and>
    (\<forall>k < length pool. mb_data_len (ms ! k) =
       pk_pktSize (seq_pkts s ! ((unat (pi_seqIdx (g_info (su_port s))) + k) mod unat (pi_seqCnt (g_info (su_port s))))))"
  using assms
proof (induction pool arbitrary: s)
  case (Cons m pool)
  let ?c = "unat (pi_seqCnt (g_info (su_port s)))" and ?a = "unat (pi_seqIdx (g_info (su_port s)))"
  obtain m' s' where s': "pktgen_setup_cb Seq_mp m s = Inr (m', s')" "mb_data_len m' = pk_pktSize (seq_pkts s ! ?a)" "setup_ready s'"
    "\<forall>n < NUM_TOTAL_PKTS. pk_pktSize (seq_pkts s' ! n) = pk_pktSize (seq_pkts s ! n)"
    "unat (pi_seqCnt (g_info (su_port s'))) = ?c" "unat (pi_seqIdx (g_info (su_port s'))) = Suc ?a mod ?c"
    using setup_cb_seq[OF Cons.prems(1), of m] Cons.prems(2) by auto
  obtain ms s2 where ms: "setup_iter Seq_mp pool s' = Inr (ms, s2)" "length ms = length pool"
    "\<forall>k < length pool. mb_data_len (ms ! k) = pk_pktSize (seq_pkts s' ! ((Suc ?a mod ?c + k) mod ?c))"
    using Cons.IH[OF s'(3)] Cons.prems(2) s'(5,6) by auto
  have c: "?a < ?c" "?c \<le> 16" using Cons.prems(1) by (auto simp: setup_ready_def Let_def word_less_nat_alt word_le_nat_alt)
  have "pk_pktSize (seq_pkts s' ! (n mod ?c)) = pk_pktSize (seq_pkts s ! (n mod ?c))" for n
  proof -
    have "n mod ?c < ?c" using c(1) by (intro mod_less_divisor) simp
    then show ?thesis using s'(4) c(2) by simp
  qed
  then have "mb_data_len ((m' # ms) ! k) = pk_pktSize (seq_pkts s ! ((?a + k) mod ?c))" if "k < Suc (length pool)" for k
    using that s'(2) ms(3) c(1) by (cases k) (simp_all add: mod_add_left_eq)
  then show ?case using s'(1) ms(1,2) by auto
qed auto


definition example_setup :: tx_setup where
  "example_setup = \<lparr>su_port = upd_info (\<lambda>i. i\<lparr>pi_seqCnt := 2, pi_seq_pkt := (pi_seq_pkt i)[1 := example_pkt\<lparr>pk_pktSize := 128\<rparr>]\<rparr>) example_port,
     su_statics = \<lparr>min_vlan_set = False, min_cos_set = False, min_tos_set = False\<rparr>, su_ol = replicate NUM_TOTAL_PKTS 0, su_capa = 2\<rparr>"

lemma example_setup_ready: "setup_ready example_setup"
  using set_update_subset_insert[of "replicate NUM_TOTAL_PKTS example_pkt" 1 "example_pkt\<lparr>pk_pktSize := 128\<rparr>"]
  by (auto simp: setup_ready_def Let_def example_setup_def upd_info_def example_port_def example_info_def ctor_ready_def example_pkt_def)


theorem setup_cb_then_alloc_witness:
  "\<exists>m' s'. pktgen_setup_cb Seq_mp example_mbuf example_setup = Inr (m', s') \<and> mb_data_len (pktmbuf_reset m') = 60 \<and>
     mb_ol_flags (pktmbuf_reset m') = 0"
proof -
  obtain m' s' where r: "pktgen_setup_cb Seq_mp example_mbuf example_setup = Inr (m', s')"
    "\<forall>n < NUM_TOTAL_PKTS. pk_pktSize (seq_pkts s' ! n) = pk_pktSize (seq_pkts example_setup ! n)"
    using setup_cb_seq[OF example_setup_ready, of example_mbuf] by (auto simp: example_mbuf_def)
  have "\<exists>i. setup_idx Seq_mp (g_info (su_port example_setup)) = Some (0, i)"
    by (simp add: setup_idx_def example_setup_def upd_info_def example_port_def example_info_def)
  then obtain i where i: "setup_idx Seq_mp (g_info (su_port example_setup)) = Some (0, i)" ..
  have "pk_pktSize (seq_pkts example_setup ! 0) = 60"
    by (simp add: seq_pkts_def example_setup_def upd_info_def example_port_def example_info_def example_pkt_def)
  then show ?thesis using setup_cb_then_alloc[OF i r(1)] r by (auto simp: seq_pkts_def)
qed

end
