(* ===== verification/Capture.thy ===== *)
theory Capture
  imports Tx L2p
begin

text \<open>
  Packet capture into memory (app/pktgen-capture.c) and the packet dump of a port (app/pktgen-dump.c,
  \<open>debug_set_port_dump\<close> of app/pktgen-cmds.c). The memory of a socket is a list of bytes and a pointer into it an offset; a
  record is a header of twelve bytes followed by packet bytes. What enabling, capturing and disabling put into the
  file refines a list of packets cut off where the memory is full.
\<close>

section \<open>The capture memory\<close>

record capture =
  cp_mz :: "u8 list option"
  cp_tail :: nat
  cp_end :: nat
  cp_used :: nat
  cp_lcore :: u16
  cp_port :: u16

text \<open>One record of the capture file: \<open>len\<close>, \<open>caplen\<close> and the bytes.\<close>

record cap_rec =
  cr_len :: u16
  cr_caplen :: u16
  cr_data :: "u8 list"

definition CAPTURE_PKTS :: u32 where "CAPTURE_PKTS = push_bit 5 1"

definition le16_at :: "u8 list \<Rightarrow> nat \<Rightarrow> u16 res" where
  "le16_at m off = rbind (rd m off 2) (\<lambda>b. Inr (of_le16 (b ! 0) (b ! 1)))"

text \<open>\<open>mz\<close> is what \<open>rte_memzone_reserve\<close> returns.\<close>

definition pktgen_packet_capture_init :: "u8 list option \<Rightarrow> capture \<Rightarrow> capture" where
  "pktgen_packet_capture_init mz c = c\<lparr>cp_lcore := of_nat n_lcores, cp_port := of_nat n_ports, cp_used := 0, cp_mz := mz\<rparr>"

text \<open>The search for an lcore that receives on the port; \<open>n_lcores\<close> when there is none.\<close>

fun lcore_receives :: "l2p \<Rightarrow> u16 \<Rightarrow> nat \<Rightarrow> nat list \<Rightarrow> bool res" where
  "lcore_receives l pid lid [] = Inr False"
| "lcore_receives l pid lid (k # ks) =
     rbind (get_rx_pid l lid k) (\<lambda>p. if p = pid then Inr True else lcore_receives l pid lid ks)"

fun find_rx_lid :: "l2p \<Rightarrow> u16 \<Rightarrow> nat list \<Rightarrow> nat res" where
  "find_rx_lid l pid [] = Inr n_lcores"
| "find_rx_lid l pid (k # ks) =
     rbind (get_port_lid l (unat pid) k) (\<lambda>lid.
     rbind (get_lcore_rxcnt l (unat lid)) (\<lambda>n.
     rbind (lcore_receives l pid (unat lid) [0..<unat n]) (\<lambda>found. if found then Inr (unat lid) else find_rx_lid l pid ks)))"

text \<open>The loop that writes the file; it ends at a record of length zero.\<close>

fun read_records :: "nat \<Rightarrow> u8 list \<Rightarrow> nat \<Rightarrow> cap_rec list res" where
  "read_records 0 m off = Inl Hang"
| "read_records (Suc n) m off =
     rbind (le16_at m (off + 8)) (\<lambda>len.
     if len = 0 then Inr []
     else
       rbind (le16_at m (off + 10)) (\<lambda>cap.
       rbind (rd m (off + 12) (unat cap)) (\<lambda>bs.
       rbind (read_records n m (off + 12 + unat cap)) (\<lambda>rs.
       Inr (\<lparr>cr_len = len, cr_caplen = cap, cr_data = bs\<rparr> # rs)))))"

definition capture_start :: "nat \<Rightarrow> u16 \<Rightarrow> capture \<Rightarrow> u8 list \<Rightarrow> capture res" where
  "capture_start lid pid c m =
     rbind (wr m 0 (replicate 16 0)) (\<lambda>m.
     rbind (wr m (length m - 16) (replicate 16 0)) (\<lambda>m.
     Inr (c\<lparr>cp_used := 0, cp_lcore := of_nat lid, cp_port := pid, cp_tail := 0, cp_end := length m - 16, cp_mz := Some m\<rparr>)))"

text \<open>
  \<open>socket\<close> is the socket of an lcore. The result has the records of the file that was written, if one
  was. The file is assumed to be opened.
\<close>

definition pktgen_set_capture ::
  "l2p \<Rightarrow> (nat \<Rightarrow> nat) \<Rightarrow> bool \<Rightarrow> port_info \<times> capture list \<Rightarrow> (cap_rec list option \<times> port_info \<times> capture list) res" where
  "pktgen_set_capture l socket on = (\<lambda>(i, caps).
     let pid = pi_pid i; quit = (None, i, caps) in
     if on then
       if pi_port_flags i AND CAPTURE_PKTS \<noteq> 0 then Inr quit
       else rbind (get_port_rxcnt l (unat pid)) (\<lambda>cnt.
         if cnt = 0 then Inr quit
         else rbind (get_port_nb_lids l (unat pid)) (\<lambda>n.
           rbind (find_rx_lid l pid [0..<unat n]) (\<lambda>lid.
           if lid = n_lcores then Inr quit
           else rbind (L2p.at caps (socket lid)) (\<lambda>c.
             case cp_mz c of
               None \<Rightarrow> Inr quit
             | Some m \<Rightarrow>
                 if cp_lcore c \<noteq> of_nat n_lcores then Inr quit
                 else rbind (capture_start lid pid c m) (\<lambda>c.
                   Inr (None, pktgen_set_port_flags CAPTURE_PKTS i, caps[socket lid := c]))))))
     else
       if pi_port_flags i AND CAPTURE_PKTS = 0 then Inr quit
       else rbind (get_port_rxcnt l (unat pid)) (\<lambda>cnt.
         if cnt = 0 then Inr quit
         else
           case find (\<lambda>s. cp_mz (caps ! s) \<noteq> None \<and> cp_port (caps ! s) = pid) [0..<length caps] of
             None \<Rightarrow> Inr quit
           | Some s \<Rightarrow>
               let c = caps ! s; m = the (cp_mz c) in
               rbind (if 0 < cp_used c then rbind (read_records (length m) m 0) (\<lambda>rs. Inr (Some rs)) else Inr None) (\<lambda>file.
               Inr (file, pktgen_clr_port_flags CAPTURE_PKTS i,
                 caps[s := c\<lparr>cp_used := 0, cp_tail := 0, cp_lcore := of_nat n_lcores, cp_port := of_nat n_ports\<rparr>]))))"

text \<open>\<open>now\<close> gives the cycle counter at the packet that is stored at an offset.\<close>

definition even_len :: "mbuf \<Rightarrow> nat" where
  "even_len m = 2 * ((unat (mb_data_len m) + 1) div 2)"

fun capture_loop :: "(nat \<Rightarrow> u64) \<Rightarrow> nat \<Rightarrow> mbuf list \<Rightarrow> u8 list \<times> nat \<Rightarrow> (u8 list \<times> nat) res" where
  "capture_loop now e [] (mem, t) = Inr (mem, t)"
| "capture_loop now e (m # ms) (mem, t) =
     (let plen = even_len m in
      if e < t + 12 + plen then Inr (mem, t)
      else
        rbind (wrs mem [(t + 8, le16 (ucast (mb_pkt_len m))), (t + 10, le16 (of_nat plen)), (t, le64 (now t))]) (\<lambda>mem.
        rbind (rd (mb_data m) 0 (unat (mb_pkt_len m))) (\<lambda>bs.
        rbind (wr mem (t + 12) bs) (\<lambda>mem. capture_loop now e ms (mem, t + 12 + plen)))))"

definition pktgen_packet_capture_bulk :: "(nat \<Rightarrow> u64) \<Rightarrow> mbuf list \<Rightarrow> capture \<Rightarrow> capture res" where
  "pktgen_packet_capture_bulk now pkts c =
     (if cp_tail c = cp_end c then Inr c
      else
        case cp_mz c of
          None \<Rightarrow> Inl Fault
        | Some mem \<Rightarrow>
            rbind (capture_loop now (cp_end c) pkts (mem, cp_tail c)) (\<lambda>(mem, t).
            rbind (wr mem (t + 8) (le16 0)) (\<lambda>mem. Inr (c\<lparr>cp_mz := Some mem, cp_tail := t, cp_used := t\<rparr>))))"

section \<open>The packet dump\<close>

definition MAX_DUMP_PACKETS :: nat where "MAX_DUMP_PACKETS = 32"

record pkt_dump =
  pd_list :: "u8 list option list"
  pd_head :: nat
  pd_tail :: nat
  pd_count :: nat

text \<open>The block holds the packet and four more bytes for the checksum of the frame; a packet is one mbuf here.\<close>

definition pktgen_packet_dump :: "mbuf \<Rightarrow> pkt_dump \<Rightarrow> pkt_dump res" where
  "pktgen_packet_dump m d =
     rbind (rd (mb_data m) 0 (unat (mb_data_len m))) (\<lambda>bs.
     rbind (wr (replicate (unat (mb_pkt_len m) + 4) 0) 0 bs) (\<lambda>blk.
     rbind (put (pd_list d) (pd_tail d) (Some blk)) (\<lambda>xs. Inr (d\<lparr>pd_list := xs, pd_tail := pd_tail d + 1\<rparr>))))"

definition pktgen_packet_dump_bulk :: "mbuf list \<Rightarrow> pkt_dump \<Rightarrow> pkt_dump res" where
  "pktgen_packet_dump_bulk pkts d =
     (let n1 = min (length pkts) (pd_count d); n = min n1 (MAX_DUMP_PACKETS - pd_tail d) in
      if n = 0 then Inr d
      else rbind (rfold (\<lambda>d m. pktgen_packet_dump m d) d (take n pkts)) (\<lambda>d. Inr (d\<lparr>pd_count := pd_count d - n\<rparr>)))"

text \<open>Printing takes the blocks out of the list; the result are the blocks that are shown.\<close>

fun print_loop :: "nat \<Rightarrow> pkt_dump \<Rightarrow> (u8 list list \<times> pkt_dump) res" where
  "print_loop 0 d = Inr ([], d)"
| "print_loop (Suc n) d =
     rbind (L2p.at (pd_list d) (pd_head d)) (\<lambda>b.
     case b of
       None \<Rightarrow> Inl Fault
     | Some blk \<Rightarrow>
         rbind (print_loop n (d\<lparr>pd_list := (pd_list d)[pd_head d := None], pd_head := pd_head d + 1\<rparr>)) (\<lambda>(bs, d). Inr (blk # bs, d)))"

definition pktgen_print_packet_dump :: "pkt_dump \<Rightarrow> (u8 list list \<times> pkt_dump) res" where
  "pktgen_print_packet_dump d = print_loop (pd_tail d - pd_head d) d"

text \<open>The loop looks at the first entry of the list each time.\<close>

definition debug_set_port_dump :: "u32 \<Rightarrow> pkt_dump \<Rightarrow> pkt_dump res" where
  "debug_set_port_dump cnt d =
     rbind (put (pd_list d) 0 None) (\<lambda>xs.
     Inr \<lparr>pd_list = xs, pd_head = 0, pd_tail = 0, pd_count = min (unat cnt) MAX_DUMP_PACKETS\<rparr>)"

section \<open>Records in memory\<close>

fun recs_at :: "u8 list \<Rightarrow> nat \<Rightarrow> cap_rec list \<Rightarrow> nat \<Rightarrow> bool" where
  "recs_at m off [] t \<longleftrightarrow> off = t"
| "recs_at m off (r # rs) t \<longleftrightarrow>
     cr_len r \<noteq> 0 \<and> le16_at m (off + 8) = Inr (cr_len r) \<and> le16_at m (off + 10) = Inr (cr_caplen r) \<and>
     rd m (off + 12) (unat (cr_caplen r)) = Inr (cr_data r) \<and> recs_at m (off + 12 + unat (cr_caplen r)) rs t"

lemma recs_at_le: "recs_at m off rs t \<Longrightarrow> off + 12 * length rs \<le> t"
  by (induction rs arbitrary: off) force+

lemma recs_at_cong:
  assumes "recs_at m off rs t" and "\<And>i n. i + n \<le> t \<Longrightarrow> rd m' i n = rd m i n"
  shows "recs_at m' off rs t"
  using assms(1)
proof (induction rs arbitrary: off)
  case (Cons r rs)
  have "off + 12 + unat (cr_caplen r) \<le> t" using Cons.prems recs_at_le[of m _ rs t] by fastforce
  then have "rd m' (off + 8) 2 = rd m (off + 8) 2" "rd m' (off + 10) 2 = rd m (off + 10) 2"
    "rd m' (off + 12) (unat (cr_caplen r)) = rd m (off + 12) (unat (cr_caplen r))" by (auto intro!: assms(2))
  then show ?case using Cons by (simp add: le16_at_def)
qed simp

lemma recs_at_append: "recs_at m off (rs @ rs') t \<longleftrightarrow> (\<exists>k. recs_at m off rs k \<and> recs_at m k rs' t)"
  by (induction rs arbitrary: off) auto

lemma read_records_at:
  assumes "recs_at m off rs t" and "le16_at m (t + 8) = Inr 0" and "length rs < n"
  shows "read_records n m off = Inr rs"
  using assms
proof (induction rs arbitrary: off n)
  case Nil
  then obtain k where "n = Suc k" by (cases n) auto
  with Nil show ?case by simp
next
  case (Cons r rs)
  then obtain k where n: "n = Suc k" "length rs < k" by (cases n) auto
  have "read_records k m (off + 12 + unat (cr_caplen r)) = Inr rs" by (rule Cons.IH) (use Cons.prems n in auto)
  then show ?case using Cons.prems by (simp add: n)
qed

lemma of_le16_nth: "of_le16 (le16 w ! 0) (le16 w ! 1) = w"
  by (rule bit_word_eqI) (auto simp: of_le16_def le16_def bit_simps)

lemma le16_at_wr: "rd m off 2 = Inr (le16 w) \<Longrightarrow> le16_at m off = Inr w"
  by (simp only: le16_at_def rbind_Inr of_le16_nth)

definition cap_inv :: "capture \<Rightarrow> cap_rec list \<Rightarrow> bool" where
  "cap_inv c rs \<longleftrightarrow> (\<exists>m. cp_mz c = Some m \<and> cp_end c + 16 = length m \<and> cp_tail c \<le> cp_end c \<and> cp_used c = cp_tail c \<and>
     recs_at m 0 rs (cp_tail c) \<and> le16_at m (cp_tail c + 8) = Inr 0)"

text \<open>A packet that lies in one mbuf.\<close>

definition one_segment :: "mbuf \<Rightarrow> bool" where
  "one_segment m \<longleftrightarrow> mb_pkt_len m = ucast (mb_data_len m) \<and> 0 < unat (mb_data_len m) \<and> unat (mb_data_len m) < 65535 \<and>
     unat (mb_data_len m) \<le> length (mb_data m)"

definition stored :: "mbuf \<Rightarrow> cap_rec \<Rightarrow> bool" where
  "stored m r \<longleftrightarrow> cr_len r = mb_data_len m \<and> unat (cr_caplen r) = even_len m \<and>
     take (unat (mb_data_len m)) (cr_data r) = take (unat (mb_data_len m)) (mb_data m)"

text \<open>The packets of a burst that are kept, and where the memory is filled to afterwards.\<close>

fun taken :: "nat \<Rightarrow> mbuf list \<Rightarrow> nat \<Rightarrow> mbuf list \<times> nat" where
  "taken e [] t = ([], t)"
| "taken e (m # ms) t =
     (if e < t + 12 + even_len m then ([], t) else (let (ks, t') = taken e ms (t + 12 + even_len m) in (m # ks, t')))"

lemma even_len_bounds: "unat (mb_data_len m) \<le> even_len m" "even_len m \<le> unat (mb_data_len m) + 1"
  by (auto simp: even_len_def)

lemma one_segment_facts:
  assumes "one_segment m"
  shows "unat (mb_pkt_len m) = unat (mb_data_len m)" "ucast (mb_pkt_len m) = mb_data_len m" "mb_data_len m \<noteq> 0"
    "unat (of_nat (even_len m) :: u16) = even_len m" "rd (mb_data m) 0 (unat (mb_pkt_len m)) = Inr (take (unat (mb_data_len m)) (mb_data m))"
proof -
  have e: "even_len m < 65536" using assms by (auto simp: even_len_def one_segment_def)
  show l: "unat (mb_pkt_len m) = unat (mb_data_len m)"
    using assms unsigned_less[of "mb_data_len m", where 'a = nat] by (simp add: one_segment_def unsigned_ucast_eq take_bit_eq_mod)
  show "ucast (mb_pkt_len m) = mb_data_len m" 
    using l unsigned_less[of "mb_data_len m", where 'a = nat] by (simp add: word_unat_eq_iff unsigned_ucast_eq take_bit_eq_mod)
  show "mb_data_len m \<noteq> 0" using assms by (auto simp: one_segment_def)
  show "unat (of_nat (even_len m) :: u16) = even_len m" using e by (simp add: unat_of_nat)
  show "rd (mb_data m) 0 (unat (mb_pkt_len m)) = Inr (take (unat (mb_data_len m)) (mb_data m))"
    using assms l by (simp add: rd_def one_segment_def)
qed

lemma capture_one:
  assumes "one_segment m" and "t + 12 + even_len m \<le> e" and "e + 16 = length mem" and "recs_at mem 0 rs t"
  shows "\<exists>mem' r. wrs mem [(t + 8, le16 (ucast (mb_pkt_len m))), (t + 10, le16 (of_nat (even_len m))), (t, le64 ts)] = Inr mem' \<and>
     (\<exists>mem2. wr mem' (t + 12) (take (unat (mb_data_len m)) (mb_data m)) = Inr mem2 \<and> length mem2 = length mem \<and> stored m r \<and>
     recs_at mem2 0 (rs @ [r]) (t + 12 + even_len m))"
proof -
  let ?ws = "[(t + 8, le16 (ucast (mb_pkt_len m))), (t + 10, le16 (of_nat (even_len m))), (t, le64 ts)] :: (nat \<times> u8 list) list"
  let ?bs = "take (unat (mb_data_len m)) (mb_data m)"
  note f = one_segment_facts[OF assms(1)] and b = even_len_bounds[of m]
  have lb: "length ?bs = unat (mb_data_len m)" using assms(1) by (simp add: one_segment_def)
  have "\<forall>(off, bs) \<in> set ?ws. off + length bs \<le> length mem" using assms(2,3) by simp
  from wrs_ok[OF this] obtain mem' where m': "wrs mem ?ws = Inr mem'" "length mem' = length mem" by blast
  have fit: "t + 12 + length ?bs \<le> length mem'" using assms(2,3) b m'(2) lb by simp
  obtain mem2 where m2: "wr mem' (t + 12) ?bs = Inr mem2" using fit by (metis wr_ok)
  have l2: "length mem2 = length mem" using wr_length[OF m2] m'(2) by simp
  have old: "rd mem2 i n = rd mem' i n" if "i + n \<le> t + 12" for i n using rd_wr_other[OF m2] that by blast
  have old0: "rd mem2 i n = rd mem i n" if "i + n \<le> t" for i n
    using old[of i n] rd_wrs_skip[OF m'(1), of i n] that by (auto simp: disjoint_from_def)
  have h1: "rd mem' (t + 8) 2 = Inr (le16 (ucast (mb_pkt_len m)))"
    by (rule rd_wrs_at[where ws = "[]", simplified, OF m'(1)]) (auto simp: disjoint_from_def)
  have h2: "rd mem' (t + 10) 2 = Inr (le16 (of_nat (even_len m)))"
    by (rule rd_wrs_at[where ws = "[(t + 8, le16 (ucast (mb_pkt_len m)))]", simplified, OF m'(1)]) (auto simp: disjoint_from_def)
  obtain d where d: "rd mem2 (t + 12) (even_len m) = Inr d" using rd_ok[of "t + 12" "even_len m" mem2] assms(2,3) l2 by auto
  have "rd mem2 (t + 12) (unat (mb_data_len m)) = Inr ?bs" using rd_wr_same[OF m2] lb by simp
  then have td: "take (unat (mb_data_len m)) d = ?bs" using d b by (auto simp: rd_def take_drop min_absorb1 split: if_splits)
  let ?r = "\<lparr>cr_len = mb_data_len m, cr_caplen = of_nat (even_len m), cr_data = d\<rparr>"
  have "recs_at mem2 0 rs t" using recs_at_cong[OF assms(4)] old0 by blast
  moreover have "recs_at mem2 t [?r] (t + 12 + even_len m)"
    using f h1 h2 old[of "t + 8" 2] old[of "t + 10" 2] d by (simp add: le16_at_wr)
  ultimately have "recs_at mem2 0 (rs @ [?r]) (t + 12 + even_len m)" unfolding recs_at_append by blast
  moreover have "stored m ?r" using td f by (simp add: stored_def)
  ultimately show ?thesis using m'(1) m2 l2 by blast
qed

lemma capture_loop_taken:
  assumes "\<forall>m \<in> set ms. one_segment m" and "e + 16 = length mem" and "recs_at mem 0 rs t" and "t \<le> e" and "taken e ms t = (ks, t')"
  shows "\<exists>mem' rs'. capture_loop now e ms (mem, t) = Inr (mem', t') \<and> length mem' = length mem \<and> recs_at mem' 0 (rs @ rs') t' \<and>
    list_all2 stored ks rs' \<and> t' \<le> e"
  using assms
proof (induction ms arbitrary: mem t rs ks)
  case (Cons m ms)
  show ?case
  proof (cases "e < t + 12 + even_len m")
    case True
    then show ?thesis using Cons.prems by (auto simp: Let_def intro!: exI[of _ "[]"])
  next
    case False
    obtain mem1 r mem2 where o: "wrs mem [(t + 8, le16 (ucast (mb_pkt_len m))), (t + 10, le16 (of_nat (even_len m))), (t, le64 (now t))] = Inr mem1"
        "wr mem1 (t + 12) (take (unat (mb_data_len m)) (mb_data m)) = Inr mem2" "length mem2 = length mem" "stored m r"
        "recs_at mem2 0 (rs @ [r]) (t + 12 + even_len m)"
      using capture_one[of m t e mem rs "now t"] Cons.prems False by auto
    obtain ks1 where k: "taken e ms (t + 12 + even_len m) = (ks1, t')" "ks = m # ks1"
      using Cons.prems(5) False by (auto split: prod.splits)
    obtain mem' rs' where i: "capture_loop now e ms (mem2, t + 12 + even_len m) = Inr (mem', t')" "length mem' = length mem2"
        "recs_at mem' 0 ((rs @ [r]) @ rs') t'" "list_all2 stored ks1 rs'" "t' \<le> e"
      using Cons.IH[OF _ _ o(5) _ k(1)] Cons.prems False o(3) by auto
    have "capture_loop now e (m # ms) (mem, t) = Inr (mem', t')"
      unfolding capture_loop.simps Let_def o(1) one_segment_facts(5)[OF Cons.prems(1)[rule_format, of m, simplified]] rbind_Inr o(2) i(1) using False by simp
    then show ?thesis using i o(3,4) k(2) by (intro exI[of _ mem'] exI[of _ "r # rs'"]) simp
  qed
qed (auto intro!: exI[of _ "[]"])

lemma taken_full: "taken e ms e = ([], e)"
  by (cases ms) auto

lemma capture_bulk_taken:
  assumes "cap_inv c rs" and "\<forall>m \<in> set ms. one_segment m" and "taken (cp_end c) ms (cp_tail c) = (ks, t')"
  shows "\<exists>c' rs'. pktgen_packet_capture_bulk now ms c = Inr c' \<and> cap_inv c' (rs @ rs') \<and> list_all2 stored ks rs' \<and> cp_tail c' = t' \<and>
    cp_end c' = cp_end c \<and> cp_lcore c' = cp_lcore c \<and> cp_port c' = cp_port c"
proof (cases "cp_tail c = cp_end c")
  case True
  then show ?thesis using assms taken_full by (auto simp: pktgen_packet_capture_bulk_def intro!: exI[of _ "[]"])
next
  case False
  obtain m where m: "cp_mz c = Some m" "cp_end c + 16 = length m" "cp_tail c \<le> cp_end c" "recs_at m 0 rs (cp_tail c)"
    using assms(1) by (auto simp: cap_inv_def)
  obtain m1 rs' where l: "capture_loop now (cp_end c) ms (m, cp_tail c) = Inr (m1, t')" "length m1 = length m" "recs_at m1 0 (rs @ rs') t'"
      "list_all2 stored ks rs'" "t' \<le> cp_end c"
    using capture_loop_taken[OF assms(2) m(2,4,3) assms(3)] by blast
  obtain m2 where w: "wr m1 (t' + 8) (le16 0) = Inr m2" using m(2) l(2,5) wr_ok[of "t' + 8" "le16 0" m1] by auto
  have "recs_at m2 0 (rs @ rs') t'" by (rule recs_at_cong[OF l(3)]) (use rd_wr_other[OF w] in auto)
  moreover have "le16_at m2 (t' + 8) = Inr 0" using rd_wr_same[OF w] by (simp add: le16_at_wr)
  ultimately show ?thesis using False l m w wr_length[OF w] by (auto simp: pktgen_packet_capture_bulk_def cap_inv_def)
qed

text \<open>What is kept of a sequence of bursts.\<close>

fun taken_all :: "nat \<Rightarrow> mbuf list list \<Rightarrow> nat \<Rightarrow> mbuf list" where
  "taken_all e [] t = []"
| "taken_all e (b # bs) t = (let (ks, t') = taken e b t in ks @ taken_all e bs t')"

definition capture_bulks :: "(nat \<Rightarrow> u64) \<Rightarrow> mbuf list list \<Rightarrow> capture \<Rightarrow> capture res" where
  "capture_bulks now bs c = rfold (\<lambda>c b. pktgen_packet_capture_bulk now b c) c bs"

lemma capture_bulks_taken:
  assumes "cap_inv c rs" and "\<forall>b \<in> set bs. \<forall>m \<in> set b. one_segment m"
  shows "\<exists>c' rs'. capture_bulks now bs c = Inr c' \<and> cap_inv c' (rs @ rs') \<and> list_all2 stored (taken_all (cp_end c) bs (cp_tail c)) rs' \<and>
    cp_lcore c' = cp_lcore c \<and> cp_port c' = cp_port c"
  using assms
proof (induction bs arbitrary: c rs)
  case (Cons b bs)
  obtain ks t' where k: "taken (cp_end c) b (cp_tail c) = (ks, t')" by fastforce
  obtain c1 rs1 where c1: "pktgen_packet_capture_bulk now b c = Inr c1" "cap_inv c1 (rs @ rs1)" "list_all2 stored ks rs1" "cp_tail c1 = t'"
      "cp_end c1 = cp_end c" "cp_lcore c1 = cp_lcore c" "cp_port c1 = cp_port c"
    using capture_bulk_taken[OF Cons.prems(1) _ k] Cons.prems(2) by force
  obtain c' rs' where c': "capture_bulks now bs c1 = Inr c'" "cap_inv c' ((rs @ rs1) @ rs')" "list_all2 stored (taken_all (cp_end c1) bs (cp_tail c1)) rs'"
      "cp_lcore c' = cp_lcore c1" "cp_port c' = cp_port c1"
    using Cons.IH[OF c1(2)] Cons.prems(2) by auto
  have "capture_bulks now (b # bs) c = Inr c'" using c1(1) c'(1) by (simp add: capture_bulks_def)
  then show ?case using c1 c' k by (intro exI[of _ c'] exI[of _ "rs1 @ rs'"]) (simp add: list_all2_appendI)
qed (auto simp: capture_bulks_def intro!: exI[of _ "[]"])

lemma capture_start_inv:
  assumes "capture_start lid pid c m = Inr c'"
  shows "cap_inv c' [] \<and> cp_tail c' = 0 \<and> cp_end c' = length m - 16 \<and> cp_port c' = pid"
proof -
  obtain m1 m2 where m: "wr m 0 (replicate 16 0) = Inr m1" "wr m1 (length m1 - 16) (replicate 16 0) = Inr m2"
    "c' = c\<lparr>cp_used := 0, cp_lcore := of_nat lid, cp_port := pid, cp_tail := 0, cp_end := length m2 - 16, cp_mz := Some m2\<rparr>"
    using assms by (auto simp: capture_start_def rbind_eq_Inr)
  have "0 + length (replicate 16 (0 :: u8)) \<le> length m" using m(1) unfolding wr_def by (rule contrapos_pp) simp
  then have l: "length m1 = length m" "length m2 = length m" "16 \<le> length m" using wr_length[OF m(1)] wr_length[OF m(2)] by simp_all
  have e: "m1 = replicate 16 0 @ drop 16 m" "m2 = take (length m - 16) m1 @ replicate 16 0"
    using wr_ok[of 0 "replicate 16 0" m] wr_ok[of "length m - 16" "replicate 16 0" m1] m(1,2) l by simp_all
  have "m2 ! i = 0" if "i < 16" for i using that l unfolding e(2) nth_append by (auto simp: e(1) nth_append)
  then have "take 2 (drop 8 m2) = le16 0" using l by (intro nth_equalityI) (auto simp: le16_def less_2_cases_iff)
  then have "rd m2 8 2 = Inr (le16 0)" using l by (simp add: rd_def)
  then have "le16_at m2 8 = Inr 0" by (simp add: le16_at_wr)
  then show ?thesis using m(3) l by (simp add: cap_inv_def)
qed

lemma set_capture_on:
  assumes "pktgen_set_capture l sk True (i, caps) = Inr (f, i1, caps1)" and "pi_port_flags i AND CAPTURE_PKTS = 0" and "pi_port_flags i1 AND CAPTURE_PKTS \<noteq> 0"
  obtains s lid c m c1 cnt where "s < length caps" and "cp_mz (caps ! s) = Some m" and "capture_start lid (pi_pid i) (caps ! s) m = Inr c1"
    and "caps1 = caps[s := c1]" and "i1 = pktgen_set_port_flags CAPTURE_PKTS i" and "get_port_rxcnt l (unat (pi_pid i)) = Inr cnt" and "cnt \<noteq> 0"
proof -
  have d: "(None, i, caps) \<noteq> (f, i1, caps1)" using assms(2,3) by auto
  note E = assms(1)[unfolded pktgen_set_capture_def Let_def prod.case if_P[OF TrueI] assms(2) simp_thms if_False, simplified]
  obtain cnt where cnt: "get_port_rxcnt l (unat (pi_pid i)) = Inr cnt" "cnt \<noteq> 0"
    using E d by (auto simp only: rbind_eq_Inr sum.inject split: if_split_asm)
  obtain n where n: "get_port_nb_lids l (unat (pi_pid i)) = Inr n"
    using E cnt by (auto simp only: rbind_Inr rbind_eq_Inr sum.inject if_False)
  obtain lid where lid: "find_rx_lid l (pi_pid i) [0..<unat n] = Inr lid" "lid \<noteq> n_lcores"
    using E cnt n d by (auto simp only: rbind_Inr rbind_eq_Inr sum.inject if_False split: if_split_asm)
  obtain c where c: "L2p.at caps (sk lid) = Inr c"
    using E cnt n lid by (auto simp only: rbind_Inr rbind_eq_Inr sum.inject if_False)
  have s: "sk lid < length caps" "c = caps ! sk lid" using c by (auto simp: L2p.at_def split: if_splits)
  obtain m where m: "cp_mz c = Some m"
    using E cnt n lid c d by (cases "cp_mz c") (simp_all only: rbind_Inr if_False option.case sum.inject)
  obtain c1 where c1: "capture_start lid (pi_pid i) c m = Inr c1" "caps1 = caps[sk lid := c1]" "i1 = pktgen_set_port_flags CAPTURE_PKTS i"
    using E cnt n lid c m d by (auto simp only: rbind_Inr rbind_eq_Inr sum.inject if_False option.case prod.inject split: if_split_asm)
  show ?thesis using that[OF s(1) _ _ c1(2,3) cnt] m c1(1) s(2) by blast
qed

lemma recs_used: "recs_at m 0 rs t \<Longrightarrow> (0 < t) = (rs \<noteq> [])"
  by (cases rs) (auto dest!: recs_at_le)

lemma set_capture_off:
  assumes "pi_port_flags i AND CAPTURE_PKTS \<noteq> 0" and "get_port_rxcnt l (unat (pi_pid i)) = Inr cnt" and "cnt \<noteq> 0"
    and "find (\<lambda>s. cp_mz (caps ! s) \<noteq> None \<and> cp_port (caps ! s) = pi_pid i) [0..<length caps] = Some s" and "cp_mz (caps ! s) = Some m"
    and "read_records (length m) m 0 = Inr rs" and "(0 < cp_used (caps ! s)) = (rs \<noteq> [])"
  shows "pktgen_set_capture l sk False (i, caps) = Inr (if rs = [] then None else Some rs, pktgen_clr_port_flags CAPTURE_PKTS i,
    caps[s := (caps ! s)\<lparr>cp_used := 0, cp_tail := 0, cp_lcore := of_nat n_lcores, cp_port := of_nat n_ports\<rparr>])"
  unfolding pktgen_set_capture_def Let_def prod.case assms(2,4) using assms(1,3,5-7) by simp

section \<open>Bursts and printing\<close>

text \<open>Bursts arrive on one lcore and the timer prints on another; both go through the list in turns.\<close>

datatype dump_event = Burst "mbuf list" | Show

fun run_dump :: "dump_event list \<Rightarrow> pkt_dump \<Rightarrow> (u8 list list \<times> pkt_dump) res" where
  "run_dump [] d = Inr ([], d)"
| "run_dump (Burst ms # es) d = rbind (pktgen_packet_dump_bulk ms d) (run_dump es)"
| "run_dump (Show # es) d =
     rbind (pktgen_print_packet_dump d) (\<lambda>(bs, d). rbind (run_dump es d) (\<lambda>(bs', d). Inr (bs @ bs', d)))"

fun received :: "dump_event list \<Rightarrow> mbuf list" where
  "received [] = []"
| "received (Burst ms # es) = ms @ received es"
| "received (Show # es) = received es"

definition dump_ok :: "mbuf \<Rightarrow> bool" where
  "dump_ok m \<longleftrightarrow> unat (mb_data_len m) \<le> length (mb_data m) \<and> unat (mb_data_len m) \<le> unat (mb_pkt_len m) + 4"

definition dump_block :: "mbuf \<Rightarrow> u8 list" where
  "dump_block m = take (unat (mb_data_len m)) (mb_data m) @ replicate (unat (mb_pkt_len m) + 4 - unat (mb_data_len m)) 0"

text \<open>\<open>rs\<close> are the packets recorded since the count was set, \<open>k\<close> the count.\<close>

definition dump_inv :: "nat \<Rightarrow> mbuf list \<Rightarrow> pkt_dump \<Rightarrow> bool" where
  "dump_inv k rs d \<longleftrightarrow> length (pd_list d) = MAX_DUMP_PACKETS \<and> k \<le> MAX_DUMP_PACKETS \<and> pd_tail d = length rs \<and> pd_head d \<le> pd_tail d \<and>
     length rs + pd_count d = k \<and> (\<forall>i. pd_head d \<le> i \<and> i < pd_tail d \<longrightarrow> pd_list d ! i = Some (dump_block (rs ! i)))"

lemma packet_dump_step:
  assumes "dump_ok m" and "pd_tail d < length (pd_list d)"
  shows "pktgen_packet_dump m d = Inr (d\<lparr>pd_list := (pd_list d)[pd_tail d := Some (dump_block m)], pd_tail := pd_tail d + 1\<rparr>)"
  using assms by (simp add: pktgen_packet_dump_def dump_ok_def dump_block_def rd_def put_def min_absorb2 wr_ok[of 0])

lemma dump_many:
  assumes "\<forall>m \<in> set ms. dump_ok m" and "pd_tail d = length rs" and "length rs + length ms \<le> length (pd_list d)" and "pd_head d \<le> pd_tail d"
    and "\<forall>i. pd_head d \<le> i \<and> i < pd_tail d \<longrightarrow> pd_list d ! i = Some (dump_block (rs ! i))"
  shows "\<exists>d'. rfold (\<lambda>d m. pktgen_packet_dump m d) d ms = Inr d' \<and> length (pd_list d') = length (pd_list d) \<and> pd_tail d' = length (rs @ ms) \<and>
    pd_head d' = pd_head d \<and> pd_count d' = pd_count d \<and> (\<forall>i. pd_head d \<le> i \<and> i < pd_tail d' \<longrightarrow> pd_list d' ! i = Some (dump_block ((rs @ ms) ! i)))"
  using assms
proof (induction ms arbitrary: d rs)
  case (Cons m ms)
  let ?d = "d\<lparr>pd_list := (pd_list d)[pd_tail d := Some (dump_block m)], pd_tail := pd_tail d + 1\<rparr>"
  have "\<forall>i. pd_head ?d \<le> i \<and> i < pd_tail ?d \<longrightarrow> pd_list ?d ! i = Some (dump_block ((rs @ [m]) ! i))"
    using Cons.prems by (auto simp: nth_list_update nth_append less_Suc_eq)
  from Cons.IH[OF _ _ _ _ this] Cons.prems packet_dump_step[of m d] show ?case by auto
qed auto

lemma dump_bulk_inv:
  assumes "dump_inv k rs d" and "\<forall>m \<in> set ms. dump_ok m"
  shows "\<exists>d'. pktgen_packet_dump_bulk ms d = Inr d' \<and> dump_inv k (rs @ take (k - length rs) ms) d' \<and> pd_head d' = pd_head d"
proof -
  let ?n = "min (min (length ms) (pd_count d)) (MAX_DUMP_PACKETS - pd_tail d)"
  have n: "?n = min (length ms) (k - length rs)" and t: "take (k - length rs) ms = take ?n ms" using assms(1) by (auto simp: dump_inv_def min_def)
  show ?thesis
  proof (cases "?n = 0")
    case True
    then have "pktgen_packet_dump_bulk ms d = Inr d" by (simp add: pktgen_packet_dump_bulk_def Let_def)
    moreover have "take (k - length rs) ms = []" unfolding t True by simp
    ultimately show ?thesis using assms(1) by (metis append_Nil2)
  next
    case False
    have len: "length (take ?n ms) = ?n" by simp
    obtain d' where d': "rfold (\<lambda>d m. pktgen_packet_dump m d) d (take ?n ms) = Inr d'" "length (pd_list d') = length (pd_list d)"
        "pd_tail d' = length (rs @ take ?n ms)" "pd_head d' = pd_head d" "pd_count d' = pd_count d"
        "\<forall>i. pd_head d \<le> i \<and> i < pd_tail d' \<longrightarrow> pd_list d' ! i = Some (dump_block ((rs @ take ?n ms) ! i))"
    proof -
      have "\<forall>m \<in> set (take ?n ms). dump_ok m" using assms(2) by (meson in_set_takeD)
      moreover have "length rs + length (take ?n ms) \<le> length (pd_list d)" using assms(1) unfolding len by (auto simp: dump_inv_def)
      ultimately show ?thesis using dump_many[of "take ?n ms" d rs] assms(1) that unfolding dump_inv_def by blast
    qed
    have "pktgen_packet_dump_bulk ms d = Inr (d'\<lparr>pd_count := pd_count d' - ?n\<rparr>)" 
      unfolding pktgen_packet_dump_bulk_def Let_def if_not_P[OF False] d'(1) by simp
    moreover have "dump_inv k (rs @ take ?n ms) (d'\<lparr>pd_count := pd_count d' - ?n\<rparr>)"
      using assms(1) d'(2-6) n len unfolding dump_inv_def by auto
    ultimately show ?thesis unfolding t using d'(4) by simp
  qed
qed

lemma print_loop_inv:
  assumes "dump_inv k rs d" and "pd_head d + n = pd_tail d"
  shows "\<exists>d'. print_loop n d = Inr (map dump_block (drop (pd_head d) rs), d') \<and> dump_inv k rs d' \<and> pd_head d' = pd_tail d'"
  using assms
proof (induction n arbitrary: d)
  case (Suc n)
  let ?d = "d\<lparr>pd_list := (pd_list d)[pd_head d := None], pd_head := pd_head d + 1\<rparr>"
  have i: "dump_inv k rs ?d" using Suc.prems by (auto simp: dump_inv_def)
  obtain d' where d': "print_loop n ?d = Inr (map dump_block (drop (pd_head d + 1) rs), d')" "dump_inv k rs d'" "pd_head d' = pd_tail d'"
    using Suc.IH[OF i] Suc.prems by auto
  have "pd_head d < length rs" "pd_list d ! pd_head d = Some (dump_block (rs ! pd_head d))" "pd_head d < length (pd_list d)"
    using Suc.prems by (auto simp: dump_inv_def)
  then show ?case using d' by (simp add: L2p.at_def Cons_nth_drop_Suc[symmetric])
qed (auto simp: dump_inv_def)

lemma run_dump_inv:
  assumes "dump_inv k rs d" and "\<forall>m \<in> set (received es). dump_ok m"
  shows "\<exists>bs d'. run_dump es d = Inr (bs, d') \<and> dump_inv k (rs @ take (k - length rs) (received es)) d' \<and>
    map dump_block (take (pd_head d) rs) @ bs = map dump_block (take (pd_head d') (rs @ take (k - length rs) (received es)))"
  using assms
proof (induction es arbitrary: d rs rule: received.induct)
  case (2 ms es)
  obtain d1 where d1: "pktgen_packet_dump_bulk ms d = Inr d1" "dump_inv k (rs @ take (k - length rs) ms) d1" "pd_head d1 = pd_head d"
    using dump_bulk_inv[OF 2(2)] 2(3) by auto
  obtain bs d' where i: "run_dump es d1 = Inr (bs, d')" "dump_inv k ((rs @ take (k - length rs) ms) @ take (k - length (rs @ take (k - length rs) ms)) (received es)) d'"
      "map dump_block (take (pd_head d1) (rs @ take (k - length rs) ms)) @ bs =
       map dump_block (take (pd_head d') ((rs @ take (k - length rs) ms) @ take (k - length (rs @ take (k - length rs) ms)) (received es)))"
    using 2(1)[OF d1(2)] 2(3) by auto
  have e: "(rs @ take (k - length rs) ms) @ take (k - length (rs @ take (k - length rs) ms)) (received es) = rs @ take (k - length rs) (ms @ received es)"
    by (auto simp: min_def)
  have h: "take (pd_head d1) (rs @ take (k - length rs) ms) = take (pd_head d) rs" using 2(2) d1(3) by (simp add: dump_inv_def)
  show ?case using d1(1) i unfolding e h by simp
next
  case (3 es)
  obtain d1 where d1: "print_loop (pd_tail d - pd_head d) d = Inr (map dump_block (drop (pd_head d) rs), d1)" "dump_inv k rs d1" "pd_head d1 = pd_tail d1"
    using print_loop_inv[OF 3(2), of "pd_tail d - pd_head d"] 3(2) by (auto simp: dump_inv_def)
  obtain bs d' where i: "run_dump es d1 = Inr (bs, d')" "dump_inv k (rs @ take (k - length rs) (received es)) d'"
      "map dump_block (take (pd_head d1) rs) @ bs = map dump_block (take (pd_head d') (rs @ take (k - length rs) (received es)))"
    using 3(1)[OF d1(2)] 3(3) by auto
  have "pd_head d1 = length rs" using d1(2,3) by (simp add: dump_inv_def)
  then have "map dump_block (take (pd_head d) rs) @ map dump_block (drop (pd_head d) rs) @ bs = map dump_block (take (pd_head d1) rs) @ bs"
    by (simp flip: map_append append_assoc)
  then show ?case using d1(1) i by (simp add: pktgen_print_packet_dump_def)
qed (simp add: dump_inv_def)

lemma run_dump_append:
  "run_dump (es @ es') d = rbind (run_dump es d) (\<lambda>(b, d). rbind (run_dump es' d) (\<lambda>(b', d). Inr (b @ b', d)))"
proof (induction es d rule: run_dump.induct)
  case (1 d)
  then show ?case by (cases "run_dump es' d") auto
next
  case (2 ms es d)
  then show ?case by (cases "pktgen_packet_dump_bulk ms d") auto
next
  case (3 es d)
  then show ?case by (cases "pktgen_print_packet_dump d") (auto simp: rbind_def split: sum.splits)
qed

lemma received_append: "received (es @ es') = received es @ received es'"
  by (induction es rule: received.induct) auto

lemma run_then_show:
  assumes "dump_inv k [] d" and "pd_head d = 0" and "\<forall>m \<in> set (received es). dump_ok m"
  shows "\<exists>d'. run_dump (es @ [Show]) d = Inr (map dump_block (take k (received es)), d') \<and> pd_head d' = pd_tail d'"
proof -
  let ?rs = "take k (received es)"
  obtain bs d1 where r: "run_dump es d = Inr (bs, d1)" "dump_inv k ?rs d1" "bs = map dump_block (take (pd_head d1) ?rs)"
    using run_dump_inv[OF assms(1,3)] assms(2) by auto
  obtain d' where p: "print_loop (pd_tail d1 - pd_head d1) d1 = Inr (map dump_block (drop (pd_head d1) ?rs), d')" "pd_head d' = pd_tail d'"
    using print_loop_inv[OF r(2), of "pd_tail d1 - pd_head d1"] r(2) unfolding dump_inv_def by auto
  have "run_dump (es @ [Show]) d = Inr (bs @ map dump_block (drop (pd_head d1) ?rs), d')"
    unfolding run_dump_append r(1) by (simp add: pktgen_print_packet_dump_def p(1))
  moreover have "bs @ map dump_block (drop (pd_head d1) ?rs) = map dump_block ?rs" unfolding r(3) map_append[symmetric] append_take_drop_id ..
  ultimately show ?thesis using p(2) by auto
qed

section \<open>Properties\<close>


definition sample_l2p :: l2p where
  "sample_l2p = \<lparr>l2p_stop = [0],
     l2p_lcores = [(lobj_zero 0)\<lparr>lo_pids := \<lparr>rx_cnt = 1, tx_cnt = 0, pq_rx = [0], pq_tx = []\<rparr>\<rparr>],
     l2p_ports = [(pobj_zero 0)\<lparr>rx_qid := 1, nb_lids := 1, lids := [0]\<rparr>], l2p_map = []\<rparr>"

definition sample_mbuf :: "u8 list \<Rightarrow> mbuf" where
  "sample_mbuf bs = \<lparr>mb_addr = 0, mb_data = bs, mb_data_len = of_nat (length bs), mb_pkt_len = of_nat (length bs), mb_buf_len = 2048,
     mb_ol_flags = 0, mb_udata = (0, 0, 0)\<rparr>"

definition sample_capture :: capture where
  "sample_capture = pktgen_packet_capture_init (Some (replicate 64 7)) \<lparr>cp_mz = None, cp_tail = 0, cp_end = 0, cp_used = 0, cp_lcore = 0, cp_port = 0\<rparr>"


text \<open>
  The copy of a captured packet has the length of the whole packet and not of its first segment. A packet in
  several segments that fits by the length of its first one is written past the end of the capture memory.
\<close>

theorem capture_overruns:
  assumes "cp_mz c = Some mem" and "cp_tail c + 12 + even_len m \<le> cp_end c" and "cp_end c + 16 = length mem"
    and "length mem < cp_tail c + 12 + unat (mb_pkt_len m)"
  shows "pktgen_packet_capture_bulk now (m # ms) c = Inl Fault"
proof -
  let ?ws = "[(cp_tail c + 8, le16 (ucast (mb_pkt_len m))), (cp_tail c + 10, le16 (of_nat (even_len m))), (cp_tail c, le64 (now (cp_tail c)))] :: (nat \<times> u8 list) list"
  obtain mem1 where w: "wrs mem ?ws = Inr mem1" "length mem1 = length mem" using wrs_ok[of ?ws mem] assms(2,3) by auto
  have "rbind (rd (mb_data m) 0 (unat (mb_pkt_len m))) (\<lambda>bs. rbind (wr mem1 (cp_tail c + 12) bs) h) = Inl Fault" for h :: "u8 list \<Rightarrow> (u8 list \<times> nat) res"
    using assms(4) w(2) by (simp add: rd_def wr_def)
  then show ?thesis using assms w(1) by (simp add: pktgen_packet_capture_bulk_def Let_def)
qed

theorem capture_overruns_witness:
  "pktgen_packet_capture_bulk (\<lambda>_. 5) [(sample_mbuf [1, 2])\<lparr>mb_pkt_len := 40\<rparr>]
     \<lparr>cp_mz = Some (replicate 48 0), cp_tail = 10, cp_end = 32, cp_used = 10, cp_lcore = 0, cp_port = 0\<rparr> = Inl Fault"
  by (rule capture_overruns[where mem = "replicate 48 0"]) (simp_all add: even_len_def sample_mbuf_def)



end
