(* ===== verification/Proto.thy ===== *)
theory Proto
  imports Tx Capture
begin

text \<open>
  The control packets and the two halves of the packet loop: ARP and ping requests sent for
  a port, the answers to received ones (app/pktgen-arp.c, app/pktgen-ipv4.c, app/pktgen-vlan.c),
  the classification of received packets, and \<open>pktgen_main_transmit\<close> and \<open>pktgen_main_receive\<close>
  (app/pktgen.c) that put them together. Control packets always use queue 0 of the port. Writing to
  tap devices, logging, packet dump and capture are left out.
\<close>

section \<open>Matching addresses\<close>

text \<open>The address is in network byte order in the packet and converted once; the result is a template index.\<close>

definition find_seq :: "(pkt_seq \<Rightarrow> u32) \<Rightarrow> u32 \<Rightarrow> port_info \<Rightarrow> nat option" where
  "find_seq f a i = find (\<lambda>n. f (pi_seq_pkt i ! n) = a) [0..<unat (pi_seqCnt i)]"

definition pktgen_find_matching_ipsrc :: "port_info \<Rightarrow> u32 \<Rightarrow> nat option res" where
  "pktgen_find_matching_ipsrc i a =
     (if unat (pi_seqCnt i) > length (pi_seq_pkt i) \<or> SINGLE_PKT \<ge> length (pi_seq_pkt i) then Inl Fault
      else Inr (case find_seq pk_ip_src a i of Some n \<Rightarrow> Some n
                | None \<Rightarrow> if pk_ip_src (pi_seq_pkt i ! SINGLE_PKT) = a then Some SINGLE_PKT else None))"

definition pktgen_find_matching_ipdst :: "port_info \<Rightarrow> u32 \<Rightarrow> nat option res" where
  "pktgen_find_matching_ipdst i a =
     (if unat (pi_seqCnt i) > length (pi_seq_pkt i) \<or> RANGE_PKT \<ge> length (pi_seq_pkt i) then Inl Fault
      else Inr (case find_seq pk_ip_dst a i of Some n \<Rightarrow> Some n
                | None \<Rightarrow> if pk_ip_dst (pi_seq_pkt i ! SINGLE_PKT) = a then Some SINGLE_PKT
                          else if pk_ip_dst (pi_seq_pkt i ! RANGE_PKT) = a then Some RANGE_PKT else None))"

text \<open>Swapping two fields of a packet.\<close>

definition swap_at :: "nat \<Rightarrow> nat \<Rightarrow> nat \<Rightarrow> u8 list \<Rightarrow> u8 list res" where
  "swap_at n t f d = rbind (rd d t n) (\<lambda>a. rbind (rd d f n) (\<lambda>b. wrs d [(t, b), (f, a)]))"

definition ethAddrSwap :: "nat \<Rightarrow> nat \<Rightarrow> u8 list \<Rightarrow> u8 list res" where
  "ethAddrSwap = swap_at 6"

definition inetAddrSwap :: "nat \<Rightarrow> nat \<Rightarrow> u8 list \<Rightarrow> u8 list res" where
  "inetAddrSwap = swap_at 4"

section \<open>Sending control packets\<close>

text \<open>A control packet goes through \<open>pktgen_send_mbuf\<close>, and the queue is marked for a flush.\<close>

definition queue_special :: "tx_env \<Rightarrow> mbuf \<Rightarrow> txq \<Rightarrow> (mbuf list \<times> txq) res" where
  "queue_special e m q =
     rbind (pktgen_send_mbuf e m q) (\<lambda>(sent, q).
     rbind (pktgen_set_q_flags 0 DO_TX_FLUSH (g_info (tx_port q))) (\<lambda>i.
     Inr (sent, q\<lparr>tx_port := (tx_port q)\<lparr>g_info := i\<rparr>\<rparr>)))"

abbreviation (input) GRATUITOUS_ARP :: nat where "GRATUITOUS_ARP \<equiv> 5"

definition arp_writes :: "nat \<Rightarrow> pkt_seq \<Rightarrow> (nat \<times> u8 list) list" where
  "arp_writes type p =
     [(0, replicate 6 0xFF), (6, pk_eth_src p), (12, be16 PG_ETHER_TYPE_ARP), (14, replicate 28 0),
      (22, pk_eth_src p), (28, be32 (pk_ip_src p))] @
     (if type = GRATUITOUS_ARP then [(32, pk_eth_src p), (38, be32 (pk_ip_src p))]
      else [(32, replicate 6 0), (38, be32 (pk_ip_dst p))]) @
     [(14, be16 1), (16, be16 PG_ETHER_TYPE_IPv4), (18, [6]), (19, [4]), (20, be16 1)]"

text \<open>The state carries what has been sent so far, the free mbufs of the special pool, and the queue.\<close>

type_synonym special = "mbuf list \<times> mbuf list \<times> txq"

definition pktgen_send_arp :: "tx_env \<Rightarrow> nat \<Rightarrow> nat \<Rightarrow> special \<Rightarrow> special res" where
  "pktgen_send_arp e type idx = (\<lambda>(sent, pool, q).
     let ps = pi_seq_pkt (g_info (tx_port q)) in
     if idx \<ge> length ps then Inl Fault
     else case pool of
            [] \<Rightarrow> Inr (sent, pool, q)
          | m # pool' \<Rightarrow>
              rbind (wrs (mb_data m) (arp_writes type (ps ! idx))) (\<lambda>d.
              rbind (queue_special e ((rte_pktmbuf_reset m)\<lparr>mb_data := d, mb_pkt_len := 60, mb_data_len := 60\<rparr>) q) (\<lambda>(s, q).
              Inr (sent @ s, pool', q))))"

definition pktgen_send_ping4 :: "tx_env \<Rightarrow> nat \<Rightarrow> special \<Rightarrow> special res" where
  "pktgen_send_ping4 e idx = (\<lambda>(sent, pool, q).
     let ps = pi_seq_pkt (g_info (tx_port q)) in
     if idx \<ge> length ps \<or> PING_PKT \<ge> length ps then Inl Fault
     else case pool of
            [] \<Rightarrow> Inr (sent, pool, q)
          | m # pool' \<Rightarrow>
              rbind (pktgen_packet_ctor PING_PKT 8 (set_pkt PING_PKT (\<lambda>_. ps ! idx) (tx_port q))) (\<lambda>g.
              let p = pi_seq_pkt (g_info g) ! PING_PKT in
              rbind (rd (pk_hdr p) 0 (unat (pk_pktSize p))) (\<lambda>bs.
              rbind (wr (mb_data m) 0 bs) (\<lambda>d.
              rbind (queue_special e ((rte_pktmbuf_reset m)\<lparr>mb_data := d, mb_pkt_len := ucast (pk_pktSize p),
                                       mb_data_len := pk_pktSize p\<rparr>) (q\<lparr>tx_port := g\<rparr>)) (\<lambda>(s, q).
              Inr (sent @ s, pool', q))))))"

definition special_one :: "tx_env \<Rightarrow> u32 \<Rightarrow> nat \<Rightarrow> special \<Rightarrow> special res" where
  "special_one e flags idx s0 =
     rbind (if flags AND SEND_GRATUITOUS_ARP \<noteq> 0 then pktgen_send_arp e GRATUITOUS_ARP idx s0 else Inr s0) (\<lambda>s.
     rbind (if flags AND SEND_ARP_REQUEST \<noteq> 0 then pktgen_send_arp e 0 idx s else Inr s) (\<lambda>s.
     if flags AND SEND_PING4_REQUEST \<noteq> 0 then pktgen_send_ping4 e idx s else Inr s))"

definition SEND_ARP_PING_REQUESTS :: u32 where
  "SEND_ARP_PING_REQUESTS = SEND_ARP_REQUEST OR SEND_GRATUITOUS_ARP OR SEND_PING4_REQUEST OR push_bit 7 1"

definition pktgen_send_special :: "tx_env \<Rightarrow> u32 \<Rightarrow> special \<Rightarrow> special res" where
  "pktgen_send_special e flags = (\<lambda>(sent, pool, q).
     rbind (rfold (\<lambda>s idx. special_one e flags idx s) (sent, pool, q) [0..<unat (pi_seqCnt (g_info (tx_port q)))]) (\<lambda>s.
     rbind (special_one e flags SINGLE_PKT s) (\<lambda>(sent, pool, q).
     Inr (sent, pool, q\<lparr>tx_port := upd_info (pktgen_clr_port_flags SEND_ARP_PING_REQUESTS) (tx_port q)\<rparr>))))"

section \<open>The transmit half of the packet loop\<close>

text \<open>
  \<open>tm_pools\<close> are the mbufs of each pool of the queue, \<open>alloc\<close> what an allocation of \<open>n\<close> gives of
  a pool. The flags are read once at the start.
\<close>

record tx_main =
  tm_q :: txq
  tm_statics :: range_statics
  tm_ol :: "u64 list"
  tm_capa :: u64
  tm_pools :: "mempool \<Rightarrow> mbuf list"

definition transmit_pool :: "u32 \<Rightarrow> mempool" where
  "transmit_pool flags =
     (if flags AND (SEND_RANGE_PKTS OR SEND_PCAP_PKTS OR SEND_SEQ_PKTS OR SEND_RATE_PACKETS) \<noteq> 0 then
        (if flags AND SEND_RANGE_PKTS \<noteq> 0 then Range_mp
         else if flags AND SEND_SEQ_PKTS \<noteq> 0 then Seq_mp
         else if flags AND SEND_RATE_PACKETS \<noteq> 0 then Rate_mp
         else if flags AND SEND_PCAP_PKTS \<noteq> 0 then Pcap_mp else Tx_mp)
      else Tx_mp)"

definition transmit_setup :: "nat \<Rightarrow> mempool \<Rightarrow> tx_main \<Rightarrow> tx_main res" where
  "transmit_setup qid mp t =
     rbind (pktgen_tst_q_flags qid CLEAR_FAST_ALLOC_FLAG (g_info (tx_port (tm_q t)))) (\<lambda>b.
     if b then
       rbind (pktgen_setup_packets qid mp (tm_pools t mp)
                \<lparr>su_port = tx_port (tm_q t), su_statics = tm_statics t, su_ol = tm_ol t, su_capa = tm_capa t\<rparr>) (\<lambda>(ms, s).
       Inr (t\<lparr>tm_q := (tm_q t)\<lparr>tx_port := su_port s\<rparr>, tm_statics := su_statics s, tm_ol := su_ol s,
              tm_pools := (tm_pools t)(mp := ms)\<rparr>))
     else Inr t)"

definition transmit_special :: "tx_env \<Rightarrow> u32 \<Rightarrow> tx_main \<Rightarrow> (mbuf list \<times> tx_main) res" where
  "transmit_special e flags t =
     (if flags AND SEND_ARP_PING_REQUESTS \<noteq> 0 then
        rbind (pktgen_send_special e flags ([], tm_pools t Special_mp, tm_q t)) (\<lambda>(sent, pool, q).
        Inr (sent, t\<lparr>tm_q := q, tm_pools := (tm_pools t)(Special_mp := pool)\<rparr>))
      else Inr ([], t))"

definition transmit_send :: "(mbuf list \<Rightarrow> nat \<Rightarrow> mbuf list) \<Rightarrow> tx_env \<Rightarrow> nat \<Rightarrow> u32 \<Rightarrow> tx_main \<Rightarrow> (mbuf list \<times> tx_main) res" where
  "transmit_send alloc e qid flags t =
     (if flags AND SENDING_PACKETS \<noteq> 0 then
        rbind (transmit_setup qid (transmit_pool flags) t) (\<lambda>t.
        rbind (pktgen_send_pkts (alloc (tm_pools t (transmit_pool flags))) e (tm_q t)) (\<lambda>(sent, q).
        Inr (sent, t\<lparr>tm_q := q\<rparr>)))
      else Inr ([], t))"

definition pktgen_main_transmit ::
  "(mbuf list \<Rightarrow> nat \<Rightarrow> mbuf list) \<Rightarrow> tx_env \<Rightarrow> nat \<Rightarrow> tx_main \<Rightarrow> (mbuf list \<times> tx_main) res" where
  "pktgen_main_transmit alloc e qid t0 =
     (let flags = pi_port_flags (g_info (tx_port (tm_q t0))) in
      rbind (transmit_special e flags t0) (\<lambda>(s1, t).
      rbind (transmit_send alloc e qid flags t) (\<lambda>(s2, t).
      rbind (pktgen_tst_q_flags qid DO_TX_FLUSH (g_info (tx_port (tm_q t)))) (\<lambda>b.
      if b then rbind (pktgen_tx_flush e qid (tm_q t)) (\<lambda>(s3, q). Inr (s1 @ s2 @ s3, t\<lparr>tm_q := q\<rparr>))
      else Inr (s1 @ s2, t)))))"

section \<open>Answering control packets\<close>

record pkt_stats =
  st_arp_pkts :: u64
  st_echo_pkts :: u64
  st_ip_pkts :: u64
  st_ipv6_pkts :: u64
  st_vlan_pkts :: u64

record rx_port =
  rx_q :: txq
  rx_stats :: pkt_stats

abbreviation rx_info :: "rx_port \<Rightarrow> port_info" where
  "rx_info r \<equiv> g_info (tx_port (rx_q r))"

definition rx_upd :: "(pktgen_st \<Rightarrow> pktgen_st) \<Rightarrow> rx_port \<Rightarrow> rx_port" where
  "rx_upd f r = r\<lparr>rx_q := (rx_q r)\<lparr>tx_port := f (tx_port (rx_q r))\<rparr>\<rparr>"

definition count :: "(pkt_stats \<Rightarrow> pkt_stats) \<Rightarrow> rx_port \<Rightarrow> rx_port" where
  "count f r = r\<lparr>rx_stats := f (rx_stats r)\<rparr>"

definition inc_arp :: "pkt_stats \<Rightarrow> pkt_stats" where "inc_arp s = s\<lparr>st_arp_pkts := st_arp_pkts s + 1\<rparr>"
definition inc_echo :: "pkt_stats \<Rightarrow> pkt_stats" where "inc_echo s = s\<lparr>st_echo_pkts := st_echo_pkts s + 1\<rparr>"
definition inc_ip :: "pkt_stats \<Rightarrow> pkt_stats" where "inc_ip s = s\<lparr>st_ip_pkts := st_ip_pkts s + 1\<rparr>"
definition inc_ipv6 :: "pkt_stats \<Rightarrow> pkt_stats" where "inc_ipv6 s = s\<lparr>st_ipv6_pkts := st_ipv6_pkts s + 1\<rparr>"
definition inc_vlan :: "pkt_stats \<Rightarrow> pkt_stats" where "inc_vlan s = s\<lparr>st_vlan_pkts := st_vlan_pkts s + 1\<rparr>"

text \<open>
  An operation on a received packet returns the packets sent, the packet as it is then in memory
  (an answer is built in place), and the port.
\<close>

type_synonym answer = "(mbuf list \<times> mbuf \<times> rx_port) res"

definition rx_queue :: "tx_env \<Rightarrow> mbuf \<Rightarrow> rx_port \<Rightarrow> answer" where
  "rx_queue e m r = rbind (queue_special e m (rx_q r)) (\<lambda>(sent, q). Inr (sent, m, r\<lparr>rx_q := q\<rparr>))"

definition learn_dst :: "nat \<Rightarrow> u8 list \<Rightarrow> rx_port \<Rightarrow> rx_port" where
  "learn_dst n sha = rx_upd (set_pkt n (\<lambda>p. p\<lparr>pk_eth_dst := sha\<rparr>))"

definition set_gflags :: "u32 \<Rightarrow> rx_port \<Rightarrow> rx_port" where
  "set_gflags fl = rx_upd (\<lambda>g. g\<lparr>g_flags := g_flags g OR fl\<rparr>)"

definition PRINT_LABELS_FLAG :: u32 where "PRINT_LABELS_FLAG = 1"
definition MAC_FROM_ARP_FLAG :: u32 where "MAC_FROM_ARP_FLAG = 2"

definition learn_from_arp :: "nat \<Rightarrow> u8 list \<Rightarrow> rx_port \<Rightarrow> rx_port res" where
  "learn_from_arp n sha r0 =
     (if g_flags (tx_port (rx_q r0)) AND MAC_FROM_ARP_FLAG \<noteq> 0 then
        rfold (\<lambda>r i. rbind (pktgen_packet_ctor i (-1) (tx_port (rx_q r))) (\<lambda>g. Inr (rx_upd (\<lambda>_. g) r)))
          (learn_dst n sha r0) [0..<unat (pi_seqCnt (rx_info r0))]
      else Inr r0)"

definition arp_reply :: "nat \<Rightarrow> u8 list \<Rightarrow> u8 list \<Rightarrow> u8 list res" where
  "arp_reply arp src d0 =
     rbind (ethAddrSwap (arp + 8) (arp + 18) d0) (\<lambda>d.
     rbind (inetAddrSwap (arp + 24) (arp + 14) d) (\<lambda>d.
     rbind (wr d (arp + 6) (be16 2)) (\<lambda>d.
     rbind (ethAddrSwap 0 6 d) (\<lambda>d.
     wrs d [(arp + 8, src), (6, src)]))))"

text \<open>\<open>txque\<close> is the transmit queue of the port on the calling lcore (\<open>get_txque\<close>).\<close>

definition pktgen_process_arp :: "tx_env \<Rightarrow> nat \<Rightarrow> mbuf \<Rightarrow> bool \<Rightarrow> rx_port \<Rightarrow> answer" where
  "pktgen_process_arp e txque m vlan r =
     (let arp = (if vlan then 18 else 14); d = mb_data m in
      rbind (rd d (arp + 6) 2) (\<lambda>op.
      if op = be16 1 then
        rbind (rd d (arp + 24) 4) (\<lambda>tip. rbind (rd d (arp + 14) 4) (\<lambda>sip. rbind (rd d (arp + 8) 6) (\<lambda>sha.
        if pktgen_tst_port_flags PROCESS_GARP_PKTS (rx_info r) \<and> tip = sip then
          rbind (pktgen_find_matching_ipdst (rx_info r) (of_be32 sip)) (\<lambda>n.
          case n of None \<Rightarrow> Inr ([], m, r)
          | Some n \<Rightarrow>
              let r = learn_dst n sha r in
              rbind (pktgen_set_q_flags txque DO_TX_FLUSH (rx_info r)) (\<lambda>i.
              Inr ([], m, rx_upd (\<lambda>g. g\<lparr>g_info := i\<rparr>) r)))
        else
          rbind (pktgen_find_matching_ipsrc (rx_info r) (of_be32 tip)) (\<lambda>n.
          case n of None \<Rightarrow> Inr ([], m, r)
          | Some n \<Rightarrow>
              rbind (learn_from_arp n sha r) (\<lambda>r.
              rbind (arp_reply arp (pk_eth_src (pi_seq_pkt (rx_info r) ! n)) d) (\<lambda>d.
              rx_queue e (m\<lparr>mb_data := d\<rparr>) r))))))
      else if op = be16 2 then
        rbind (rd d (arp + 24) 4) (\<lambda>tip. rbind (rd d (arp + 14) 4) (\<lambda>sip. rbind (rd d (arp + 8) 6) (\<lambda>sha.
        rbind (pktgen_find_matching_ipsrc (rx_info r) (of_be32 tip)) (\<lambda>n.
        case n of None \<Rightarrow> Inr ([], m, r)
        | Some n \<Rightarrow>
            Inr ([], m, set_gflags PRINT_LABELS_FLAG
                   (if pk_ip_dst (pi_seq_pkt (rx_info r) ! n) = of_be32 sip then learn_dst n sha r else r))))))
      else Inr ([], m, r)))"

text \<open>
  The length of the ICMP message is computed in \<open>size_t\<close>; a packet shorter than the two headers
  makes it huge, and the checksum reads outside the buffer.
\<close>

definition ping4_reply :: "nat \<Rightarrow> nat \<Rightarrow> u16 \<Rightarrow> u8 list \<Rightarrow> u8 list res" where
  "ping4_reply ip len data_len d0 =
     (let icmp = ip + 20 in
      rbind (wrs d0 [(icmp, [0]), (icmp + 2, le16 0)]) (\<lambda>d.
      rbind (rd d icmp len) (\<lambda>bs.
      rbind (wr d (icmp + 2) (le16 (rte_raw_cksum bs))) (\<lambda>d.
      rbind (inetAddrSwap (ip + 12) (ip + 16) d) (\<lambda>d.
      rbind (rd d (ip + 4) 2) (\<lambda>idt.
      rbind (wrs d [(ip + 4, be16 (of_be16 idt + data_len)), (ip + 10, le16 0)]) (\<lambda>d.
      rbind (rd d ip 20) (\<lambda>hd.
      rbind (wr d (ip + 10) (le16 (rte_raw_cksum hd))) (\<lambda>d.
      ethAddrSwap 0 6 d)))))))))"

definition pktgen_process_ping4 :: "tx_env \<Rightarrow> mbuf \<Rightarrow> bool \<Rightarrow> rx_port \<Rightarrow> answer" where
  "pktgen_process_ping4 e m vlan r =
     (let ip = (if vlan then 18 else 14); d = mb_data m; len = unat (mb_data_len m) - 34 in
      rbind (rd d (ip + 9) 1) (\<lambda>proto.
      if pktgen_tst_port_flags ICMP_ECHO_ENABLE_FLAG (rx_info r) \<and> proto = [1] then
        if unat (mb_data_len m) < 34 then Inl Fault
        else
          rbind (rd d (ip + 20) len) (\<lambda>bs.
          if rte_raw_cksum bs \<noteq> 0 then Inr ([], m, r)
          else
            rbind (rd d (ip + 20) 1) (\<lambda>type.
            if type = [8] then
              rbind (rd d (ip + 16) 4) (\<lambda>dst.
              if of_be32 dst = 0xFFFFFFFF then Inr ([], m, r)
              else
                rbind (pktgen_find_matching_ipsrc (rx_info r) (of_be32 dst)) (\<lambda>n.
                case n of None \<Rightarrow> Inr ([], m, r)
                | Some _ \<Rightarrow>
                    rbind (ping4_reply ip len (mb_data_len m) d) (\<lambda>d.
                    rx_queue e (m\<lparr>mb_data := d\<rparr>) (count inc_echo r))))
            else if type = [0] then Inr ([], m, count inc_echo r)
            else Inr ([], m, r)))
      else Inr ([], m, r)))"

text \<open>\<open>pktgen_process_ping6\<close> has an empty body.\<close>

definition pktgen_process_vlan :: "tx_env \<Rightarrow> nat \<Rightarrow> mbuf \<Rightarrow> rx_port \<Rightarrow> answer" where
  "pktgen_process_vlan e txque m r =
     rbind (rd (mb_data m) 16 2) (\<lambda>t.
     if t = be16 PG_ETHER_TYPE_ARP then pktgen_process_arp e txque m True (count inc_arp r)
     else if t = be16 PG_ETHER_TYPE_IPv4 then pktgen_process_ping4 e m True (count inc_ip r)
     else if t = be16 PG_ETHER_TYPE_IPv6 then Inr ([], m, count inc_ipv6 r)
     else Inr ([], m, r))"

section \<open>Classification\<close>

record port_sizes =
  sz_64 :: u64
  sz_65_127 :: u64
  sz_128_255 :: u64
  sz_256_511 :: u64
  sz_512_1023 :: u64
  sz_1024_1518 :: u64
  sz_broadcast :: u64
  sz_multicast :: u64
  sz_jumbo :: u64
  sz_runt :: u64
  sz_unknown :: u64

definition count_size :: "u32 \<Rightarrow> port_sizes \<Rightarrow> port_sizes" where
  "count_size plen s =
     (if plen = 64 then s\<lparr>sz_64 := sz_64 s + 1\<rparr>
      else if 65 \<le> plen \<and> plen \<le> 127 then s\<lparr>sz_65_127 := sz_65_127 s + 1\<rparr>
      else if 128 \<le> plen \<and> plen \<le> 255 then s\<lparr>sz_128_255 := sz_128_255 s + 1\<rparr>
      else if 256 \<le> plen \<and> plen \<le> 511 then s\<lparr>sz_256_511 := sz_256_511 s + 1\<rparr>
      else if 512 \<le> plen \<and> plen \<le> 1023 then s\<lparr>sz_512_1023 := sz_512_1023 s + 1\<rparr>
      else if 1024 \<le> plen \<and> plen \<le> 1518 then s\<lparr>sz_1024_1518 := sz_1024_1518 s + 1\<rparr>
      else if plen < 64 then s\<lparr>sz_runt := sz_runt s + 1\<rparr>
      else if plen > 1518 then s\<lparr>sz_jumbo := sz_jumbo s + 1\<rparr>
      else s\<lparr>sz_unknown := sz_unknown s + 1\<rparr>)"

text \<open>
  The broadcast test adds \<open>data_off\<close> (128, the headroom) to a pointer to 64-bit words, so it reads
  at 1024 bytes from the start of the buffer, 896 bytes after the start of the packet.
\<close>

definition count_cast :: "u8 list \<Rightarrow> port_sizes \<Rightarrow> port_sizes res" where
  "count_cast d s =
     rbind (rd d 0 1) (\<lambda>b.
     if b = [0xFF] then
       rbind (rd d 896 8) (\<lambda>w.
       if of_le64 w AND 0xFFFFFFFFFFFF0000 = 0xFFFFFFFFFFFF0000 then Inr (s\<lparr>sz_broadcast := sz_broadcast s + 1\<rparr>)
       else if hd b AND 1 \<noteq> 0 then Inr (s\<lparr>sz_multicast := sz_multicast s + 1\<rparr>)
       else Inr s)
     else Inr s)"

definition PROCESS_RX_TAP_PKTS :: u32 where "PROCESS_RX_TAP_PKTS = push_bit 8 1"

definition classify_type :: "tx_env \<Rightarrow> nat \<Rightarrow> mbuf \<Rightarrow> u8 list \<Rightarrow> rx_port \<Rightarrow> answer" where
  "classify_type e txque m t r =
     (let process = pi_port_flags (rx_info r) AND (PROCESS_INPUT_PKTS OR PROCESS_RX_TAP_PKTS) \<noteq> 0 in
      if t = be16 PG_ETHER_TYPE_ARP then
        (if process then pktgen_process_arp e txque m False (count inc_arp r) else Inr ([], m, count inc_arp r))
      else if t = be16 PG_ETHER_TYPE_IPv4 then
        (if process then pktgen_process_ping4 e m False (count inc_ip r) else Inr ([], m, count inc_ip r))
      else if t = be16 PG_ETHER_TYPE_IPv6 then Inr ([], m, count inc_ipv6 r)
      else if t = be16 PG_ETHER_TYPE_VLAN then
        (if process then pktgen_process_vlan e txque m (count inc_vlan r) else Inr ([], m, count inc_vlan r))
      else Inr ([], m, r))"

text \<open>
  \<open>crc\<close> is \<open>pktgen_get_hw_strip_crc\<close>. The broadcast test runs after the packet has been processed,
  on the bytes an answer has rewritten.
\<close>

definition pktgen_packet_classify ::
  "tx_env \<Rightarrow> nat \<Rightarrow> u32 \<Rightarrow> mbuf \<Rightarrow> rx_port \<times> port_sizes \<Rightarrow> (mbuf list \<times> mbuf \<times> rx_port \<times> port_sizes) res" where
  "pktgen_packet_classify e txque crc m = (\<lambda>(r, s).
     rbind (rd (mb_data m) 12 2) (\<lambda>t.
     rbind (classify_type e txque m t r) (\<lambda>(sent, m', r).
     rbind (count_cast (mb_data m') (count_size (mb_pkt_len m + crc) s)) (\<lambda>s.
     Inr (sent, m', r, s)))))"

text \<open>The result has the packets that were sent and the received packets with the bytes they have now.\<close>

fun pktgen_packet_classify_bulk ::
  "tx_env \<Rightarrow> nat \<Rightarrow> u32 \<Rightarrow> mbuf list \<Rightarrow> rx_port \<times> port_sizes \<Rightarrow> (mbuf list \<times> mbuf list \<times> rx_port \<times> port_sizes) res" where
  "pktgen_packet_classify_bulk e txque crc [] = (\<lambda>(r, s). Inr ([], [], r, s))"
| "pktgen_packet_classify_bulk e txque crc (m # ms) = (\<lambda>(r, s).
     rbind (pktgen_packet_classify e txque crc m (r, s)) (\<lambda>(s1, m', r, s).
     rbind (pktgen_packet_classify_bulk e txque crc ms (r, s)) (\<lambda>(s2, ms', r, s). Inr (s1 @ s2, m' # ms', r, s))))"

text \<open>
  The receive half: \<open>pkts\<close> are the packets the driver returned, \<open>lid\<close> the lcore, and the last two components of the state
  are the packet dump of the port and the capture memory of the lcore's socket. Every packet is freed at the
  end; the result lists the packets sent on the way and the mbufs given back to their pool.
\<close>

definition receive_taps :: "(nat \<Rightarrow> u64) \<Rightarrow> nat \<Rightarrow> mbuf list \<Rightarrow> port_info \<Rightarrow> pkt_dump \<times> capture \<Rightarrow> (pkt_dump \<times> capture) res" where
  "receive_taps tsc lid pkts i = (\<lambda>(d, c).
     rbind (if 0 < pd_count d then pktgen_packet_dump_bulk pkts d else Inr d) (\<lambda>d.
     rbind (if pktgen_tst_port_flags CAPTURE_PKTS i \<and> cp_port c = pi_pid i \<and> cp_lcore c = of_nat lid
            then pktgen_packet_capture_bulk tsc pkts c else Inr c) (\<lambda>c. Inr (d, c))))"

definition pktgen_main_receive ::
  "tx_env \<Rightarrow> nat \<Rightarrow> u32 \<Rightarrow> (nat \<Rightarrow> u64) \<Rightarrow> (nat \<Rightarrow> u64) \<Rightarrow> nat \<Rightarrow> mbuf list \<Rightarrow> (rx_port \<times> port_sizes \<times> latency_info) \<times> pkt_dump \<times> capture \<Rightarrow>
   (mbuf list \<times> mbuf list \<times> (rx_port \<times> port_sizes \<times> latency_info) \<times> pkt_dump \<times> capture) res" where
  "pktgen_main_receive e txque crc now tsc lid pkts = (\<lambda>((r, s, l), d, c).
     if pkts = [] then Inr ([], [], (r, s, l), d, c)
     else
       rbind (pktgen_recv_tstamp (rx_info r) now pkts l) (\<lambda>l.
       rbind (pktgen_packet_classify_bulk e txque crc pkts (r, s)) (\<lambda>(sent, pkts', r, s).
       rbind (receive_taps tsc lid pkts' (rx_info r) (d, c)) (\<lambda>(d, c).
       Inr (sent, pkts', (r, s, l), d, c)))))"

section \<open>Echo requests are never answered\<close>

lemma words_sum_head: "bs \<noteq> [] \<Longrightarrow> hd bs \<noteq> 0 \<Longrightarrow> 0 < words_sum bs"
  by (cases bs rule: words_sum.cases) (auto simp: unat_gt_0)

lemma raw_cksum_head:
  assumes "bs \<noteq> []" and "hd bs \<noteq> 0" and "length bs \<le> 65535"
  shows "rte_raw_cksum bs \<noteq> 0"
proof -
  have "0 < fold16 (fold16 (words_sum bs))" using words_sum_head[OF assms(1,2)] by (simp add: fold16_pos)
  then show ?thesis using rte_raw_cksum_words[OF assms(3)] by auto
qed

lemma rd_head: "rd d i n = Inr bs \<Longrightarrow> 0 < n \<Longrightarrow> rd d i 1 = Inr [b] \<Longrightarrow> bs \<noteq> [] \<and> hd bs = b"
  by (auto simp: rd_def hd_drop_conv_nth take_Suc_conv_app_nth hd_take split: if_splits)

text \<open>
  The checksum test of \<open>pktgen_process_ping4\<close> expects the plain sum over an ICMP message to
  be zero, but \<open>rte_raw_cksum\<close> returns the sum without complementing it: it is all ones for
  a correct message and never zero for a message that starts with type 8. Whatever packet arrives,
  with a correct checksum or not, no echo request is ever answered and nothing is queued.
\<close>

theorem process_ping4_never_replies:
  assumes "pktgen_process_ping4 e m vlan r = Inr (sent, m', r')" and "34 < unat (mb_data_len m)"
  shows "sent = [] \<and> m' = m \<and> rx_q r' = rx_q r"
proof -
  let ?ip = "if vlan then 18 else 14 :: nat" and ?len = "unat (mb_data_len m) - 34"
  have no: False if hy: "rd (mb_data m) (?ip + 20) ?len = Inr bs" "rte_raw_cksum bs = 0" "rd (mb_data m) (?ip + 20) 1 = Inr [8]" for bs
  proof -
    have "length bs \<le> 65535" using rd_length[OF hy(1)] u16_le[of "mb_data_len m"] by simp
    moreover have "bs \<noteq> []" "hd bs = 8" using rd_head[OF hy(1) _ hy(3)] assms(2) by auto
    ultimately show False using raw_cksum_head[of bs] hy(2) by simp
  qed
  show ?thesis using assms no
    by (auto simp: pktgen_process_ping4_def Let_def rbind_eq_Inr count_def split: if_splits option.splits)
qed

section \<open>Answers to ARP requests\<close>

lemma swap_at_ok:
  assumes "t + n \<le> length d" and "f + n \<le> length d" and "t + n \<le> f \<or> f + n \<le> t"
  shows "\<exists>d'. swap_at n t f d = Inr d' \<and> length d' = length d \<and> rd d' t n = rd d f n \<and> rd d' f n = rd d t n \<and>
    (\<forall>i k. (i + k \<le> t \<or> t + n \<le> i) \<and> (i + k \<le> f \<or> f + n \<le> i) \<longrightarrow> rd d' i k = rd d i k)"
proof -
  obtain a b where ab: "rd d t n = Inr a" "rd d f n = Inr b" "length a = n" "length b = n"
    using assms(1,2) by (auto simp: rd_def)
  obtain d' where d': "wrs d [(t, b), (f, a)] = Inr d'" "length d' = length d"
    using wrs_ok[of "[(t, b), (f, a)]" d] ab assms by auto
  have "rd d' f n = Inr a"
    by (rule rd_wrs_at[where ws = "[(t, b)]" and vs = "[]", unfolded append_Cons append_Nil, OF d'(1)]) (simp_all add: ab)
  moreover have "rd d' t n = Inr b"
    by (rule rd_wrs_at[where ws = "[]", unfolded append_Nil, OF d'(1)]) (use assms(3) ab in \<open>auto simp: disjoint_from_def\<close>)
  moreover have "rd d' i k = rd d i k" if "(i + k \<le> t \<or> t + n \<le> i) \<and> (i + k \<le> f \<or> f + n \<le> i)" for i k
    by (rule rd_wrs_skip[OF d'(1)]) (use that ab in \<open>auto simp: disjoint_from_def\<close>)
  ultimately show ?thesis using ab d' by (auto simp: swap_at_def)
qed

lemma arp_reply_ok:
  assumes len: "arp + 28 \<le> length d" and arp: "14 \<le> arp" and src: "length src = 6"
  shows "\<exists>d'. arp_reply arp src d = Inr d' \<and> length d' = length d \<and> rd d' (arp + 6) 2 = Inr (be16 2) \<and>
    rd d' (arp + 8) 6 = Inr src \<and> rd d' (arp + 14) 4 = rd d (arp + 24) 4 \<and>
    rd d' (arp + 18) 6 = rd d (arp + 8) 6 \<and> rd d' (arp + 24) 4 = rd d (arp + 14) 4 \<and>
    rd d' 0 6 = rd d 6 6 \<and> rd d' 6 6 = Inr src \<and> (\<forall>i. arp + 28 \<le> i \<longrightarrow> rd d' i k = rd d i k)"
proof -
  obtain d1 where d1: "ethAddrSwap (arp + 8) (arp + 18) d = Inr d1" "length d1 = length d"
    "rd d1 (arp + 18) 6 = rd d (arp + 8) 6"
    "\<And>i k. (i + k \<le> arp + 8 \<or> 14 + arp \<le> i) \<and> (i + k \<le> arp + 18 \<or> 24 + arp \<le> i) \<Longrightarrow> rd d1 i k = rd d i k"
    using swap_at_ok[of "arp + 8" 6 d "arp + 18"] len unfolding ethAddrSwap_def by auto
  obtain d2 where d2: "inetAddrSwap (arp + 24) (arp + 14) d1 = Inr d2" "length d2 = length d"
    "rd d2 (arp + 24) 4 = rd d1 (arp + 14) 4" "rd d2 (arp + 14) 4 = rd d1 (arp + 24) 4"
    "\<And>i k. (i + k \<le> arp + 24 \<or> 28 + arp \<le> i) \<and> (i + k \<le> arp + 14 \<or> 18 + arp \<le> i) \<Longrightarrow> rd d2 i k = rd d1 i k"
    using swap_at_ok[of "arp + 24" 4 d1 "arp + 14"] len d1(2) unfolding inetAddrSwap_def by auto
  obtain d3 where d3: "wr d2 (arp + 6) (be16 2) = Inr d3" using len d2(2) by (simp add: wr_def)
  have l3: "length d3 = length d" using wr_length[OF d3] d2(2) by simp
  obtain d4 where d4: "ethAddrSwap 0 6 d3 = Inr d4" "length d4 = length d" "rd d4 0 6 = rd d3 6 6"
    "\<And>i k. 12 \<le> i \<Longrightarrow> rd d4 i k = rd d3 i k"
    using swap_at_ok[of 0 6 d3 6] len arp l3 unfolding ethAddrSwap_def by auto
  obtain d5 where d5: "wrs d4 [(arp + 8, src), (6, src)] = Inr d5" "length d5 = length d"
    using wrs_ok[of "[(arp + 8, src), (6, src)]" d4] len arp src d4(2) by auto
  have s5: "rd d5 i k = rd d4 i k" if "(i + k \<le> arp + 8 \<or> arp + 14 \<le> i) \<and> (i + k \<le> 6 \<or> 12 \<le> i)" for i k
    by (rule rd_wrs_skip[OF d5(1)]) (use that src in \<open>auto simp: disjoint_from_def\<close>)
  have s3: "rd d3 i k = rd d2 i k" if "i + k \<le> arp + 6 \<or> arp + 8 \<le> i" for i k
    by (rule rd_wr_other[OF d3]) (use that in auto)
  have "rd d5 (arp + 8) 6 = Inr src"
    by (rule rd_wrs_at[where ws = "[]", unfolded append_Nil, OF d5(1)]) (use arp src in \<open>auto simp: disjoint_from_def\<close>)
  moreover have "rd d5 6 6 = Inr src"
    by (rule rd_wrs_at[where ws = "[(arp + 8, src)]" and vs = "[]", unfolded append_Cons append_Nil, OF d5(1)]) (simp_all add: src)
  moreover have "rd d5 (arp + 6) 2 = Inr (be16 2)" using rd_wr_same[OF d3] arp by (simp add: s5 d4(4))
  moreover have "rd d5 (arp + 14) 4 = rd d (arp + 24) 4" "rd d5 (arp + 24) 4 = rd d (arp + 14) 4" "rd d5 (arp + 18) 6 = rd d (arp + 8) 6"
    "rd d5 0 6 = rd d 6 6" "arp + 28 \<le> i \<Longrightarrow> rd d5 i k = rd d i k" for i
    using arp by (simp_all add: s5 d4(3,4) s3 d2(3,4,5) d1(3,4))
  ultimately show ?thesis using d1(1) d2(1) d3 d4(1) d5 by (auto simp: arp_reply_def)
qed

lemma rx_queue_ok:
  assumes "Suc (length (tx_tab (rx_q r))) < unat (pi_tx_burst (rx_info r))" and "pi_tx_burst (rx_info r) \<le> 64"
    and "0 < length (pi_q_flags (rx_info r))"
  shows "\<exists>r'. rx_queue e m r = Inr ([], m, r') \<and> tx_tab (rx_q r') = tx_tab (rx_q r) @ [m] \<and>
    pktgen_tst_q_flags 0 DO_TX_FLUSH (rx_info r') = Inr True"
proof -
  have b: "unat (pi_tx_burst (rx_info r)) \<le> 64" using assms(2) by (simp add: word_le_nat_alt)
  have "pktgen_send_mbuf e m (rx_q r) = Inr ([], (rx_q r)\<lparr>tx_tab := tx_tab (rx_q r) @ [m]\<rparr>)"
    using assms(1) b by (simp add: pktgen_send_mbuf_def Let_def)
  then show ?thesis using assms(3)
    by (simp add: rx_queue_def queue_special_def pktgen_set_q_flags_def pktgen_tst_q_flags_def DO_TX_FLUSH_def bit.conj_disj_distrib2)
qed

text \<open>An ARP request in \<open>m\<close> for the address of template \<open>n\<close> of the port, which can queue one more packet.\<close>

definition arp_request_for :: "mbuf \<Rightarrow> nat \<Rightarrow> rx_port \<Rightarrow> bool" where
  "arp_request_for m n r \<longleftrightarrow> 42 \<le> length (mb_data m) \<and> rd (mb_data m) 20 2 = Inr (be16 1) \<and>
     pktgen_find_matching_ipsrc (rx_info r) (of_be32 (take 4 (drop 38 (mb_data m)))) = Inr (Some n) \<and>
     \<not> pktgen_tst_port_flags PROCESS_GARP_PKTS (rx_info r) \<and> g_flags (tx_port (rx_q r)) AND MAC_FROM_ARP_FLAG = 0 \<and>
     length (pk_eth_src (pi_seq_pkt (rx_info r) ! n)) = 6 \<and> Suc (length (tx_tab (rx_q r))) < unat (pi_tx_burst (rx_info r)) \<and>
     pi_tx_burst (rx_info r) \<le> 64 \<and> 0 < length (pi_q_flags (rx_info r))"

lemma process_arp_queues:
  assumes "arp_request_for m n r"
  shows "\<exists>d' r'. pktgen_process_arp e txque m False r = Inr ([], m\<lparr>mb_data := d'\<rparr>, r') \<and> length d' = length (mb_data m) \<and>
    tx_tab (rx_q r') = tx_tab (rx_q r) @ [m\<lparr>mb_data := d'\<rparr>] \<and> pktgen_tst_q_flags 0 DO_TX_FLUSH (rx_info r') = Inr True \<and>
    rd d' 20 2 = Inr (be16 2) \<and> rd d' 22 6 = Inr (pk_eth_src (pi_seq_pkt (rx_info r) ! n)) \<and>
    rd d' 28 4 = rd (mb_data m) 38 4 \<and> rd d' 32 6 = rd (mb_data m) 22 6 \<and> rd d' 38 4 = rd (mb_data m) 28 4 \<and>
    rd d' 0 6 = rd (mb_data m) 6 6 \<and> rd d' 6 6 = Inr (pk_eth_src (pi_seq_pkt (rx_info r) ! n))"
proof -
  let ?d = "mb_data m" and ?src = "pk_eth_src (pi_seq_pkt (rx_info r) ! n)"
  note a = assms[unfolded arp_request_for_def]
  obtain d' where d': "arp_reply 14 ?src ?d = Inr d'" "length d' = length ?d" "rd d' 20 2 = Inr (be16 2)" "rd d' 22 6 = Inr ?src"
    "rd d' 28 4 = rd ?d 38 4" "rd d' 32 6 = rd ?d 22 6" "rd d' 38 4 = rd ?d 28 4" "rd d' 0 6 = rd ?d 6 6" "rd d' 6 6 = Inr ?src"
    using arp_reply_ok[of 14 ?d ?src] a by auto
  obtain r' where r': "rx_queue e (m\<lparr>mb_data := d'\<rparr>) r = Inr ([], m\<lparr>mb_data := d'\<rparr>, r')"
    "tx_tab (rx_q r') = tx_tab (rx_q r) @ [m\<lparr>mb_data := d'\<rparr>]" "pktgen_tst_q_flags 0 DO_TX_FLUSH (rx_info r') = Inr True"
    using rx_queue_ok[of r e "m\<lparr>mb_data := d'\<rparr>"] a by auto
  have rds: "rd ?d 38 4 = Inr (take 4 (drop 38 ?d))" "rd ?d 28 4 = Inr (take 4 (drop 28 ?d))" "rd ?d 22 6 = Inr (take 6 (drop 22 ?d))"
    using a by (simp_all add: rd_def)
  have "pktgen_process_arp e txque m False r = Inr ([], m\<lparr>mb_data := d'\<rparr>, r')"
    using a rds d'(1) r'(1) by (simp add: pktgen_process_arp_def learn_from_arp_def)
  then show ?thesis using d' r' by auto
qed


lemma arp_request_count: "arp_request_for m n (count inc_arp r) = arp_request_for m n r"
  by (simp add: arp_request_for_def count_def)

lemma count_cast_total:
  assumes "904 \<le> length d"
  shows "\<exists>s'. count_cast d s = Inr s'"
proof -
  have "rd d 0 1 = Inr (take 1 d)" "rd d 896 8 = Inr (take 8 (drop 896 d))" using assms by (simp_all add: rd_def)
  then show ?thesis by (simp add: count_cast_def)
qed

text \<open>
  A received ARP request that is answered is used twice: its mbuf waits in the transmit table
  and, because \<open>pktgen_main_receive\<close> frees every packet it received, is at the same time given
  back to its pool.
\<close>

theorem receive_frees_queued_reply:
  assumes "arp_request_for m n r" and "rd (mb_data m) 12 2 = Inr (be16 PG_ETHER_TYPE_ARP)" and "904 \<le> length (mb_data m)"
    and "pktgen_tst_port_flags PROCESS_INPUT_PKTS (rx_info r)" and "\<not> pktgen_tst_port_flags (SEND_LATENCY_PKTS OR SEND_RATE_PACKETS) (rx_info r)"
    and "pd_count d = 0" and "cp_lcore c \<noteq> of_nat lid"
  shows "\<exists>m' r' s'. pktgen_main_receive e txque crc now tsc lid [m] ((r, s, l), d, c) = Inr ([], [m'], (r', s', l), d, c) \<and>
    m' \<in> set (tx_tab (rx_q r')) \<and> mb_addr m' = mb_addr m"
proof -
  have f: "pi_port_flags (rx_info r) AND (PROCESS_INPUT_PKTS OR PROCESS_RX_TAP_PKTS) \<noteq> 0"
    using assms(4) unfolding pktgen_tst_port_flags_def by (simp add: bit.conj_disj_distrib or_eq_0_iff)
  obtain d' r' where p: "pktgen_process_arp e txque m False (count inc_arp r) = Inr ([], m\<lparr>mb_data := d'\<rparr>, r')"
      "length d' = length (mb_data m)" "tx_tab (rx_q r') = tx_tab (rx_q (count inc_arp r)) @ [m\<lparr>mb_data := d'\<rparr>]"
    using process_arp_queues[of m n "count inc_arp r" e txque] assms(1) arp_request_count by blast
  obtain s' where s': "count_cast d' (count_size (mb_pkt_len m + crc) s) = Inr s'" using count_cast_total[of d'] assms(3) p(2) by auto
  have "pktgen_packet_classify e txque crc m (r, s) = Inr ([], m\<lparr>mb_data := d'\<rparr>, r', s')"
    using assms(2) p(1) s' f by (simp add: pktgen_packet_classify_def classify_type_def)
  then have "pktgen_main_receive e txque crc now tsc lid [m] ((r, s, l), d, c) = Inr ([], [m\<lparr>mb_data := d'\<rparr>], (r', s', l), d, c)"
    using assms(5-7) by (simp add: pktgen_main_receive_def pktgen_recv_tstamp_def receive_taps_def)
  then show ?thesis using p(3) by auto
qed

section \<open>Size counters\<close>

definition size_total :: "port_sizes \<Rightarrow> u64" where
  "size_total s = sz_64 s + sz_65_127 s + sz_128_255 s + sz_256_511 s + sz_512_1023 s + sz_1024_1518 s + sz_jumbo s + sz_runt s + sz_unknown s"

lemma count_size_total: "size_total (count_size plen s) = size_total s + 1" "sz_unknown (count_size plen s) = sz_unknown s"
proof -
  show "size_total (count_size plen s) = size_total s + 1" by (simp add: size_total_def count_size_def)
  have "plen = 64 \<or> 65 \<le> plen \<and> plen \<le> 127 \<or> 128 \<le> plen \<and> plen \<le> 255 \<or> 256 \<le> plen \<and> plen \<le> 511 \<or> 512 \<le> plen \<and> plen \<le> 1023 \<or>
      1024 \<le> plen \<and> plen \<le> 1518 \<or> plen < 64 \<or> 1518 < plen"
    by (simp add: word_le_nat_alt word_less_nat_alt word_unat_eq_iff) linarith
  then show "sz_unknown (count_size plen s) = sz_unknown s" by (auto simp: count_size_def)
qed

lemma count_cast_keeps:
  "count_cast d s = Inr s' \<Longrightarrow> size_total s' = size_total s \<and> sz_unknown s' = sz_unknown s"
  by (auto simp: count_cast_def rbind_eq_Inr size_total_def split: if_splits)

lemma classify_plain:
  assumes "pi_port_flags (rx_info r) AND (PROCESS_INPUT_PKTS OR PROCESS_RX_TAP_PKTS) = 0" and "904 \<le> length (mb_data m)"
  shows "\<exists>r' s'. pktgen_packet_classify e txque crc m (r, s) = Inr ([], m, r', s') \<and> rx_q r' = rx_q r \<and>
    size_total s' = size_total s + 1 \<and> sz_unknown s' = sz_unknown s"
proof -
  obtain t where t: "rd (mb_data m) 12 2 = Inr t" using assms(2) by (simp add: rd_def)
  obtain r' where r': "classify_type e txque m t r = Inr ([], m, r')" "rx_q r' = rx_q r"
  proof -
    have "\<exists>r'. classify_type e txque m t r = Inr ([], m, r') \<and> rx_q r' = rx_q r"
      by (simp add: classify_type_def Let_def assms(1) count_def)
    then show ?thesis using that by blast
  qed
  obtain s' where s': "count_cast (mb_data m) (count_size (mb_pkt_len m + crc) s) = Inr s'" using count_cast_total[OF assms(2)] by blast
  then show ?thesis using t r' count_cast_keeps[OF s'] by (simp add: pktgen_packet_classify_def count_size_total)
qed

text \<open>
  C21: without input processing a bulk of received packets is classified without a fault, every
  packet is counted in exactly one size class, and the class of unknown sizes is never used: the
  size ranges cover every length.
\<close>

theorem classify_counts_each_once:
  assumes "pi_port_flags (rx_info r) AND (PROCESS_INPUT_PKTS OR PROCESS_RX_TAP_PKTS) = 0" and "\<forall>m \<in> set ms. 904 \<le> length (mb_data m)"
  shows "\<exists>r' s'. pktgen_packet_classify_bulk e txque crc ms (r, s) = Inr ([], ms, r', s') \<and> rx_q r' = rx_q r \<and>
    size_total s' = size_total s + of_nat (length ms) \<and> sz_unknown s' = sz_unknown s"
  using assms
proof (induction ms arbitrary: r s)
  case (Cons m ms)
  obtain r1 s1 where a: "pktgen_packet_classify e txque crc m (r, s) = Inr ([], m, r1, s1)" "rx_q r1 = rx_q r"
    "size_total s1 = size_total s + 1" "sz_unknown s1 = sz_unknown s"
    using classify_plain[of r m e txque crc s] Cons.prems by auto
  obtain r2 s2 where b: "pktgen_packet_classify_bulk e txque crc ms (r1, s1) = Inr ([], ms, r2, s2)" "rx_q r2 = rx_q r1"
    "size_total s2 = size_total s1 + of_nat (length ms)" "sz_unknown s2 = sz_unknown s1"
    using Cons.IH[of r1 s1] Cons.prems a(2) by auto
  show ?case using a b by (simp add: algebra_simps)
qed simp

section \<open>A burst of sequence packets\<close>

definition same_port :: "pktgen_st \<Rightarrow> pktgen_st \<Rightarrow> bool" where
  "same_port g g' \<longleftrightarrow> pi_port_flags (g_info g') = pi_port_flags (g_info g) \<and> pi_tx_burst (g_info g') = pi_tx_burst (g_info g) \<and>
     pi_current_tx_count (g_info g') = pi_current_tx_count (g_info g) \<and> pi_q_flags (g_info g') = pi_q_flags (g_info g)"

lemma packet_ctor_same_port: "pktgen_packet_ctor idx t g = Inr g' \<Longrightarrow> same_port g g'"
  by (auto simp: pktgen_packet_ctor_def Let_def rbind_eq_Inr same_port_def split: if_splits)

lemma setup_mbuf_reset: "setup_mbuf p ol m = Inr m' \<Longrightarrow> mb_data_len (pktmbuf_reset m') = mb_data_len m'"
  by (auto simp: setup_mbuf_def rbind_eq_Inr pktmbuf_reset_def)

lemma setup_cb_seq_keeps:
  assumes "pktgen_setup_cb Seq_mp m s = Inr (m', s')" and "pi_seqIdx (g_info (su_port s)) < 16"
  shows "same_port (su_port s) (su_port s') \<and> mb_data_len (pktmbuf_reset m') = mb_data_len m'"
proof -
  have "unat (pi_seqIdx (g_info (su_port s))) < 16" using assms(2) by (simp add: word_less_nat_alt)
  then have "unat (pi_seqIdx (g_info (su_port s))) \<noteq> RANGE_PKT" by simp
  then show ?thesis using assms(1)
    by (auto simp: pktgen_setup_cb_def setup_idx_def setup_range_def Let_def rbind_eq_Inr same_port_def split: if_splits
        dest!: packet_ctor_same_port setup_mbuf_reset)
qed

lemma setup_iter_seq_keeps:
  assumes "setup_iter Seq_mp pool s = Inr (ms, s')" and "setup_ready s" and "\<forall>m \<in> set pool. 1514 \<le> length (mb_data m)"
  shows "same_port (su_port s) (su_port s') \<and> (\<forall>m \<in> set ms. mb_data_len (pktmbuf_reset m) = mb_data_len m)"
  using assms
proof (induction pool arbitrary: s ms)
  case (Cons m pool)
  obtain m1 s1 where a: "pktgen_setup_cb Seq_mp m s = Inr (m1, s1)" "setup_ready s1"
    using setup_cb_seq[OF Cons.prems(2), of m] Cons.prems(3) by auto
  obtain ms1 where b: "setup_iter Seq_mp pool s1 = Inr (ms1, s')" "ms = m1 # ms1"
    using Cons.prems(1) a(1) by (auto simp: rbind_eq_Inr)
  have "pi_seqIdx (g_info (su_port s)) < 16" using Cons.prems(2) by (auto simp: setup_ready_def Let_def)
  from setup_cb_seq_keeps[OF a(1) this] Cons.IH[OF b(1) a(2)] Cons.prems(3) b(2)
  show ?case by (auto simp: same_port_def)
qed (auto simp: same_port_def)

definition main_setup :: "tx_main \<Rightarrow> tx_setup" where
  "main_setup t = \<lparr>su_port = tx_port (tm_q t), su_statics = tm_statics t, su_ol = tm_ol t, su_capa = tm_capa t\<rparr>"

abbreviation tm_info :: "tx_main \<Rightarrow> port_info" where
  "tm_info t \<equiv> g_info (tx_port (tm_q t))"

text \<open>The port sends a counted sequence on queue \<open>qid\<close>, whose pool has to be filled and is large enough for a burst.\<close>

definition seq_sending :: "nat \<Rightarrow> tx_main \<Rightarrow> bool" where
  "seq_sending qid t \<longleftrightarrow> setup_ready (main_setup t) \<and> pi_port_flags (tm_info t) AND SEND_ARP_PING_REQUESTS = 0 \<and>
     pi_port_flags (tm_info t) AND SENDING_PACKETS \<noteq> 0 \<and> transmit_pool (pi_port_flags (tm_info t)) = Seq_mp \<and>
     plain_port (tm_info t) \<and> \<not> pktgen_tst_port_flags SEND_FOREVER (tm_info t) \<and>
     pktgen_tst_q_flags qid CLEAR_FAST_ALLOC_FLAG (tm_info t) = Inr True \<and> pktgen_tst_q_flags qid DO_TX_FLUSH (tm_info t) = Inr False \<and>
     tx_tab (tm_q t) = [] \<and> 1 \<le> pi_tx_burst (tm_info t) \<and> pi_tx_burst (tm_info t) \<le> 64 \<and> pi_current_tx_count (tm_info t) \<noteq> 0 \<and>
     unat (pi_current_tx_count (tm_info t)) < 2 ^ 63 \<and> unat (pi_tx_burst (tm_info t)) \<le> length (tm_pools t Seq_mp) \<and>
     (\<forall>m \<in> set (tm_pools t Seq_mp). 1514 \<le> length (mb_data m))"

lemma main_seq_setup:
  assumes "seq_sending qid t"
  shows "\<exists>t'. transmit_setup qid Seq_mp t = Inr t' \<and> plain_port (tm_info t') \<and> \<not> pktgen_tst_port_flags SEND_FOREVER (tm_info t') \<and>
    tx_tab (tm_q t') = [] \<and> pi_tx_burst (tm_info t') = pi_tx_burst (tm_info t) \<and>
    pi_current_tx_count (tm_info t') = pi_current_tx_count (tm_info t) \<and>
    pktgen_tst_q_flags qid DO_TX_FLUSH (tm_info t') = Inr False \<and> length (tm_pools t' Seq_mp) = length (tm_pools t Seq_mp) \<and>
    (\<forall>k < length (tm_pools t Seq_mp). mb_data_len (pktmbuf_reset (tm_pools t' Seq_mp ! k)) =
       pk_pktSize (pi_seq_pkt (tm_info t) ! ((unat (pi_seqIdx (tm_info t)) + k) mod unat (pi_seqCnt (tm_info t)))))"
proof -
  note a = assms[unfolded seq_sending_def]
  have q: "qid < length (pi_q_flags (tm_info t))" using a by (auto simp: pktgen_tst_q_flags_def split: if_splits)
  let ?i = "(tm_info t)\<lparr>pi_q_flags := (pi_q_flags (tm_info t))[qid := pi_q_flags (tm_info t) ! qid AND NOT CLEAR_FAST_ALLOC_FLAG]\<rparr>"
  let ?s = "(main_setup t)\<lparr>su_port := (tx_port (tm_q t))\<lparr>g_info := ?i\<rparr>\<rparr>"
  have ready: "setup_ready ?s" using a by (simp add: setup_ready_def main_setup_def Let_def)
  have pool: "\<forall>m \<in> set (tm_pools t Seq_mp). 1514 \<le> length (mb_data m)" using a by simp
  obtain ms s' where ms: "setup_iter Seq_mp (tm_pools t Seq_mp) ?s = Inr (ms, s')" "length ms = length (tm_pools t Seq_mp)"
    "\<forall>k < length (tm_pools t Seq_mp). mb_data_len (ms ! k) =
       pk_pktSize (seq_pkts ?s ! ((unat (pi_seqIdx (g_info (su_port ?s))) + k) mod unat (pi_seqCnt (g_info (su_port ?s)))))"
    using setup_iter_seq[OF ready pool] by blast
  note k = setup_iter_seq_keeps[OF ms(1) ready pool]
  let ?t = "t\<lparr>tm_q := (tm_q t)\<lparr>tx_port := su_port s'\<rparr>, tm_statics := su_statics s', tm_ol := su_ol s', tm_pools := (tm_pools t)(Seq_mp := ms)\<rparr>"
  have fl: "pi_port_flags (g_info (su_port s')) = pi_port_flags (tm_info t)" "pi_tx_burst (g_info (su_port s')) = pi_tx_burst (tm_info t)"
    "pi_current_tx_count (g_info (su_port s')) = pi_current_tx_count (tm_info t)"
    "pi_q_flags (g_info (su_port s')) = (pi_q_flags (tm_info t))[qid := pi_q_flags (tm_info t) ! qid AND NOT CLEAR_FAST_ALLOC_FLAG]"
    using k by (simp_all add: same_port_def)
  have "transmit_setup qid Seq_mp t = Inr ?t"
    using a q ms(1) by (simp add: transmit_setup_def pktgen_setup_packets_def pktgen_clr_q_flags_def main_setup_def)
  moreover have "pktgen_tst_q_flags qid DO_TX_FLUSH (tm_info ?t) = Inr False"
    using a q by (simp add: pktgen_tst_q_flags_def fl DO_TX_FLUSH_def CLEAR_FAST_ALLOC_FLAG_def and.assoc)
  moreover have "mb_data_len (pktmbuf_reset (ms ! n)) = mb_data_len (ms ! n)" if "n < length ms" for n using k that by simp
  ultimately show ?thesis using a ms(2,3) fl
    by (intro exI[of _ ?t]) (simp add: plain_port_def pktgen_tst_port_flags_def seq_pkts_def)
qed


section \<open>Witnesses\<close>

definition example_rx :: "u32 \<Rightarrow> rx_port" where
  "example_rx fl = \<lparr>rx_q = example_txq\<lparr>tx_tab := [], tx_port := upd_info (pktgen_set_port_flags fl) example_port\<rparr>,
     rx_stats = \<lparr>st_arp_pkts = 0, st_echo_pkts = 0, st_ip_pkts = 0, st_ipv6_pkts = 0, st_vlan_pkts = 0\<rparr>\<rparr>"

lemma example_rx_info: "pi_port_flags (rx_info (example_rx fl)) = fl" "pi_seqCnt (rx_info (example_rx fl)) = 0"
  "pi_seq_pkt (rx_info (example_rx fl)) = replicate NUM_TOTAL_PKTS example_pkt" "pi_tx_burst (rx_info (example_rx fl)) = 64"
  "pi_q_flags (rx_info (example_rx fl)) = replicate 8 0" "tx_tab (rx_q (example_rx fl)) = []" "g_flags (tx_port (rx_q (example_rx fl))) = 0"
  by (simp_all add: example_rx_def upd_info_def pktgen_set_port_flags_def example_port_def example_info_def)

text \<open>A request for 192.168.0.1 from 192.168.0.9.\<close>

definition example_arp :: mbuf where
  "example_arp = example_mbuf\<lparr>mb_data := [255, 255, 255, 255, 255, 255, 2, 0, 0, 0, 0, 9, 8, 6, 0, 1, 8, 0, 6, 4, 0, 1,
     2, 0, 0, 0, 0, 9, 192, 168, 0, 9, 0, 0, 0, 0, 0, 0, 192, 168, 0, 1] @ replicate 900 0, mb_data_len := 60, mb_pkt_len := 60\<rparr>"

lemma example_arp_data: "length (mb_data example_arp) = 942" "rd (mb_data example_arp) 20 2 = Inr (be16 1)"
  "take 4 (drop 38 (mb_data example_arp)) = [192, 168, 0, 1]" "rd (mb_data example_arp) 12 2 = Inr (be16 PG_ETHER_TYPE_ARP)"
  by (simp_all add: example_arp_def rd_def be16_def)

lemma example_arp_for: "arp_request_for example_arp SINGLE_PKT (example_rx PROCESS_INPUT_PKTS)"
  unfolding arp_request_for_def pktgen_find_matching_ipsrc_def find_seq_def pktgen_tst_port_flags_def
  by (simp add: example_arp_data example_rx_info example_pkt_def of_be32_def port_flag_defs)


theorem receive_frees_queued_reply_witness:
  "\<forall>s l. \<exists>m' r' s'. pktgen_main_receive example_env 0 4 (\<lambda>_. 0) (\<lambda>_. 0) 1 [example_arp]
       ((example_rx PROCESS_INPUT_PKTS, s, l), \<lparr>pd_list = [], pd_head = 0, pd_tail = 0, pd_count = 0\<rparr>, sample_capture) =
     Inr ([], [m'], (r', s', l), \<lparr>pd_list = [], pd_head = 0, pd_tail = 0, pd_count = 0\<rparr>, sample_capture) \<and>
     m' \<in> set (tx_tab (rx_q r')) \<and> mb_addr m' = mb_addr example_arp"
  by (intro allI, rule receive_frees_queued_reply[OF example_arp_for])
     (simp_all add: example_arp_data pktgen_tst_port_flags_def example_rx_info port_flag_defs sample_capture_def pktgen_packet_capture_init_def n_lcores_def)

text \<open>An echo request with a correct checksum.\<close>

definition example_echo :: mbuf where
  "example_echo = example_mbuf\<lparr>mb_data := [2, 0, 0, 0, 0, 1, 2, 0, 0, 0, 0, 9, 8, 0, 0x45, 0, 0, 28, 0, 0, 0, 0, 64, 1, 0, 0, 192, 168, 0, 9, 192, 168, 0, 1,
     8, 0, 0xF7, 0xFF, 0, 0, 0, 0] @ replicate 900 0, mb_data_len := 42, mb_pkt_len := 42\<rparr>"

lemma example_echo_run:
  "pktgen_process_ping4 example_env example_echo False (example_rx ICMP_ECHO_ENABLE_FLAG) = Inr ([], example_echo, example_rx ICMP_ECHO_ENABLE_FLAG)"
proof -
  have "rd (mb_data example_echo) 34 8 = Inr [8, 0, 0xF7, 0xFF, 0, 0, 0, 0]" "rd (mb_data example_echo) 23 1 = Inr [1]" "mb_data_len example_echo = 42"
    by (simp_all add: example_echo_def rd_def)
  moreover have "rte_raw_cksum [8, 0, 0xF7, 0xFF, 0, 0, 0, 0] \<noteq> 0" by (rule raw_cksum_head) simp_all
  moreover have "pktgen_tst_port_flags ICMP_ECHO_ENABLE_FLAG (rx_info (example_rx ICMP_ECHO_ENABLE_FLAG))"
    unfolding pktgen_tst_port_flags_def example_rx_info by (simp add: port_flag_defs)
  ultimately show ?thesis by (simp add: pktgen_process_ping4_def)
qed

theorem process_ping4_never_replies_witness:
  "\<exists>sent m' r'. pktgen_process_ping4 example_env example_echo False (example_rx ICMP_ECHO_ENABLE_FLAG) = Inr (sent, m', r') \<and>
     sent = [] \<and> tx_tab (rx_q r') = []"
proof -
  obtain sent m' r' where r: "pktgen_process_ping4 example_env example_echo False (example_rx ICMP_ECHO_ENABLE_FLAG) = Inr (sent, m', r')"
    using example_echo_run by blast
  have "34 < unat (mb_data_len example_echo)" by (simp add: example_echo_def)
  from process_ping4_never_replies[OF r this] show ?thesis using r by (simp add: example_rx_info)
qed

theorem classify_counts_each_once_witness:
  "\<exists>r' s'. pktgen_packet_classify_bulk example_env 0 4 [example_arp, example_echo] (example_rx 0,
      \<lparr>sz_64 = 0, sz_65_127 = 0, sz_128_255 = 0, sz_256_511 = 0, sz_512_1023 = 0, sz_1024_1518 = 0, sz_broadcast = 0,
       sz_multicast = 0, sz_jumbo = 0, sz_runt = 0, sz_unknown = 0\<rparr>) = Inr ([], [example_arp, example_echo], r', s') \<and> size_total s' = 2 \<and> sz_unknown s' = 0"
  using classify_counts_each_once[of "example_rx 0" "[example_arp, example_echo]" example_env 0 4
      "\<lparr>sz_64 = 0, sz_65_127 = 0, sz_128_255 = 0, sz_256_511 = 0, sz_512_1023 = 0, sz_1024_1518 = 0, sz_broadcast = 0,
       sz_multicast = 0, sz_jumbo = 0, sz_runt = 0, sz_unknown = 0\<rparr>"]
  by (auto simp: example_rx_info example_arp_data example_echo_def size_total_def)

definition example_main :: tx_main where
  "example_main = \<lparr>tm_q = example_txq\<lparr>tx_tab := [], tx_port := upd_info (\<lambda>i. i\<lparr>pi_port_flags := SENDING_PACKETS OR SEND_SEQ_PKTS,
       pi_current_tx_count := 3, pi_q_flags := 1 # replicate 7 0\<rparr>) (su_port example_setup)\<rparr>,
     tm_statics = su_statics example_setup, tm_ol = su_ol example_setup, tm_capa = 2,
     tm_pools = (\<lambda>_. replicate 64 example_mbuf)\<rparr>"

lemma example_main_info: "pi_port_flags (tm_info example_main) = SENDING_PACKETS OR SEND_SEQ_PKTS" "pi_current_tx_count (tm_info example_main) = 3"
  "pi_q_flags (tm_info example_main) = 1 # replicate 7 0" "pi_tx_burst (tm_info example_main) = 64" "tx_tab (tm_q example_main) = []"
  "pi_seqIdx (tm_info example_main) = 0" "pi_seqCnt (tm_info example_main) = 2"
  "pi_seq_pkt (tm_info example_main) = (replicate NUM_TOTAL_PKTS example_pkt)[1 := example_pkt\<lparr>pk_pktSize := 128\<rparr>]"
  "tm_pools example_main mp = replicate 64 example_mbuf"
  by (simp_all add: example_main_def example_setup_def upd_info_def example_port_def example_info_def)

lemma example_main_sending: "seq_sending 0 example_main"
proof -
  have "setup_ready (main_setup example_main)"
    using set_update_subset_insert[of "replicate NUM_TOTAL_PKTS example_pkt" 1 "example_pkt\<lparr>pk_pktSize := 128\<rparr>"]
    unfolding setup_ready_def main_setup_def
    by (auto simp: Let_def example_main_info ctor_ready_def example_pkt_def port_flag_defs)
  then show ?thesis
    unfolding seq_sending_def plain_port_def pktgen_tst_port_flags_def pktgen_tst_q_flags_def transmit_pool_def SEND_ARP_PING_REQUESTS_def
    by (simp add: example_main_info port_flag_defs CLEAR_FAST_ALLOC_FLAG_def DO_TX_FLUSH_def example_mbuf_def)
qed

end
