(* ===== verification/Cksum.thy ===== *)
theory Cksum
  imports RandomBits
begin

text \<open>
  The generator's own checksum routines (lib/common/cksum.c), beside the ones of DPDK. The
  interface they share is the locale \<open>internet_sum\<close>: the folded sum of the words of a buffer. Both
  implementations provide it, so what is proved of it once holds for both, and they agree.
\<close>

section \<open>The routines\<close>

definition load16 :: "u8 list \<Rightarrow> nat \<Rightarrow> u16 res" where
  "load16 m off = rbind (rd m off 2) (\<lambda>b. Inr (of_le16 (b ! 0) (b ! 1)))"

text \<open>\<open>n\<close> times \<open>cksum += *pWd++\<close>; the result is the pointer and the sum.\<close>

fun sum_words :: "nat \<Rightarrow> u8 list \<Rightarrow> nat \<times> u32 \<Rightarrow> (nat \<times> u32) res" where
  "sum_words 0 m s = Inr s"
| "sum_words (Suc n) m (off, c) = rbind (load16 m off) (\<lambda>w. sum_words n m (off + 2, c + ucast w))"

fun sum_blocks :: "nat \<Rightarrow> u8 list \<Rightarrow> nat \<times> u32 \<Rightarrow> (nat \<times> u32) res" where
  "sum_blocks 0 m s = Inr s"
| "sum_blocks (Suc n) m s = rbind (sum_words 16 m s) (sum_blocks n m)"

text \<open>
  A negative size becomes a huge unsigned word count. For an odd size the last load reads two
  bytes and masks one of them away.
\<close>

definition cksumUpdate :: "u8 list \<Rightarrow> nat \<Rightarrow> int \<Rightarrow> u32 \<Rightarrow> u32 res" where
  "cksumUpdate m off sz c0 =
     (if sz < 0 then Inl Fault
      else
        let n = nat sz in
        rbind (sum_blocks (n div 32) m (off, c0)) (\<lambda>s.
        rbind (sum_words ((n mod 32) div 2) m s) (\<lambda>(p, c).
        if odd n then rbind (load16 m p) (\<lambda>w. Inr (c + ucast (w AND 0x00FF))) else Inr c)))"

definition cksumDone :: "u32 \<Rightarrow> u16" where
  "cksumDone c0 =
     (let c1 = (c0 AND 0xFFFF) + drop_bit 16 c0; c2 = (c1 AND 0xFFFF) + drop_bit 16 c1 in NOT (ucast c2))"

definition cksum :: "u8 list \<Rightarrow> nat \<Rightarrow> int \<Rightarrow> u32 \<Rightarrow> u16 res" where
  "cksum m off sz c0 = rbind (cksumUpdate m off sz c0) (\<lambda>c. Inr (cksumDone c))"

definition ntohs :: "u16 \<Rightarrow> u16" where
  "ntohs w = push_bit 8 w OR drop_bit 8 w"

definition pseudoChecksum :: "u32 \<Rightarrow> u32 \<Rightarrow> u16 \<Rightarrow> u16 \<Rightarrow> u32 \<Rightarrow> u32" where
  "pseudoChecksum src dst pro len sum0 =
     sum0 + (src AND 0xFFFF) + drop_bit 16 src + (dst AND 0xFFFF) + drop_bit 16 dst + ucast (ntohs len) + ucast (ntohs pro)"

definition pseudoIPv6Checksum :: "u16 list \<Rightarrow> u16 list \<Rightarrow> u8 \<Rightarrow> u32 \<Rightarrow> u32 \<Rightarrow> u32 res" where
  "pseudoIPv6Checksum src dst next_hdr total_len sum0 =
     (if length src < 8 \<or> length dst < 8 then Inl Fault
      else
        let len = htonl total_len; s = sum0 + ucast (ucast next_hdr :: u16) + (len AND 0xFFFF) + drop_bit 16 len
        in Inr (fold (\<lambda>i s. s + ucast (src ! i) + ucast (dst ! i)) [0..<8] s))"

section \<open>The sum as words\<close>

lemma two_bytes:
  assumes "p + 2 \<le> length m"
  obtains x y where "take 2 (drop p m) = [x, y]" "rd m p 2 = Inr [x, y]" "take 1 (drop p m) = [x]"
proof -
  have "Suc (Suc 0) \<le> length (drop p m)" using assms by simp
  then obtain x y zs where "drop p m = x # y # zs" unfolding Suc_le_length_iff by blast
  then show ?thesis using that[of x y] assms by (simp add: rd_def)
qed

lemma load16_words:
  assumes "off + 2 \<le> length m"
  shows "\<exists>w. load16 m off = Inr w \<and> unat w = words_sum (take 2 (drop off m))"
  using two_bytes[OF assms] by (metis (no_types, lifting) One_nat_def add.right_neutral load16_def nth_Cons_0 nth_Cons_Suc rbind_Inr unat_of_le16 words_sum.simps(1,3))

lemma take_words: "words_sum (take (a + b) xs) = words_sum (take a xs) + words_sum (take b (drop a xs))" if "even a" "a \<le> length xs"
  using that words_sum_append[of "take a xs" "take b (drop a xs)"] by (simp add: take_add)

lemma sum_words_ok:
  assumes "off + 2 * n \<le> length m" and "unat c + words_sum (take (2 * n) (drop off m)) < 2 ^ 32"
  shows "\<exists>c'. sum_words n m (off, c) = Inr (off + 2 * n, c') \<and> unat c' = unat c + words_sum (take (2 * n) (drop off m))"
  using assms
proof (induction n arbitrary: off c)
  case (Suc n)
  obtain w where w: "load16 m off = Inr w" "unat w = words_sum (take 2 (drop off m))" using load16_words[of off m] Suc.prems(1) by auto
  have s: "words_sum (take (2 * Suc n) (drop off m)) = unat w + words_sum (take (2 * n) (drop (off + 2) m))"
    using take_words[of 2 "drop off m" "2 * n"] Suc.prems(1) w(2) by (simp add: add.commute)
  have c: "unat (c + ucast w) = unat c + unat w" using Suc.prems(2) s by (simp add: unat_word_ariths)
  obtain c' where c': "sum_words n m (off + 2, c + ucast w) = Inr (off + 2 + 2 * n, c')"
    "unat c' = unat (c + ucast w) + words_sum (take (2 * n) (drop (off + 2) m))"
    using Suc.IH[of "off + 2" "c + ucast w"] Suc.prems c s by auto
  then show ?case using w(1) s c by simp
qed simp

lemma sum_blocks_ok:
  assumes "off + 32 * n \<le> length m" and "unat c + words_sum (take (32 * n) (drop off m)) < 2 ^ 32"
  shows "\<exists>c'. sum_blocks n m (off, c) = Inr (off + 32 * n, c') \<and> unat c' = unat c + words_sum (take (32 * n) (drop off m))"
  using assms
proof (induction n arbitrary: off c)
  case (Suc n)
  have s: "words_sum (take (32 * Suc n) (drop off m)) = words_sum (take 32 (drop off m)) + words_sum (take (32 * n) (drop (off + 32) m))"
    using take_words[of 32 "drop off m" "32 * n"] Suc.prems(1) by (simp add: add.commute)
  obtain c1 where c1: "sum_words 16 m (off, c) = Inr (off + 32, c1)" "unat c1 = unat c + words_sum (take 32 (drop off m))"
    using sum_words_ok[of off 16 m c] Suc.prems s by auto
  obtain c' where c': "sum_blocks n m (off + 32, c1) = Inr (off + 32 + 32 * n, c')"
    "unat c' = unat c1 + words_sum (take (32 * n) (drop (off + 32) m))"
    using Suc.IH[of "off + 32" c1] Suc.prems c1 s by auto
  then show ?case using c1 s by simp
qed simp

lemma of_le16_low: "unat (of_le16 a b AND 0x00FF) = unat a"
proof -
  have m: "(0x00FF :: u16) = mask 8" by (simp add: mask_eq_exp_minus_1)
  have "unat (of_le16 a b AND 0x00FF) = unat (of_le16 a b) mod 256"
    unfolding m take_bit_eq_mask[symmetric] by (simp add: take_bit_eq_mod unat_mod)
  also have "\<dots> = unat a" using u8_le[of a] by (simp add: unat_of_le16)
  finally show ?thesis .
qed

lemma cksumUpdate_words:
  assumes "off + n + n mod 2 \<le> length m" and "unat c + words_sum (take n (drop off m)) < 2 ^ 32"
  shows "\<exists>c'. cksumUpdate m off (int n) c = Inr c' \<and> unat c' = unat c + words_sum (take n (drop off m))"
proof -
  let ?a = "n div 32" and ?b = "n mod 32 div 2"
  have "n mod 32 mod 2 = n mod 2" by (simp add: mod_mod_cancel)
  then have n: "n = 32 * ?a + (2 * ?b + n mod 2)" using div_mult_mod_eq[of n 32] div_mult_mod_eq[of "n mod 32" 2] by linarith
  have b1: "off + 32 * ?a \<le> length m" and b2: "off + 32 * ?a + 2 * ?b \<le> length m" using n assms(1) by linarith+
  have "take n (drop off m) = take (32 * ?a + (2 * ?b + n mod 2)) (drop off m)" using n by (rule arg_cong)
  moreover have "words_sum (take (32 * ?a + (2 * ?b + n mod 2)) (drop off m)) =
      words_sum (take (32 * ?a) (drop off m)) + words_sum (take (2 * ?b + n mod 2) (drop (32 * ?a) (drop off m)))"
    by (rule take_words) (use b1 in simp_all)
  moreover have "words_sum (take (2 * ?b + n mod 2) (drop (32 * ?a) (drop off m))) =
      words_sum (take (2 * ?b) (drop (32 * ?a) (drop off m))) + words_sum (take (n mod 2) (drop (2 * ?b) (drop (32 * ?a) (drop off m))))"
    by (rule take_words) (use b2 in simp_all)
  moreover have "drop (32 * ?a) (drop off m) = drop (off + 32 * ?a) m" "drop (2 * ?b) (drop (off + 32 * ?a) m) = drop (off + 32 * ?a + 2 * ?b) m"
    by (simp_all add: add.commute)
  ultimately have s: "words_sum (take n (drop off m)) = words_sum (take (32 * ?a) (drop off m)) +
      (words_sum (take (2 * ?b) (drop (off + 32 * ?a) m)) + words_sum (take (n mod 2) (drop (off + 32 * ?a + 2 * ?b) m)))"
    by (simp only:)
  obtain c1 where c1: "sum_blocks ?a m (off, c) = Inr (off + 32 * ?a, c1)" "unat c1 = unat c + words_sum (take (32 * ?a) (drop off m))"
    using sum_blocks_ok[OF b1, of c] assms(2) unfolding s by auto
  obtain c2 where c2: "sum_words ?b m (off + 32 * ?a, c1) = Inr (off + 32 * ?a + 2 * ?b, c2)"
    "unat c2 = unat c1 + words_sum (take (2 * ?b) (drop (off + 32 * ?a) m))"
    using sum_words_ok[OF b2, of c1] assms(2) c1(2) unfolding s by auto
  show ?thesis
  proof (cases "odd n")
    case False
    then have "unat c2 = unat c + words_sum (take n (drop off m))" unfolding s c2(2) c1(2) by (simp add: even_iff_mod_2_eq_zero)
    then show ?thesis using False by (simp add: cksumUpdate_def c1(1) c2(1))
  next
    case True
    let ?p = "off + 32 * ?a + 2 * ?b"
    have "?p + 2 \<le> length m" using assms(1) n True unfolding odd_iff_mod_2_eq_one by linarith
    then obtain x y where xy: "take 2 (drop ?p m) = [x, y]" "rd m ?p 2 = Inr [x, y]" and x: "take 1 (drop ?p m) = [x]"
      by (rule two_bytes)
    have one: "n mod 2 = 1" using True by (simp only: odd_iff_mod_2_eq_one)
    have tot: "unat c + words_sum (take n (drop off m)) = unat c2 + unat x"
      unfolding s c2(2) c1(2) one x by simp
    have "unat (c2 + ucast (of_le16 x y AND 0x00FF)) = unat c2 + unat x"
      using assms(2) unfolding tot by (simp add: unat_word_ariths of_le16_low)
    moreover have "cksumUpdate m off (int n) c = Inr (c2 + ucast (of_le16 x y AND 0x00FF))"
      using True by (simp add: cksumUpdate_def load16_def c1(1) c2(1) xy(2))
    ultimately show ?thesis using tot by simp
  qed
qed

lemma cksumDone_words: "unat (cksumDone c) = 65535 - fold16 (fold16 (unat c))"
proof -
  have f: "(x AND 0xFFFF) + drop_bit 16 x = fold_cksum x" for x
  proof -
    have m: "(0xffff :: u32) = mask 16" and h: "(0xffff0000 :: u32) = NOT (mask 16)" by (simp_all add: mask_eq_exp_minus_1)
    have "drop_bit 16 (x AND 0xffff0000) = drop_bit 16 x"
      unfolding h by (rule bit_word_eqI) (simp only: bit_drop_bit_eq comp_def bit_and_iff bit_not_iff bit_mask_iff, auto dest: bit_imp_le_length)
    then show ?thesis by (simp add: fold_cksum_def)
  qed
  have "fold16 (fold16 (unat c)) < 65536" by (rule fold16_twice_less) (use unsigned_less[of c, where ?'a = nat] in simp)
  then have "unat (ucast (fold_cksum (fold_cksum c)) :: u16) = fold16 (fold16 (unat c))"
    by (simp add: unsigned_ucast_eq unat_fold_cksum take_bit_nat_eq_self)
  then show ?thesis unfolding cksumDone_def Let_def f unat_not16 by simp
qed

section \<open>The interface\<close>

locale internet_sum =
  fixes sum16 :: "u8 list \<Rightarrow> u16"
  assumes sum16_words: "length bs \<le> 65535 \<Longrightarrow> unat (sum16 bs) = fold16 (fold16 (words_sum bs))"
begin

lemma sum16_zero_iff:
  assumes "length bs \<le> 65535"
  shows "sum16 bs = 0 \<longleftrightarrow> words_sum bs = 0"
proof -
  have "fold16 (fold16 (words_sum bs)) = 0 \<longleftrightarrow> words_sum bs = 0"
    using fold16_pos[of "words_sum bs"] fold16_pos[of "fold16 (words_sum bs)"] by (cases "words_sum bs") (auto simp: fold16_def)
  then show ?thesis using sum16_words[OF assms] by (simp add: word_unat_eq_iff)
qed

text \<open>A buffer whose checksum field holds the complement of the sum over the cleared field sums to all ones.\<close>

lemma complement_verifies:
  assumes "even (length xs)" and "length xs + length ys + 2 \<le> 65535"
  shows "sum16 (xs @ le16 (NOT (sum16 (xs @ le16 0 @ ys))) @ ys) = 0xffff"
proof -
  let ?S = "words_sum xs + words_sum ys" and ?k = "NOT (sum16 (xs @ le16 0 @ ys))"
  have W: "words_sum (xs @ le16 w @ ys) = ?S + unat w" for w using assms(1) by (simp add: words_sum_append)
  have c: "unat (sum16 (xs @ le16 0 @ ys)) = fold16 (fold16 ?S)" using sum16_words[of "xs @ le16 0 @ ys"] assms(2) W[of 0] by simp
  have k: "unat ?k = 65535 - fold16 (fold16 ?S)" by (simp add: unat_not16 c)
  have b: "?S + unat ?k < 4294967296"
    using words_sum_bound_64k[of "xs @ ys"] assms u16_le[of ?k] by (simp add: words_sum_append)
  have le: "fold16 (fold16 ?S) \<le> 65535" using u16_le[of "sum16 (xs @ le16 0 @ ys)"] c by simp
  have pos: "0 < ?S + unat ?k"
  proof (cases "?S = 0")
    case True
    then show ?thesis by (simp add: k fold16_def)
  qed simp
  have "(?S + unat ?k) mod 65535 = (fold16 (fold16 ?S) + unat ?k) mod 65535" by (simp only: mod_add_left_eq[of "fold16 (fold16 ?S)", symmetric] fold16_mod mod_add_left_eq)
  also have "\<dots> = 0" using le k by simp
  finally have "fold16 (fold16 (?S + unat ?k)) = 65535"
    by (intro ones_complement_cancel) (use pos fold16_twice_less[OF b] in simp_all)
  then have "unat (sum16 (xs @ le16 ?k @ ys)) = 65535" using sum16_words[of "xs @ le16 ?k @ ys"] assms(2) W by simp
  then show ?thesis by (simp add: word_unat_eq_iff)
qed

end

interpretation rte: internet_sum rte_raw_cksum
  by unfold_locales (rule rte_raw_cksum_words)

text \<open>The uncomplemented result of \<open>cksum\<close> on a buffer that is followed by one more byte.\<close>

definition own_sum :: "u8 list \<Rightarrow> u16" where
  "own_sum bs = (case cksum (bs @ [0]) 0 (int (length bs)) 0 of Inr c \<Rightarrow> NOT c | Inl _ \<Rightarrow> 0)"

lemma cksum_words:
  assumes "off + n + n mod 2 \<le> length m" and "n \<le> 65535"
  shows "\<exists>c. cksum m off (int n) 0 = Inr c \<and> unat (NOT c) = fold16 (fold16 (words_sum (take n (drop off m))))"
proof -
  have "words_sum (take n (drop off m)) < 2 ^ 32" using words_sum_bound_64k[of "take n (drop off m)"] assms by simp
  then obtain c' where c': "cksumUpdate m off (int n) 0 = Inr c'" "unat c' = words_sum (take n (drop off m))"
    using cksumUpdate_words[OF assms(1), of 0] by auto
  have "fold16 (fold16 (unat c')) \<le> 65535" using fold16_twice_less[of "unat c'"] unsigned_less[of c', where ?'a = nat] by simp
  then show ?thesis using c' cksumDone_words[of c'] by (simp add: cksum_def unat_not16)
qed

interpretation own: internet_sum own_sum
proof unfold_locales
  fix bs :: "u8 list"
  assume "length bs \<le> 65535"
  moreover have "0 + length bs + length bs mod 2 \<le> length (bs @ [0])" using mod_less_divisor[of 2 "length bs"] by simp
  ultimately obtain c where "cksum (bs @ [0]) 0 (int (length bs)) 0 = Inr c" "unat (NOT c) = fold16 (fold16 (words_sum bs))"
    using cksum_words[of 0 "length bs" "bs @ [0]"] by auto
  then show "unat (own_sum bs) = fold16 (fold16 (words_sum bs))" by (simp add: own_sum_def)
qed

section \<open>Properties\<close>

text \<open>
  C33: the generator's checksum, which adds sixteen words per round, and DPDK's, which adds four,
  agree on every buffer of up to 65535 bytes: one is the complement of the other. For an odd
  size the byte after the buffer must be readable.
\<close>

theorem cksum_agrees_with_rte:
  assumes "off + n + n mod 2 \<le> length m" and "n \<le> 65535"
  shows "cksum m off (int n) 0 = Inr (NOT (rte_raw_cksum (take n (drop off m))))"
proof -
  obtain c where c: "cksum m off (int n) 0 = Inr c" "unat (NOT c) = fold16 (fold16 (words_sum (take n (drop off m))))"
    using cksum_words[OF assms] by blast
  have "unat (NOT c) = unat (rte_raw_cksum (take n (drop off m)))" using c(2) rte.sum16_words[of "take n (drop off m)"] assms(2) by simp
  then have "NOT c = rte_raw_cksum (take n (drop off m))" by (simp add: word_unat_eq_iff)
  then show ?thesis using c(1) by (metis bit.double_compl)
qed

theorem cksum_agrees_with_rte_witness:
  "cksum [0x45, 0, 0, 28, 7, 9, 1] 1 5 0 = Inr (NOT (rte_raw_cksum [0, 0, 28, 7, 9]))"
  using cksum_agrees_with_rte[of 1 5 "[0x45, 0, 0, 28, 7, 9, 1]"] by simp

lemma own_complement_verifies:
  "even (length xs) \<Longrightarrow> length xs + length ys + 2 \<le> 65535 \<Longrightarrow> own_sum (xs @ le16 (NOT (own_sum (xs @ le16 0 @ ys))) @ ys) = 0xffff"
  by (rule own.complement_verifies)

end
