(* ===== verification/GapBuf.thy ===== *)
theory GapBuf
  imports Prelude
begin

text \<open>
  The gap buffer of the command-line editor (lib/cli/cli_gapbuf.h and cli_gapbuf.c).

  The C structure holds five pointers into one allocated block. The model holds the block
  (\<open>buf\<close>) and the other four pointers as offsets from its start. The text is what lies before
  the gap followed by what lies between the end of the gap and the end of the buffer;
  \<open>gb_abs\<close> reads a buffer as the pair of the text left and right of the point, and every
  operation is shown to implement the corresponding operation on such pairs. The allocator is
  a parameter (\<open>ok n\<close> says whether a request for \<open>n\<close> bytes succeeds).
\<close>

section \<open>State and sizes\<close>

record gapbuf =
  buf :: "char list"
  ebuf :: nat
  point :: nat
  gap :: nat
  egap :: nat

definition GB_DEFAULT_GAP_SIZE :: nat where
  "GB_DEFAULT_GAP_SIZE = 8"

definition gb_buf_size :: "gapbuf \<Rightarrow> nat" where
  "gb_buf_size gb = u32_of (int (ebuf gb))"

definition gb_gap_size :: "gapbuf \<Rightarrow> nat" where
  "gb_gap_size gb = u32_of (int (egap gb) - int (gap gb))"

definition gb_data_size :: "gapbuf \<Rightarrow> nat" where
  "gb_data_size gb = u32_of (int (ebuf gb) - (int (egap gb) - int (gap gb)))"

definition gb_point_at_start :: "gapbuf \<Rightarrow> bool" where
  "gb_point_at_start gb \<longleftrightarrow> point gb = 0"

definition gb_point_at_end :: "gapbuf \<Rightarrow> bool" where
  "gb_point_at_end gb \<longleftrightarrow> ebuf gb = point gb"

definition gb_point_at_gap :: "gapbuf \<Rightarrow> bool" where
  "gb_point_at_gap gb \<longleftrightarrow> gap gb = point gb"

text \<open>A negative index other than -1 makes a pointer before the block.\<close>

definition gb_set_point :: "gapbuf \<Rightarrow> int \<Rightarrow> gapbuf res" where
  "gb_set_point gb idx =
     (if idx = -1 then Inr (gb\<lparr>point := ebuf gb\<rparr>)
      else if idx < 0 then Inl Fault
      else
        (let p = nat idx in
         if p > gap gb
         then (if gap gb \<le> p + egap gb then Inr (gb\<lparr>point := p + egap gb - gap gb\<rparr>) else Inl Fault)
         else Inr (gb\<lparr>point := p\<rparr>)))"

definition gb_point_offset :: "gapbuf \<Rightarrow> int" where
  "gb_point_offset gb =
     s32_of (if point gb > egap gb then int (point gb) - (int (egap gb) - int (gap gb))
             else int (point gb))"

definition gb_eof :: "gapbuf \<Rightarrow> bool" where
  "gb_eof gb = (if point gb = gap gb then egap gb = ebuf gb else point gb = ebuf gb)"

section \<open>Moving the gap and growing the buffer\<close>

definition gb_move_gap_to_point :: "gapbuf \<Rightarrow> gapbuf res" where
  "gb_move_gap_to_point gb =
     (if point gb = gap gb then Inr gb
      else if point gb = egap gb then Inr (gb\<lparr>point := gap gb\<rparr>)
      else if point gb < gap gb then
        (let cnt = s32_of (int (gap gb) - int (point gb)) in
         rbind (c_memmove (buf gb) (int (egap gb) - cnt) (int (point gb)) cnt)
           (\<lambda>m. Inr (gb\<lparr>buf := m, egap := nat (int (egap gb) - cnt), gap := point gb\<rparr>)))
      else if point gb > egap gb then
        (let cnt = s32_of (int (point gb) - int (egap gb)) in
         rbind (c_memmove (buf gb) (int (gap gb)) (int (egap gb)) cnt)
           (\<lambda>m. Inr (gb\<lparr>buf := m, gap := nat (int (gap gb) + cnt), egap := point gb,
                        point := nat (int (gap gb) + cnt)\<rparr>)))
      else
        (let cnt = s32_of (int (point gb) - int (gap gb)) in
         rbind (c_memmove (buf gb) (int (gap gb)) (int (egap gb)) cnt)
           (\<lambda>m. Inr (gb\<lparr>buf := m, egap := nat (int (egap gb) + cnt), gap := nat (int (gap gb) + cnt),
                        point := nat (int (gap gb) + cnt)\<rparr>))))"

definition gb_expand_buf :: "(nat \<Rightarrow> bool) \<Rightarrow> gapbuf \<Rightarrow> nat \<Rightarrow> gapbuf res" where
  "gb_expand_buf ok gb extra =
     (if ebuf gb + extra > gb_buf_size gb then
        (let n = u32_of (int (ebuf gb + extra + GB_DEFAULT_GAP_SIZE)) in
         if ok n then Inr (gb\<lparr>buf := c_realloc (buf gb) n\<rparr>) else Inl Panic)
      else Inr gb)"

definition gb_expand_gap :: "(nat \<Rightarrow> bool) \<Rightarrow> gapbuf \<Rightarrow> nat \<Rightarrow> gapbuf res" where
  "gb_expand_gap ok gb sz =
     (if sz > gb_gap_size gb then
        (let sz' = u32_of (int (sz + GB_DEFAULT_GAP_SIZE)) in
         rbind (gb_expand_buf ok gb sz')
           (\<lambda>gb1. rbind (c_memmove (buf gb1) (int (egap gb1 + sz')) (int (egap gb1))
                           (int (ebuf gb1) - int (egap gb1)))
             (\<lambda>m. Inr (gb1\<lparr>buf := m, egap := egap gb1 + sz', ebuf := ebuf gb1 + sz'\<rparr>))))
      else Inr gb)"

section \<open>Reading and writing at the point\<close>

definition gb_get :: "gapbuf \<Rightarrow> (char \<times> gapbuf) res" where
  "gb_get gb =
     (let gb1 = (if point gb = gap gb then gb\<lparr>point := egap gb\<rparr> else gb) in
      rbind (c_read (buf gb1) (int (point gb1))) (\<lambda>c. Inr (c, gb1)))"

definition gb_get_prev :: "gapbuf \<Rightarrow> (char \<times> gapbuf) res" where
  "gb_get_prev gb =
     (let gb1 = (if point gb = egap gb then gb\<lparr>point := gap gb\<rparr> else gb) in
      if point gb1 = 0
      then (if point gb1 = gap gb1 then Inr (NUL, gb1)
            else rbind (c_read (buf gb1) (int (point gb1))) (\<lambda>c. Inr (c, gb1)))
      else rbind (c_read (buf gb1) (int (point gb1) - 1)) (\<lambda>c. Inr (c, gb1)))"

definition gb_get_next :: "gapbuf \<Rightarrow> (char \<times> gapbuf) res" where
  "gb_get_next gb =
     (let gb1 = (if point gb = gap gb then gb\<lparr>point := egap gb\<rparr> else gb) in
      if point gb1 = ebuf gb1
      then rbind (c_read (buf gb1) (int (point gb1))) (\<lambda>c. Inr (c, gb1))
      else rbind (c_read (buf gb1) (int (point gb1) + 1)) (\<lambda>c. Inr (c, gb1)))"

definition gb_put :: "(nat \<Rightarrow> bool) \<Rightarrow> gapbuf \<Rightarrow> char \<Rightarrow> gapbuf res" where
  "gb_put ok gb c =
     (let gb1 = (if point gb = gap gb then gb\<lparr>point := egap gb\<rparr> else gb) in
      rbind (if point gb1 = ebuf gb1
             then rbind (gb_expand_buf ok gb1 1) (\<lambda>g. Inr (g\<lparr>ebuf := ebuf g + 1\<rparr>))
             else Inr gb1)
        (\<lambda>gb2. rbind (c_write (buf gb2) (int (point gb2)) c) (\<lambda>m. Inr (gb2\<lparr>buf := m\<rparr>))))"

definition gb_getc :: "gapbuf \<Rightarrow> (char \<times> gapbuf) res" where
  "gb_getc gb =
     (if point gb = gap gb
      then rbind (c_read (buf gb) (int (egap gb))) (\<lambda>c. Inr (c, gb\<lparr>point := egap gb + 1\<rparr>))
      else rbind (c_read (buf gb) (int (point gb))) (\<lambda>c. Inr (c, gb\<lparr>point := point gb + 1\<rparr>)))"

definition gb_getc_prev :: "gapbuf \<Rightarrow> (char \<times> gapbuf) res" where
  "gb_getc_prev gb =
     (let gb1 = (if point gb = egap gb then gb\<lparr>point := gap gb\<rparr> else gb) in
      rbind (c_read (buf gb1) (int (point gb1) - 1)) (\<lambda>c. Inr (c, gb1\<lparr>point := point gb1 - 1\<rparr>)))"

definition gb_putc :: "(nat \<Rightarrow> bool) \<Rightarrow> gapbuf \<Rightarrow> char \<Rightarrow> gapbuf res" where
  "gb_putc ok gb c =
     rbind (gb_move_gap_to_point gb) (\<lambda>gb1.
     rbind (if point gb1 = ebuf gb1
            then rbind (gb_expand_buf ok gb1 1) (\<lambda>g. Inr (g\<lparr>ebuf := ebuf g + 1\<rparr>))
            else Inr gb1) (\<lambda>gb2.
     rbind (c_write (buf gb2) (int (gap gb2)) c) (\<lambda>m.
     Inr (gb2\<lparr>buf := m, gap := gap gb2 + 1, point := point gb2 + 1\<rparr>))))"

definition gb_insert :: "(nat \<Rightarrow> bool) \<Rightarrow> gapbuf \<Rightarrow> char \<Rightarrow> gapbuf res" where
  "gb_insert ok gb c =
     rbind (if point gb \<noteq> gap gb then gb_move_gap_to_point gb else Inr gb) (\<lambda>gb1.
     rbind (if gap gb1 = egap gb1 then gb_expand_gap ok gb1 1 else Inr gb1) (\<lambda>gb2.
     gb_putc ok gb2 c))"

text \<open>\<open>gb_del\<close> does not check that \<open>cnt\<close> bytes follow the point.\<close>

definition gb_del :: "gapbuf \<Rightarrow> nat \<Rightarrow> gapbuf res" where
  "gb_del gb cnt =
     rbind (if point gb \<noteq> gap gb then gb_move_gap_to_point gb else Inr gb)
       (\<lambda>gb1. Inr (gb1\<lparr>egap := egap gb1 + cnt\<rparr>))"

fun gb_putc_n :: "(nat \<Rightarrow> bool) \<Rightarrow> gapbuf \<Rightarrow> string \<Rightarrow> nat \<Rightarrow> nat \<Rightarrow> gapbuf res" where
  "gb_putc_n ok gb s i 0 = Inr gb"
| "gb_putc_n ok gb s i (Suc n) =
     rbind (c_str_at s i) (\<lambda>c. rbind (gb_putc ok gb c) (\<lambda>gb1. gb_putc_n ok gb1 s (Suc i) n))"

definition gb_str_insert :: "(nat \<Rightarrow> bool) \<Rightarrow> gapbuf \<Rightarrow> string \<Rightarrow> nat \<Rightarrow> (nat \<times> gapbuf) res" where
  "gb_str_insert ok gb str sz =
     (let sz' = (if sz = 0 then u32_of (int (length str)) else sz) in
      if sz' = 0 then Inr (0, gb)
      else
        rbind (gb_move_gap_to_point gb) (\<lambda>gb1.
        rbind (if sz' > gb_gap_size gb1 then gb_expand_gap ok gb1 sz' else Inr gb1) (\<lambda>gb2.
        rbind (gb_putc_n ok gb2 str 0 sz') (\<lambda>gb3. Inr (sz', gb3)))))"

definition gb_left_data_size :: "gapbuf \<Rightarrow> nat" where
  "gb_left_data_size gb = u32_of (int (gap gb))"

definition gb_right_data_size :: "gapbuf \<Rightarrow> nat" where
  "gb_right_data_size gb = (if gb_eof gb then 0 else u32_of (int (ebuf gb) - int (egap gb)))"

definition gb_move_right :: "gapbuf \<Rightarrow> gapbuf" where
  "gb_move_right gb =
     (let gb1 = (if point gb = gap gb then gb\<lparr>point := egap gb\<rparr> else gb) in
      gb1\<lparr>point := (if point gb1 + 1 > ebuf gb1 then ebuf gb1 else point gb1 + 1)\<rparr>)"

definition gb_move_left :: "gapbuf \<Rightarrow> gapbuf" where
  "gb_move_left gb =
     (let gb1 = (if point gb = egap gb then gb\<lparr>point := gap gb\<rparr> else gb) in
      gb1\<lparr>point := (if int (point gb1) - 1 < 0 then 0 else point gb1 - 1)\<rparr>)"

section \<open>Creating, resetting and copying out\<close>

text \<open>
  \<open>gb_copy_to_buf\<close> copies both halves of the text whatever \<open>sz\<close> is, as long as it is not
  zero; \<open>dst\<close> is the caller's array. The result is the number of bytes copied and the array.
\<close>

definition gb_copy_to_buf :: "gapbuf \<Rightarrow> char list \<Rightarrow> nat \<Rightarrow> (nat \<times> char list) res" where
  "gb_copy_to_buf gb dst sz =
     (let sz' = min sz (gb_data_size gb) in
      rbind (if sz' \<noteq> 0 then
               (let c1 = u32_of (int (gap gb)); c2 = u32_of (int (ebuf gb) - int (egap gb)) in
                if c1 + c2 \<le> length dst \<and> c1 \<le> length (buf gb) \<and> egap gb + c2 \<le> length (buf gb)
                then Inr (c1 + c2, take c1 (buf gb) @ take c2 (drop (egap gb) (buf gb)) @ drop (c1 + c2) dst)
                else Inl Fault)
             else Inr (0, dst))
        (\<lambda>(tcnt, d). rbind (c_write d (int tcnt) NUL) (\<lambda>d'. Inr (u32_of (int tcnt), d'))))"

definition gb_reset_buf :: "gapbuf \<Rightarrow> gapbuf res" where
  "gb_reset_buf gb =
     (let sz = s32_of (int (gb_buf_size gb)) in
      if 0 \<le> sz \<and> sz \<le> int (length (buf gb))
      then Inr (gb\<lparr>buf := replicate (nat sz) (CHR '' '') @ drop (nat sz) (buf gb),
                   point := 0, gap := 0, egap := nat sz, ebuf := nat sz\<rparr>)
      else Inl Fault)"

text \<open>
  \<open>gb_init_buf\<close> returns the status and the buffer; on a failed \<open>malloc\<close> the structure keeps
  its old offsets and has no block.
\<close>

definition gb_init_buf :: "(nat \<Rightarrow> bool) \<Rightarrow> gapbuf \<Rightarrow> nat \<Rightarrow> (int \<times> gapbuf) res" where
  "gb_init_buf ok gb sz =
     (if \<not> ok sz then Inr (-1, gb\<lparr>buf := []\<rparr>)
      else rbind (gb_reset_buf (gb\<lparr>buf := replicate sz uninit_byte, ebuf := sz\<rparr>))
             (\<lambda>gb1. Inr (0, gb1)))"

definition gb_create :: "(nat \<Rightarrow> bool) \<Rightarrow> gapbuf res" where
  "gb_create ok =
     rbind (gb_init_buf ok \<lparr>buf = [], ebuf = 0, point = 0, gap = 0, egap = 0\<rparr> GB_DEFAULT_GAP_SIZE)
       (\<lambda>(r, gb). Inr gb)"

section \<open>Invariant and abstraction\<close>

text \<open>
  \<open>gb_inv\<close> orders the offsets and keeps the point outside the gap; \<open>gb_abs\<close> is the text
  left and right of the point.
\<close>

definition gb_inv :: "gapbuf \<Rightarrow> bool" where
  "gb_inv gb \<longleftrightarrow> gap gb \<le> egap gb \<and> egap gb \<le> ebuf gb \<and> ebuf gb \<le> length (buf gb) \<and>
     point gb \<le> ebuf gb \<and> (point gb \<le> gap gb \<or> egap gb \<le> point gb)"

definition gb_text :: "gapbuf \<Rightarrow> string" where
  "gb_text gb = take (gap gb) (buf gb) @ take (ebuf gb - egap gb) (drop (egap gb) (buf gb))"

definition gb_pos :: "gapbuf \<Rightarrow> nat" where
  "gb_pos gb = (if point gb \<le> gap gb then point gb else point gb - (egap gb - gap gb))"

definition gb_abs :: "gapbuf \<Rightarrow> string \<times> string" where
  "gb_abs gb = (take (gb_pos gb) (gb_text gb), drop (gb_pos gb) (gb_text gb))"

text \<open>
  Proofs work on the block cut at the three offsets: \<open>gb_split gb l g r s\<close> says that the
  block is the text before the gap, the gap, the text after it and the bytes beyond the end
  of the buffer; \<open>gb_at\<close> adds that the point is at the gap.
\<close>

definition gb_split :: "gapbuf \<Rightarrow> string \<Rightarrow> string \<Rightarrow> string \<Rightarrow> string \<Rightarrow> bool" where
  "gb_split gb l g r s \<longleftrightarrow> buf gb = l @ g @ r @ s \<and> gap gb = length l \<and> egap gb = length l + length g \<and>
     ebuf gb = length l + length g + length r"

lemma gb_inv_split:
  assumes "gb_inv gb"
  obtains l g r s where "gb_split gb l g r s" "point gb \<le> length l \<or> length l + length g \<le> point gb"
    "point gb \<le> length l + length g + length r"
proof -
  let ?l = "take (gap gb) (buf gb)" and ?g = "take (egap gb - gap gb) (drop (gap gb) (buf gb))"
    and ?r = "take (ebuf gb - egap gb) (drop (egap gb) (buf gb))" and ?s = "drop (ebuf gb) (buf gb)"
  have "buf gb = ?l @ drop (gap gb) (buf gb)" by simp
  also have "drop (gap gb) (buf gb) = ?g @ drop (egap gb) (buf gb)"
    using assms by (metis append_take_drop_id drop_drop gb_inv_def le_add_diff_inverse2)
  also have "drop (egap gb) (buf gb) = ?r @ ?s"
    using assms by (metis append_take_drop_id drop_drop gb_inv_def le_add_diff_inverse2)
  finally have "gb_split gb ?l ?g ?r ?s"
    using assms by (auto simp: gb_split_def gb_inv_def)
  then show thesis
    using assms by (intro that) (auto simp: gb_split_def gb_inv_def)
qed

lemma gb_split_inv:
  "gb_split gb l g r s \<Longrightarrow>
   point gb \<le> length l \<or> length l + length g \<le> point gb \<Longrightarrow>
   point gb \<le> length l + length g + length r \<Longrightarrow> gb_inv gb"
  by (auto simp: gb_split_def gb_inv_def)

lemma gb_split_text: "gb_split gb l g r s \<Longrightarrow> gb_text gb = l @ r"
  by (simp add: gb_split_def gb_text_def)

lemma gb_split_abs_left:
  "gb_split gb l g r s \<Longrightarrow> point gb \<le> length l \<Longrightarrow>
   gb_abs gb = (take (point gb) l, drop (point gb) l @ r)"
  by (simp add: gb_abs_def gb_split_text gb_pos_def) (simp add: gb_split_def)

lemma gb_split_abs_right:
  assumes "gb_split gb l g r s" "length l + length g \<le> point gb"
  shows "gb_abs gb = (l @ take (point gb - (length l + length g)) r, drop (point gb - (length l + length g)) r)"
proof -
  have "gb_pos gb = length l + (point gb - (length l + length g))"
    using assms by (auto simp: gb_pos_def gb_split_def)
  then show ?thesis using assms(1) by (simp add: gb_abs_def gb_split_text)
qed

definition gb_at :: "gapbuf \<Rightarrow> string \<Rightarrow> string \<Rightarrow> string \<Rightarrow> string \<Rightarrow> bool" where
  "gb_at gb l g r s \<longleftrightarrow> gb_split gb l g r s \<and> point gb = length l"

lemma gb_atD:
  assumes "gb_at gb l g r s"
  shows "gb_inv gb" "gb_abs gb = (l, r)" "buf gb = l @ g @ r @ s" "gap gb = length l"
    "point gb = length l" "egap gb = length l + length g" "ebuf gb = length l + length g + length r"
  using assms gb_split_inv[of gb l g r s] gb_split_abs_left[of gb l g r s]
  by (auto simp: gb_at_def gb_split_def)

lemma c_memmove_left:
  "c_memmove (l1 @ m @ g @ r) (int (length l1 + length g)) (int (length l1)) (int (length m))
   = Inr (take (length l1 + length g) (l1 @ m @ g @ r) @ m @ r)"
  by (simp add: c_memmove_def nat_add_distrib)

lemma c_memmove_right:
  "c_memmove (l @ g @ m @ r) (int (length l)) (int (length l + length g)) (int (length m))
   = Inr (l @ m @ drop (length m) (g @ m @ r))"
  by (simp add: c_memmove_def nat_add_distrib)

lemma take_mid: "\<exists>h. length h = length g \<and> take (length l1 + length g) (l1 @ m @ g @ r) = l1 @ h"
  by (rule exI[of _ "take (length g) (m @ g @ r)"]) simp

lemma drop_mid: "\<exists>h. length h = length g \<and> drop (length m) (g @ m @ r) = h @ r"
proof -
  have "drop (length m) (g @ m @ r) = drop (length m) (g @ m) @ r" by simp
  then show ?thesis by (metis add.commute add_diff_cancel_right' length_append length_drop)
qed

lemma gb_move_gap_to_point_at:
  assumes inv: "gb_inv gb" and lim: "ebuf gb < 2147483648" and abs: "gb_abs gb = (x, y)"
  shows "\<exists>gb' h s. gb_move_gap_to_point gb = Inr gb' \<and> gb_at gb' x h y s \<and> ebuf gb' = ebuf gb \<and>
     length (buf gb') = length (buf gb) \<and> length h = egap gb - gap gb"
proof -
  obtain l g r s where sp: "gb_split gb l g r s"
    and p: "point gb \<le> length l \<or> length l + length g \<le> point gb" "point gb \<le> length l + length g + length r"
    using gb_inv_split[OF inv] by metis
  note f = sp[unfolded gb_split_def]
  consider (at) "point gb = length l" | (left) "point gb < length l"
    | (eg) "point gb = length l + length g" "point gb \<noteq> length l" | (right) "length l + length g < point gb"
    using p by linarith
  then show ?thesis
  proof cases
    case at
    then have "x = l" "y = r" using gb_split_abs_left[OF sp] abs by auto
    with at sp f show ?thesis
      by (intro exI[of _ gb] exI[of _ g] exI[of _ s]) (simp add: gb_move_gap_to_point_def gb_at_def)
  next
    case eg
    then have "x = l" "y = r" using gb_split_abs_right[OF sp] abs by auto
    with eg sp f show ?thesis
      by (intro exI[of _ "gb\<lparr>point := gap gb\<rparr>"] exI[of _ g] exI[of _ s])
        (simp add: gb_move_gap_to_point_def gb_at_def gb_split_def)
  next
    case left
    obtain l1 m where l: "l = l1 @ m" "length l1 = point gb"
      using split_at[of "point gb" l] left by (metis less_imp_le)
    have xy: "x = l1" "y = m @ r" using gb_split_abs_left[OF sp] abs left l by auto
    obtain h where h: "length h = length g" "take (length l1 + length g) (l1 @ m @ g @ r @ s) = l1 @ h"
      using take_mid by metis
    have mv: "c_memmove (buf gb) (int (egap gb) - s32_of (int (gap gb) - int (point gb))) (int (point gb))
        (s32_of (int (gap gb) - int (point gb))) = Inr (l1 @ h @ m @ r @ s)"
      using f l left lim h c_memmove_left[of l1 m g "r @ s"] by simp
    then show ?thesis using f l left lim h xy
      by (intro exI[of _ "gb\<lparr>buf := l1 @ h @ m @ r @ s, egap := length l1 + length g, gap := point gb\<rparr>"] exI[of _ h] exI[of _ s])
        (auto simp: gb_move_gap_to_point_def gb_at_def gb_split_def Let_def)
  next
    case right
    obtain m r1 where r: "r = m @ r1" "length m = point gb - (length l + length g)"
      using split_at[of "point gb - (length l + length g)" r] p(2) by (metis add.commute le_diff_conv)
    have xy: "x = l @ m" "y = r1" using gb_split_abs_right[OF sp] abs right r by auto
    obtain h where h: "length h = length g" "drop (length m) (g @ m @ r1 @ s) = h @ r1 @ s"
      using drop_mid[of g m "r1 @ s"] by metis
    have mv: "c_memmove (buf gb) (int (gap gb)) (int (egap gb)) (s32_of (int (point gb) - int (egap gb)))
        = Inr (l @ m @ h @ r1 @ s)"
      using f r right lim h p c_memmove_right[of l g m "r1 @ s"] by (simp add: of_nat_diff)
    then show ?thesis using f r right lim h xy p
      by (intro exI[of _ "gb\<lparr>buf := l @ m @ h @ r1 @ s, gap := length l + length m, egap := point gb,
          point := length l + length m\<rparr>"] exI[of _ h] exI[of _ s])
        (auto simp: gb_move_gap_to_point_def gb_at_def gb_split_def Let_def)
  qed
qed

section \<open>What each operation does to the text\<close>

lemma gb_putc_at:
  assumes "gb_at gb l (a # g) r s"
  shows "\<exists>gb'. gb_putc ok gb c = Inr gb' \<and> gb_at gb' (l @ [c]) g r s \<and> ebuf gb' = ebuf gb"
proof -
  note d = gb_atD[OF assms]
  have "c_write (buf gb) (int (gap gb)) c = Inr (l @ c # g @ r @ s)"
    using d by (simp add: c_write_def)
  then show ?thesis using d
    by (auto simp: gb_putc_def gb_move_gap_to_point_def gb_at_def gb_split_def)
qed

lemma c_memmove_grow:
  "length t = k \<Longrightarrow>
   c_memmove (p @ r @ t) (int (length p + k)) (int (length p)) (int (length r))
   = Inr (take (length p + k) (p @ r @ t) @ r)"
  by (simp add: c_memmove_def nat_add_distrib)

lemma gb_expand_gap_at:
  assumes at: "gb_at gb l g r s" and n: "n > length g" and ok: "\<And>n. ok n"
    and lim: "ebuf gb + n + 16 < 2147483648"
  shows "\<exists>gb' g' s'. gb_expand_gap ok gb n = Inr gb' \<and> gb_at gb' l g' r s' \<and>
     length g' = length g + n + 8 \<and> ebuf gb' = ebuf gb + n + 8"
proof -
  note d = gb_atD[OF at]
  let ?k = "n + 8"
  define m where "m = c_realloc (buf gb) (ebuf gb + ?k + 8)"
  have sz: "gb_gap_size gb = length g" "gb_buf_size gb = ebuf gb"
    using d lim by (simp_all add: gb_gap_size_def gb_buf_size_def)
  have exb: "gb_expand_buf ok gb ?k = Inr (gb\<lparr>buf := m\<rparr>)"
    using lim ok by (simp add: m_def gb_expand_buf_def sz GB_DEFAULT_GAP_SIZE_def Let_def nat_add_distrib)
  have tk: "take (ebuf gb) m = l @ g @ r" and lm: "length m = ebuf gb + ?k + 8"
    using d by (simp_all add: m_def c_realloc_def)
  have "\<exists>t. m = l @ g @ r @ t"
    by (metis append_take_drop_id tk append_assoc)
  then obtain t where t: "m = (l @ g) @ r @ t" by auto
  have "length m = length ((l @ g) @ r @ t)" by (simp only: t)
  then have lt: "length t = ?k + 8" using d lm by simp
  then obtain t1 t2 where tt: "t = t1 @ t2" "length t1 = ?k"
    using split_at[of ?k t] by auto
  have t': "m = (l @ g) @ r @ t1 @ t2" using t tt by simp
  define h where "h = take ?k (r @ t1 @ t2)"
  have lh: "length h = ?k" using tt by (simp add: h_def)
  have "take (length l + length g + ?k) m = l @ g @ h"
    by (simp add: t' h_def)
  then have mv: "c_memmove m (int (egap gb + ?k)) (int (egap gb)) (int (ebuf gb) - int (egap gb))
     = Inr (l @ g @ h @ r @ t2)"
    using d tt by (simp add: c_memmove_def t' nat_add_distrib)
  have u: "u32_of (int (n + GB_DEFAULT_GAP_SIZE)) = ?k"
    using lim by (simp add: GB_DEFAULT_GAP_SIZE_def nat_add_distrib)
  have "gb_expand_gap ok gb n = Inr (gb\<lparr>buf := l @ g @ h @ r @ t2,
      egap := egap gb + ?k, ebuf := ebuf gb + ?k\<rparr>)"
    using n exb mv by (simp add: gb_expand_gap_def sz u Let_def del: of_nat_add)
  moreover have "gb_at (gb\<lparr>buf := l @ g @ h @ r @ t2,
      egap := egap gb + ?k, ebuf := ebuf gb + ?k\<rparr>) l (g @ h) r t2"
    using d lh by (simp add: gb_at_def gb_split_def)
  ultimately show ?thesis using lh
    by (intro exI[of _ "gb\<lparr>buf := l @ g @ h @ r @ t2, egap := egap gb + ?k, ebuf := ebuf gb + ?k\<rparr>"]
        exI[of _ "g @ h"] exI[of _ t2]) simp
qed

lemma gb_insert_abs:
  assumes inv: "gb_inv gb" and abs: "gb_abs gb = (l, r)" and ok: "\<And>n. ok n"
    and lim: "ebuf gb + 17 < 2147483648"
  shows "\<exists>gb'. gb_insert ok gb c = Inr gb' \<and> gb_inv gb' \<and> gb_abs gb' = (l @ [c], r) \<and>
     ebuf gb' \<le> ebuf gb + 9"
proof -
  obtain gb1 h s where 1: "gb_move_gap_to_point gb = Inr gb1" "gb_at gb1 l h r s" "ebuf gb1 = ebuf gb"
    using gb_move_gap_to_point_at[OF inv _ abs] lim by auto
  have m: "(if point gb \<noteq> gap gb then gb_move_gap_to_point gb else Inr gb) = Inr gb1"
    using 1(1) by (simp add: gb_move_gap_to_point_def split: if_splits)
  note d = gb_atD[OF 1(2)]
  show ?thesis
  proof (cases h)
    case Nil
    obtain gb2 g' s' where 2: "gb_expand_gap ok gb1 1 = Inr gb2" "gb_at gb2 l g' r s'"
      "length g' = 9" "ebuf gb2 = ebuf gb + 9"
      using gb_expand_gap_at[OF 1(2), of 1 ok] Nil ok lim 1(3) by auto
    then obtain a g where "g' = a # g" by (cases g') auto
    with gb_putc_at 2 obtain gb3 where "gb_putc ok gb2 c = Inr gb3" "gb_at gb3 (l @ [c]) g r s'" "ebuf gb3 = ebuf gb2"
      by metis
    with m 2 d Nil show ?thesis by (auto simp: gb_insert_def dest: gb_atD)
  next
    case (Cons a g)
    with gb_putc_at 1(2) obtain gb3 where "gb_putc ok gb1 c = Inr gb3" "gb_at gb3 (l @ [c]) g r s" "ebuf gb3 = ebuf gb1"
      by metis
    with m 1 d Cons show ?thesis by (auto simp: gb_insert_def dest: gb_atD)
  qed
qed

lemma gb_del_abs:
  assumes inv: "gb_inv gb" and abs: "gb_abs gb = (l, r)" and n: "n \<le> length r"
    and lim: "ebuf gb < 2147483648"
  shows "\<exists>gb'. gb_del gb n = Inr gb' \<and> gb_inv gb' \<and> gb_abs gb' = (l, drop n r) \<and> ebuf gb' = ebuf gb"
proof -
  obtain gb1 h s where 1: "gb_move_gap_to_point gb = Inr gb1" "gb_at gb1 l h r s" "ebuf gb1 = ebuf gb"
    using gb_move_gap_to_point_at[OF inv _ abs] lim by auto
  have m: "(if point gb \<noteq> gap gb then gb_move_gap_to_point gb else Inr gb) = Inr gb1"
    using 1(1) by (simp add: gb_move_gap_to_point_def split: if_splits)
  have "gb_at (gb1\<lparr>egap := egap gb1 + n\<rparr>) l (h @ take n r) (drop n r) s"
    using gb_atD[OF 1(2)] n by (simp add: gb_at_def gb_split_def)
  with m 1(3) show ?thesis by (auto simp: gb_del_def dest: gb_atD)
qed

lemma gb_abs_lengths:
  assumes "gb_inv gb" "gb_abs gb = (l, r)"
  shows "length l = gb_pos gb" "length l + length r = ebuf gb - (egap gb - gap gb)"
  using assms by (auto simp: gb_inv_def gb_abs_def gb_text_def gb_pos_def)

lemma gb_move_left_abs:
  assumes inv: "gb_inv gb" and abs: "gb_abs gb = (l, r)"
  shows "gb_inv (gb_move_left gb) \<and> ebuf (gb_move_left gb) = ebuf gb \<and>
    gb_abs (gb_move_left gb) = (if l = [] then (l, r) else (butlast l, last l # r))"
proof -
  have t: "gb_text (gb_move_left gb) = gb_text gb" by (simp add: gb_move_left_def gb_text_def Let_def)
  have p: "gb_pos (gb_move_left gb) = gb_pos gb - 1"
    using inv by (auto simp: gb_move_left_def gb_pos_def gb_inv_def Let_def)
  have i: "gb_inv (gb_move_left gb)"
    using inv by (auto simp: gb_move_left_def gb_inv_def Let_def)
  have lr: "l = take (gb_pos gb) (gb_text gb)" "r = drop (gb_pos gb) (gb_text gb)"
    using abs by (auto simp: gb_abs_def)
  have pl: "gb_pos gb \<le> length (gb_text gb)"
    using inv by (auto simp: gb_inv_def gb_pos_def gb_text_def)
  have "gb_abs (gb_move_left gb) = (if l = [] then (l, r) else (butlast l, last l # r))"
  proof (cases "gb_pos gb")
    case 0 then show ?thesis using lr t p by (simp add: gb_abs_def)
  next
    case (Suc k)
    then have k: "k < length (gb_text gb)" using pl by simp
    then show ?thesis using lr t p Suc
      by (simp add: gb_abs_def take_Suc_conv_app_nth Cons_nth_drop_Suc)
  qed
  then show ?thesis using i by (simp add: gb_move_left_def Let_def)
qed

lemma gb_move_right_abs:
  assumes inv: "gb_inv gb" and abs: "gb_abs gb = (l, r)"
  shows "gb_inv (gb_move_right gb) \<and> ebuf (gb_move_right gb) = ebuf gb \<and>
    gb_abs (gb_move_right gb) = (if r = [] then (l, r) else (l @ [hd r], tl r))"
proof -
  have t: "gb_text (gb_move_right gb) = gb_text gb" by (simp add: gb_move_right_def gb_text_def Let_def)
  have tl: "length (gb_text gb) = ebuf gb - (egap gb - gap gb)"
    using inv by (auto simp: gb_inv_def gb_text_def)
  have p: "gb_pos (gb_move_right gb) = min (gb_pos gb + 1) (length (gb_text gb))"
    using inv unfolding tl by (auto simp: gb_move_right_def gb_pos_def gb_inv_def Let_def)
  have i: "gb_inv (gb_move_right gb)"
    using inv by (auto simp: gb_move_right_def gb_inv_def Let_def)
  have lr: "l = take (gb_pos gb) (gb_text gb)" "r = drop (gb_pos gb) (gb_text gb)"
    using abs by (auto simp: gb_abs_def)
  have pl: "gb_pos gb \<le> length (gb_text gb)"
    using inv by (auto simp: gb_inv_def gb_pos_def gb_text_def)
  have "gb_abs (gb_move_right gb) = (if r = [] then (l, r) else (l @ [hd r], tl r))"
  proof (cases "gb_pos gb = length (gb_text gb)")
    case True then show ?thesis using lr t p by (simp add: gb_abs_def)
  next
    case False
    then have k: "gb_pos gb < length (gb_text gb)" using pl by simp
    then show ?thesis using lr t p
      by (auto simp: gb_abs_def take_Suc_conv_app_nth hd_drop_conv_nth drop_Suc tl_drop)
  qed
  then show ?thesis using i by (simp add: gb_move_right_def Let_def)
qed

lemma gb_putc_n_at:
  "gb_at gb l g r s \<Longrightarrow> length g \<ge> n \<Longrightarrow> i + n \<le> length str \<Longrightarrow>
   \<exists>gb' g'. gb_putc_n ok gb str i n = Inr gb' \<and> gb_at gb' (l @ take n (drop i str)) g' r s \<and>
     length g' = length g - n \<and> ebuf gb' = ebuf gb"
proof (induction n arbitrary: gb l g i)
  case 0
  then show ?case by auto
next
  case (Suc n)
  then obtain a h where g: "g = a # h" "n \<le> length h" by (cases g) auto
  obtain gb1 where 1: "gb_putc ok gb (str ! i) = Inr gb1" "gb_at gb1 (l @ [str ! i]) h r s" "ebuf gb1 = ebuf gb"
    using gb_putc_at Suc.prems(1) g(1) by metis
  obtain gb2 g' where 2: "gb_putc_n ok gb1 str (Suc i) n = Inr gb2"
    "gb_at gb2 ((l @ [str ! i]) @ take n (drop (Suc i) str)) g' r s" "length g' = length h - n" "ebuf gb2 = ebuf gb1"
    using Suc.IH[OF 1(2) g(2), of "Suc i"] Suc.prems(3) by auto
  have "take (Suc n) (drop i str) = str ! i # take n (drop (Suc i) str)"
    using Suc.prems(3) by (metis Cons_nth_drop_Suc Suc_le_lessD add.commute add_Suc_right le_add2 le_trans take_Suc_Cons)
  with 1 2 g Suc.prems show ?case by (auto simp: c_str_at_def)
qed

lemma gb_str_insert_abs:
  assumes inv: "gb_inv gb" and abs: "gb_abs gb = (l, r)" and ok: "\<And>n. ok n"
    and n: "n \<le> length str" and lim: "ebuf gb + length str + 16 < 2147483648"
  defines "k \<equiv> (if n = 0 then length str else n)"
  shows "\<exists>gb'. gb_str_insert ok gb str n = Inr (k, gb') \<and> gb_inv gb' \<and>
    gb_abs gb' = (l @ take k str, r) \<and> ebuf gb' \<le> ebuf gb + k + 8"
proof (cases "k = 0")
  case True
  then show ?thesis using assms by (auto simp: gb_str_insert_def split: if_splits)
next
  case False
  obtain gb1 h s where 1: "gb_move_gap_to_point gb = Inr gb1" "gb_at gb1 l h r s" "ebuf gb1 = ebuf gb"
    using gb_move_gap_to_point_at[OF inv _ abs] lim by auto
  note d = gb_atD[OF 1(2)]
  have kl: "k \<le> length str" using n by (simp add: k_def)
  have gs: "gb_gap_size gb1 = length h" using d 1(3) lim by (simp add: gb_gap_size_def)
  obtain gb2 g' s' where 2: "(if k > gb_gap_size gb1 then gb_expand_gap ok gb1 k else Inr gb1) = Inr gb2"
    "gb_at gb2 l g' r s'" "k \<le> length g'" "ebuf gb2 \<le> ebuf gb + k + 8"
  proof (cases "k > length h")
    case True
    then show ?thesis using gb_expand_gap_at[OF 1(2) True, of ok] ok kl lim 1(3) gs that by auto
  next
    case False
    then show ?thesis using 1 gs that by auto
  qed
  obtain gb3 g3 where "gb_putc_n ok gb2 str 0 k = Inr gb3" "gb_at gb3 (l @ take k str) g3 r s'" "ebuf gb3 = ebuf gb2"
    using gb_putc_n_at[OF 2(2,3), of 0 str ok] kl by auto
  moreover have "(if n = 0 then u32_of (int (length str)) else n) = k"
    using lim by (simp add: k_def)
  ultimately show ?thesis using 1(1) 2 False
    by (auto simp: gb_str_insert_def Let_def dest: gb_atD)
qed

lemma gb_set_point_abs:
  assumes inv: "gb_inv gb" and i: "i \<le> length (gb_text gb)"
  shows "\<exists>gb'. gb_set_point gb (int i) = Inr gb' \<and> gb_inv gb' \<and> ebuf gb' = ebuf gb \<and>
    gb_abs gb' = (take i (gb_text gb), drop i (gb_text gb))"
  using assms by (auto simp: gb_set_point_def gb_inv_def gb_abs_def gb_text_def gb_pos_def Let_def)

lemma gb_set_point_end_abs:
  assumes inv: "gb_inv gb"
  shows "\<exists>gb'. gb_set_point gb (-1) = Inr gb' \<and> gb_inv gb' \<and> ebuf gb' = ebuf gb \<and>
    gb_abs gb' = (gb_text gb, [])"
proof -
  have "gb_pos (gb\<lparr>point := ebuf gb\<rparr>) = length (gb_text gb)"
    using inv by (auto simp: gb_inv_def gb_text_def gb_pos_def)
  moreover have "gb_text (gb\<lparr>point := ebuf gb\<rparr>) = gb_text gb" by (simp add: gb_text_def)
  ultimately show ?thesis using inv by (auto simp: gb_set_point_def gb_inv_def gb_abs_def)
qed

lemma gb_reset_buf_abs:
  assumes inv: "gb_inv gb" and lim: "ebuf gb < 2147483648"
  shows "\<exists>gb'. gb_reset_buf gb = Inr gb' \<and> gb_inv gb' \<and> ebuf gb' = ebuf gb \<and> gb_abs gb' = ([], [])"
  using assms by (auto simp: gb_reset_buf_def gb_buf_size_def gb_inv_def gb_abs_def gb_text_def gb_pos_def Let_def)

lemma gb_eof_abs:
  assumes "gb_inv gb" "gb_abs gb = (l, r)"
  shows "gb_eof gb \<longleftrightarrow> r = []"
  using assms by (auto simp: gb_eof_def gb_inv_def gb_abs_def gb_text_def gb_pos_def)

lemma gb_point_at_start_abs:
  assumes "gb_inv gb" "gb_abs gb = (l, r)"
  shows "gb_point_at_start gb \<Longrightarrow> l = []" "l = [] \<Longrightarrow> gap gb \<noteq> 0 \<or> gap gb = egap gb \<Longrightarrow> gb_point_at_start gb"
  using assms by (auto simp: gb_point_at_start_def gb_inv_def gb_abs_def gb_text_def gb_pos_def split: if_splits)

lemma gb_data_size_abs:
  assumes "gb_inv gb" "ebuf gb < 2147483648"
  shows "gb_data_size gb = length (gb_text gb)"
  using assms by (auto simp: gb_data_size_def gb_inv_def gb_text_def nat_diff_distrib)

lemma gb_copy_to_buf_text:
  assumes inv: "gb_inv gb" and lim: "ebuf gb < 2147483648" and n: "n > 0"
    and room: "length (gb_text gb) < length dst"
  shows "gb_copy_to_buf gb dst n =
    Inr (length (gb_text gb), gb_text gb @ NUL # drop (Suc (length (gb_text gb))) dst)"
proof -
  obtain l g r s where sp: "gb_split gb l g r s" using gb_inv_split[OF inv] by metis
  note f = sp[unfolded gb_split_def]
  have tx: "gb_text gb = l @ r" by (rule gb_split_text[OF sp])
  have u: "u32_of (int (gap gb)) = length l" "u32_of (int (ebuf gb) - int (egap gb)) = length r"
    using f lim by simp_all
  have ds: "gb_data_size gb = length l + length r"
    using gb_data_size_abs[OF inv lim] tx by simp
  have dst: "drop (length l + length r) dst =
      dst ! (length l + length r) # drop (Suc (length l + length r)) dst"
    using room tx by (simp add: Cons_nth_drop_Suc)
  have wr: "c_write (l @ r @ drop (length l + length r) dst) (int (length l + length r)) NUL =
      Inr (l @ r @ NUL # drop (Suc (length l + length r)) dst)"
    by (simp add: c_write_def dst list_update_append nat_add_distrib)
  show ?thesis
  proof (cases "length l + length r = 0")
    case True
    then show ?thesis using wr ds tx by (simp add: gb_copy_to_buf_def)
  next
    case False
    then show ?thesis using wr f ds u tx room n lim
      by (simp add: gb_copy_to_buf_def Let_def)
  qed
qed

lemma gb_create_abs:
  assumes "ok GB_DEFAULT_GAP_SIZE"
  shows "\<exists>gb. gb_create ok = Inr gb \<and> gb_inv gb \<and> gb_abs gb = ([], []) \<and> ebuf gb = 8"
  using assms
  by (auto simp: gb_create_def gb_init_buf_def gb_reset_buf_def gb_buf_size_def GB_DEFAULT_GAP_SIZE_def
      gb_inv_def gb_abs_def gb_text_def gb_pos_def Let_def)
lemma gb_insert_room:
  assumes inv: "gb_inv gb" and abs: "gb_abs gb = (l, r)" and ok: "\<And>n. ok n" and lim: "ebuf gb + 17 < 2147483648"
  shows "\<exists>gb'. gb_insert ok gb c = Inr gb' \<and> gb_inv gb' \<and> gb_abs gb' = (l @ [c], r) \<and>
     ebuf gb' \<le> max (ebuf gb) (length l + length r + 9)"
proof -
  obtain gb1 h s where 1: "gb_move_gap_to_point gb = Inr gb1" "gb_at gb1 l h r s" "ebuf gb1 = ebuf gb"
    using gb_move_gap_to_point_at[OF inv _ abs] lim by auto
  have m: "(if point gb \<noteq> gap gb then gb_move_gap_to_point gb else Inr gb) = Inr gb1"
    using 1(1) by (simp add: gb_move_gap_to_point_def split: if_splits)
  note d = gb_atD[OF 1(2)]
  show ?thesis
  proof (cases h)
    case Nil
    obtain gb2 g' s' where 2: "gb_expand_gap ok gb1 1 = Inr gb2" "gb_at gb2 l g' r s'"
      "length g' = 9" "ebuf gb2 = ebuf gb + 9"
      using gb_expand_gap_at[OF 1(2), of 1 ok] Nil ok lim 1(3) by auto
    then obtain a g where "g' = a # g" by (cases g') auto
    with gb_putc_at 2 obtain gb3 where "gb_putc ok gb2 c = Inr gb3" "gb_at gb3 (l @ [c]) g r s'" "ebuf gb3 = ebuf gb2"
      by metis
    with m 1(3) 2 d Nil show ?thesis by (auto simp: gb_insert_def dest: gb_atD)
  next
    case (Cons a g)
    with gb_putc_at 1(2) obtain gb3 where "gb_putc ok gb1 c = Inr gb3" "gb_at gb3 (l @ [c]) g r s" "ebuf gb3 = ebuf gb1"
      by metis
    with m 1 d Cons show ?thesis by (auto simp: gb_insert_def dest: gb_atD)
  qed
qed

lemma gb_move_gap_point: "gb_move_gap_to_point gb = Inr g \<Longrightarrow> point g = gap g"
  by (auto simp: gb_move_gap_to_point_def Let_def rbind_eq_Inr split: if_splits)

lemma gb_putc_point: "gb_putc ok gb c = Inr g \<Longrightarrow> point g = gap g"
  by (auto simp: gb_putc_def rbind_eq_Inr gb_expand_buf_def Let_def dest!: gb_move_gap_point split: if_splits)

lemma gb_putc_n_point: "gb_putc_n ok gb s i n = Inr g \<Longrightarrow> 0 < n \<Longrightarrow> point g = gap g"
proof (induction n arbitrary: gb i)
  case (Suc n)
  then show ?case by (cases n) (auto simp: rbind_eq_Inr dest: gb_putc_point)
qed simp

lemma gb_str_insert_count: "gb_str_insert ok gb str n = Inr (k, g) \<Longrightarrow> 0 < n \<Longrightarrow> k = n"
  by (auto simp: gb_str_insert_def Let_def rbind_eq_Inr split: if_splits)

lemma gb_str_insert_point: "gb_str_insert ok gb str n = Inr (k, g) \<Longrightarrow> 0 < k \<Longrightarrow> point g = gap g"
  by (auto simp: gb_str_insert_def Let_def rbind_eq_Inr split: if_splits dest: gb_putc_n_point)

section \<open>The interface of a line buffer\<close>

text \<open>
  What the key handlers rely on: insertion, deletion after the point and the two cursor moves,
  as operations on the pair of texts, with the storage size \<open>cap\<close> bounding how far the buffer
  may grow.
\<close>

locale line_buffer =
  fixes inv :: "'b \<Rightarrow> bool"
    and abs :: "'b \<Rightarrow> string \<times> string"
    and cap :: "'b \<Rightarrow> nat"
    and ins :: "'b \<Rightarrow> char \<Rightarrow> 'b res"
    and del :: "'b \<Rightarrow> nat \<Rightarrow> 'b res"
    and left :: "'b \<Rightarrow> 'b"
    and right :: "'b \<Rightarrow> 'b"
  assumes ins_abs: "inv b \<Longrightarrow> abs b = (l, r) \<Longrightarrow> cap b + 17 < 2147483648 \<Longrightarrow>
      \<exists>b'. ins b c = Inr b' \<and> inv b' \<and> abs b' = (l @ [c], r) \<and> cap b' \<le> cap b + 9"
    and del_abs: "inv b \<Longrightarrow> abs b = (l, r) \<Longrightarrow> n \<le> length r \<Longrightarrow> cap b < 2147483648 \<Longrightarrow>
      \<exists>b'. del b n = Inr b' \<and> inv b' \<and> abs b' = (l, drop n r) \<and> cap b' = cap b"
    and left_abs: "inv b \<Longrightarrow> abs b = (l, r) \<Longrightarrow>
      inv (left b) \<and> cap (left b) = cap b \<and>
      abs (left b) = (if l = [] then (l, r) else (butlast l, last l # r))"
    and right_abs: "inv b \<Longrightarrow> abs b = (l, r) \<Longrightarrow>
      inv (right b) \<and> cap (right b) = cap b \<and>
      abs (right b) = (if r = [] then (l, r) else (l @ [hd r], tl r))"
begin

lemma type_string:
  "inv b \<Longrightarrow> abs b = (l, r) \<Longrightarrow> cap b + 9 * length cs + 17 < 2147483648 \<Longrightarrow>
   \<exists>b'. rfold ins b cs = Inr b' \<and> inv b' \<and> abs b' = (l @ cs, r) \<and> cap b' \<le> cap b + 9 * length cs"
proof (induction cs arbitrary: b l)
  case Nil
  then show ?case by simp
next
  case (Cons c cs)
  obtain b1 where 1: "ins b c = Inr b1" "inv b1" "abs b1 = (l @ [c], r)" "cap b1 \<le> cap b + 9"
    using ins_abs[OF Cons.prems(1,2)] Cons.prems(3) by fastforce
  obtain b2 where "rfold ins b1 cs = Inr b2" "inv b2" "abs b2 = ((l @ [c]) @ cs, r)"
    "cap b2 \<le> cap b1 + 9 * length cs"
    using Cons.IH[OF 1(2,3)] 1(4) Cons.prems(3) by auto
  with 1 show ?case by auto
qed

lemma rubout:
  assumes "inv b" "abs b = (l @ [c], r)" "cap b < 2147483648"
  shows "\<exists>b'. del (left b) 1 = Inr b' \<and> inv b' \<and> abs b' = (l, r) \<and> cap b' = cap b"
  using left_abs[OF assms(1,2)] del_abs[of "left b" l "c # r" 1] assms(3) by auto

lemma ins_rubout:
  assumes "inv b" "abs b = (l, r)" "cap b + 26 < 2147483648"
  shows "\<exists>b1 b2. ins b c = Inr b1 \<and> del (left b1) 1 = Inr b2 \<and> inv b2 \<and> abs b2 = abs b"
proof -
  obtain b1 where "ins b c = Inr b1" "inv b1" "abs b1 = (l @ [c], r)" "cap b1 \<le> cap b + 9"
    using ins_abs[OF assms(1,2)] assms(3) by fastforce
  then show ?thesis using rubout[of b1 l c r] assms by auto
qed

end

interpretation gbuf: line_buffer gb_inv gb_abs ebuf "gb_insert (\<lambda>_. True)" gb_del gb_move_left gb_move_right
proof
  show "\<exists>b'. gb_insert (\<lambda>_. True) b c = Inr b' \<and> gb_inv b' \<and> gb_abs b' = (l @ [c], r) \<and> ebuf b' \<le> ebuf b + 9"
    if "gb_inv b" "gb_abs b = (l, r)" "ebuf b + 17 < 2147483648" for b l r c
    using gb_insert_abs[OF that(1,2) _ that(3)] by simp
qed (use gb_del_abs gb_move_left_abs gb_move_right_abs in blast)+

section \<open>Properties\<close>

text \<open>
  C7: inserting a string one character at a time, from any well-formed buffer, neither faults
  nor panics while memory is available, puts the string left of the point, leaves the text
  right of the point alone and keeps the invariant.
\<close>

theorem gb_insert_string:
  assumes "gb_inv gb" and "gb_abs gb = (l, r)" and "ebuf gb + 9 * length cs + 17 < 2147483648"
  shows "\<exists>gb'. rfold (gb_insert (\<lambda>_. True)) gb cs = Inr gb' \<and> gb_inv gb' \<and> gb_abs gb' = (l @ cs, r)"
  using gbuf.type_string[OF assms] by blast

theorem gb_insert_string_witness:
  "\<exists>gb'. rfold (gb_insert (\<lambda>_. True)) \<lparr>buf = ''ab      '', ebuf = 8, point = 1, gap = 2, egap = 8\<rparr> ''xyz'' = Inr gb' \<and>
     gb_inv gb' \<and> gb_abs gb' = (''axyz'', ''b'')"
  using gb_insert_string[of "\<lparr>buf = ''ab      '', ebuf = 8, point = 1, gap = 2, egap = 8\<rparr>" "''a''" "''b''" "''xyz''"]
  by (simp add: gb_inv_def gb_abs_def gb_text_def gb_pos_def)

end
