(* ===== verification/History.thy ===== *)
theory History
  imports Prelude
begin

text \<open>
  The command history (lib/cli/cli_history.c).

  History nodes live in the array \<open>hist_mem\<close> and are linked on one of two circular queues,
  \<open>hd_hist\<close> (lines in the order they were entered) and \<open>free_hist\<close>. A node is a number, drawn
  from \<open>next_node\<close> when an array is allocated; a queue is the list of its nodes. \<open>this_cli\<close> says
  whether the thread variable of that name is set.
\<close>

section \<open>State\<close>

text \<open>
  \<open>curr_hist\<close> is a null pointer, a node, or the queue head itself: \<open>CIRCLEQ_FIRST\<close> of an empty
  queue is the address of its head.
\<close>

datatype hist_ptr = HNull | HHead | HNode nat

record hist =
  this_cli :: bool
  hist_mem :: bool
  nb_hist :: nat
  hd_hist :: "nat list"
  free_hist :: "nat list"
  line :: "nat \<Rightarrow> string option"
  curr_hist :: hist_ptr
  next_node :: nat

definition hist_init :: hist where
  "hist_init = \<lparr>this_cli = True, hist_mem = False, nb_hist = 0, hd_hist = [], free_hist = [],
     line = (\<lambda>_. None), curr_hist = HNull, next_node = 0\<rparr>"

section \<open>Operations\<close>

definition cli_hist_alloc :: "hist \<Rightarrow> nat option \<times> hist" where
  "cli_hist_alloc h =
     (if \<not> this_cli h then (None, h)
      else case free_hist h of [] \<Rightarrow> (None, h) | n # ns \<Rightarrow> (Some n, h\<lparr>free_hist := ns\<rparr>))"

definition cli_hist_free :: "hist \<Rightarrow> nat option \<Rightarrow> hist" where
  "cli_hist_free h p =
     (case p of None \<Rightarrow> h
      | Some n \<Rightarrow> if \<not> this_cli h then h
                  else h\<lparr>line := (line h)(n := None), free_hist := free_hist h @ [n]\<rparr>)"

text \<open>
  \<open>ok n\<close> says whether \<open>strdup\<close> can allocate \<open>n\<close> bytes. Two accesses can go wrong: \<open>strcmp\<close> on
  a null line, and taking the first node of an empty queue when no free node is left.
\<close>

definition hist_strdup :: "(nat \<Rightarrow> bool) \<Rightarrow> string \<Rightarrow> string option" where
  "hist_strdup ok s = (if ok (Suc (length s)) then Some s else None)"

definition cli_history_add :: "(nat \<Rightarrow> bool) \<Rightarrow> hist \<Rightarrow> string option \<Rightarrow> hist res" where
  "cli_history_add ok h ln =
     (case ln of None \<Rightarrow> Inr h | Some l \<Rightarrow>
      if \<not> this_cli h \<or> \<not> hist_mem h then Inr h
      else
        rbind (if hd_hist h = [] then Inr False
               else case line h (last (hd_hist h)) of None \<Rightarrow> Inl Fault | Some m \<Rightarrow> Inr (m = l))
          (\<lambda>dup. if dup then Inr h else
             (let (p, h1) = cli_hist_alloc h in
              rbind (case p of
                  Some n \<Rightarrow> Inr (n, h1)
                | None \<Rightarrow> (case hd_hist h1 of [] \<Rightarrow> Inl Fault
                            | n # ns \<Rightarrow> Inr (n, h1\<lparr>hd_hist := ns\<rparr>)))
                (\<lambda>(n, h2). Inr (h2\<lparr>line := (line h2)(n := hist_strdup ok l), hd_hist := hd_hist h2 @ [n]\<rparr>)))))"

definition cli_history_del :: "hist \<Rightarrow> hist" where
  "cli_history_del h =
     (if \<not> this_cli h \<or> \<not> hist_mem h then h
      else if hd_hist h = [] then h else h\<lparr>hd_hist := butlast (hd_hist h)\<rparr>)"

fun cli_history_line_from :: "hist \<Rightarrow> int \<Rightarrow> int \<Rightarrow> nat list \<Rightarrow> string option" where
  "cli_history_line_from h i lineno [] = None"
| "cli_history_line_from h i lineno (n # ns) =
     (if i = lineno then line h n else cli_history_line_from h (i + 1) lineno ns)"

definition cli_history_line :: "hist \<Rightarrow> int \<Rightarrow> string option" where
  "cli_history_line h lineno =
     (if \<not> this_cli h \<or> \<not> hist_mem h then None
      else cli_history_line_from h 0 lineno (hd_hist h))"

text \<open>
  \<open>CIRCLEQ_LOOP_PREV\<close> and \<open>CIRCLEQ_LOOP_NEXT\<close> on \<open>hd_hist\<close>: neighbours of a node on the queue,
  with wrap-around; the head's own links are the last and the first node. A node that is not
  on the queue has links into the free queue or stale links; following them is a \<open>Fault\<close>.
\<close>

fun list_pred :: "nat list \<Rightarrow> nat \<Rightarrow> nat option" where
  "list_pred (a # b # xs) n = (if b = n then Some a else list_pred (b # xs) n)"
| "list_pred _ n = None"

fun list_succ :: "nat list \<Rightarrow> nat \<Rightarrow> nat option" where
  "list_succ (a # b # xs) n = (if a = n then Some b else list_succ (b # xs) n)"
| "list_succ _ n = None"

definition circleq_loop_prev :: "nat list \<Rightarrow> hist_ptr \<Rightarrow> nat res" where
  "circleq_loop_prev q p =
     (case p of HNull \<Rightarrow> Inl Fault
      | HHead \<Rightarrow> if q = [] then Inl Fault else Inr (last q)
      | HNode n \<Rightarrow> if n \<notin> set q then Inl Fault
                    else (case list_pred q n of None \<Rightarrow> Inr (last q) | Some m \<Rightarrow> Inr m))"

definition circleq_loop_next :: "nat list \<Rightarrow> hist_ptr \<Rightarrow> nat res" where
  "circleq_loop_next q p =
     (case p of HNull \<Rightarrow> Inl Fault
      | HHead \<Rightarrow> if q = [] then Inl Fault else Inr (hd q)
      | HNode n \<Rightarrow> if n \<notin> set q then Inl Fault
                    else (case list_succ q n of None \<Rightarrow> Inr (hd q) | Some m \<Rightarrow> Inr m))"

definition cli_history_prev :: "hist \<Rightarrow> (string option \<times> hist) res" where
  "cli_history_prev h =
     (if \<not> this_cli h \<or> \<not> hist_mem h then Inr (None, h)
      else if hd_hist h = [] then Inr (None, h)
      else if curr_hist h = HNull
      then Inr (line h (last (hd_hist h)), h\<lparr>curr_hist := HNode (last (hd_hist h))\<rparr>)
      else if curr_hist h = HNode (hd (hd_hist h)) then Inr (line h (hd (hd_hist h)), h)
      else rbind (circleq_loop_prev (hd_hist h) (curr_hist h))
             (\<lambda>n. Inr (line h n, h\<lparr>curr_hist := HNode n\<rparr>)))"

definition cli_history_next :: "hist \<Rightarrow> (string option \<times> hist) res" where
  "cli_history_next h =
     (if \<not> this_cli h \<or> \<not> hist_mem h then Inr (None, h)
      else if hd_hist h = [] then Inr (None, h)
      else if curr_hist h = HNull then Inr (None, h)
      else if curr_hist h = HNode (last (hd_hist h)) then Inr (Some [], h)
      else rbind (circleq_loop_next (hd_hist h) (curr_hist h))
             (\<lambda>n. Inr (line h n, h\<lparr>curr_hist := HNode n\<rparr>)))"

function cli_history_clear_loop :: "hist \<Rightarrow> hist" where
  "cli_history_clear_loop h =
     (case hd_hist h of [] \<Rightarrow> h
      | n # ns \<Rightarrow> cli_history_clear_loop (cli_hist_free (h\<lparr>hd_hist := ns\<rparr>) (Some n)))"
  by pat_completeness auto
termination
  by (relation "measure (\<lambda>h. length (hd_hist h))") (auto simp: cli_hist_free_def)

declare cli_history_clear_loop.simps [simp del]

definition cli_history_clear :: "hist \<Rightarrow> hist" where
  "cli_history_clear h =
     (if \<not> this_cli h \<or> \<not> hist_mem h then h else cli_history_clear_loop h)"

definition cli_history_delete :: "hist \<Rightarrow> hist" where
  "cli_history_delete h =
     (if this_cli h
      then (cli_history_clear h)\<lparr>hd_hist := [], hist_mem := False, nb_hist := 0\<rparr>
      else h)"

text \<open>The new nodes are zeroed by \<open>memset\<close> and put at the tail of \<open>free_hist\<close>, whatever is there.\<close>

definition cli_set_history :: "(nat \<Rightarrow> bool) \<Rightarrow> hist \<Rightarrow> nat \<Rightarrow> int \<times> hist" where
  "cli_set_history ok h n =
     (if \<not> this_cli h then (-1, h)
      else if n = 0 then (0, cli_history_delete h)
      else if hist_mem h \<and> n = nb_hist h then (0, h)
      else
        (let h1 = (if hist_mem h then cli_history_delete h else h)\<lparr>nb_hist := n\<rparr> in
         if ok (n * 24)
         then (0, h1\<lparr>hist_mem := True, free_hist := free_hist h1 @ [next_node h1 ..< next_node h1 + n],
                     line := (\<lambda>i. if next_node h1 \<le> i then None else line h1 i),
                     next_node := next_node h1 + n\<rparr>)
         else (-1, h1\<lparr>hist_mem := False\<rparr>)))"

definition cli_history_reset :: "hist \<Rightarrow> hist res" where
  "cli_history_reset h =
     (if this_cli h
      then Inr (h\<lparr>curr_hist := (case hd_hist h of [] \<Rightarrow> HHead | n # _ \<Rightarrow> HNode n)\<rparr>)
      else Inl Fault)"


section \<open>Invariant and abstraction\<close>

text \<open>
  \<open>hist_lines\<close> is the history as a list of lines, \<open>hist_cap\<close> the number of nodes on the two
  queues. The invariant: nodes are distinct and allocated, lines on the history queue are
  not null, and the current pointer is null or on the history queue.
\<close>

definition hist_lines :: "hist \<Rightarrow> string list" where
  "hist_lines h = map (\<lambda>n. the (line h n)) (hd_hist h)"

definition hist_cap :: "hist \<Rightarrow> nat" where
  "hist_cap h = length (hd_hist h) + length (free_hist h)"

definition hist_inv :: "hist \<Rightarrow> bool" where
  "hist_inv h \<longleftrightarrow> this_cli h \<and> distinct (hd_hist h @ free_hist h) \<and>
     (\<forall>n \<in> set (hd_hist h @ free_hist h). n < next_node h) \<and>
     (\<forall>n \<in> set (hd_hist h). line h n \<noteq> None) \<and>
     (\<forall>n. curr_hist h = HNode n \<longrightarrow> n \<in> set (hd_hist h))"

definition push_bounded :: "nat \<Rightarrow> 'a list \<Rightarrow> 'a \<Rightarrow> 'a list" where
  "push_bounded N xs x =
     (if xs \<noteq> [] \<and> last xs = x then xs else drop (Suc (length xs) - N) (xs @ [x]))"

lemma hist_lines_last: "hd_hist h \<noteq> [] \<Longrightarrow> last (hist_lines h) = the (line h (last (hd_hist h)))"
  by (simp add: hist_lines_def last_map)

lemma hist_lines_upd [simp]:
  "n \<notin> set (hd_hist h) \<Longrightarrow>
   map (\<lambda>m. the (if m = n then v else line h m)) (hd_hist h) = hist_lines h"
  by (auto simp: hist_lines_def)

lemma map_the_upd:
  "n \<notin> set ns \<Longrightarrow> map (\<lambda>m. the (if m = n then v else f m)) ns = map (\<lambda>m. the (f m)) ns"
  by auto

lemma cli_history_add_abs:
  assumes inv: "hist_inv h" and mem: "hist_mem h" and cap: "0 < hist_cap h"
  shows "\<exists>h'. cli_history_add (\<lambda>_. True) h (Some l) = Inr h' \<and> hist_inv h' \<and> hist_mem h' \<and>
    hist_cap h' = hist_cap h \<and> hist_lines h' = push_bounded (hist_cap h) (hist_lines h) l"
proof (cases "hd_hist h \<noteq> [] \<and> line h (last (hd_hist h)) = Some l")
  case True
  then show ?thesis using inv mem
    by (auto simp: cli_history_add_def hist_inv_def push_bounded_def hist_lines_last) (auto simp: hist_lines_def)
next
  case False
  have nd: "(if hd_hist h = [] then Inr False else case line h (last (hd_hist h)) of None \<Rightarrow> Inl Fault | Some m \<Rightarrow> Inr (m = l))
      = (Inr False :: bool res)"
    using False inv last_in_set[of "hd_hist h"] by (cases "hd_hist h = []") (auto simp: hist_inv_def split: option.splits)
  have np: "\<not> (hist_lines h \<noteq> [] \<and> last (hist_lines h) = l)"
    using False inv hist_lines_last[of h] last_in_set[of "hd_hist h"] by (fastforce simp: hist_inv_def hist_lines_def)
  show ?thesis
  proof (cases "free_hist h")
    case Nil
    then obtain n ns where ns: "hd_hist h = n # ns" using cap by (cases "hd_hist h") (auto simp: hist_cap_def)
    let ?h = "h\<lparr>line := (line h)(n \<mapsto> l), hd_hist := ns @ [n]\<rparr>"
    have "cli_history_add (\<lambda>_. True) h (Some l) = Inr ?h"
      using inv mem nd Nil ns
      by (simp add: cli_history_add_def hist_inv_def cli_hist_alloc_def hist_strdup_def)
    moreover have "hist_inv ?h" using inv Nil ns by (auto simp: hist_inv_def)
    moreover have "hist_lines ?h = push_bounded (hist_cap h) (hist_lines h) l"
      using np inv Nil ns by (simp add: push_bounded_def hist_lines_def hist_cap_def hist_inv_def map_the_upd)
    ultimately show ?thesis using mem Nil ns by (auto simp: hist_cap_def)
  next
    case (Cons n ns)
    let ?h = "h\<lparr>free_hist := ns, line := (line h)(n \<mapsto> l), hd_hist := hd_hist h @ [n]\<rparr>"
    have "cli_history_add (\<lambda>_. True) h (Some l) = Inr ?h"
      using inv mem nd Cons
      by (simp add: cli_history_add_def hist_inv_def cli_hist_alloc_def hist_strdup_def)
    moreover have "hist_inv ?h" using inv Cons by (auto simp: hist_inv_def)
    moreover have "hist_lines ?h = push_bounded (hist_cap h) (hist_lines h) l"
      using np inv Cons by (auto simp: push_bounded_def hist_lines_def hist_cap_def hist_inv_def map_the_upd)
    ultimately show ?thesis using mem Cons by (auto simp: hist_cap_def)
  qed
qed

lemma remdups_adj_snoc:
  "remdups_adj (ys @ [x]) = (if ys \<noteq> [] \<and> last ys = x then remdups_adj ys else remdups_adj ys @ [x])"
  by (induction ys rule: remdups_adj.induct) auto

definition last_n :: "nat \<Rightarrow> 'a list \<Rightarrow> 'a list" where
  "last_n N ys = drop (length ys - N) ys"

lemma push_bounded_last_n:
  assumes "0 < N"
  shows "push_bounded N (last_n N (remdups_adj ys)) x = last_n N (remdups_adj (ys @ [x]))"
proof (cases "ys = []")
  case True
  with assms show ?thesis by (simp add: push_bounded_def last_n_def)
next
  case False
  then have "last (last_n N (remdups_adj ys)) = last ys" "last_n N (remdups_adj ys) \<noteq> []"
    using assms length_greater_0_conv[of "remdups_adj ys"] by (simp_all add: last_n_def del: length_greater_0_conv)
  moreover have "Suc n - (n - N + N) + (n - N) = Suc n - N" if "\<not> n \<le> n - N" for n
    using that by arith
  ultimately show ?thesis
    using False by (auto simp: push_bounded_def last_n_def remdups_adj_snoc min_def)
qed

section \<open>A bounded log without adjacent duplicates\<close>

locale bounded_log =
  fixes inv :: "'h \<Rightarrow> bool"
    and entries :: "'h \<Rightarrow> 'a list"
    and cap :: "'h \<Rightarrow> nat"
    and add :: "'h \<Rightarrow> 'a \<Rightarrow> 'h res"
  assumes add_abs: "inv h \<Longrightarrow> 0 < cap h \<Longrightarrow>
      \<exists>h'. add h x = Inr h' \<and> inv h' \<and> cap h' = cap h \<and> entries h' = push_bounded (cap h) (entries h) x"
begin

text \<open>After any additions the log holds the last entries of all that was ever added.\<close>

lemma add_all:
  assumes "inv h" "0 < cap h" "entries h = last_n (cap h) (remdups_adj ys)"
  shows "\<exists>h'. rfold add h xs = Inr h' \<and> inv h' \<and> cap h' = cap h \<and>
     entries h' = last_n (cap h) (remdups_adj (ys @ xs))"
  using assms
proof (induction xs arbitrary: h ys)
  case Nil
  then show ?case by simp
next
  case (Cons x xs)
  obtain h1 where 1: "add h x = Inr h1" "inv h1" "cap h1 = cap h" "entries h1 = push_bounded (cap h) (entries h) x"
    using add_abs[OF Cons.prems(1,2)] by metis
  then have "entries h1 = last_n (cap h1) (remdups_adj (ys @ [x]))"
    using Cons.prems by (simp add: push_bounded_last_n)
  then obtain h2 where "rfold add h1 xs = Inr h2" "inv h2" "cap h2 = cap h1"
    "entries h2 = last_n (cap h1) (remdups_adj ((ys @ [x]) @ xs))"
    using Cons.IH[OF 1(2)] Cons.prems(2) 1(3) by metis
  with 1 show ?case by simp
qed

end

interpretation hlog: bounded_log "\<lambda>h. hist_inv h \<and> hist_mem h" hist_lines hist_cap
  "\<lambda>h l. cli_history_add (\<lambda>_. True) h (Some l)"
  by unfold_locales (use cli_history_add_abs in blast)

section \<open>Walking the history\<close>

lemma list_pred_nth:
  "distinct q \<Longrightarrow> Suc i < length q \<Longrightarrow> list_pred q (q ! Suc i) = Some (q ! i)"
proof (induction q arbitrary: i rule: induct_list012)
  case (3 a b xs)
  then show ?case by (cases i) (auto simp: nth_eq_iff_index_eq)
qed auto

lemma list_succ_nth:
  "distinct q \<Longrightarrow> Suc i < length q \<Longrightarrow> list_succ q (q ! i) = Some (q ! Suc i)"
proof (induction q arbitrary: i rule: induct_list012)
  case (3 a b xs)
  show ?case
  proof (cases i)
    case (Suc j)
    then have "(b # xs) ! j \<in> set (b # xs)" using 3 by (intro nth_mem) simp
    then have "(b # xs) ! j \<noteq> a" using 3 by auto
    then show ?thesis using 3 Suc by auto
  qed simp
qed auto

text \<open>The state in which the \<open>i\<close>-th line is the current one.\<close>

definition hist_at :: "hist \<Rightarrow> nat \<Rightarrow> bool" where
  "hist_at h i \<longleftrightarrow> hist_inv h \<and> hist_mem h \<and> i < length (hd_hist h) \<and> curr_hist h = HNode (hd_hist h ! i)"

lemma line_nth:
  "hist_inv h \<Longrightarrow> i < length (hd_hist h) \<Longrightarrow> line h (hd_hist h ! i) = Some (hist_lines h ! i)"
  by (auto simp: hist_inv_def hist_lines_def)

lemma cli_history_prev_at:
  assumes "hist_at h i"
  shows "\<exists>h'. cli_history_prev h = Inr (Some (hist_lines h ! (i - 1)), h') \<and> hist_at h' (i - 1) \<and>
     hist_lines h' = hist_lines h \<and> hd_hist h' = hd_hist h"
proof (cases i)
  case 0
  then have "hd_hist h \<noteq> []" "hd (hd_hist h) = hd_hist h ! 0" using assms by (auto simp: hist_at_def hd_conv_nth)
  then show ?thesis using assms line_nth[of h 0] 0
    by (auto simp: hist_at_def cli_history_prev_def hist_inv_def)
next
  case (Suc j)
  let ?q = "hd_hist h" and ?h = "h\<lparr>curr_hist := HNode (hd_hist h ! j)\<rparr>"
  have d: "distinct ?q" "Suc j < length ?q" "?q \<noteq> []" using assms Suc by (auto simp: hist_at_def hist_inv_def)
  then have "?q ! Suc j \<noteq> hd ?q" by (simp add: hd_conv_nth nth_eq_iff_index_eq)
  moreover have "circleq_loop_prev ?q (HNode (?q ! Suc j)) = Inr (?q ! j)"
    using d by (simp add: circleq_loop_prev_def list_pred_nth)
  ultimately have "cli_history_prev h = Inr (Some (hist_lines h ! j), ?h)"
    using assms Suc d line_nth[of h j] by (simp add: cli_history_prev_def hist_at_def hist_inv_def)
  moreover have "hist_at ?h j" using assms Suc by (auto simp: hist_at_def hist_inv_def)
  ultimately show ?thesis using Suc by (auto simp: hist_lines_def)
qed

lemma cli_history_prev_first:
  assumes "hist_inv h" "hist_mem h" "hd_hist h \<noteq> []" "curr_hist h = HNull"
  shows "\<exists>h'. cli_history_prev h = Inr (Some (last (hist_lines h)), h') \<and> hist_at h' (length (hd_hist h) - 1) \<and>
     hist_lines h' = hist_lines h \<and> hd_hist h' = hd_hist h"
proof -
  let ?h = "h\<lparr>curr_hist := HNode (last (hd_hist h))\<rparr>"
  have "hist_at ?h (length (hd_hist h) - 1)" using assms by (auto simp: hist_at_def hist_inv_def last_conv_nth)
  moreover have "line h (last (hd_hist h)) = Some (last (hist_lines h))"
    using assms by (auto simp: hist_lines_last hist_inv_def)
  ultimately show ?thesis using assms by (auto simp: cli_history_prev_def hist_inv_def hist_lines_def)
qed

lemma cli_history_next_at:
  assumes "hist_at h i"
  shows "\<exists>h'. cli_history_next h =
       Inr (Some (if Suc i < length (hd_hist h) then hist_lines h ! Suc i else []), h') \<and>
     hist_at h' (min (Suc i) (length (hd_hist h) - 1)) \<and>
     hist_lines h' = hist_lines h \<and> hd_hist h' = hd_hist h"
proof (cases "Suc i < length (hd_hist h)")
  case False
  then have l: "length (hd_hist h) = Suc i" using assms by (auto simp: hist_at_def)
  then have n: "hd_hist h \<noteq> []" by auto
  then have "last (hd_hist h) = hd_hist h ! i" using l by (simp add: last_conv_nth)
  note n = n this
  show ?thesis using assms n l by (auto simp: hist_at_def cli_history_next_def hist_inv_def)
next
  case True
  let ?q = "hd_hist h" and ?h = "h\<lparr>curr_hist := HNode (hd_hist h ! Suc i)\<rparr>"
  have d: "distinct ?q" "?q \<noteq> []" using assms by (auto simp: hist_at_def hist_inv_def)
  then have "?q ! i \<noteq> last ?q" using True by (simp add: last_conv_nth nth_eq_iff_index_eq)
  moreover have "circleq_loop_next ?q (HNode (?q ! i)) = Inr (?q ! Suc i)"
    using d True by (simp add: circleq_loop_next_def list_succ_nth)
  ultimately have "cli_history_next h = Inr (Some (hist_lines h ! Suc i), ?h)"
    using assms True d line_nth[of h "Suc i"] by (simp add: cli_history_next_def hist_at_def hist_inv_def)
  moreover have "hist_at ?h (Suc i)" using assms True by (auto simp: hist_at_def hist_inv_def)
  ultimately show ?thesis using True by (auto simp: hist_lines_def min_def)
qed

text \<open>\<open>ups h k\<close>: the result of \<open>k\<close> successive calls of \<open>cli_history_prev\<close>.\<close>

fun ups :: "hist \<Rightarrow> nat \<Rightarrow> (string option \<times> hist) res" where
  "ups h 0 = Inr (None, h)"
| "ups h (Suc k) = rbind (ups h k) (\<lambda>(_, h'). cli_history_prev h')"

lemma ups_at:
  assumes "hist_inv h" "hist_mem h" "hd_hist h \<noteq> []" "curr_hist h = HNull"
  shows "\<exists>h'. ups h (Suc k) = Inr (Some (hist_lines h ! (length (hist_lines h) - 1 - k)), h') \<and>
     hist_at h' (length (hist_lines h) - 1 - k) \<and> hist_lines h' = hist_lines h \<and> hd_hist h' = hd_hist h"
proof (induction k)
  case 0
  then show ?case using cli_history_prev_first[OF assms] assms(3)
    by (auto simp: last_conv_nth hist_lines_def)
next
  case (Suc k)
  then obtain h1 where "ups h (Suc k) = Inr (Some (hist_lines h ! (length (hist_lines h) - 1 - k)), h1)"
    and at: "hist_at h1 (length (hist_lines h) - 1 - k)"
    and eq: "hist_lines h1 = hist_lines h" "hd_hist h1 = hd_hist h" by blast
  then show ?case using cli_history_prev_at[OF at] by (auto simp del: ups.simps(1))
qed

section \<open>Allocation of the history\<close>

lemma cli_set_history_init:
  assumes "0 < n"
  shows "\<exists>h. cli_set_history (\<lambda>_. True) hist_init n = (0, h) \<and> hist_inv h \<and> hist_mem h \<and>
    hist_cap h = n \<and> hist_lines h = [] \<and> hd_hist h = [] \<and> curr_hist h = HNull"
  using assms by (auto simp: cli_set_history_def hist_init_def Let_def hist_inv_def hist_cap_def hist_lines_def)

text \<open>
  An alias entered at the prompt (\<open>cli_execute\<close> in lib/cli/cli.c, alias branch): the line is
  added, removed again by \<open>cli_history_del\<close>, and the expansion is added by the nested call.
\<close>

definition hist_alias :: "hist \<Rightarrow> string \<times> string \<Rightarrow> hist res" where
  "hist_alias h = (\<lambda>(a, e). rbind (cli_history_add (\<lambda>_. True) h (Some a))
     (\<lambda>h1. cli_history_add (\<lambda>_. True) (cli_history_del h1) (Some e)))"

lemma cli_history_add_curr:
  "cli_history_add ok h l = Inr h' \<Longrightarrow> curr_hist h' = curr_hist h"
  by (auto simp: cli_history_add_def cli_hist_alloc_def rbind_eq_Inr split: option.splits if_splits list.splits)

lemma cli_history_del_inv:
  assumes "hist_inv h" "hist_mem h" "curr_hist h = HNull" "hd_hist h \<noteq> []"
  shows "hist_inv (cli_history_del h) \<and> hist_mem (cli_history_del h) \<and> curr_hist (cli_history_del h) = HNull \<and>
    hist_cap h = Suc (hist_cap (cli_history_del h))"
proof -
  obtain ns n where "hd_hist h = ns @ [n]" using assms(4) by (metis rev_exhaust)
  then show ?thesis using assms by (auto simp: cli_history_del_def hist_inv_def hist_cap_def)
qed

lemma hist_alias_cap:
  assumes "hist_inv h" "hist_mem h" "curr_hist h = HNull" "hist_cap h = Suc k"
  shows "if k = 0 then hist_alias h p = Inl Fault
    else \<exists>h'. hist_alias h p = Inr h' \<and> hist_inv h' \<and> hist_mem h' \<and> curr_hist h' = HNull \<and> hist_cap h' = k"
proof -
  obtain a e where p: "p = (a, e)" by (cases p)
  obtain h1 where 1: "cli_history_add (\<lambda>_. True) h (Some a) = Inr h1" "hist_inv h1" "hist_mem h1" "hist_cap h1 = Suc k"
    "hist_lines h1 = push_bounded (Suc k) (hist_lines h) a"
    using cli_history_add_abs[OF assms(1,2), of a] assms(4) by auto
  have "hist_lines h1 \<noteq> []" using 1(5) by (auto simp: push_bounded_def)
  then have "hd_hist h1 \<noteq> []" by (auto simp: hist_lines_def)
  note d = cli_history_del_inv[OF 1(2,3) _ this]
  have c: "curr_hist h1 = HNull" using cli_history_add_curr[OF 1(1)] assms(3) by simp
  let ?h = "cli_history_del h1"
  show ?thesis
  proof (cases k)
    case 0
    then have "hd_hist ?h = []" "free_hist ?h = []" using d[OF c] 1(4) by (auto simp: hist_cap_def)
    then have "cli_history_add (\<lambda>_. True) ?h (Some e) = Inl Fault"
      using d[OF c] by (simp add: cli_history_add_def cli_hist_alloc_def hist_inv_def)
    then show ?thesis using 0 1(1) p by (simp add: hist_alias_def)
  next
    case (Suc j)
    then obtain h2 where "cli_history_add (\<lambda>_. True) ?h (Some e) = Inr h2" "hist_inv h2" "hist_mem h2" "hist_cap h2 = k"
      using cli_history_add_abs[of ?h e] d[OF c] 1(4) by auto
    then show ?thesis using Suc 1(1) p d[OF c] cli_history_add_curr by (auto simp: hist_alias_def)
  qed
qed

section \<open>Properties\<close>

text \<open>
  C39: with \<open>N\<close> history lines configured, adding any sequence of lines never faults and leaves
  the last \<open>N\<close> of them, in order, after consecutive repetitions are merged.
\<close>

theorem cli_history_keeps_last:
  assumes "0 < N"
  shows "\<exists>h h'. cli_set_history (\<lambda>_. True) hist_init N = (0, h) \<and>
    rfold (\<lambda>h l. cli_history_add (\<lambda>_. True) h (Some l)) h ls = Inr h' \<and> hist_inv h' \<and>
    hist_lines h' = last_n N (remdups_adj ls)"
proof -
  obtain h where h: "cli_set_history (\<lambda>_. True) hist_init N = (0, h)" "hist_inv h" "hist_mem h" "hist_cap h = N"
    "hist_lines h = []"
    using cli_set_history_init[OF assms] by blast
  show ?thesis using hlog.add_all[of h "[]" ls] h assms by (auto simp: last_n_def)
qed

theorem cli_history_keeps_last_witness:
  "\<exists>h h'. cli_set_history (\<lambda>_. True) hist_init 2 = (0, h) \<and>
    rfold (\<lambda>h l. cli_history_add (\<lambda>_. True) h (Some l)) h [''help'', ''ls'', ''ls'', ''quit''] = Inr h' \<and> hist_inv h' \<and>
    hist_lines h' = [''ls'', ''quit'']"
  using cli_history_keeps_last[of 2 "[''help'', ''ls'', ''ls'', ''quit'']"] by (simp add: last_n_def)

text \<open>
  From the prompt, the \<open>k+1\<close>-st request for the previous line returns the \<open>k\<close>-th line
  before the most recent one and stays on the oldest line once that is reached; a following
  request for the next line returns the successor, or the empty line at the most recent one.
\<close>

theorem cli_history_walk:
  fixes k :: nat
  assumes "hist_inv h" and "hist_mem h" and "hd_hist h \<noteq> []" and "curr_hist h = HNull"
  defines "i \<equiv> length (hist_lines h) - 1 - k"
  shows "\<exists>h1 h2. ups h (Suc k) = Inr (Some (hist_lines h ! i), h1) \<and>
    cli_history_next h1 = Inr (Some (if Suc i < length (hist_lines h) then hist_lines h ! Suc i else []), h2)"
proof -
  obtain h1 where 1: "ups h (Suc k) = Inr (Some (hist_lines h ! i), h1)" "hist_at h1 i"
    "hist_lines h1 = hist_lines h" "hd_hist h1 = hd_hist h"
    using ups_at[OF assms(1-4), of k] unfolding i_def by blast
  then show ?thesis using cli_history_next_at[OF 1(2)] by (auto simp: hist_lines_def)
qed

definition hist_example :: hist where
  "hist_example = \<lparr>this_cli = True, hist_mem = True, nb_hist = 3, hd_hist = [2, 0, 1], free_hist = [],
     line = (\<lambda>n. if n = 2 then Some ''one'' else if n = 0 then Some ''two'' else if n = 1 then Some ''three'' else None),
     curr_hist = HNull, next_node = 3\<rparr>"

theorem cli_history_walk_witness:
  "\<exists>h1 h2. ups hist_example 2 = Inr (Some ''two'', h1) \<and> cli_history_next h1 = Inr (Some ''three'', h2)"
  using cli_history_walk[of hist_example 1]
  by (simp add: hist_example_def hist_inv_def hist_lines_def numeral_2_eq_2)

text \<open>
  Every alias executed from the prompt takes one node out of circulation, because
  \<open>cli_history_del\<close> does not put the node on the free queue; with \<open>N\<close> nodes the \<open>N\<close>-th alias
  makes \<open>cli_history_add\<close> take a node from an empty queue.
\<close>

theorem cli_history_alias_exhausts:
  assumes "hist_inv h" and "hist_mem h" and "curr_hist h = HNull" and "hist_cap h = N" and "length as = N" and "0 < N"
  shows "rfold hist_alias h as = Inl Fault"
  using assms
proof (induction as arbitrary: h N)
  case (Cons p as)
  then obtain k where k: "N = Suc k" by (cases N) auto
  show ?case
  proof (cases "k = 0")
    case True
    then show ?thesis using hist_alias_cap[of h k p] Cons.prems k by simp
  next
    case False
    then obtain h' where "hist_alias h p = Inr h'" "hist_inv h'" "hist_mem h'" "curr_hist h' = HNull" "hist_cap h' = k"
      using hist_alias_cap[of h k p] Cons.prems k by auto
    then show ?thesis using Cons.IH[of h' k] Cons.prems False k by simp
  qed
qed simp

theorem cli_history_alias_exhausts_witness:
  "rfold hist_alias hist_example [(''ls'', ''dir''), (''ls'', ''dir''), (''ls'', ''dir'')] = Inl Fault"
  using cli_history_alias_exhausts[of hist_example 3 "[(''ls'', ''dir''), (''ls'', ''dir''), (''ls'', ''dir'')]"]
  by (simp add: hist_example_def hist_inv_def hist_cap_def)

end
