(* ===== verification/Vt100.thy ===== *)
theory Vt100
  imports GapBuf History
begin

text \<open>
  The VT100 key decoder and the key handlers of the command line (lib/cli/cli_vt100.c,
  lib/cli/cli_input.c and the display helpers of lib/cli/cli_input.h).

  \<open>vt100_parse_input\<close> is the decoder's state machine; \<open>cli_input\<close> feeds bytes to it and runs
  the handler of the key it found, or inserts the byte. What is written to the terminal is
  not part of the state, but the bytes of the line that are written are read from its copy. Command execution, completion and the prompt are arguments
  (\<open>cli_ext\<close>), as they are function pointers or other components of the program; so is the width of the terminal.
\<close>

section \<open>Decoding keys\<close>

datatype vt100_state = VT100_INIT | VT100_ESCAPE | VT100_ESCAPE_CSI

record cli_vt100 =
  vt_bufpos :: int
  vt_buf :: "char list"
  vt_state :: vt100_state

definition VT100_DONE :: int where "VT100_DONE = -1"
definition VT100_CONTINUE :: int where "VT100_CONTINUE = -2"
definition VT100_BUF_SIZE :: nat where "VT100_BUF_SIZE = 8"

abbreviation ESC :: char where "ESC \<equiv> CHR 0x1B"

definition vt100_cmd_strs :: "string list" where
  "vt100_cmd_strs =
    [''Invalid'', [ESC] @ ''[A'', [ESC] @ ''[B'', [ESC] @ ''[C'', [ESC] @ ''[D'', [CHR 0x7F], [CHR 0x0A],
     [CHR 0x01], [CHR 0x05], [CHR 0x0B], [CHR 0x19], [CHR 0x03], [CHR 0x06], [CHR 0x02],
     [ESC] @ ''[3~'', [CHR 0x09], [CHR 0x04], [CHR 0x0C], [CHR 0x0D], [ESC, CHR 0x7F],
     [ESC] @ ''b'', [ESC] @ ''f'', [CHR 0x17], [CHR 0x10], [CHR 0x0E], [ESC] @ ''d'', [CHR 0x18]]"

fun vt100_find_from :: "int \<Rightarrow> string list \<Rightarrow> char list \<Rightarrow> nat \<Rightarrow> int" where
  "vt100_find_from i [] b n = VT100_DONE"
| "vt100_find_from i (s # ss) b n =
     (let cmdlen = min (length s) VT100_BUF_SIZE in
      if n = cmdlen \<and> take cmdlen b = take cmdlen s then i else vt100_find_from (i + 1) ss b n)"

definition vt100_find_cmd :: "char list \<Rightarrow> nat \<Rightarrow> int" where
  "vt100_find_cmd b n = vt100_find_from 0 vt100_cmd_strs b n"

definition vt100_parse_input :: "cli_vt100 \<Rightarrow> char \<Rightarrow> (int \<times> cli_vt100) res" where
  "vt100_parse_input v c =
     (let v0 = (if vt_bufpos v = -1 \<or> vt_bufpos v \<ge> int VT100_BUF_SIZE
                then v\<lparr>vt_state := VT100_INIT, vt_bufpos := 0\<rparr> else v) in
      rbind (c_write (vt_buf v0) (vt_bufpos v0) c) (\<lambda>b.
        let v1 = v0\<lparr>vt_buf := b, vt_bufpos := vt_bufpos v0 + 1\<rparr>;
            n = u32_of (vt_bufpos v1);
            found = Inr (vt100_find_cmd (vt_buf v1) n, v1\<lparr>vt_bufpos := -1\<rparr>);
            k = (of_char c :: nat)
        in case vt_state v1 of
             VT100_INIT \<Rightarrow>
               if c = ESC then Inr (VT100_CONTINUE, v1\<lparr>vt_state := VT100_ESCAPE\<rparr>) else found
           | VT100_ESCAPE \<Rightarrow>
               if c = CHR ''['' then Inr (VT100_CONTINUE, v1\<lparr>vt_state := VT100_ESCAPE_CSI\<rparr>)
               else if of_char (CHR ''0'') \<le> k \<and> k \<le> 0x7F then found
               else Inr (VT100_CONTINUE, v1)
           | VT100_ESCAPE_CSI \<Rightarrow>
               if of_char (CHR ''@'') \<le> k \<and> k \<le> of_char (CHR ''~'') then found
               else Inr (VT100_CONTINUE, v1)))"

definition vt100_setup :: "bool \<Rightarrow> cli_vt100 option" where
  "vt100_setup ok =
     (if ok then Some \<lparr>vt_bufpos = -1, vt_buf = replicate VT100_BUF_SIZE NUL, vt_state = VT100_INIT\<rparr> else None)"

section \<open>The editor state\<close>

datatype kill_ptr = KNull | KStr string | KFreed

record cli_state =
  c_gb :: gapbuf
  c_hist :: hist
  c_kill :: kill_ptr
  c_flags :: u32
  c_plen :: u16
  c_quit :: bool
  c_vt :: cli_vt100

record cli_ext =
  alloc_ok :: "nat \<Rightarrow> bool"
  execute :: "cli_state \<Rightarrow> cli_state res"
  auto_complete :: "cli_state \<Rightarrow> cli_state res"
  prompt :: "int \<Rightarrow> u16"
  ncols :: u16

definition DISPLAY_LINE :: u32 where "DISPLAY_LINE = push_bit 0 1"
definition CLEAR_TO_EOL :: u32 where "CLEAR_TO_EOL = push_bit 1 1"
definition DISPLAY_PROMPT :: u32 where "DISPLAY_PROMPT = push_bit 2 1"
definition PROMPT_CONTINUE :: u32 where "PROMPT_CONTINUE = push_bit 3 1"
definition DELETE_CHAR :: u32 where "DELETE_CHAR = push_bit 4 1"
definition CLEAR_LINE :: u32 where "CLEAR_LINE = push_bit 5 1"

definition cli_set_flag :: "u32 \<Rightarrow> cli_state \<Rightarrow> cli_state" where
  "cli_set_flag x s = s\<lparr>c_flags := c_flags s OR x\<rparr>"

definition cli_clr_flag :: "u32 \<Rightarrow> cli_state \<Rightarrow> cli_state" where
  "cli_clr_flag x s = s\<lparr>c_flags := c_flags s AND NOT x\<rparr>"

definition cli_tst_flag :: "u32 \<Rightarrow> cli_state \<Rightarrow> bool" where
  "cli_tst_flag x s \<longleftrightarrow> c_flags s AND x \<noteq> 0"

text \<open>
  Writing \<open>len\<close> bytes from an offset of an array. A length that is not positive asks for the bytes up to
  the terminator.
\<close>

definition scrn_write :: "char list \<Rightarrow> int \<Rightarrow> int \<Rightarrow> string res" where
  "scrn_write b start len =
     (if start < 0 \<or> int (length b) < start then Inl Fault
      else
        let m = drop (nat start) b in
        if len \<le> 0 then (if NUL \<in> set m then Inr (takeWhile (\<lambda>c. c \<noteq> NUL) m) else Inl Fault)
        else if int (length m) < len then Inl Fault
        else Inr (take (nat len) m))"

text \<open>
  The line is copied into an array of \<open>gb_data_size + 16\<close> bytes; the length wraps in 32 bits. The part of the copy
  that fits beside the prompt is written, so that the point is in it.
\<close>

definition cli_window :: "cli_ext \<Rightarrow> cli_state \<Rightarrow> int" where
  "cli_window E s = uint (ncols E) - uint (c_plen s) - 1"

definition shown_line :: "cli_ext \<Rightarrow> cli_state \<Rightarrow> string res" where
  "shown_line E s =
     (let n = gb_data_size (c_gb s); pt = gb_point_offset (c_gb s); window = cli_window E s in
      rbind (gb_copy_to_buf (c_gb s) (replicate (u32_of (int n + 16)) uninit_byte) n) (\<lambda>(k, b).
        let len = s32_of (int k);
            (wstart, wend) =
              (if pt < window then (0, if len < window then pt + (len - pt) else pt + (window - pt))
               else (pt - window, pt - window + window))
        in scrn_write b wstart (wend - wstart)))"

definition cli_display_line :: "cli_ext \<Rightarrow> cli_state \<Rightarrow> cli_state res" where
  "cli_display_line E s =
     rbind (shown_line E s) (\<lambda>_.
      let s1 = (if cli_tst_flag DELETE_CHAR s
                then cli_set_flag (DISPLAY_LINE OR CLEAR_TO_EOL) (cli_clr_flag DELETE_CHAR s) else s);
          s2 = (if cli_tst_flag CLEAR_LINE s1
                then cli_set_flag (DISPLAY_LINE OR DISPLAY_PROMPT) (cli_clr_flag CLEAR_LINE s1) else s1);
          s3 = (if cli_tst_flag CLEAR_TO_EOL s2 then cli_clr_flag CLEAR_TO_EOL s2 else s2)
      in Inr (if cli_tst_flag DISPLAY_PROMPT s3
              then (cli_clr_flag (DISPLAY_PROMPT OR PROMPT_CONTINUE) s3)\<lparr>c_plen := prompt E 0\<rparr> else s3))"

definition cli_redisplay_line :: "cli_ext \<Rightarrow> cli_state \<Rightarrow> cli_state res" where
  "cli_redisplay_line E s =
     rbind (cli_display_line E (cli_set_flag DISPLAY_PROMPT s)) (\<lambda>s1.
     rbind (gb_move_gap_to_point (c_gb s1)) (\<lambda>g. Inr (s1\<lparr>c_gb := g\<rparr>)))"

section \<open>Key handlers\<close>

definition show_line :: "cli_ext \<Rightarrow> cli_state \<Rightarrow> string option \<Rightarrow> cli_state res" where
  "show_line E s ln =
     (case ln of None \<Rightarrow> Inr s
      | Some l \<Rightarrow>
          rbind (gb_reset_buf (c_gb s)) (\<lambda>g1.
          rbind (gb_str_insert (alloc_ok E) g1 l 0) (\<lambda>(n, g2).
          rbind (gb_set_point g2 (s32_of (int n))) (\<lambda>g3.
          Inr (cli_set_flag (DISPLAY_LINE OR CLEAR_LINE) (s\<lparr>c_gb := g3\<rparr>))))))"

definition key_up_arr :: "cli_ext \<Rightarrow> cli_state \<Rightarrow> cli_state res" where
  "key_up_arr E s =
     rbind (cli_history_prev (c_hist s)) (\<lambda>(ln, h). show_line E (s\<lparr>c_hist := h\<rparr>) ln)"

definition key_down_arr :: "cli_ext \<Rightarrow> cli_state \<Rightarrow> cli_state res" where
  "key_down_arr E s =
     rbind (cli_history_next (c_hist s)) (\<lambda>(ln, h). show_line E (s\<lparr>c_hist := h\<rparr>) ln)"

definition key_right_arr :: "cli_state \<Rightarrow> cli_state" where
  "key_right_arr s = (if gb_eof (c_gb s) then s else s\<lparr>c_gb := gb_move_right (c_gb s)\<rparr>)"

definition key_left_arr :: "cli_state \<Rightarrow> cli_state" where
  "key_left_arr s = (if gb_point_at_start (c_gb s) then s else s\<lparr>c_gb := gb_move_left (c_gb s)\<rparr>)"

definition key_backspace :: "cli_state \<Rightarrow> cli_state res" where
  "key_backspace s =
     (if gb_point_at_start (c_gb s) then Inr s
      else rbind (gb_del (gb_move_left (c_gb s)) 1)
             (\<lambda>g. Inr (cli_set_flag DELETE_CHAR (s\<lparr>c_gb := g\<rparr>))))"

definition key_return :: "cli_ext \<Rightarrow> cli_state \<Rightarrow> cli_state res" where
  "key_return E s =
     rbind (execute E s) (\<lambda>s1.
     rbind (gb_reset_buf (c_gb s1)) (\<lambda>g.
     let s2 = s1\<lparr>c_gb := g\<rparr>;
         s3 = (if \<not> c_quit s2 then cli_set_flag DISPLAY_PROMPT s2 else s2)
     in Inr (s3\<lparr>c_hist := (c_hist s3)\<lparr>curr_hist := HNull\<rparr>\<rparr>)))"

definition key_ctrl_a :: "cli_state \<Rightarrow> cli_state res" where
  "key_ctrl_a s = rbind (gb_set_point (c_gb s) 0) (\<lambda>g. Inr (s\<lparr>c_gb := g\<rparr>))"

definition key_ctrl_e :: "cli_state \<Rightarrow> cli_state res" where
  "key_ctrl_e s = rbind (gb_set_point (c_gb s) (-1)) (\<lambda>g. Inr (s\<lparr>c_gb := g\<rparr>))"

text \<open>
  \<open>strndup (p, n)\<close> reads bytes up to a terminator or \<open>n\<close> of them; \<open>free\<close> of a pointer already
  freed is a \<open>Fault\<close>. \<open>kill\<close> is freed even when nothing replaces it.
\<close>

fun c_strndup :: "char list \<Rightarrow> nat \<Rightarrow> string res" where
  "c_strndup m 0 = Inr []"
| "c_strndup [] (Suc n) = Inl Fault"
| "c_strndup (c # m) (Suc n) = (if c = NUL then Inr [] else rbind (c_strndup m n) (\<lambda>s. Inr (c # s)))"

definition key_ctrl_k :: "cli_ext \<Rightarrow> cli_state \<Rightarrow> cli_state res" where
  "key_ctrl_k E s =
     rbind (gb_move_gap_to_point (c_gb s)) (\<lambda>g.
     rbind (case c_kill s of KFreed \<Rightarrow> Inl Fault | KNull \<Rightarrow> Inr KNull | KStr _ \<Rightarrow> Inr KFreed) (\<lambda>k.
     rbind (if gb_right_data_size g \<noteq> 0
            then rbind (c_strndup (drop (egap g) (buf g)) (u32_of (int (gb_right_data_size g) + 1)))
                   (\<lambda>t. Inr (if alloc_ok E (Suc (length t)) then KStr t else KNull))
            else Inr k) (\<lambda>k'.
     rbind (gb_del g (gb_right_data_size g)) (\<lambda>g'. Inr (s\<lparr>c_gb := g', c_kill := k'\<rparr>)))))"

definition key_ctrl_y :: "cli_ext \<Rightarrow> cli_state \<Rightarrow> cli_state res" where
  "key_ctrl_y E s =
     (case c_kill s of KNull \<Rightarrow> Inr s | KFreed \<Rightarrow> Inl Fault
      | KStr t \<Rightarrow> rbind (gb_str_insert (alloc_ok E) (c_gb s) t (u32_of (int (length t))))
                    (\<lambda>(n, g). cli_redisplay_line E (s\<lparr>c_gb := g\<rparr>)))"

definition key_ctrl_c :: "cli_ext \<Rightarrow> cli_state \<Rightarrow> cli_state res" where
  "key_ctrl_c E s =
     rbind (gb_reset_buf (c_gb s)) (\<lambda>g.
     Inr (s\<lparr>c_gb := g, c_plen := prompt E 0, c_hist := (c_hist s)\<lparr>curr_hist := HNull\<rparr>\<rparr>))"

definition key_ctrl_l :: "cli_ext \<Rightarrow> cli_state \<Rightarrow> cli_state res" where
  "key_ctrl_l E s = cli_redisplay_line E s"

text \<open>The two word motions are loops; \<open>Hang\<close> is the result of running out of fuel.\<close>

fun key_word_left_loop :: "nat \<Rightarrow> cli_state \<Rightarrow> cli_state res" where
  "key_word_left_loop 0 s = Inl Hang"
| "key_word_left_loop (Suc f) s =
     (let s1 = key_left_arr s in
      rbind (gb_get_prev (c_gb s1)) (\<lambda>(c, g).
        let s2 = s1\<lparr>c_gb := g\<rparr> in
        if c = CHR '' '' \<or> gb_point_at_start g then Inr s2 else key_word_left_loop f s2))"

definition key_word_left :: "cli_state \<Rightarrow> cli_state res" where
  "key_word_left s = key_word_left_loop (Suc (ebuf (c_gb s))) s"

fun key_word_right_loop :: "nat \<Rightarrow> cli_state \<Rightarrow> cli_state res" where
  "key_word_right_loop 0 s = Inl Hang"
| "key_word_right_loop (Suc f) s =
     (if gb_point_at_end (c_gb s) then Inr s
      else
        (let s1 = key_right_arr s in
         rbind (gb_get (c_gb s1)) (\<lambda>(c, g).
           let s2 = s1\<lparr>c_gb := g\<rparr> in
           if c = CHR '' '' then Inr s2 else key_word_right_loop f s2)))"

definition key_word_right :: "cli_state \<Rightarrow> cli_state res" where
  "key_word_right s = key_word_right_loop (Suc (Suc (ebuf (c_gb s)))) s"

definition key_ctrl_x :: "cli_state \<Rightarrow> cli_state" where
  "key_ctrl_x s = s\<lparr>c_quit := True\<rparr>"

definition vt100_do_cmd :: "cli_ext \<Rightarrow> int \<Rightarrow> cli_state \<Rightarrow> cli_state res" where
  "vt100_do_cmd E idx s =
     (if idx = 1 \<or> idx = 23 then key_up_arr E s
      else if idx = 2 \<or> idx = 24 then key_down_arr E s
      else if idx = 3 \<or> idx = 12 then Inr (key_right_arr s)
      else if idx = 4 \<or> idx = 13 then Inr (key_left_arr s)
      else if idx = 5 \<or> idx = 14 then key_backspace s
      else if idx = 6 \<or> idx = 18 then key_return E s
      else if idx = 7 then key_ctrl_a s
      else if idx = 8 then key_ctrl_e s
      else if idx = 9 then key_ctrl_k E s
      else if idx = 10 then key_ctrl_y E s
      else if idx = 11 then key_ctrl_c E s
      else if idx = 15 then auto_complete E s
      else if idx = 17 then key_ctrl_l E s
      else if idx = 20 then key_word_left s
      else if idx = 21 then key_word_right s
      else if idx = 26 then Inr (key_ctrl_x s)
      else Inr s)"

section \<open>Input\<close>

definition handle_input_display :: "cli_ext \<Rightarrow> char \<Rightarrow> cli_state \<Rightarrow> cli_state res" where
  "handle_input_display E c s =
     (let k = (of_char c :: nat) in
      rbind (if of_char (CHR '' '') \<le> k \<and> k \<le> of_char (CHR ''~'')
             then rbind (gb_insert (alloc_ok E) (c_gb s) c) (\<lambda>g.
                    let s1 = s\<lparr>c_gb := g\<rparr> in
                    Inr (if \<not> gb_point_at_end g \<or> \<not> gb_point_at_start g then cli_set_flag DISPLAY_LINE s1 else s1))
             else Inr s)
        (cli_display_line E))"

definition cli_input1 :: "cli_ext \<Rightarrow> cli_state \<Rightarrow> char \<Rightarrow> cli_state res" where
  "cli_input1 E s c =
     rbind (vt100_parse_input (c_vt s) c) (\<lambda>(ret, v).
       let s1 = s\<lparr>c_vt := v\<rparr> in
       if ret > 0 then rbind (vt100_do_cmd E ret s1) (handle_input_display E NUL)
       else if ret = VT100_DONE then handle_input_display E c s1
       else Inr s1)"

definition cli_input :: "cli_ext \<Rightarrow> cli_state \<Rightarrow> string \<Rightarrow> cli_state res" where
  "cli_input E s str = rfold (cli_input1 E) s str"

section \<open>The decoder\<close>

definition vt_inv :: "cli_vt100 \<Rightarrow> bool" where
  "vt_inv v \<longleftrightarrow> length (vt_buf v) = VT100_BUF_SIZE \<and> -1 \<le> vt_bufpos v \<and> vt_bufpos v \<le> int VT100_BUF_SIZE"

definition vt_idle :: "cli_vt100 \<Rightarrow> bool" where
  "vt_idle v \<longleftrightarrow> vt_inv v \<and> vt_bufpos v = -1"

fun vt100_feed :: "cli_vt100 \<Rightarrow> int list \<Rightarrow> string \<Rightarrow> (int list \<times> cli_vt100) res" where
  "vt100_feed v rs [] = Inr (rs, v)"
| "vt100_feed v rs (c # cs) = rbind (vt100_parse_input v c) (\<lambda>(r, v'). vt100_feed v' (rs @ [r]) cs)"

lemma vt100_find_from_bound: "vt100_find_from i ss b n = VT100_DONE \<or>
   i \<le> vt100_find_from i ss b n \<and> vt100_find_from i ss b n < i + int (length ss)"
  by (induction ss arbitrary: i) (auto simp: Let_def, (smt (verit))+)

lemma vt100_find_cmd_bound: "-1 \<le> vt100_find_cmd b n \<and> vt100_find_cmd b n < 27"
  using vt100_find_from_bound[of 0 vt100_cmd_strs b n]
  by (auto simp: vt100_find_cmd_def VT100_DONE_def vt100_cmd_strs_def)

lemma vt100_parse_input_inv:
  assumes "vt_inv v"
  shows "\<exists>r v'. vt100_parse_input v c = Inr (r, v') \<and> vt_inv v' \<and> -2 \<le> r \<and> r < 27 \<and>
    (r = VT100_CONTINUE \<longleftrightarrow> \<not> vt_idle v')"
proof -
  define v0 where "v0 = (if vt_bufpos v = -1 \<or> vt_bufpos v \<ge> int VT100_BUF_SIZE
                then v\<lparr>vt_state := VT100_INIT, vt_bufpos := 0\<rparr> else v)"
  have v0: "0 \<le> vt_bufpos v0" "vt_bufpos v0 < 8" "length (vt_buf v0) = 8"
    using assms by (auto simp: v0_def vt_inv_def VT100_BUF_SIZE_def)
  define b where "b = (vt_buf v0)[nat (vt_bufpos v0) := c]"
  define v1 where "v1 = v0\<lparr>vt_buf := b, vt_bufpos := vt_bufpos v0 + 1\<rparr>"
  have w: "c_write (vt_buf v0) (vt_bufpos v0) c = Inr b"
    using v0 by (simp add: c_write_def b_def)
  have bound: "- 2 \<le> vt100_find_cmd x n" "vt100_find_cmd x n < 27" "vt100_find_cmd x n \<noteq> -2" for x n
    using vt100_find_cmd_bound[of x n] by linarith+
  have len: "length b = 8" using v0 by (simp add: b_def)
  show ?thesis
    unfolding vt100_parse_input_def v0_def[symmetric] Let_def
    using w v0 len bound
    by (simp add: vt_inv_def vt_idle_def VT100_BUF_SIZE_def VT100_CONTINUE_def split: vt100_state.split)
qed

lemma vt_idle_buf:
  assumes "vt_idle v"
  obtains a b c d e f g h where "vt_buf v = [a, b, c, d, e, f, g, h]"
proof -
  have "length (vt_buf v) = Suc (Suc (Suc (Suc (Suc (Suc (Suc (Suc 0)))))))"
    using assms by (simp add: vt_idle_def vt_inv_def VT100_BUF_SIZE_def)
  then show thesis by (auto simp: length_Suc_conv intro: that)
qed

lemmas vt_eval = vt100_parse_input_def vt100_find_cmd_def vt100_cmd_strs_def c_write_def Let_def
  VT100_BUF_SIZE_def VT100_DONE_def VT100_CONTINUE_def vt_idle_def vt_inv_def

lemma vt100_parse_printable:
  assumes "vt_idle v" and "32 \<le> (of_char c :: nat)" and "(of_char c :: nat) \<le> 126"
  shows "\<exists>v'. vt100_parse_input v c = Inr (VT100_DONE, v') \<and> vt_idle v'"
proof -
  obtain b0 b1 b2 b3 b4 b5 b6 b7 where b: "vt_buf v = [b0, b1, b2, b3, b4, b5, b6, b7]"
    using vt_idle_buf[OF assms(1)] .
  have "c \<noteq> k" if "(of_char k :: nat) < 32 \<or> 126 < (of_char k :: nat)" for k
    using that assms(2,3) by auto
  then show ?thesis using assms(1) b by (simp add: vt_eval)
qed

lemma vt100_feed_keys:
  assumes "vt_idle v"
  shows "\<forall>i\<in>set [1..<27]. \<exists>v'. vt100_feed v [] (vt100_cmd_strs ! i) =
    Inr (replicate (length (vt100_cmd_strs ! i) - 1) VT100_CONTINUE @ [int i], v') \<and> vt_idle v'"
proof -
  obtain b0 b1 b2 b3 b4 b5 b6 b7 where b: "vt_buf v = [b0, b1, b2, b3, b4, b5, b6, b7]"
    using vt_idle_buf[OF assms] .
  have l: "[1..<27] = ([1, 2, 3, 4, 5, 6, 7, 8, 9, 10, 11, 12, 13, 14, 15, 16, 17, 18, 19, 20, 21, 22, 23, 24, 25, 26] :: nat list)" by (simp add: upt_conv_Cons)
  show ?thesis using b assms unfolding l by (simp add: vt_eval)
qed

section \<open>Displaying never changes the line\<close>

lemma cli_flag_simps [simp]:
  "c_gb (cli_set_flag x s) = c_gb s" "c_vt (cli_set_flag x s) = c_vt s" "c_hist (cli_set_flag x s) = c_hist s" "c_plen (cli_set_flag x s) = c_plen s"
  "c_gb (cli_clr_flag x s) = c_gb s" "c_vt (cli_clr_flag x s) = c_vt s" "c_hist (cli_clr_flag x s) = c_hist s" "c_plen (cli_clr_flag x s) = c_plen s"
  by (simp_all add: cli_set_flag_def cli_clr_flag_def)

text \<open>
  \<open>gb_point_offset\<close> is the number of characters left of the point unless the point is at the end of the gap.
\<close>

definition point_counted :: "gapbuf \<Rightarrow> bool" where
  "point_counted g \<longleftrightarrow> point g \<noteq> egap g \<or> gap g = egap g"

lemma point_offset:
  assumes "gb_inv g" and "ebuf g < 2147483648"
  shows "0 \<le> gb_point_offset g" "gb_point_offset g \<le> int (ebuf g)" "point_counted g \<Longrightarrow> gb_point_offset g = int (gb_pos g)" "gb_pos g \<le> length (gb_text g)"
  using assms by (auto simp: gb_inv_def gb_point_offset_def gb_pos_def gb_text_def point_counted_def)

lemma scrn_write_ok:
  assumes "length b = n + 16" and "b ! n = NUL" and "0 \<le> start" and "start + max 0 len \<le> int n"
  shows "\<exists>t. scrn_write b start len = Inr t"
proof -
  have i: "nat start \<le> n" "n < length b" using assms by auto
  then have "NUL \<in> set (drop (nat start) b)"
    using assms(2) by (auto simp: in_set_conv_nth intro!: exI[of _ "n - nat start"])
  then show ?thesis using assms i by (auto simp: scrn_write_def Let_def)
qed

lemma copied_line:
  assumes "gb_inv g" and "ebuf g + 16 < 2147483648"
  shows "\<exists>b. gb_copy_to_buf g (replicate (u32_of (int (gb_data_size g) + 16)) uninit_byte) (gb_data_size g) = Inr (length (gb_text g), b) \<and>
    length b = length (gb_text g) + 16 \<and> b ! length (gb_text g) = NUL \<and> take (length (gb_text g)) b = gb_text g"
proof -
  have n: "gb_data_size g = length (gb_text g)" using assms by (intro gb_data_size_abs) auto
  have le: "length (gb_text g) \<le> ebuf g" using assms by (auto simp: gb_text_def gb_inv_def)
  have u: "u32_of (int (gb_data_size g) + 16) = length (gb_text g) + 16" using le assms(2) by (simp add: n nat_add_distrib)
  show ?thesis
  proof (cases "gb_text g = []")
    case True
    then show ?thesis using u n by (simp add: gb_copy_to_buf_def c_write_def)
  next
    case False
    then show ?thesis unfolding u using gb_copy_to_buf_text[OF assms(1), of "length (gb_text g)" "replicate (length (gb_text g) + 16) uninit_byte"] n assms(2)
      by (simp add: nth_append)
  qed
qed

text \<open>
  The read stays in the copy when the prompt fits on the terminal and either the point is counted correctly or the buffer
  with its gap is shorter than the window.
\<close>

lemma shown_line_ok:
  assumes "gb_inv (c_gb s)" and "ebuf (c_gb s) + 16 < 2147483648" and "unat (c_plen s) < unat (ncols E)"
    and "point_counted (c_gb s) \<or> int (ebuf (c_gb s)) < cli_window E s"
  shows "\<exists>t. shown_line E s = Inr t"
proof -
  let ?g = "c_gb s" and ?n = "length (gb_text (c_gb s))" and ?w = "cli_window E s" and ?p = "gb_point_offset (c_gb s)"
  obtain b where b: "gb_copy_to_buf ?g (replicate (u32_of (int (gb_data_size ?g) + 16)) uninit_byte) (gb_data_size ?g) = Inr (?n, b)"
    "length b = ?n + 16" "b ! ?n = NUL" using copied_line[OF assms(1,2)] by auto
  have w: "0 \<le> ?w" using assms(3) unfolding cli_window_def uint_nat by linarith
  have l: "s32_of (int ?n) = int ?n" using assms(1,2) by (auto simp: gb_text_def gb_inv_def)
  have p: "0 \<le> ?p" "?p \<le> int (ebuf ?g)" "point_counted ?g \<longrightarrow> ?p \<le> int ?n" using point_offset[OF assms(1)] assms(2) by auto
  define r where "r = (if ?p < ?w then (0, if int ?n < ?w then ?p + (int ?n - ?p) else ?p + (?w - ?p)) else (?p - ?w, ?p - ?w + ?w))"
  have "0 \<le> fst r \<and> fst r + max 0 (snd r - fst r) \<le> int ?n" using w p assms(4) by (auto simp: r_def)
  then have "\<exists>t. scrn_write b (fst r) (snd r - fst r) = Inr t" using scrn_write_ok[OF b(2,3)] by blast
  then show ?thesis unfolding shown_line_def Let_def b(1) rbind_Inr prod.case l r_def[symmetric] by (simp add: case_prod_beta)
qed

text \<open>A line shorter than the window is written whole.\<close>

lemma shown_line_text:
  assumes "gb_inv (c_gb s)" and "gb_text (c_gb s) \<noteq> []" and "int (ebuf (c_gb s)) < cli_window E s"
  shows "shown_line E s = Inr (gb_text (c_gb s))"
proof -
  let ?g = "c_gb s" and ?n = "length (gb_text (c_gb s))"
  have "unat (ncols E) < 65536" using unsigned_less[of "ncols E", where 'a = nat] by simp
  then have "cli_window E s < 65536" unfolding cli_window_def uint_nat by linarith
  then have e: "ebuf ?g + 16 < 2147483648" using assms(3) by simp
  have n: "?n \<le> ebuf ?g" using assms(1) by (auto simp: gb_text_def gb_inv_def)
  obtain b where b: "gb_copy_to_buf ?g (replicate (u32_of (int (gb_data_size ?g) + 16)) uninit_byte) (gb_data_size ?g) = Inr (?n, b)"
    "length b = ?n + 16" "take ?n b = gb_text ?g" using copied_line[OF assms(1) e] by auto
  have "gb_point_offset ?g < cli_window E s" using point_offset(2)[OF assms(1)] e assms(3) by auto
  then show ?thesis using b assms(2,3) n e by (auto simp: shown_line_def Let_def scrn_write_def)
qed

lemma cli_display_line_ok:
  assumes "gb_inv (c_gb s)" and "ebuf (c_gb s) + 16 < 2147483648" and "unat (c_plen s) < unat (ncols E)"
    and "point_counted (c_gb s) \<or> int (ebuf (c_gb s)) < cli_window E s"
  shows "\<exists>s'. cli_display_line E s = Inr s' \<and> c_gb s' = c_gb s \<and> c_vt s' = c_vt s \<and> c_hist s' = c_hist s \<and> c_plen s' \<in> {c_plen s, prompt E 0}"
proof -
  obtain t where "shown_line E s = Inr t" using shown_line_ok[OF assms] by blast
  then show ?thesis by (simp add: cli_display_line_def Let_def)
qed

section \<open>Editing sessions\<close>

text \<open>
  The abstract editor works on the text left and right of the cursor. Rubbing out with nothing
  left of the cursor is undefined in it (see \<open>key_ctrl_e_backspace_corrupts\<close>).
\<close>

datatype ed_key = Ins char | GoLeft | GoRight | GoHome | GoEnd | Rubout

fun ed_bytes :: "ed_key \<Rightarrow> string" where
  "ed_bytes (Ins c) = [c]"
| "ed_bytes GoLeft = vt100_cmd_strs ! 4"
| "ed_bytes GoRight = vt100_cmd_strs ! 3"
| "ed_bytes GoHome = vt100_cmd_strs ! 7"
| "ed_bytes GoEnd = vt100_cmd_strs ! 8"
| "ed_bytes Rubout = vt100_cmd_strs ! 5"

fun ed_step :: "string \<times> string \<Rightarrow> ed_key \<Rightarrow> (string \<times> string) option" where
  "ed_step (l, r) (Ins c) =
     (if 32 \<le> (of_char c :: nat) \<and> (of_char c :: nat) \<le> 126 then Some (l @ [c], r) else None)"
| "ed_step (l, r) GoLeft = Some (if l = [] then (l, r) else (butlast l, last l # r))"
| "ed_step (l, r) GoRight = Some (if r = [] then (l, r) else (l @ [hd r], tl r))"
| "ed_step (l, r) GoHome = Some ([], l @ r)"
| "ed_step (l, r) GoEnd = Some (l @ r, [])"
| "ed_step (l, r) Rubout = (if l = [] then None else Some (butlast l, r))"

fun ed_run :: "string \<times> string \<Rightarrow> ed_key list \<Rightarrow> (string \<times> string) option" where
  "ed_run z [] = Some z"
| "ed_run z (k # ks) = (case ed_step z k of None \<Rightarrow> None | Some z' \<Rightarrow> ed_run z' ks)"

text \<open>
  The line with its gap, and \<open>n\<close> more characters, fits on the terminal beside the prompt. A full gap is opened by
  nine bytes.
\<close>

definition room :: "cli_ext \<Rightarrow> cli_state \<Rightarrow> nat \<Rightarrow> bool" where
  "room E s n \<longleftrightarrow> max (unat (c_plen s)) (unat (prompt E 0)) + max (ebuf (c_gb s)) (length (gb_text (c_gb s)) + n + 8) + 1 < unat (ncols E)"

definition ed_rel :: "cli_ext \<Rightarrow> cli_state \<Rightarrow> string \<times> string \<Rightarrow> nat \<Rightarrow> bool" where
  "ed_rel E s z n \<longleftrightarrow> gb_inv (c_gb s) \<and> gb_abs (c_gb s) = z \<and> room E s n \<and> vt_idle (c_vt s)"

text \<open>The handler behind each key of the abstract editor.\<close>

fun ed_handler :: "cli_ext \<Rightarrow> ed_key \<Rightarrow> cli_state \<Rightarrow> cli_state res" where
  "ed_handler E (Ins c) s = handle_input_display E c s"
| "ed_handler E GoLeft s = rbind (vt100_do_cmd E 4 s) (handle_input_display E NUL)"
| "ed_handler E GoRight s = rbind (vt100_do_cmd E 3 s) (handle_input_display E NUL)"
| "ed_handler E GoHome s = rbind (vt100_do_cmd E 7 s) (handle_input_display E NUL)"
| "ed_handler E GoEnd s = rbind (vt100_do_cmd E 8 s) (handle_input_display E NUL)"
| "ed_handler E Rubout s = rbind (vt100_do_cmd E 5 s) (handle_input_display E NUL)"

lemma handle_input_display_NUL: "handle_input_display E NUL s = cli_display_line E s"
  by (simp add: handle_input_display_def)

lemma gb_text_abs: "gb_abs gb = (l, r) \<Longrightarrow> gb_text gb = l @ r"
  by (auto simp: gb_abs_def)

lemma room_facts:
  assumes "room E s n"
  shows "ebuf (c_gb s) + 24 < 2147483648" "unat (c_plen s) < unat (ncols E)" "int (ebuf (c_gb s)) < cli_window E s"
proof -
  have "unat (ncols E) < 65536" using unsigned_less[of "ncols E", where 'a = nat] by simp
  then show "ebuf (c_gb s) + 24 < 2147483648" "unat (c_plen s) < unat (ncols E)" using assms by (auto simp: room_def)
  have "unat (c_plen s) + ebuf (c_gb s) + 1 < unat (ncols E)" using assms by (auto simp: room_def)
  then show "int (ebuf (c_gb s)) < cli_window E s" unfolding cli_window_def uint_nat by linarith
qed

lemma ed_display:
  assumes "gb_inv (c_gb s)" "room E s n" "vt_idle (c_vt s)" "gb_abs (c_gb s) = z"
  shows "\<exists>s'. cli_display_line E s = Inr s' \<and> ed_rel E s' z n \<and> c_hist s' = c_hist s"
proof -
  obtain s' where s': "cli_display_line E s = Inr s'" "c_gb s' = c_gb s" "c_vt s' = c_vt s" "c_hist s' = c_hist s" "c_plen s' \<in> {c_plen s, prompt E 0}"
    using cli_display_line_ok[OF assms(1), of E] room_facts[OF assms(2)] by auto
  then have "room E s' n" using assms(2) by (auto simp: room_def)
  then show ?thesis using s' assms by (auto simp: ed_rel_def)
qed

lemma ed_handler_step:
  assumes rel: "ed_rel E s z (Suc n)" and step: "ed_step z k = Some z'" and ok: "alloc_ok E = (\<lambda>_. True)"
  shows "\<exists>s'. ed_handler E k s = Inr s' \<and> ed_rel E s' z' n \<and> c_hist s' = c_hist s"
proof -
  obtain l r where z: "z = (l, r)" by (cases z)
  let ?g = "c_gb s"
  have g: "gb_inv ?g" "gb_abs ?g = (l, r)" "room E s (Suc n)" "vt_idle (c_vt s)"
    using rel z by (auto simp: ed_rel_def)
  have lim: "ebuf ?g + 24 < 2147483648" by (rule room_facts(1)[OF g(3)])
  have fin: "\<exists>s'. cli_display_line E t = Inr s' \<and> ed_rel E s' z' n \<and> c_hist s' = c_hist s"
    if "gb_inv (c_gb t)" "gb_abs (c_gb t) = z'" "ebuf (c_gb t) \<le> max (ebuf ?g) (length l + length r + 9)" "length (fst z') + length (snd z') \<le> Suc (length l + length r)"
      "c_vt t = c_vt s" "c_hist t = c_hist s" "c_plen t = c_plen s" for t
  proof -
    have "length (gb_text ?g) = length l + length r" "length (gb_text (c_gb t)) = length (fst z') + length (snd z')"
      using gb_text_abs[OF g(2)] gb_text_abs[of "c_gb t" "fst z'" "snd z'"] that(2) by simp_all
    then have "room E t n" using g(3) that(3,4,7) by (auto simp: room_def)
    then show ?thesis using ed_display[OF that(1) _ _ that(2), of E n] that(5,6) g(4) by simp
  qed
  note dcmd = vt100_do_cmd_def handle_input_display_NUL
  show ?thesis
  proof (cases k)
    case (Ins c)
    then have c: "32 \<le> (of_char c :: nat)" "(of_char c :: nat) \<le> 126" "z' = (l @ [c], r)"
      using step z by (auto split: if_splits)
    obtain g' where g': "gb_insert (\<lambda>_. True) ?g c = Inr g'" "gb_inv g'" "gb_abs g' = (l @ [c], r)" "ebuf g' \<le> max (ebuf ?g) (length l + length r + 9)"
      using gb_insert_room[OF g(1,2), of "\<lambda>_. True" c] lim by auto
    define t where "t = (if \<not> gb_point_at_end g' \<or> \<not> gb_point_at_start g' then cli_set_flag DISPLAY_LINE (s\<lparr>c_gb := g'\<rparr>) else s\<lparr>c_gb := g'\<rparr>)"
    have tg: "c_gb t = g'" "c_vt t = c_vt s" "c_hist t = c_hist s" "c_plen t = c_plen s" by (simp_all add: t_def)
    have t1: "handle_input_display E c s = cli_display_line E t" using c(1,2) g'(1) by (simp add: handle_input_display_def Let_def t_def ok)
    have "\<exists>s'. cli_display_line E t = Inr s' \<and> ed_rel E s' z' n \<and> c_hist s' = c_hist s"
      by (rule fin[OF _ _ _ _ tg(2-4)]) (use g' tg(1) c(3) in simp_all)
    then show ?thesis using t1 Ins by simp
  next
    case GoLeft
    then show ?thesis using step z gb_move_left_abs[OF g(1,2)] g gb_point_at_start_abs[OF g(1,2)] fin
      by (auto simp: dcmd key_left_arr_def)
  next
    case GoRight
    then show ?thesis using step z gb_move_right_abs[OF g(1,2)] g gb_eof_abs[OF g(1,2)] fin
      by (auto simp: dcmd key_right_arr_def)
  next
    case GoHome
    then show ?thesis using step z gb_set_point_abs[OF g(1), of 0] g gb_text_abs[OF g(2)] fin
      by (auto simp: dcmd key_ctrl_a_def)
  next
    case GoEnd
    then show ?thesis using step z gb_set_point_end_abs[OF g(1)] g gb_text_abs[OF g(2)] fin
      by (auto simp: dcmd key_ctrl_e_def)
  next
    case Rubout
    then obtain l' c where l: "l = l' @ [c]" using step z by (cases l rule: rev_cases) auto
    then show ?thesis using Rubout step z gbuf.rubout[OF g(1), of l' c r] g gb_point_at_start_abs[OF g(1,2)] fin lim
      by (auto simp: dcmd key_backspace_def)
  qed
qed

lemma vt100_feed_acc:
  "vt100_feed v rs cs = rbind (vt100_feed v [] cs) (\<lambda>(r, v'). Inr (rs @ r, v'))"
proof (induction cs arbitrary: v rs)
  case (Cons c cs)
  show ?case
  proof (cases "vt100_parse_input v c")
    case (Inr p)
    obtain r v' where "p = (r, v')" by (cases p)
    then show ?thesis using Inr Cons[of v' "rs @ [r]"] Cons[of v' "[r]"]
      by (cases "vt100_feed v' [] cs") auto
  qed simp
qed simp

lemma cli_input_key:
  "vt100_feed (c_vt s) [] str = Inr (replicate (length str - 1) VT100_CONTINUE @ [i], v') \<Longrightarrow> 0 < i \<Longrightarrow>
   cli_input E s str = rbind (vt100_do_cmd E i (s\<lparr>c_vt := v'\<rparr>)) (handle_input_display E NUL)"
proof (induction str arbitrary: s)
  case (Cons c cs)
  obtain r v1 where p: "vt100_parse_input (c_vt s) c = Inr (r, v1)"
    using Cons.prems(1) by (cases "vt100_parse_input (c_vt s) c") auto
  obtain rs v2 where f: "vt100_feed v1 [] cs = Inr (rs, v2)"
    using Cons.prems(1) p vt100_feed_acc[of v1 "[r]" cs] by (cases "vt100_feed v1 [] cs") auto
  have eq: "r # rs = replicate (length cs) VT100_CONTINUE @ [i]" "v2 = v'"
    using Cons.prems(1) p f vt100_feed_acc[of v1 "[r]" cs] by auto
  show ?case
  proof (cases cs)
    case Nil
    then show ?thesis using p f eq Cons.prems(2)
      by (auto simp: cli_input_def cli_input1_def rbind_def split: sum.split)
  next
    case (Cons d ds)
    then have r: "r = VT100_CONTINUE" and rs: "rs = replicate (length cs - 1) VT100_CONTINUE @ [i]"
      using eq(1) by auto
    have c1: "cli_input1 E s c = Inr (s\<lparr>c_vt := v1\<rparr>)"
      using p r by (simp add: cli_input1_def VT100_CONTINUE_def VT100_DONE_def)
    show ?thesis using Cons.IH[of "s\<lparr>c_vt := v1\<rparr>"] f rs eq(2) Cons.prems(2) c1
      by (simp add: cli_input_def)
  qed
qed simp

lemma cli_input_append:
  "cli_input E s (xs @ ys) = rbind (cli_input E s xs) (\<lambda>s'. cli_input E s' ys)"
  unfolding cli_input_def
proof (induction xs arbitrary: s)
  case (Cons x xs)
  then show ?case by (cases "cli_input1 E s x") auto
qed simp

text \<open>The bytes of a key reach its handler, and leave the decoder idle.\<close>

lemma cli_input_ed_key:
  assumes "vt_idle (c_vt s)" and "\<And>c. k = Ins c \<Longrightarrow> 32 \<le> (of_char c :: nat) \<and> (of_char c :: nat) \<le> 126"
  shows "\<exists>v'. vt_idle v' \<and> cli_input E s (ed_bytes k) = ed_handler E k (s\<lparr>c_vt := v'\<rparr>)"
proof -
  have key: "\<exists>v'. vt_idle v' \<and> cli_input E s (vt100_cmd_strs ! i) =
      rbind (vt100_do_cmd E (int i) (s\<lparr>c_vt := v'\<rparr>)) (handle_input_display E NUL)"
    if "1 \<le> i" "i < 27" for i
  proof -
    have "i \<in> set [1..<27]" using that by simp
    then obtain v' where "vt100_feed (c_vt s) [] (vt100_cmd_strs ! i) =
        Inr (replicate (length (vt100_cmd_strs ! i) - 1) VT100_CONTINUE @ [int i], v')" "vt_idle v'"
      using vt100_feed_keys[OF assms(1)] by blast
    then show ?thesis using cli_input_key[of s "vt100_cmd_strs ! i" "int i" v' E] that by auto
  qed
  show ?thesis
  proof (cases k)
    case (Ins c)
    then obtain v' where v: "vt100_parse_input (c_vt s) c = Inr (VT100_DONE, v')" "vt_idle v'"
      using vt100_parse_printable[OF assms(1)] assms(2) by blast
    then show ?thesis using Ins
      by (auto simp: cli_input_def cli_input1_def VT100_DONE_def rbind_def split: sum.split)
  qed (use key[of 3] key[of 4] key[of 5] key[of 7] key[of 8] in simp_all)
qed

lemma cli_input_ed_run:
  assumes "ed_rel E s z (length ks)" and "ed_run z ks = Some z'" and "alloc_ok E = (\<lambda>_. True)"
  shows "\<exists>s'. cli_input E s (concat (map ed_bytes ks)) = Inr s' \<and> ed_rel E s' z' 0 \<and> c_hist s' = c_hist s"
  using assms(1,2)
proof (induction ks arbitrary: s z)
  case Nil
  then show ?case by (simp add: cli_input_def)
next
  case (Cons k ks)
  then obtain z1 where z1: "ed_step z k = Some z1" "ed_run z1 ks = Some z'" by (auto split: option.splits)
  have pr: "32 \<le> (of_char c :: nat) \<and> (of_char c :: nat) \<le> 126" if "k = Ins c" for c
    using z1(1) that by (cases z) (auto split: if_splits)
  obtain v' where v: "vt_idle v'" "cli_input E s (ed_bytes k) = ed_handler E k (s\<lparr>c_vt := v'\<rparr>)"
    using cli_input_ed_key[of s k E] Cons.prems(1) pr by (auto simp: ed_rel_def)
  have "ed_rel E (s\<lparr>c_vt := v'\<rparr>) z (Suc (length ks))" using Cons.prems(1) v(1) by (simp add: ed_rel_def room_def)
  then obtain s1 where s1: "ed_handler E k (s\<lparr>c_vt := v'\<rparr>) = Inr s1" "ed_rel E s1 z1 (length ks)" "c_hist s1 = c_hist s"
    using ed_handler_step[of E "s\<lparr>c_vt := v'\<rparr>" z "length ks" k z1] z1(1) assms(3) by auto
  obtain s2 where "cli_input E s1 (concat (map ed_bytes ks)) = Inr s2" "ed_rel E s2 z' 0" "c_hist s2 = c_hist s1"
    using Cons.IH[OF s1(2) z1(2)] by auto
  then show ?case using s1 v(2) by (simp add: cli_input_append)
qed

section \<open>Properties\<close>

definition cli_start_state :: cli_state where
  "cli_start_state = \<lparr>c_gb = \<lparr>buf = replicate 8 (CHR '' ''), ebuf = 8, point = 0, gap = 0, egap = 8\<rparr>,
     c_hist = hist_init, c_kill = KNull, c_flags = 0, c_plen = 0, c_quit = False,
     c_vt = \<lparr>vt_bufpos = -1, vt_buf = replicate 8 NUL, vt_state = VT100_INIT\<rparr>\<rparr>"

definition cli_test_ext :: cli_ext where
  "cli_test_ext = \<lparr>alloc_ok = (\<lambda>_. True), execute = Inr, auto_complete = Inr, prompt = (\<lambda>_. 8), ncols = 80\<rparr>"

lemma cli_start_facts: "gb_inv (c_gb cli_start_state)" "gb_abs (c_gb cli_start_state) = ([], [])" "vt_idle (c_vt cli_start_state)"
    "c_hist cli_start_state = hist_init" "n + 17 < 80 \<Longrightarrow> room cli_test_ext cli_start_state n"
  by (simp_all add: cli_start_state_def gb_inv_def gb_abs_def gb_text_def gb_pos_def vt_idle_def vt_inv_def VT100_BUF_SIZE_def room_def cli_test_ext_def)



text \<open>
  Ctrl-E with nothing right of the cursor puts the point at the end of the gap, and the offset then counts the gap. With
  a gap wider than the terminal the window that is written begins behind the copy of the line.
\<close>

definition wide_gap_state :: cli_state where
  "wide_gap_state = cli_start_state\<lparr>c_gb := \<lparr>buf = replicate 100 (CHR '' ''), ebuf = 100, point = 0, gap = 0, egap = 100\<rparr>\<rparr>"

theorem ctrl_e_display_overruns:
  "gb_inv (c_gb wide_gap_state) \<and> cli_input cli_test_ext wide_gap_state [CHR 0x05] = Inl Fault"
proof -
  have "case cli_input cli_test_ext wide_gap_state [CHR 0x05] of Inl Fault \<Rightarrow> True | _ \<Rightarrow> False" by code_simp
  moreover have "gb_inv (c_gb wide_gap_state)" by code_simp
  ultimately show ?thesis by (auto split: sum.splits c_error.splits)
qed

text \<open>
  The decoder never writes outside its eight-byte buffer, whatever bytes arrive; it
  returns \<open>VT100_CONTINUE\<close>, \<open>VT100_DONE\<close> or an index of the key table, and waits for more
  bytes exactly when it returns \<open>VT100_CONTINUE\<close>.
\<close>

theorem vt100_parse_input_safe:
  assumes "vt_inv v"
  shows "\<exists>r v'. vt100_parse_input v c = Inr (r, v') \<and> vt_inv v' \<and> -2 \<le> r \<and> r < 27 \<and>
    (r = VT100_CONTINUE \<longleftrightarrow> \<not> vt_idle v')"
  by (rule vt100_parse_input_inv[OF assms])

theorem vt100_parse_input_safe_witness:
  "\<exists>r v'. vt100_parse_input \<lparr>vt_bufpos = 8, vt_buf = replicate 8 ESC, vt_state = VT100_ESCAPE\<rparr> (CHR ''x'') = Inr (r, v') \<and>
    vt_inv v' \<and> -2 \<le> r \<and> r < 27 \<and> (r = VT100_CONTINUE \<longleftrightarrow> \<not> vt_idle v')"
  using vt100_parse_input_safe[of "\<lparr>vt_bufpos = 8, vt_buf = replicate 8 ESC, vt_state = VT100_ESCAPE\<rparr>" "CHR ''x''"]
  by (simp add: vt_inv_def VT100_BUF_SIZE_def)

text \<open>
  From an idle decoder the byte sequence of every key of the table is answered by
  \<open>VT100_CONTINUE\<close> on each byte but the last and by the key's own index on the last, after
  which the decoder is idle again.
\<close>

theorem vt100_key_decodes:
  assumes "vt_idle v" and "1 \<le> i" and "i < length vt100_cmd_strs"
  shows "\<exists>v'. vt100_feed v [] (vt100_cmd_strs ! i) =
    Inr (replicate (length (vt100_cmd_strs ! i) - 1) VT100_CONTINUE @ [int i], v') \<and> vt_idle v'"
proof -
  have "i \<in> set [1..<27]" using assms(2,3) by (simp add: vt100_cmd_strs_def)
  then show ?thesis using vt100_feed_keys[OF assms(1)] by blast
qed

theorem vt100_key_decodes_witness:
  "\<exists>v'. vt100_feed (c_vt cli_start_state) [] ([ESC] @ ''[3~'') = Inr ([-2, -2, -2, 14], v') \<and> vt_idle v'"
  using vt100_key_decodes[OF cli_start_facts(3), of 14]
  by (simp add: vt100_cmd_strs_def VT100_CONTINUE_def numeral_eq_Suc)

text \<open>
  On an empty line, Ctrl-E followed by backspace passes the start-of-line check (the point
  is at the end of the gap, not at offset zero) and moves the end of the gap past the end of
  the buffer; redisplaying the line then copies outside the buffer.
\<close>

theorem key_ctrl_e_backspace_corrupts:
  "cli_input cli_test_ext cli_start_state [CHR 0x05, CHR 0x7F] = Inl Fault"
proof -
  let ?E = cli_test_ext and ?s = cli_start_state
  let ?g = "(c_gb ?s)\<lparr>point := 8\<rparr>"
  obtain v1 where v1: "vt_idle v1" "cli_input ?E ?s [CHR 0x05] = ed_handler ?E GoEnd (?s\<lparr>c_vt := v1\<rparr>)"
    using cli_input_ed_key[OF cli_start_facts(3), of GoEnd ?E] by (auto simp: vt100_cmd_strs_def)
  have "gb_inv ?g" by (simp add: cli_start_state_def gb_inv_def)
  moreover have "room ?E (?s\<lparr>c_vt := v1, c_gb := ?g\<rparr>) 0" using cli_start_facts(5)[of 0] by (simp add: room_def gb_text_def)
  ultimately obtain s2 where s2: "cli_display_line ?E (?s\<lparr>c_vt := v1, c_gb := ?g\<rparr>) = Inr s2" "c_gb s2 = ?g" "c_vt s2 = v1"
    using cli_display_line_ok[of "?s\<lparr>c_vt := v1, c_gb := ?g\<rparr>" ?E] room_facts[of ?E "?s\<lparr>c_vt := v1, c_gb := ?g\<rparr>" 0] by auto
  have in1: "cli_input ?E ?s [CHR 0x05] = Inr s2"
    using v1(2) s2(1) by (simp add: vt100_do_cmd_def key_ctrl_e_def gb_set_point_def handle_input_display_NUL)
      (simp add: cli_start_state_def)
  obtain v2 where v2: "cli_input ?E s2 [CHR 0x7F] = ed_handler ?E Rubout (s2\<lparr>c_vt := v2\<rparr>)"
    using cli_input_ed_key[of s2 Rubout ?E] s2(3) v1(1) by (auto simp: vt100_cmd_strs_def)
  let ?g' = "?g\<lparr>point := 0, egap := 9\<rparr>"
  have bs: "key_backspace (s2\<lparr>c_vt := v2\<rparr>) = Inr (cli_set_flag DELETE_CHAR (s2\<lparr>c_vt := v2, c_gb := ?g'\<rparr>))"
    using s2(2) by (simp add: key_backspace_def gb_point_at_start_def gb_move_left_def gb_del_def cli_start_state_def)
  have "gb_data_size ?g' = 4294967295" "u32_of (int (ebuf ?g') - int (egap ?g')) = 4294967295"
    by (simp_all add: gb_data_size_def cli_start_state_def u32_of_def)
  then have "cli_display_line ?E (cli_set_flag DELETE_CHAR (s2\<lparr>c_vt := v2, c_gb := ?g'\<rparr>)) = Inl Fault"
    by (simp add: cli_display_line_def shown_line_def gb_copy_to_buf_def Let_def u32_of_def)
  then have "cli_input ?E s2 [CHR 0x7F] = Inl Fault"
    using v2 bs by (simp add: vt100_do_cmd_def handle_input_display_NUL)
  then show ?thesis using in1 cli_input_append[of ?E ?s "[CHR 0x05]" "[CHR 0x7F]"] by simp
qed

end
