(* ===== verification/Env.thy ===== *)
theory Env
  imports Prelude
begin

text \<open>
  The environment variables of the command line (lib/cli/cli_env.c): a queue of nodes and the
  substitution of \<open>${name}\<close> and \<open>$(name)\<close> in a line. Freed strings are kept apart from valid ones,
  so that a use after \<open>free\<close> and a second \<open>free\<close> are faults; so is the call of a function
  pointer that was never set. The locale \<open>var_store\<close> says what a store of variables promises for
  names that are not bound yet, which is as far as the code keeps it.
\<close>

section \<open>Nodes\<close>

datatype cli_sfunc = Sfunc_uninit | Sfunc_null | Sfunc "string \<Rightarrow> string"

text \<open>\<open>None\<close> as the value is a pointer to freed memory.\<close>

record env_node =
  en_var :: string
  en_val :: "string option"
  en_sfunc :: cli_sfunc

record cli_env =
  ev_head :: "env_node list"
  ev_count :: int

definition env_free :: "cli_env \<Rightarrow> nat option \<Rightarrow> (int \<times> cli_env) res" where
  "env_free env n =
     (case n of
        None \<Rightarrow> Inr (- 1, env)
      | Some i \<Rightarrow>
          (case en_val (ev_head env ! i) of
             None \<Rightarrow> Inl Fault
           | Some _ \<Rightarrow> Inr (0, env\<lparr>ev_head := take i (ev_head env) @ drop (Suc i) (ev_head env), ev_count := ev_count env - 1\<rparr>)))"

definition cli_env_create :: cli_env where
  "cli_env_create = \<lparr>ev_head = [], ev_count = 0\<rparr>"

text \<open>The nodes are freed from the front.\<close>

fun destroy_nodes :: "nat \<Rightarrow> cli_env \<Rightarrow> cli_env res" where
  "destroy_nodes 0 env = Inr env"
| "destroy_nodes (Suc k) env = rbind (env_free env (Some 0)) (\<lambda>(r, env'). destroy_nodes k env')"

definition cli_env_destroy :: "cli_env \<Rightarrow> cli_env res" where
  "cli_env_destroy env = destroy_nodes (length (ev_head env)) env"

fun find_node :: "env_node list \<Rightarrow> string \<Rightarrow> nat option" where
  "find_node [] var = None"
| "find_node (n # ns) var = (if en_var n = var then Some 0 else map_option Suc (find_node ns var))"

definition find_env :: "cli_env \<Rightarrow> string \<Rightarrow> nat option" where
  "find_env env var = find_node (ev_head env) var"

text \<open>
  For an existing variable the code frees \<open>val\<close> and assigns \<open>var\<close>. A new node has its function
  pointer unset. The result is the index of the node; \<open>mem\<close> says whether \<open>malloc\<close> succeeds.
\<close>

definition env_set :: "bool \<Rightarrow> cli_env \<Rightarrow> string \<Rightarrow> string \<Rightarrow> (nat option \<times> cli_env) res" where
  "env_set mem env var val =
     (case find_env env var of
        Some i \<Rightarrow>
          (case en_val (ev_head env ! i) of
             None \<Rightarrow> Inl Fault
           | Some _ \<Rightarrow> Inr (Some i, env\<lparr>ev_head := (ev_head env)[i := (ev_head env ! i)\<lparr>en_val := None, en_var := val\<rparr>]\<rparr>))
      | None \<Rightarrow>
          if \<not> mem then Inr (None, env)
          else Inr (Some (length (ev_head env)),
            env\<lparr>ev_head := ev_head env @ [\<lparr>en_var = var, en_val = Some val, en_sfunc = Sfunc_uninit\<rparr>], ev_count := ev_count env + 1\<rparr>))"

definition cli_env_set :: "bool \<Rightarrow> cli_env \<Rightarrow> string \<Rightarrow> string \<Rightarrow> (int \<times> cli_env) res" where
  "cli_env_set mem env var val = rbind (env_set mem env var val) (\<lambda>(n, env'). Inr (if n = None then - 1 else 0, env'))"

definition cli_env_string :: "bool \<Rightarrow> cli_env \<Rightarrow> string \<Rightarrow> cli_sfunc \<Rightarrow> string \<Rightarrow> (int \<times> cli_env) res" where
  "cli_env_string mem env var sfunc val =
     rbind (env_set mem env var val) (\<lambda>(n, env').
       case n of None \<Rightarrow> Inr (- 1, env')
       | Some i \<Rightarrow> Inr (0, env'\<lparr>ev_head := (ev_head env')[i := (ev_head env' ! i)\<lparr>en_sfunc := sfunc\<rparr>]\<rparr>))"

definition node_value :: "env_node \<Rightarrow> string res" where
  "node_value n =
     (case en_val n of
        None \<Rightarrow> Inl Fault
      | Some v \<Rightarrow> (case en_sfunc n of Sfunc_uninit \<Rightarrow> Inl Fault | Sfunc_null \<Rightarrow> Inr v | Sfunc f \<Rightarrow> Inr (f v)))"

definition cli_env_get :: "cli_env \<Rightarrow> string \<Rightarrow> string option res" where
  "cli_env_get env var =
     (case find_env env var of
        None \<Rightarrow> Inr None
      | Some i \<Rightarrow> rbind (node_value (ev_head env ! i)) (\<lambda>v. Inr (Some v)))"

definition cli_env_del :: "cli_env \<Rightarrow> string \<Rightarrow> (int \<times> cli_env) res" where
  "cli_env_del env var = env_free env (find_env env var)"

definition cli_env_count :: "cli_env \<Rightarrow> int" where
  "cli_env_count env = ev_count env"

text \<open>The loop stops when it has stored exactly \<open>max_size\<close> nodes, so a size below one never stops it.\<close>

definition cli_env_get_all :: "cli_env \<Rightarrow> int \<Rightarrow> env_node list res" where
  "cli_env_get_all env max_size =
     (if max_size \<le> 0 then (if ev_head env = [] then Inr [] else Inl Fault) else Inr (take (nat max_size) (ev_head env)))"

section \<open>Substitution\<close>

definition closing :: "char \<Rightarrow> char option" where
  "closing c = (if c = CHR 0x7B then Some CHR 0x7D else if c = CHR 0x28 then Some CHR 0x29 else None)"

text \<open>A reference at the start of a text: the name and the text after the closing bracket.\<close>

definition reference :: "string \<Rightarrow> (string \<times> string) option" where
  "reference s =
     (case s of
        d # b # r \<Rightarrow>
          if d \<noteq> CHR ''$'' then None
          else (case closing b of
                  None \<Rightarrow> None
                | Some z \<Rightarrow> if z \<in> set r then Some (takeWhile (\<lambda>c. c \<noteq> z) r, tl (dropWhile (\<lambda>c. c \<noteq> z) r)) else None)
      | _ \<Rightarrow> None)"

lemma reference_length: "reference s = Some (nm, r) \<Longrightarrow> length s = length nm + length r + 3"
proof -
  assume a: "reference s = Some (nm, r)"
  then obtain d b t z where s: "s = d # b # t" "z \<in> set t" "nm = takeWhile (\<lambda>c. c \<noteq> z) t" "r = tl (dropWhile (\<lambda>c. c \<noteq> z) t)"
    by (auto simp: reference_def split: list.splits if_splits option.splits)
  have "dropWhile (\<lambda>c. c \<noteq> z) t \<noteq> []" using s(2) by (auto simp: dropWhile_eq_Nil_conv)
  then show ?thesis using s takeWhile_dropWhile_id[of "\<lambda>c. c \<noteq> z" t] by (cases "dropWhile (\<lambda>c. c \<noteq> z) t") (auto, metis add_Suc_right length_Cons length_append)
qed

text \<open>
  The loop at offset \<open>p\<close> of the line; \<open>t\<close> is what \<open>tmp\<close>, a buffer of \<open>sz + 1\<close> bytes, holds. A name
  without a variable is replaced by a fixed word.
\<close>

function subst_loop :: "cli_env \<Rightarrow> nat \<Rightarrow> nat \<Rightarrow> string \<Rightarrow> string \<Rightarrow> string res" where
  "subst_loop env sz p s t =
     (if s = [] \<or> sz \<le> p then Inr t
      else
        case reference s of
          None \<Rightarrow> if sz + 1 < length t + 1 then Inl Fault else subst_loop env sz (p + 1) (tl s) (t @ [hd s])
        | Some (nm, r) \<Rightarrow>
            rbind (cli_env_get env nm) (\<lambda>v.
              let w = (case v of None \<Rightarrow> ''o'' @ ''ops!'' | Some w \<Rightarrow> w) in
              if sz + 1 < length t + length w then Inl Fault else subst_loop env sz (p + (length s - length r)) r (t @ w)))"
  by pat_completeness auto
termination
  by (relation "measure (\<lambda>(env, sz, p, s, t). length s)") (auto dest: reference_length)

declare subst_loop.simps [simp del]

definition cli_env_substitution :: "cli_env \<Rightarrow> string \<Rightarrow> int \<Rightarrow> string res" where
  "cli_env_substitution env line sz =
     (if sz \<le> 0 then Inr line
      else rbind (subst_loop env (nat sz) 0 line []) (\<lambda>t.
        if nat sz < length t then Inl Fault else Inr (take (nat sz - 1) t)))"

section \<open>A store of variables\<close>

locale var_store =
  fixes bound :: "'s \<Rightarrow> 'k \<Rightarrow> bool"
    and lookup :: "'s \<Rightarrow> 'k \<rightharpoonup> 'r"
    and num :: "'s \<Rightarrow> int"
    and put :: "'s \<Rightarrow> 'k \<Rightarrow> 'v \<Rightarrow> 's res"
    and reads :: "'v \<Rightarrow> 'r"
  assumes put_new: "\<not> bound s k \<Longrightarrow> \<exists>s'. put s k v = Inr s' \<and> (\<forall>j. bound s' j \<longleftrightarrow> j = k \<or> bound s j) \<and>
    lookup s' = (lookup s)(k \<mapsto> reads v) \<and> num s' = num s + 1"
begin

lemma put_all:
  assumes "distinct (map fst kvs)" and "\<forall>k \<in> fst ` set kvs. \<not> bound s k"
  shows "\<exists>s'. rfold (\<lambda>s kv. put s (fst kv) (snd kv)) s kvs = Inr s' \<and>
    lookup s' = lookup s ++ (\<lambda>k. map_option reads (map_of kvs k)) \<and> num s' = num s + int (length kvs)"
  using assms
proof (induction kvs arbitrary: s)
  case (Cons kv kvs)
  obtain s1 where s1: "put s (fst kv) (snd kv) = Inr s1" "\<forall>j. bound s1 j \<longleftrightarrow> j = fst kv \<or> bound s j"
    "lookup s1 = (lookup s)(fst kv \<mapsto> reads (snd kv))" "num s1 = num s + 1"
    using put_new[of s "fst kv" "snd kv"] Cons.prems(2) by auto
  have d: "distinct (map fst kvs)" "fst kv \<notin> fst ` set kvs" using Cons.prems(1) by simp_all
  have nb: "\<forall>k \<in> fst ` set kvs. \<not> bound s1 k"
  proof
    fix k
    assume k: "k \<in> fst ` set kvs"
    then have "\<not> bound s k" using Cons.prems(2) by auto
    moreover have "k \<noteq> fst kv" using k d(2) by metis
    ultimately show "\<not> bound s1 k" by (simp add: s1(2)[THEN spec, of k])
  qed
  obtain s' where s': "rfold (\<lambda>s kv. put s (fst kv) (snd kv)) s1 kvs = Inr s'"
    "lookup s' = lookup s1 ++ (\<lambda>k. map_option reads (map_of kvs k))" "num s' = num s1 + int (length kvs)"
    using Cons.IH[OF d(1) nb] by blast
  have "map_of kvs (fst kv) = None" using Cons.prems(1) by (simp add: map_of_eq_None_iff)
  then have "lookup s' = lookup s ++ (\<lambda>k. map_option reads (map_of (kv # kvs) k))"
    unfolding s'(2) s1(3) by (cases kv) (auto simp: map_add_def fun_eq_iff split: option.split)
  then show ?case using s1 s' by auto
qed (simp add: map_add_def)

end

definition env_bound :: "cli_env \<Rightarrow> string \<Rightarrow> bool" where
  "env_bound env x \<longleftrightarrow> find_env env x \<noteq> None"

definition env_lookup :: "cli_env \<Rightarrow> string \<rightharpoonup> string res" where
  "env_lookup env x = map_option (\<lambda>i. node_value (ev_head env ! i)) (find_env env x)"

definition env_put :: "cli_env \<Rightarrow> string \<Rightarrow> cli_sfunc \<times> string \<Rightarrow> cli_env res" where
  "env_put env x fv = rbind (cli_env_string True env x (fst fv) (snd fv)) (\<lambda>(r, env'). Inr env')"

definition env_reads :: "cli_sfunc \<times> string \<Rightarrow> string res" where
  "env_reads fv = node_value \<lparr>en_var = [], en_val = Some (snd fv), en_sfunc = fst fv\<rparr>"

lemma cli_env_get_lookup: "cli_env_get env x = (case env_lookup env x of None \<Rightarrow> Inr None | Some r \<Rightarrow> rbind r (\<lambda>v. Inr (Some v)))"
  by (auto simp: cli_env_get_def env_lookup_def split: option.splits)

lemma find_node_append:
  "find_node (ns @ [n]) x = (case find_node ns x of Some i \<Rightarrow> Some i | None \<Rightarrow> if en_var n = x then Some (length ns) else None)"
  by (induction ns) (auto split: option.splits)

lemma find_node_Some: "find_node ns x = Some i \<Longrightarrow> i < length ns \<and> en_var (ns ! i) = x"
  by (induction ns arbitrary: i) (auto split: if_splits)

lemma cli_env_string_new:
  assumes "\<not> env_bound env x"
  shows "cli_env_string True env x f v = Inr (0, env\<lparr>ev_head := ev_head env @ [\<lparr>en_var = x, en_val = Some v, en_sfunc = f\<rparr>],
    ev_count := ev_count env + 1\<rparr>)"
  using assms by (simp add: cli_env_string_def env_set_def env_bound_def)

interpretation env: var_store env_bound env_lookup cli_env_count env_put env_reads
proof unfold_locales
  fix env :: cli_env and k v
  assume nb: "\<not> env_bound env k"
  let ?n = "\<lparr>en_var = k, en_val = Some (snd v), en_sfunc = fst v\<rparr>"
  let ?e = "env\<lparr>ev_head := ev_head env @ [?n], ev_count := ev_count env + 1\<rparr>"
  have p: "env_put env k v = Inr ?e" using cli_env_string_new[OF nb] by (simp add: env_put_def)
  have f: "find_env ?e j = (case find_env env j of Some i \<Rightarrow> Some i | None \<Rightarrow> if k = j then Some (length (ev_head env)) else None)" for j
    by (simp add: find_env_def find_node_append)
  have "env_lookup ?e = (env_lookup env)(k \<mapsto> env_reads v)"
  proof
    fix j
    show "env_lookup ?e j = ((env_lookup env)(k \<mapsto> env_reads v)) j"
    proof (cases "find_env env j")
      case None
      then show ?thesis by (simp add: env_lookup_def f env_reads_def node_value_def)
    next
      case (Some i)
      then have "i < length (ev_head env)" "j \<noteq> k" using find_node_Some[of "ev_head env" j i] nb by (auto simp: find_env_def env_bound_def)
      then show ?thesis using Some f[of j] by (simp add: env_lookup_def nth_append)
    qed
  qed
  moreover have "\<forall>j. env_bound ?e j \<longleftrightarrow> j = k \<or> env_bound env j" by (auto simp: env_bound_def f split: option.splits)
  ultimately show "\<exists>s'. env_put env k v = Inr s' \<and> (\<forall>j. env_bound s' j \<longleftrightarrow> j = k \<or> env_bound env j) \<and>
    env_lookup s' = (env_lookup env)(k \<mapsto> env_reads v) \<and> cli_env_count s' = cli_env_count env + 1"
    using p by (auto simp: cli_env_count_def)
qed

section \<open>Properties\<close>

text \<open>
  Variables registered once each, with their functions, in an empty environment read back:
  \<open>cli_env_get\<close> gives the function's result on the stored string, and nothing for another name.
\<close>

theorem env_variables_read_back:
  assumes "distinct (map fst vars)"
  shows "\<exists>env. rfold (\<lambda>env kv. env_put env (fst kv) (Sfunc (fst (snd kv)), snd (snd kv))) cli_env_create vars = Inr env \<and>
    cli_env_count env = int (length vars) \<and>
    (\<forall>x. cli_env_get env x = Inr (map_option (\<lambda>gv. fst gv (snd gv)) (map_of vars x)))"
proof -
  let ?kvs = "map (\<lambda>(x, g, v). (x, Sfunc g, v)) vars"
  have fold: "rfold (\<lambda>env kv. env_put env (fst kv) (snd kv)) e ?kvs =
    rfold (\<lambda>env kv. env_put env (fst kv) (Sfunc (fst (snd kv)), snd (snd kv))) e vars" for e
    by (induction vars arbitrary: e) (auto intro: rbind_cong)
  have k: "map fst ?kvs = map fst vars" by (induction vars) auto
  have b: "\<not> env_bound cli_env_create x" "env_lookup cli_env_create x = None" for x
    by (simp_all add: env_bound_def env_lookup_def find_env_def cli_env_create_def)
  obtain env where e: "rfold (\<lambda>env kv. env_put env (fst kv) (snd kv)) cli_env_create ?kvs = Inr env"
    "env_lookup env = env_lookup cli_env_create ++ (\<lambda>k. map_option env_reads (map_of ?kvs k))"
    "cli_env_count env = cli_env_count cli_env_create + int (length ?kvs)"
    using env.put_all[of ?kvs cli_env_create] assms b(1) unfolding k by blast
  have m: "map_of ?kvs x = map_option (\<lambda>(g, v). (Sfunc g, v)) (map_of vars x)" for x by (induction vars) auto
  have "cli_env_get env x = Inr (map_option (\<lambda>gv. fst gv (snd gv)) (map_of vars x))" for x
    unfolding cli_env_get_lookup e(2)
    by (cases "map_of vars x") (auto simp: map_add_def m b(2) env_reads_def node_value_def)
  then show ?thesis using e(1,3) fold by (auto simp: cli_env_count_def cli_env_create_def)
qed

theorem env_variables_read_back_witness:
  "\<exists>env. rfold (\<lambda>env kv. env_put env (fst kv) (Sfunc (fst (snd kv)), snd (snd kv))) cli_env_create
      [(''a'', rev, ''xy''), (''b'', tl, ''z'')] = Inr env \<and> cli_env_count env = 2 \<and> cli_env_get env ''a'' = Inr (Some ''yx'')"
  using env_variables_read_back[of "[(''a'', rev, ''xy''), (''b'', tl, ''z'')]"] by fastforce

lemma reference_plain: "c \<noteq> CHR ''$'' \<Longrightarrow> reference (c # r) = None"
  by (cases r) (simp_all add: reference_def)

lemma subst_loop_plain:
  "CHR ''$'' \<notin> set s \<Longrightarrow> p + length s \<le> sz \<Longrightarrow>
    subst_loop env sz p (s @ r) t = (if length t + length s \<le> sz + 1 \<or> s = [] then subst_loop env sz (p + length s) r (t @ s) else Inl Fault)"
proof (induction s arbitrary: p t)
  case (Cons c s)
  then have "reference (c # s @ r) = None" by (intro reference_plain) auto
  then show ?case using Cons by (subst subst_loop.simps) auto
qed simp

lemma subst_loop_end: "subst_loop env sz p [] t = Inr t"
  by (subst subst_loop.simps) simp

lemma reference_at:
  assumes "closing b = Some z" and "z \<notin> set nm"
  shows "reference (CHR ''$'' # b # nm @ z # r) = Some (nm, r)"
proof -
  have "takeWhile (\<lambda>c. c \<noteq> z) (nm @ z # r) = nm" "dropWhile (\<lambda>c. c \<noteq> z) (nm @ z # r) = z # r"
    using assms(2) by (induction nm) auto
  then show ?thesis using assms(1) by (simp add: reference_def)
qed

text \<open>
  C26: a reference in a line is replaced by the variable's value when the result fits the line's
  buffer, and a longer result overruns the scratch buffer on the stack: nothing bounds the copy.
\<close>

theorem env_substitution_expands:
  assumes "cli_env_get env nm = Inr (Some v)" and "closing b = Some z" and "z \<notin> set nm"
    and "CHR ''$'' \<notin> set pre" and "CHR ''$'' \<notin> set post" and "length (pre @ CHR ''$'' # b # nm @ z # post) < n"
  shows "cli_env_substitution env (pre @ CHR ''$'' # b # nm @ z # post) (int n) =
    (if length pre + length v + length post \<le> n then Inr (take (n - 1) (pre @ v @ post)) else Inl Fault)"
proof -
  let ?r = "CHR ''$'' # b # nm @ z # post" and ?q = "length pre + (3 + length nm)"
  have 1: "subst_loop env n 0 (pre @ ?r) [] = subst_loop env n (length pre) ?r pre"
    using subst_loop_plain[of pre 0 n env ?r "[]"] assms(4,6) by auto
  have 2: "subst_loop env n (length pre) ?r pre =
      (if n + 1 < length pre + length v then Inl Fault else subst_loop env n ?q post (pre @ v))"
    using assms(1,6) reference_at[OF assms(2,3), of post] by (subst subst_loop.simps) simp
  have 3: "subst_loop env n ?q post (pre @ v) = (if length pre + length v + length post \<le> n + 1 \<or> post = [] then Inr (pre @ v @ post) else Inl Fault)"
    using subst_loop_plain[OF assms(5), of ?q n env "[]" "pre @ v"] assms(6) by (auto simp: subst_loop_end)
  show ?thesis using assms(6) unfolding cli_env_substitution_def by (auto simp: 1 2 3)
qed

theorem env_substitution_expands_witness:
  "cli_env_substitution (cli_env_create\<lparr>ev_head := [\<lparr>en_var = ''p'', en_val = Some ''abc'', en_sfunc = Sfunc_null\<rparr>]\<rparr>)
     (''set '' @ CHR ''$'' # CHR 0x28 # ''p'' @ CHR 0x29 # '' 1'') (int 64) = Inr ''set abc 1''"
  using env_substitution_expands[of "cli_env_create\<lparr>ev_head := [\<lparr>en_var = ''p'', en_val = Some ''abc'', en_sfunc = Sfunc_null\<rparr>]\<rparr>" "''p''"
    "''abc''" "CHR 0x28" "CHR 0x29" "''set ''" "'' 1''" 64]
  by (simp add: cli_env_get_def find_env_def node_value_def closing_def)

text \<open>
  Setting a variable a second time loses it: the new value is stored as the name, so the
  variable is not found any more, and reading the variable named like the value uses freed memory.
\<close>

theorem env_set_again_loses:
  assumes "\<not> env_bound env x" and "\<not> env_bound env w" and "w \<noteq> x"
    and "env_put env x (f, v) = Inr e1" and "env_put e1 x (g, w) = Inr e2"
  shows "cli_env_get e2 x = Inr None \<and> cli_env_get e2 w = Inl Fault"
proof -
  have e1: "e1 = env\<lparr>ev_head := ev_head env @ [\<lparr>en_var = x, en_val = Some v, en_sfunc = f\<rparr>], ev_count := ev_count env + 1\<rparr>"
    using assms(4) cli_env_string_new[OF assms(1)] by (simp add: env_put_def)
  have n: "find_node (ev_head env) x = None" "find_node (ev_head env) w = None" using assms(1,2) by (simp_all add: env_bound_def find_env_def)
  have e2: "e2 = e1\<lparr>ev_head := ev_head env @ [\<lparr>en_var = w, en_val = None, en_sfunc = g\<rparr>]\<rparr>"
    using assms(5) n by (simp add: e1 env_put_def cli_env_string_def env_set_def find_env_def find_node_append)
  show ?thesis using assms(3) n by (simp add: e2 e1 cli_env_get_def find_env_def find_node_append node_value_def)
qed

theorem env_set_again_loses_witness:
  "\<exists>e1 e2. env_put cli_env_create ''x'' (Sfunc_null, ''1'') = Inr e1 \<and> env_put e1 ''x'' (Sfunc_null, ''2'') = Inr e2 \<and>
    cli_env_get e2 ''x'' = Inr None \<and> cli_env_get e2 ''2'' = Inl Fault"
proof -
  have b: "\<not> env_bound cli_env_create x" for x by (simp add: env_bound_def find_env_def cli_env_create_def)
  obtain e1 where e1: "env_put cli_env_create ''x'' (Sfunc_null, ''1'') = Inr e1" using env.put_new[OF b] by blast
  obtain e2 where e2: "env_put e1 ''x'' (Sfunc_null, ''2'') = Inr e2"
    using e1 by (auto simp: env_put_def cli_env_string_def env_set_def find_env_def cli_env_create_def)
  show ?thesis using env_set_again_loses[OF b b _ e1 e2] e1 e2 by simp
qed

end
