(* ===== verification/CmdTree.thy ===== *)
theory CmdTree
  imports Strings Env
begin

text \<open>
  The tree of commands (lib/cli/cli.c, lib/cli/cli_search.c, lib/cli/cli.h) and the commands that walk and
  change it (lib/cli/cli_cmds.c). A node pointer is an index into \<open>node_mem\<close>, and an access outside of the block is
  a fault. The tail queues of a directory and of the free nodes are lists. A function pointer is a number or null;
  calling it is left to the theory of command execution.
\<close>

section \<open>Nodes\<close>

definition CLI_DIR_NODE :: u32 where "CLI_DIR_NODE = 1"
definition CLI_CMD_NODE :: u32 where "CLI_CMD_NODE = 2"
definition CLI_FILE_NODE :: u32 where "CLI_FILE_NODE = 4"
definition CLI_ALIAS_NODE :: u32 where "CLI_ALIAS_NODE = 8"
definition CLI_STR_NODE :: u32 where "CLI_STR_NODE = 16"

definition CLI_EXE_TYPE :: u32 where "CLI_EXE_TYPE = CLI_CMD_NODE OR CLI_ALIAS_NODE"
definition CLI_ALL_TYPE :: u32 where "CLI_ALL_TYPE = CLI_EXE_TYPE OR CLI_FILE_NODE OR CLI_DIR_NODE"

definition CLI_MAX_ARGVS :: nat where "CLI_MAX_ARGVS = 64"
definition CLI_DEFAULT_NB_NODES :: nat where "CLI_DEFAULT_NB_NODES = 256"
definition CLI_MAX_PATH_LENGTH :: nat where "CLI_MAX_PATH_LENGTH = 2048"
definition CLI_MAX_SCRATCH_LENGTH :: nat where "CLI_MAX_SCRATCH_LENGTH = 4096"
definition CLI_NAME_LEN :: nat where "CLI_NAME_LEN = 64"
definition CLI_MAX_BINS :: nat where "CLI_MAX_BINS = 32"

record cli_node =
  cn_parent :: "nat option"
  cn_name :: string
  cn_name_sz :: u16
  cn_type :: u32
  cn_func :: "nat option"
  cn_desc :: "string option"
  cn_alias :: "string option"
  cn_items :: "nat list"

record ctree =
  t_mem :: "cli_node list"
  t_free :: "nat list"
  t_root :: "nat list"
  t_bins :: "nat option list"
  t_unlimited :: bool

definition node_zero :: cli_node where
  "node_zero = \<lparr>cn_parent = None, cn_name = [], cn_name_sz = 0, cn_type = 0, cn_func = None, cn_desc = None, cn_alias = None, cn_items = []\<rparr>"

definition nd :: "ctree \<Rightarrow> nat \<Rightarrow> cli_node res" where
  "nd t n = (if n < length (t_mem t) then Inr (t_mem t ! n) else Inl Fault)"

definition upd_nd :: "nat \<Rightarrow> (cli_node \<Rightarrow> cli_node) \<Rightarrow> ctree \<Rightarrow> ctree res" where
  "upd_nd n f t = (if n < length (t_mem t) then Inr (t\<lparr>t_mem := (t_mem t)[n := f (t_mem t ! n)]\<rparr>) else Inl Fault)"

definition is_node :: "cli_node \<Rightarrow> u32 \<Rightarrow> bool" where
  "is_node x types \<longleftrightarrow> cn_type x AND types \<noteq> 0"

definition is_command :: "cli_node \<Rightarrow> bool" where
  "is_command x = is_node x CLI_CMD_NODE"

definition is_alias :: "cli_node \<Rightarrow> bool" where
  "is_alias x = is_node x CLI_ALIAS_NODE"

definition is_file :: "cli_node \<Rightarrow> bool" where
  "is_file x = is_node x CLI_FILE_NODE"

definition is_directory :: "cli_node \<Rightarrow> bool" where
  "is_directory x = is_node x CLI_DIR_NODE"

definition is_executable :: "cli_node \<Rightarrow> bool" where
  "is_executable x \<longleftrightarrow> is_command x \<or> is_alias x"

fun is_match :: "string \<Rightarrow> string \<Rightarrow> bool" where
  "is_match (a # as) (b # bs) = (if a \<noteq> b then False else is_match as bs)"
| "is_match [] [] = True"
| "is_match _ _ = False"

text \<open>The first slot of \<open>bins\<close> is the current directory.\<close>

definition get_cwd :: "ctree \<Rightarrow> nat option" where
  "get_cwd t = t_bins t ! 0"

definition set_cwd :: "nat option \<Rightarrow> ctree \<Rightarrow> ctree" where
  "set_cwd n t = t\<lparr>t_bins := (t_bins t)[0 := n]\<rparr>"

definition get_root :: "ctree \<Rightarrow> nat option" where
  "get_root t = (case t_root t of [] \<Rightarrow> None | n # ns \<Rightarrow> Some n)"

text \<open>A pointer that is dereferenced.\<close>

definition deref :: "ctree \<Rightarrow> nat option \<Rightarrow> cli_node res" where
  "deref t p = (case p of None \<Rightarrow> Inl Fault | Some n \<Rightarrow> nd t n)"

text \<open>
  \<open>realloc\<close> fails, extends the block in place or moves it. When the block is extended the loop that adds the new
  nodes to the free list leaves its pointer behind the last of them, and this pointer is returned; when it is moved
  every node pointer that exists is into freed memory, and the block here is empty.
\<close>

datatype realloc = Realloc_fails | Realloc_extends | Realloc_moves

definition cli_alloc :: "realloc \<Rightarrow> ctree \<Rightarrow> nat option \<times> ctree" where
  "cli_alloc ra t =
     (case t_free t of
        n # ns \<Rightarrow> (Some n, t\<lparr>t_free := ns\<rparr>)
      | [] \<Rightarrow>
          if t_unlimited t then
            let k = length (t_mem t) in
            (case ra of
               Realloc_fails \<Rightarrow> (None, t)
             | Realloc_extends \<Rightarrow>
                 (Some (k + CLI_DEFAULT_NB_NODES),
                  t\<lparr>t_mem := t_mem t @ replicate CLI_DEFAULT_NB_NODES node_zero, t_free := [k..<k + CLI_DEFAULT_NB_NODES]\<rparr>)
             | Realloc_moves \<Rightarrow> (None, t\<lparr>t_mem := []\<rparr>))
          else (None, t))"

definition cli_free :: "nat \<Rightarrow> ctree \<Rightarrow> ctree" where
  "cli_free n t = t\<lparr>t_free := t_free t @ [n]\<rparr>"

section \<open>The path of executables\<close>

fun first_bin :: "nat option \<Rightarrow> nat \<Rightarrow> nat option list \<Rightarrow> nat option" where
  "first_bin p i [] = None"
| "first_bin p i (b # bs) = (if b = p then Some i else first_bin p (Suc i) bs)"

definition cli_add_bin :: "nat option \<Rightarrow> ctree \<Rightarrow> (int \<times> ctree) res" where
  "cli_add_bin dir t =
     (case dir of
        None \<Rightarrow> Inr (- 1, t)
      | Some d \<Rightarrow> rbind (nd t d) (\<lambda>x.
          if \<not> is_directory x then Inr (- 1, t)
          else if first_bin (Some d) 1 (tl (t_bins t)) \<noteq> None then Inr (0, t)
          else (case first_bin None 1 (tl (t_bins t)) of
                  Some i \<Rightarrow> Inr (0, t\<lparr>t_bins := (t_bins t)[i := Some d]\<rparr>)
                | None \<Rightarrow> Inr (- 1, t))))"

definition cli_del_bin :: "nat option \<Rightarrow> ctree \<Rightarrow> (int \<times> ctree) res" where
  "cli_del_bin dir t =
     (case dir of
        None \<Rightarrow> Inr (- 1, t)
      | Some d \<Rightarrow> rbind (nd t d) (\<lambda>x.
          if \<not> is_directory x then Inr (- 1, t)
          else (case first_bin (Some d) 0 (t_bins t) of
                  Some i \<Rightarrow>
                    let bs = (t_bins t)[i := None] in
                    Inr (0, t\<lparr>t_bins := (if i + 1 < length bs then take i bs @ drop (i + 1) bs @ [None] else bs)\<rparr>)
                | None \<Rightarrow> Inr (- 1, t))))"

section \<open>Searching\<close>

fun find_item :: "ctree \<Rightarrow> nat list \<Rightarrow> string \<Rightarrow> u32 \<Rightarrow> nat option res" where
  "find_item t [] nm ty = Inr None"
| "find_item t (n # ns) nm ty =
     rbind (nd t n) (\<lambda>x. if pg_strmatch (cn_name x) nm \<and> cn_type x AND ty \<noteq> 0 then Inr (Some n) else find_item t ns nm ty)"

definition cli_search_dir :: "ctree \<Rightarrow> nat option \<Rightarrow> string \<Rightarrow> u32 \<Rightarrow> nat option res" where
  "cli_search_dir t dir nm ty =
     (if nm = [] then Inr None
      else
        let d = (if dir = None then get_cwd t else dir) in
        rbind (case dir of None \<Rightarrow> Inr True | Some n \<Rightarrow> rbind (nd t n) (\<lambda>x. Inr (is_directory x))) (\<lambda>ok.
        if \<not> ok then Inr None
        else if nm = ''..'' then rbind (deref t d) (\<lambda>x. Inr (cn_parent x))
        else if nm = ''.'' then Inr d
        else rbind (deref t d) (\<lambda>x. find_item t (cn_items x) nm ty)))"

text \<open>
  The loop over the parts of a path: the last node that was found, null when a part is missing, and the directory the loop ended in.
  It stops at a node that is not a directory, even when parts are left.
\<close>

fun follow :: "ctree \<Rightarrow> nat option \<Rightarrow> nat option \<Rightarrow> string list \<Rightarrow> (nat option \<times> nat option) res" where
  "follow t dir node [] = Inr (node, dir)"
| "follow t dir node (a # as) =
     rbind (cli_search_dir t dir a CLI_ALL_TYPE) (\<lambda>r.
       case r of
         None \<Rightarrow> Inr (None, dir)
       | Some n \<Rightarrow> rbind (nd t n) (\<lambda>x. if is_directory x then follow t (Some n) (Some n) as else Inr (Some n, dir)))"

definition path_parts :: "string \<Rightarrow> string list" where
  "path_parts path = strtok_loop CLI_MAX_ARGVS (if take 1 path = ''/'' then tl path else path) ''/''"

definition path_start :: "ctree \<Rightarrow> string \<Rightarrow> nat option" where
  "path_start t path = (if take 1 path = ''/'' then get_root t else get_cwd t)"

definition cli_find_node :: "ctree \<Rightarrow> string \<Rightarrow> nat option res" where
  "cli_find_node t path =
     (if path = [] then Inr None
      else if path = ''/'' then Inr (get_root t)
      else rbind (follow t (path_start t path) None (path_parts path)) (\<lambda>(n, d). Inr n))"

definition cli_last_dir_in_path :: "ctree \<Rightarrow> string \<Rightarrow> nat option res" where
  "cli_last_dir_in_path t path =
     (if path = [] then Inr (get_cwd t)
      else if path = ''/'' then Inr (get_root t)
      else rbind (follow t (path_start t path) None (path_parts path)) (\<lambda>(n, d). Inr d))"

fun search_bins :: "ctree \<Rightarrow> nat option list \<Rightarrow> string \<Rightarrow> nat option res" where
  "search_bins t [] path = Inr None"
| "search_bins t (b # bs) path =
     (if b = None then search_bins t bs path
      else rbind (cli_search_dir t b path CLI_EXE_TYPE) (\<lambda>r. if r \<noteq> None then Inr r else search_bins t bs path))"

definition cli_find_cmd :: "ctree \<Rightarrow> string \<Rightarrow> nat option res" where
  "cli_find_cmd t path =
     rbind (cli_find_node t path) (\<lambda>r. if r \<noteq> None then Inr r else search_bins t (t_bins t) path)"

text \<open>\<open>cli_scan_directory\<close> with a callback that returns its status and the updated arguments.\<close>

fun scan_items :: "ctree \<Rightarrow> (nat \<Rightarrow> 'a \<Rightarrow> int \<times> 'a) \<Rightarrow> u32 \<Rightarrow> nat list \<Rightarrow> 'a \<Rightarrow> (int \<times> 'a) res" where
  "scan_items t f flags [] a = Inr (0, a)"
| "scan_items t f flags (n # ns) a =
     rbind (nd t n) (\<lambda>x.
       if cn_type x AND flags \<noteq> 0 then (let (r, a') = f n a in if r \<noteq> 0 then Inr (r, a') else scan_items t f flags ns a')
       else scan_items t f flags ns a)"

definition cli_scan_directory :: "ctree \<Rightarrow> nat option \<Rightarrow> (nat \<Rightarrow> 'a \<Rightarrow> int \<times> 'a) \<Rightarrow> u32 \<Rightarrow> 'a \<Rightarrow> (int \<times> 'a) res" where
  "cli_scan_directory t dir f flags a =
     rbind (deref t (if dir = None then get_root t else dir)) (\<lambda>x. scan_items t f flags (cn_items x) a)"

definition cli_scan_path :: "ctree \<Rightarrow> string \<Rightarrow> (nat \<Rightarrow> 'a \<Rightarrow> int \<times> 'a) \<Rightarrow> u32 \<Rightarrow> 'a \<Rightarrow> (int \<times> 'a) res" where
  "cli_scan_path t path f flags a =
     rbind (cli_find_node t path) (\<lambda>r.
       if r = None then Inr (0, a) else rbind (cli_scan_directory t r f flags a) (\<lambda>(e, a'). Inr (if e \<noteq> 0 then 1 else 0, a')))"

definition cli_dir_item_count :: "ctree \<Rightarrow> nat option \<Rightarrow> u32 \<Rightarrow> u32 res" where
  "cli_dir_item_count t n types =
     (case n of
        None \<Rightarrow> Inr 0
      | Some d \<Rightarrow> rbind (nd t d) (\<lambda>x.
          if \<not> is_directory x then Inr 0
          else rbind (cli_scan_directory t (Some d) (\<lambda>i a. (0, a + 1)) types 0) (\<lambda>(r, a). Inr a)))"

definition cli_path_item_count :: "ctree \<Rightarrow> u32 \<Rightarrow> u32 res" where
  "cli_path_item_count t types = rfold (\<lambda>c b. rbind (cli_dir_item_count t b types) (\<lambda>k. Inr (c + k))) 0 (t_bins t)"

definition items_with_type :: "ctree \<Rightarrow> u32 \<Rightarrow> nat list \<Rightarrow> nat list res" where
  "items_with_type t flags ns =
     rfold (\<lambda>acc n. rbind (nd t n) (\<lambda>x. Inr (if cn_type x AND flags \<noteq> 0 then acc @ [n] else acc))) [] ns"

text \<open>The nodes are stored into an array with room for the number that was counted and one more.\<close>

definition store_nodes :: "u32 \<Rightarrow> nat list \<Rightarrow> nat list res" where
  "store_nodes cnt ns = (if length ns \<le> unat cnt + 1 then Inr ns else Inl Fault)"

fun bins_with_type :: "ctree \<Rightarrow> u32 \<Rightarrow> nat \<Rightarrow> nat option list \<Rightarrow> nat list res" where
  "bins_with_type t flags i [] = Inr []"
| "bins_with_type t flags i (b # bs) =
     (if b = None \<or> 0 < i \<and> b = get_cwd t then bins_with_type t flags (Suc i) bs
      else rbind (deref t b) (\<lambda>x. rbind (items_with_type t flags (cn_items x)) (\<lambda>ns.
           rbind (bins_with_type t flags (Suc i) bs) (\<lambda>r. Inr (ns @ r)))))"

definition node_list_with_type :: "ctree \<Rightarrow> u32 \<Rightarrow> nat list res" where
  "node_list_with_type t flags =
     rbind (cli_path_item_count t flags) (\<lambda>cnt.
       if cnt = 0 then Inr [] else rbind (bins_with_type t flags 0 (t_bins t)) (store_nodes cnt))"

definition dir_list_with_type :: "ctree \<Rightarrow> nat \<Rightarrow> u32 \<Rightarrow> nat list res" where
  "dir_list_with_type t dir flags =
     rbind (cli_dir_item_count t (Some dir) flags) (\<lambda>cnt.
       if cnt = 0 then Inr []
       else rbind (nd t dir) (\<lambda>x. rbind (items_with_type t flags (cn_items x)) (store_nodes cnt)))"

definition cli_node_list_with_type :: "ctree \<Rightarrow> nat option \<Rightarrow> u32 \<Rightarrow> nat list res" where
  "cli_node_list_with_type t n flags = (case n of Some d \<Rightarrow> dir_list_with_type t d flags | None \<Rightarrow> node_list_with_type t flags)"

text \<open>
  \<open>cli_path_string\<close> follows the parents; a tree has at most as many levels as nodes, so the length of the block is
  enough fuel. \<open>strcat\<close> into the scratch area is unbounded; the area has \<open>CLI_MAX_SCRATCH_LENGTH + 1\<close> bytes.
\<close>

fun path_loop :: "nat \<Rightarrow> ctree \<Rightarrow> nat \<Rightarrow> string res" where
  "path_loop 0 t n = Inl Hang"
| "path_loop (Suc f) t n =
     rbind (nd t n) (\<lambda>x.
       case cn_parent x of
         None \<Rightarrow> Inr ''/''
       | Some p \<Rightarrow> rbind (path_loop f t p) (\<lambda>s.
           if length (s @ cn_name x @ ''/'') \<le> CLI_MAX_SCRATCH_LENGTH then Inr (s @ cn_name x @ ''/'') else Inl Fault))"

definition cli_path_string :: "ctree \<Rightarrow> nat option \<Rightarrow> string res" where
  "cli_path_string t p =
     (case (if p = None then get_cwd t else p) of None \<Rightarrow> Inl Fault | Some n \<Rightarrow> path_loop (length (t_mem t)) t n)"

section \<open>Changing the tree\<close>

definition cli_add_bin_path :: "string \<Rightarrow> ctree \<Rightarrow> (int \<times> ctree) res" where
  "cli_add_bin_path path t =
     rbind (cli_find_node t path) (\<lambda>r.
       if r = None then Inr (- 1, t) else rbind (cli_add_bin r t) (\<lambda>(e, t'). Inr (if e \<noteq> 0 then - 1 else 0, t')))"

text \<open>
  The checks of \<open>__add_node\<close> on the type; the pointers in the union are null together.
\<close>

definition add_node_ok :: "string \<Rightarrow> nat option \<Rightarrow> u32 \<Rightarrow> nat option \<Rightarrow> string option \<Rightarrow> bool" where
  "add_node_ok nm parent ty func desc \<longleftrightarrow>
     (if ty = CLI_DIR_NODE then \<not> (parent \<noteq> None \<and> nm = ''/'') \<and> \<not> (parent = None \<and> nm \<noteq> ''/'') \<and> func = None
      else if ty = CLI_CMD_NODE \<or> ty = CLI_FILE_NODE then parent \<noteq> None \<and> func \<noteq> None
      else if ty = CLI_ALIAS_NODE then parent \<noteq> None \<and> func = None
      else if ty = CLI_STR_NODE then func \<noteq> None \<or> desc \<noteq> None
      else False)"

definition fill_node :: "string \<Rightarrow> nat option \<Rightarrow> u32 \<Rightarrow> nat option \<Rightarrow> string option \<Rightarrow> cli_node \<Rightarrow> cli_node" where
  "fill_node nm parent ty func desc x =
     (let nm' = take (CLI_NAME_LEN - 1) nm in
      x\<lparr>cn_type := ty, cn_parent := parent,
        cn_func := (if ty = CLI_CMD_NODE \<or> ty = CLI_ALIAS_NODE \<or> ty = CLI_FILE_NODE then func else cn_func x),
        cn_desc := desc, cn_name := nm', cn_name_sz := of_nat (length nm')\<rparr>)"

definition add_node :: "realloc \<Rightarrow> string \<Rightarrow> nat option \<Rightarrow> u32 \<Rightarrow> nat option \<Rightarrow> string option \<Rightarrow> ctree \<Rightarrow> (nat option \<times> ctree) res" where
  "add_node ra nm parent ty func desc t =
     (if \<not> add_node_ok nm parent ty func desc then Inr (None, t)
      else
        let (p, t1) = cli_alloc ra t in
        case p of
          None \<Rightarrow> Inr (None, t1)
        | Some n \<Rightarrow>
            rbind (upd_nd n (fill_node nm parent ty func desc) t1) (\<lambda>t2.
            case parent of
              None \<Rightarrow> Inr (Some n, t2)
            | Some d \<Rightarrow> rbind (upd_nd d (\<lambda>x. x\<lparr>cn_items := n # cn_items x\<rparr>) t2) (\<lambda>t3. Inr (Some n, t3))))"

definition cli_add_cmd :: "realloc \<Rightarrow> string \<Rightarrow> nat option \<Rightarrow> nat option \<Rightarrow> string option \<Rightarrow> ctree \<Rightarrow> (nat option \<times> ctree) res" where
  "cli_add_cmd ra nm dir func desc t = add_node ra nm dir CLI_CMD_NODE func desc t"

text \<open>The result of \<open>__add_node\<close> is not checked before the alias text is stored.\<close>

definition cli_add_alias :: "realloc \<Rightarrow> string \<Rightarrow> nat option \<Rightarrow> string \<Rightarrow> string option \<Rightarrow> ctree \<Rightarrow> (nat option \<times> ctree) res" where
  "cli_add_alias ra nm dir ln desc t =
     rbind (add_node ra nm dir CLI_ALIAS_NODE None desc t) (\<lambda>(p, t1).
       case p of None \<Rightarrow> Inl Fault
       | Some n \<Rightarrow> rbind (upd_nd n (\<lambda>x. x\<lparr>cn_alias := Some ln\<rparr>) t1) (\<lambda>t2. Inr (Some n, t2)))"

definition cli_add_file :: "realloc \<Rightarrow> string \<Rightarrow> nat option \<Rightarrow> nat option \<Rightarrow> string option \<Rightarrow> ctree \<Rightarrow> (nat option \<times> ctree) res" where
  "cli_add_file ra nm dir func desc t = add_node ra nm dir CLI_FILE_NODE func desc t"

text \<open>
  The parts of the path are appended to \<open>path\<close> without a separator. \<open>n\<close> is the last node that was added, null when
  there is none; the array has \<open>CLI_MAX_PATH_LENGTH\<close> bytes.
\<close>

fun add_dirs :: "realloc \<Rightarrow> string list \<Rightarrow> string \<Rightarrow> nat option \<Rightarrow> nat option \<Rightarrow> ctree \<Rightarrow> (nat option \<times> ctree) res" where
  "add_dirs ra [] path dir n t = Inr (n, t)"
| "add_dirs ra (a # as) path dir n t =
     (let path' = path @ a in
      if CLI_MAX_PATH_LENGTH \<le> length path' then Inl Fault
      else
        rbind (cli_find_node t path') (\<lambda>r.
        if r \<noteq> None then add_dirs ra as path' r n t
        else rbind (add_node ra a dir CLI_DIR_NODE None None t) (\<lambda>(m, t').
             if m = None then Inr (None, t') else add_dirs ra as path' m m t')))"

definition cli_add_dir :: "realloc \<Rightarrow> string \<Rightarrow> nat option \<Rightarrow> ctree \<Rightarrow> (nat option \<times> ctree) res" where
  "cli_add_dir ra nm dir t =
     rbind (cli_find_node t nm) (\<lambda>r.
       if r \<noteq> None then Inr (r, t)
       else
         let p = take (CLI_MAX_SCRATCH_LENGTH - 1) nm; d = (if dir = None then get_root t else dir) in
         if take 1 p = ''/'' then add_dirs ra (strtok_loop CLI_MAX_ARGVS (tl p) ''/'') ''/'' (get_root t) None t
         else add_dirs ra (strtok_loop CLI_MAX_ARGVS p ''/'') [] d None t)"

text \<open>
  Removing a node and everything below it. Every round of the loop and every call takes one unit of fuel; two
  units for each node are enough.
\<close>

definition unlink :: "nat \<Rightarrow> nat \<Rightarrow> ctree \<Rightarrow> ctree res" where
  "unlink p n t = rbind (upd_nd p (\<lambda>x. x\<lparr>cn_items := filter (\<lambda>m. m \<noteq> n) (cn_items x)\<rparr>) t) (\<lambda>t'. Inr (cli_free n t'))"

fun remove_node :: "nat \<Rightarrow> nat \<Rightarrow> ctree \<Rightarrow> (int \<times> ctree) res" and remove_items :: "nat \<Rightarrow> nat \<Rightarrow> ctree \<Rightarrow> (int \<times> ctree) res" where
  "remove_node 0 n t = Inl Hang"
| "remove_node (Suc f) n t =
     rbind (nd t n) (\<lambda>x.
       case cn_parent x of
         None \<Rightarrow> Inr (- 1, t)
       | Some p \<Rightarrow>
           rbind (if cn_type x = CLI_DIR_NODE then remove_items f n t
                  else if cn_type x \<in> {CLI_CMD_NODE, CLI_FILE_NODE, CLI_ALIAS_NODE, CLI_STR_NODE} then Inr (0, t)
                  else Inr (- 1, t)) (\<lambda>(r, t1).
           if r \<noteq> 0 then Inr (- 1, t1)
           else rbind (if is_directory x then cli_del_bin (Some n) t1 else Inr (0, t1)) (\<lambda>(_, t2).
                rbind (unlink p n t2) (\<lambda>t3. Inr (0, t3)))))"
| "remove_items 0 n t = Inl Hang"
| "remove_items (Suc f) n t =
     rbind (nd t n) (\<lambda>x.
       case cn_items x of
         [] \<Rightarrow> Inr (0, t)
       | m # ms \<Rightarrow> rbind (remove_node f m t) (\<lambda>(r, t'). if r \<noteq> 0 then Inr (- 1, t') else remove_items f n t'))"

definition cli_remove_node :: "nat option \<Rightarrow> ctree \<Rightarrow> (int \<times> ctree) res" where
  "cli_remove_node p t = (case p of None \<Rightarrow> Inr (0, t) | Some n \<Rightarrow> remove_node (2 * length (t_mem t)) n t)"

definition cli_create_root :: "realloc \<Rightarrow> string \<Rightarrow> ctree \<Rightarrow> (nat option \<times> ctree) res" where
  "cli_create_root ra nm t =
     rbind (add_node ra nm None CLI_DIR_NODE None None t) (\<lambda>(p, t1).
       case p of None \<Rightarrow> Inr (None, t1) | Some n \<Rightarrow> Inr (Some n, set_cwd (Some n) (t1\<lparr>t_root := n # t_root t1\<rparr>)))"

text \<open>The pool of nodes of \<open>cli_init\<close>: the number of nodes, where -1 asks for a pool that grows, and the tree with its root.\<close>

definition init_entries :: "int \<Rightarrow> int \<times> bool" where
  "init_entries nb =
     (if nb = 0 then (int CLI_DEFAULT_NB_NODES, False) else if nb = - 1 then (int CLI_DEFAULT_NB_NODES, True) else (nb, False))"

definition tree_init :: "int \<Rightarrow> (int \<times> ctree) res" where
  "tree_init nb =
     (let (k, unl) = init_entries nb;
          t = \<lparr>t_mem = replicate (nat k) node_zero, t_free = [0..<nat k], t_root = [], t_bins = replicate CLI_MAX_BINS None, t_unlimited = unl\<rparr>
      in rbind (cli_create_root Realloc_fails ''/'' t) (\<lambda>(p, t').
           case p of None \<Rightarrow> Inr (- 1, t') | Some n \<Rightarrow> Inr (0, set_cwd (Some n) t')))"

text \<open>The entries of a table of commands, as \<open>cli_add_tree\<close> reads it up to its end mark. The environment is passed along.\<close>

datatype tree_entry =
    TDir string bool
  | TCmd string "nat option" "string option"
  | TFile string "nat option" "string option"
  | TAlias string string "string option"
  | TStr string cli_sfunc string

fun add_entries :: "realloc \<Rightarrow> bool \<Rightarrow> tree_entry list \<Rightarrow> nat option \<Rightarrow> ctree \<times> cli_env \<Rightarrow> (int \<times> ctree \<times> cli_env) res" where
  "add_entries ra mem [] parent s = Inr (0, s)"
| "add_entries ra mem (e # es) parent s =
     (let status = (\<lambda>p t. if p = None then Inr (- 1, t, snd s) else add_entries ra mem es parent (t, snd s)) in
      case e of
        TDir nm bin \<Rightarrow>
          rbind (cli_add_dir ra nm parent (fst s)) (\<lambda>(n, t).
          if n = None then Inr (- 1, t, snd s)
          else rbind (if bin then cli_add_bin_path nm t else Inr (0, t)) (\<lambda>(_, t'). add_entries ra mem es n (t', snd s)))
      | TCmd nm func desc \<Rightarrow> rbind (cli_add_cmd ra nm parent func desc (fst s)) (\<lambda>(p, t). status p t)
      | TFile nm func desc \<Rightarrow> rbind (cli_add_file ra nm parent func desc (fst s)) (\<lambda>(p, t). status p t)
      | TAlias nm ln desc \<Rightarrow> rbind (cli_add_alias ra nm parent ln desc (fst s)) (\<lambda>(p, t). status p t)
      | TStr nm f str \<Rightarrow>
          rbind (cli_env_string mem (snd s) nm f str) (\<lambda>(r, env).
          if r \<noteq> 0 then Inr (- 1, fst s, env) else add_entries ra mem es parent (fst s, env)))"

definition cli_add_tree :: "realloc \<Rightarrow> bool \<Rightarrow> nat option \<Rightarrow> tree_entry list \<Rightarrow> ctree \<times> cli_env \<Rightarrow> (int \<times> ctree \<times> cli_env) res" where
  "cli_add_tree ra mem parent es s = add_entries ra mem es (if parent = None then get_root (fst s) else parent) s"

section \<open>Commands on the tree\<close>

definition cd_cmd :: "string list \<Rightarrow> ctree \<Rightarrow> (int \<times> ctree) res" where
  "cd_cmd argv t =
     (if length argv \<le> 1 then Inr (0, t)
      else if argv ! 1 = ''-?'' then Inr (0, t)
      else rbind (cli_find_node t (argv ! 1)) (\<lambda>r. if r = None then Inr (- 1, t) else Inr (0, set_cwd r t)))"

definition pwd_cmd :: "string list \<Rightarrow> ctree \<Rightarrow> string option res" where
  "pwd_cmd argv t =
     rbind (cli_path_string t (get_cwd t)) (\<lambda>s.
       if 1 < length argv \<and> argv ! 1 = ''-?'' then Inr None
       else Inr (Some (if 1 < length s then butlast s else s)))"

definition mkdir_cmd :: "realloc \<Rightarrow> string list \<Rightarrow> ctree \<Rightarrow> (int \<times> ctree) res" where
  "mkdir_cmd ra argv t =
     (if length argv \<noteq> 2 then Inr (- 1, t)
      else rbind (cli_add_dir ra (argv ! 1) (get_cwd t) t) (\<lambda>(p, t'). Inr (if p = None then - 1 else 0, t')))"

definition rm_cmd :: "string list \<Rightarrow> ctree \<Rightarrow> (int \<times> ctree) res" where
  "rm_cmd argv t =
     (if length argv \<noteq> 2 then Inr (- 1, t)
      else rbind (cli_find_node t (argv ! 1)) (\<lambda>r. if r = None then Inr (- 1, t) else cli_remove_node r t))"

section \<open>The nodes as a tree\<close>

datatype rose = Rose (rid: nat) (kids: "rose list")

fun ids :: "rose \<Rightarrow> nat list" where
  "ids (Rose n rs) = n # concat (map ids rs)"

fun post :: "rose \<Rightarrow> nat list" where
  "post (Rose n rs) = concat (map post rs) @ [n]"

definition node_type_ok :: "cli_node \<Rightarrow> bool" where
  "node_type_ok x \<longleftrightarrow> cn_type x \<in> {CLI_DIR_NODE, CLI_CMD_NODE, CLI_FILE_NODE, CLI_ALIAS_NODE, CLI_STR_NODE}"

fun holds :: "ctree \<Rightarrow> nat option \<Rightarrow> rose \<Rightarrow> bool" where
  "holds t p (Rose n rs) \<longleftrightarrow>
     n < length (t_mem t) \<and> cn_parent (t_mem t ! n) = p \<and> cn_items (t_mem t ! n) = map rid rs \<and> node_type_ok (t_mem t ! n) \<and>
     (rs \<noteq> [] \<longrightarrow> cn_type (t_mem t ! n) = CLI_DIR_NODE) \<and> (\<forall>r \<in> set rs. holds t (Some n) r)"

lemma rid_in_ids: "rid r \<in> set (ids r)"
  by (cases r) simp

lemma set_post: "set (post r) = set (ids r)"
  by (induction r) auto

lemma length_post: "length (post r) = length (ids r)"
proof (induction r)
  case (Rose n rs)
  then show ?case by (simp add: length_concat o_def cong: map_cong)
qed

lemma distinct_post: "distinct (post r) \<longleftrightarrow> distinct (ids r)"
  by (metis set_post length_post card_distinct distinct_card)

lemma holds_cong:
  "holds t p r \<Longrightarrow> length (t_mem t') = length (t_mem t) \<Longrightarrow> \<forall>m \<in> set (ids r). t_mem t' ! m = t_mem t ! m \<Longrightarrow> holds t' p r"
  by (induction t p r rule: holds.induct) auto

lemma holds_less: "holds t p r \<Longrightarrow> m \<in> set (ids r) \<Longrightarrow> m < length (t_mem t)"
  by (induction t p r rule: holds.induct) auto

text \<open>Taking a directory off the path: the first slot that holds it is closed.\<close>

definition close_bin :: "nat \<Rightarrow> nat option list \<Rightarrow> nat option list" where
  "close_bin d bs =
     (case first_bin (Some d) 0 bs of
        None \<Rightarrow> bs
      | Some i \<Rightarrow> if i + 1 < length bs then take i bs @ drop (i + 1) bs @ [None] else bs[i := None])"

definition close_dir :: "ctree \<Rightarrow> nat \<Rightarrow> nat option list \<Rightarrow> nat option list" where
  "close_dir t d bs = (if is_directory (t_mem t ! d) then close_bin d bs else bs)"

lemma cli_del_bin_at:
  "d < length (t_mem t) \<Longrightarrow> is_directory (t_mem t ! d) \<Longrightarrow> \<exists>r. cli_del_bin (Some d) t = Inr (r, t\<lparr>t_bins := close_bin d (t_bins t)\<rparr>)"
  by (auto simp: cli_del_bin_def nd_def close_bin_def Let_def split: option.splits)

text \<open>What removing the trees \<open>rs\<close> below \<open>p\<close> leaves.\<close>

definition removed :: "ctree \<Rightarrow> nat list \<Rightarrow> nat \<Rightarrow> nat list \<Rightarrow> ctree \<Rightarrow> bool" where
  "removed t ns p its t' \<longleftrightarrow>
     length (t_mem t') = length (t_mem t) \<and> t_free t' = t_free t @ ns \<and> t_root t' = t_root t \<and> t_unlimited t' = t_unlimited t \<and>
     t_bins t' = fold (close_dir t) ns (t_bins t) \<and>
     (\<forall>m. m \<notin> set ns \<longrightarrow> m \<noteq> p \<longrightarrow> t_mem t' ! m = t_mem t ! m) \<and> t_mem t' ! p = (t_mem t ! p)\<lparr>cn_items := its\<rparr> \<and>
     (\<forall>m \<in> set ns. cn_items (t_mem t' ! m) = [] \<and> cn_type (t_mem t' ! m) = cn_type (t_mem t ! m))"

definition remove_ok :: "rose \<Rightarrow> bool" where
  "remove_ok r \<longleftrightarrow> (\<forall>t p f. holds t (Some p) r \<longrightarrow> p < length (t_mem t) \<longrightarrow> p \<notin> set (ids r) \<longrightarrow> distinct (ids r) \<longrightarrow>
     2 * length (ids r) \<le> f \<longrightarrow>
     (\<exists>t'. remove_node f (rid r) t = Inr (0, t') \<and> removed t (post r) p (filter (\<lambda>m. m \<noteq> rid r) (cn_items (t_mem t ! p))) t'))"

lemma remove_okD:
  assumes "remove_ok r" and "holds t (Some p) r" and "p < length (t_mem t)" and "p \<notin> set (ids r)" and "distinct (ids r)" and "2 * length (ids r) \<le> f"
  shows "\<exists>t'. remove_node f (rid r) t = Inr (0, t') \<and> removed t (post r) p (filter (\<lambda>m. m \<noteq> rid r) (cn_items (t_mem t ! p))) t'"
  using assms unfolding remove_ok_def by blast

lemma close_dir_cong: "\<forall>m \<in> set ns. cn_type (t_mem t' ! m) = cn_type (t_mem t ! m) \<Longrightarrow> fold (close_dir t') ns bs = fold (close_dir t) ns bs"
  by (intro fold_cong) (auto simp: close_dir_def is_directory_def is_node_def fun_eq_iff)

lemma removed_trans:
  assumes "removed t ns p its t1" and "removed t1 ms p its' t2" and "set ns \<inter> set ms = {}" and "p \<notin> set ns" and "p \<notin> set ms"
  shows "removed t (ns @ ms) p its' t2"
proof -
  note r1 = assms(1)[unfolded removed_def] and r2 = assms(2)[unfolded removed_def]
  have ms: "\<forall>m \<in> set ms. t_mem t1 ! m = t_mem t ! m" using r1 assms(3,5) by blast
  then have "fold (close_dir t1) ms bs = fold (close_dir t) ms bs" for bs by (intro close_dir_cong) simp
  then have "t_bins t2 = fold (close_dir t) (ns @ ms) (t_bins t)" using r1 r2 by simp
  moreover have "\<forall>m \<in> set ns. t_mem t2 ! m = t_mem t1 ! m" using r2 assms(3,4) by blast
  then have "\<forall>m \<in> set (ns @ ms). cn_items (t_mem t2 ! m) = [] \<and> cn_type (t_mem t2 ! m) = cn_type (t_mem t ! m)" using r1 r2 ms by auto
  moreover have "t_mem t2 ! p = (t_mem t ! p)\<lparr>cn_items := its'\<rparr>" using r1 r2 by simp
  moreover have "\<forall>m. m \<notin> set (ns @ ms) \<longrightarrow> m \<noteq> p \<longrightarrow> t_mem t2 ! m = t_mem t ! m" using r1 r2 by simp
  moreover have "t_free t2 = t_free t @ ns @ ms" "length (t_mem t2) = length (t_mem t)" "t_root t2 = t_root t" "t_unlimited t2 = t_unlimited t" using r1 r2 by simp_all
  ultimately show ?thesis unfolding removed_def by blast
qed

lemma remove_items_ok:
  assumes "\<forall>r \<in> set rs. remove_ok r" and "\<forall>r \<in> set rs. holds t (Some n) r" and "n < length (t_mem t)" and "n \<notin> set (concat (map ids rs))"
    and "distinct (concat (map ids rs))" and "2 * length (concat (map ids rs)) + 1 \<le> f" and "cn_items (t_mem t ! n) = map rid rs"
  shows "\<exists>t'. remove_items f n t = Inr (0, t') \<and> removed t (concat (map post rs)) n [] t'"
  using assms
proof (induction rs arbitrary: t f)
  case Nil
  then obtain f' where "f = Suc f'" by (cases f) auto
  moreover have "(t_mem t ! n)\<lparr>cn_items := []\<rparr> = t_mem t ! n" using Nil.prems(7) by simp
  ultimately show ?case using Nil.prems by (auto simp: nd_def removed_def)
next
  case (Cons r rs)
  then obtain f' where f: "f = Suc f'" by (cases f) auto
  have d: "set (ids r) \<inter> set (concat (map ids rs)) = {}" using Cons.prems(5) by auto
  have "\<exists>t1. remove_node f' (rid r) t = Inr (0, t1) \<and> removed t (post r) n (filter (\<lambda>m. m \<noteq> rid r) (cn_items (t_mem t ! n))) t1"
  proof (rule remove_okD)
    show "remove_ok r" "holds t (Some n) r" "n < length (t_mem t)" using Cons.prems(1-3) by simp_all
    show "n \<notin> set (ids r)" "distinct (ids r)" "2 * length (ids r) \<le> f'" using Cons.prems(4-6) f by simp_all
  qed
  moreover have "rid r \<notin> set (map rid rs)"
  proof
    assume "rid r \<in> set (map rid rs)"
    then obtain s where "s \<in> set rs" "rid s = rid r" by auto
    then have "rid r \<in> set (concat (map ids rs))" using rid_in_ids[of s] by auto
    then show False using d rid_in_ids[of r] by blast
  qed
  then have "filter (\<lambda>m. m \<noteq> rid r) (cn_items (t_mem t ! n)) = map rid rs" unfolding Cons.prems(7) by (simp add: filter_id_conv) (metis image_eqI)
  ultimately obtain t1 where t1: "remove_node f' (rid r) t = Inr (0, t1)" "removed t (post r) n (map rid rs) t1" by auto
  have len: "length (t_mem t1) = length (t_mem t)" and n1: "t_mem t1 ! n = (t_mem t ! n)\<lparr>cn_items := map rid rs\<rparr>"
    and same: "\<And>m. m \<notin> set (ids r) \<Longrightarrow> m \<noteq> n \<Longrightarrow> t_mem t1 ! m = t_mem t ! m" using t1(2) by (auto simp: removed_def set_post)
  have "holds t1 (Some n) s" if s: "s \<in> set rs" for s
  proof (rule holds_cong)
    show "holds t (Some n) s" using Cons.prems(2) s by simp
    show "\<forall>m \<in> set (ids s). t_mem t1 ! m = t_mem t ! m" using same d Cons.prems(4) s by fastforce
  qed (rule len)
  moreover have "cn_items (t_mem t1 ! n) = map rid rs" using n1 by simp
  moreover have "2 * length (concat (map ids rs)) + 1 \<le> f'" using Cons.prems(6) f by (cases r) simp
  ultimately obtain t2 where t2: "remove_items f' n t1 = Inr (0, t2)" "removed t1 (concat (map post rs)) n [] t2"
    using Cons.IH[of t1 f'] Cons.prems len by auto
  have "removed t (post r @ concat (map post rs)) n [] t2"
    using removed_trans[OF t1(2) t2(2)] d Cons.prems(4) by (auto simp: set_post)
  then show ?case using t1(1) t2(1) Cons.prems(3,7) f by (auto simp: nd_def)
qed

lemma remove_node_ok: "remove_ok r"
proof (induction r)
  case (Rose n rs)
  show ?case unfolding remove_ok_def
  proof (intro allI impI)
    fix t p f
    assume h: "holds t (Some p) (Rose n rs)" and p: "p < length (t_mem t)" "p \<notin> set (ids (Rose n rs))"
      and d: "distinct (ids (Rose n rs))" and f: "2 * length (ids (Rose n rs)) \<le> f"
    obtain f' where f': "f = Suc f'" "2 * length (concat (map ids rs)) + 1 \<le> f'" using f by (cases f) auto
    let ?x = "t_mem t ! n"
    have x: "n < length (t_mem t)" "cn_parent ?x = Some p" "cn_items ?x = map rid rs" "node_type_ok ?x" "rs \<noteq> [] \<Longrightarrow> cn_type ?x = CLI_DIR_NODE"
      using h by auto
    have "\<exists>t1. (if cn_type ?x = CLI_DIR_NODE then remove_items f' n t
                else if cn_type ?x \<in> {CLI_CMD_NODE, CLI_FILE_NODE, CLI_ALIAS_NODE, CLI_STR_NODE} then Inr (0, t) else Inr (- 1, t)) = Inr (0, t1) \<and>
      removed t (concat (map post rs)) n [] t1"
    proof (cases "cn_type ?x = CLI_DIR_NODE")
      case True
      then show ?thesis using remove_items_ok[of rs t n f'] Rose.IH h d f'(2) x by auto
    next
      case False
      then have "rs = []" using x(5) by auto
      moreover have "?x\<lparr>cn_items := []\<rparr> = ?x" using x(3) \<open>rs = []\<close> by simp
      ultimately show ?thesis using False x(4) by (auto simp: node_type_ok_def removed_def)
    qed
    then obtain t1 where t1: "(if cn_type ?x = CLI_DIR_NODE then remove_items f' n t
                else if cn_type ?x \<in> {CLI_CMD_NODE, CLI_FILE_NODE, CLI_ALIAS_NODE, CLI_STR_NODE} then Inr (0, t) else Inr (- 1, t)) = Inr (0, t1)"
      "removed t (concat (map post rs)) n [] t1" by blast
    have r1: "length (t_mem t1) = length (t_mem t)" "t_mem t1 ! n = ?x\<lparr>cn_items := []\<rparr>" "t_mem t1 ! p = t_mem t ! p"
      using t1(2) p by (auto simp: removed_def set_post)
    have dirs: "is_directory (t_mem t1 ! n) = is_directory ?x" using r1(2) by (simp add: is_directory_def is_node_def)
    let ?t2 = "t1\<lparr>t_bins := close_dir t n (t_bins t1)\<rparr>"
    have b: "\<exists>q. (if is_directory ?x then cli_del_bin (Some n) t1 else Inr (0, t1)) = Inr (q, ?t2)"
      using cli_del_bin_at[of n t1] x(1) r1(1) dirs by (auto simp: close_dir_def)
    let ?t3 = "cli_free n (?t2\<lparr>t_mem := (t_mem t1)[p := (t_mem t ! p)\<lparr>cn_items := filter (\<lambda>m. m \<noteq> n) (cn_items (t_mem t ! p))\<rparr>]\<rparr>)"
    have u: "unlink p n ?t2 = Inr ?t3" using p(1) r1 by (simp add: unlink_def upd_nd_def)
    have "remove_node f n t = Inr (0, ?t3)" using x(1,2) t1(1) b u unfolding f'(1) by (auto simp: nd_def)
    moreover have "removed t (post (Rose n rs)) p (filter (\<lambda>m. m \<noteq> n) (cn_items (t_mem t ! p))) ?t3"
      using t1(2) p r1 d by (auto simp: removed_def cli_free_def set_post nth_list_update)
    ultimately show "\<exists>t'. remove_node f (rid (Rose n rs)) t = Inr (0, t') \<and>
      removed t (post (Rose n rs)) p (filter (\<lambda>m. m \<noteq> rid (Rose n rs)) (cn_items (t_mem t ! p))) t'" by auto
  qed
qed

section \<open>Paths\<close>

text \<open>A part of a path, and the text of a path from the root.\<close>

definition part :: "string \<Rightarrow> bool" where
  "part s \<longleftrightarrow> s \<noteq> [] \<and> CHR ''/'' \<notin> set s \<and> \<not> isspace (hd s) \<and> \<not> isspace (last s) \<and> s \<noteq> ''.'' \<and> s \<noteq> ''..''"

definition path_text :: "string list \<Rightarrow> string" where
  "path_text ps = ''/'' @ concat (map (\<lambda>p. p @ ''/'') ps)"

lemma path_text_simps: "path_text [] = ''/''" "path_text (ps @ [p]) = path_text ps @ p @ ''/''"
  by (simp_all add: path_text_def)

lemma tok_part:
  assumes "part p"
  shows "strtok_r (p @ CHR ''/'' # r) ''/'' = Some (p, r)"
proof -
  obtain c cs where p: "p = c # cs" "c \<noteq> CHR ''/''" using assms by (cases p) (auto simp: part_def)
  have n: "CHR ''/'' \<notin> set p" using assms by (simp add: part_def)
  have "takeWhile (\<lambda>c. c \<noteq> CHR ''/'') (p @ CHR ''/'' # r) = p" "dropWhile (\<lambda>c. c \<noteq> CHR ''/'') (p @ CHR ''/'' # r) = CHR ''/'' # r"
    using n by (induction p) auto
  moreover have "dropWhile (\<lambda>c. c = CHR ''/'') (p @ CHR ''/'' # r) = p @ CHR ''/'' # r" using p by simp
  ultimately show ?thesis by (simp add: strtok_r_def Let_def)
qed

lemma tok_parts: "\<forall>p \<in> set ps. part p \<Longrightarrow> strtok_loop k (concat (map (\<lambda>p. p @ ''/'') ps)) ''/'' = take k ps"
proof (induction ps arbitrary: k)
  case Nil
  then show ?case by (cases k) (simp_all add: strtok_r_def)
next
  case (Cons p ps)
  have "part p" using Cons.prems by simp
  then have "pg_strtrim p = p" by (intro pg_strtrim_id) (simp add: part_def)
  then show ?case using Cons tok_part[OF \<open>part p\<close>, of "concat (map (\<lambda>p. p @ ''/'') ps)"] by (cases k) simp_all
qed

lemma path_parts_text: "\<forall>p \<in> set ps. part p \<Longrightarrow> length ps \<le> CLI_MAX_ARGVS \<Longrightarrow> path_parts (path_text ps) = ps"
  by (simp add: path_parts_def path_text_def tok_parts)

text \<open>
  A chain of nodes from \<open>n\<close> downwards: each is the first entry with its name in the one before it, which is a directory.
\<close>

fun node_chain :: "ctree \<Rightarrow> nat \<Rightarrow> nat list \<Rightarrow> bool" where
  "node_chain t n [] \<longleftrightarrow> n < length (t_mem t)"
| "node_chain t n (m # ms) \<longleftrightarrow>
     n < length (t_mem t) \<and> is_directory (t_mem t ! n) \<and> cn_parent (t_mem t ! m) = Some n \<and> part (cn_name (t_mem t ! m)) \<and>
     find_item t (cn_items (t_mem t ! n)) (cn_name (t_mem t ! m)) CLI_ALL_TYPE = Inr (Some m) \<and> node_chain t m ms"

definition names :: "ctree \<Rightarrow> nat list \<Rightarrow> string list" where
  "names t ms = map (\<lambda>m. cn_name (t_mem t ! m)) ms"

lemma search_chain:
  assumes "node_chain t n (m # ms)"
  shows "cli_search_dir t (Some n) (cn_name (t_mem t ! m)) CLI_ALL_TYPE = Inr (Some m)"
  using assms by (auto simp: cli_search_dir_def nd_def deref_def part_def)

lemma follow_node_chain: "node_chain t n ms \<Longrightarrow> ms \<noteq> [] \<Longrightarrow> \<exists>d. follow t (Some n) x (names t ms) = Inr (Some (last ms), d)"
proof (induction ms arbitrary: n x)
  case (Cons m ms)
  have s: "cli_search_dir t (Some n) (cn_name (t_mem t ! m)) CLI_ALL_TYPE = Inr (Some m)" using search_chain[OF Cons.prems(1)] .
  have m: "m < length (t_mem t)" "node_chain t m ms" using Cons.prems(1) by (cases ms; simp)+
  show ?case
  proof (cases ms)
    case Nil
    then show ?thesis using s m by (simp add: names_def nd_def)
  next
    case (Cons k ks)
    then have "is_directory (t_mem t ! m)" using m(2) by simp
    then show ?thesis using s m Cons.IH[OF m(2), of "Some m"] Cons by (simp add: names_def nd_def)
  qed
qed simp

lemma path_loop_chain:
  assumes "node_chain t n ms" and "cn_parent (t_mem t ! n) = None" and "length ms < f" and "length (path_text (names t ms)) \<le> CLI_MAX_SCRATCH_LENGTH"
  shows "path_loop f t (last (n # ms)) = Inr (path_text (names t ms))"
  using assms
proof (induction ms arbitrary: f rule: rev_induct)
  case Nil
  then show ?case by (cases f) (simp_all add: nd_def names_def path_text_simps)
next
  case (snoc m ms)
  have c: "node_chain t n (ms @ [m]) \<Longrightarrow> node_chain t n ms \<and> cn_parent (t_mem t ! m) = Some (last (n # ms)) \<and> m < length (t_mem t)" for n
    by (induction ms arbitrary: n) auto
  obtain f' where f: "f = Suc f'" "length ms < f'" using snoc.prems(3) by (cases f) auto
  have nm: "names t (ms @ [m]) = names t ms @ [cn_name (t_mem t ! m)]" by (simp add: names_def)
  have "path_loop f' t (last (n # ms)) = Inr (path_text (names t ms))"
    using snoc.IH[of f'] c[OF snoc.prems(1)] snoc.prems(2,4) f(2) by (simp add: nm path_text_simps)
  then show ?case using c[OF snoc.prems(1)] snoc.prems(4) f(1) by (simp add: nd_def nm path_text_simps)
qed

section \<open>An example\<close>

definition dir_node :: "nat option \<Rightarrow> string \<Rightarrow> nat list \<Rightarrow> cli_node" where
  "dir_node p nm its = node_zero\<lparr>cn_parent := p, cn_name := nm, cn_type := CLI_DIR_NODE, cn_items := its\<rparr>"

definition sample_tree :: ctree where
  "sample_tree =
     \<lparr>t_mem = [dir_node None ''/'' [1], dir_node (Some 0) ''a'' [2], dir_node (Some 1) ''b'' [3],
        node_zero\<lparr>cn_parent := Some 2, cn_name := ''x'', cn_type := CLI_CMD_NODE, cn_func := Some 7\<rparr>, node_zero, node_zero],
      t_free = [4, 5], t_root = [0], t_bins = [Some 2, None, Some 2], t_unlimited = False\<rparr>"

lemma sample_node_chain: "node_chain sample_tree 0 [1, 2, 3]" "node_chain sample_tree 0 [1, 2]"
  by code_simp+

lemma sample_facts: "get_root sample_tree = Some 0" "cn_parent (t_mem sample_tree ! 0) = None" "length (t_mem sample_tree) = 6" "names sample_tree [1, 2] = [''a'', ''b'']"
  "path_text [''a'', ''b''] = ''/a/b/''" "t_bins sample_tree = [Some 2, None, Some 2]"
  by code_simp+

section \<open>Properties\<close>

text \<open>
  C27: the path that is printed for a node is found again. For a node below the root through directories in which it and its
  parents are the first entries of their names, \<open>cli_path_string\<close> gives the names with slashes and \<open>cli_find_node\<close> of
  this text is the node; \<open>cd\<close> to it makes \<open>pwd\<close> print the path.
\<close>

theorem path_found_again:
  assumes "get_root t = Some n" and "cn_parent (t_mem t ! n) = None" and "node_chain t n ms" and "ms \<noteq> []" and "length ms \<le> CLI_MAX_ARGVS"
    and "length ms < length (t_mem t)" and "length (path_text (names t ms)) \<le> CLI_MAX_SCRATCH_LENGTH" and "t_bins t \<noteq> []"
  shows "cli_path_string t (Some (last ms)) = Inr (path_text (names t ms)) \<and>
    cli_find_node t (path_text (names t ms)) = Inr (Some (last ms)) \<and>
    (\<exists>t'. cd_cmd [''cd'', path_text (names t ms)] t = Inr (0, t') \<and> pwd_cmd [''pwd''] t' = Inr (Some (butlast (path_text (names t ms)))))"
proof -
  have p: "\<forall>p \<in> set (names t ms). part p" using assms(3) by (induction ms arbitrary: n) (auto simp: names_def)
  have s: "cli_path_string t (Some (last ms)) = Inr (path_text (names t ms))"
    using path_loop_chain[OF assms(3,2,6,7)] assms(4) by (simp add: cli_path_string_def)
  have ne: "names t ms \<noteq> []" using assms(4) by (simp add: names_def)
  then have l: "1 < length (path_text (names t ms))" by (cases "names t ms") (auto simp: path_text_def)
  then have "path_text (names t ms) \<noteq> ''/''" "path_text (names t ms) \<noteq> []" by auto
  moreover have "path_start t (path_text (names t ms)) = Some n" using assms(1) by (simp add: path_start_def path_text_def)
  ultimately have f: "cli_find_node t (path_text (names t ms)) = Inr (Some (last ms))"
    using follow_node_chain[OF assms(3,4), of None] path_parts_text[OF p] assms(5) by (auto simp: cli_find_node_def names_def)
  let ?t = "set_cwd (Some (last ms)) t"
  have loop: "path_loop f ?t k = path_loop f t k" for f k
    by (induction f arbitrary: k) (auto simp: nd_def set_cwd_def split: option.splits intro!: rbind_cong)
  have "get_cwd ?t = Some (last ms)" using assms(8) by (simp add: set_cwd_def get_cwd_def)
  then have "pwd_cmd [''pwd''] ?t = Inr (Some (butlast (path_text (names t ms))))"
    using s l by (simp add: pwd_cmd_def cli_path_string_def loop) (simp add: set_cwd_def)
  moreover have "path_text (names t ms) \<noteq> ''-?''" by (simp add: path_text_def)
  then have "cd_cmd [''cd'', path_text (names t ms)] t = Inr (0, ?t)" using f by (simp add: cd_cmd_def)
  ultimately show ?thesis using s f by blast
qed

theorem path_found_again_witness:
  "cli_path_string sample_tree (Some 2) = Inr ''/a/b/'' \<and> cli_find_node sample_tree ''/a/b/'' = Inr (Some 2) \<and>
    (\<exists>t'. cd_cmd [''cd'', ''/a/b/''] sample_tree = Inr (0, t') \<and> pwd_cmd [''pwd''] t' = Inr (Some ''/a/b''))"
  using path_found_again[OF sample_facts(1,2) sample_node_chain(2), unfolded sample_facts(4,5)]
  by (simp add: sample_facts CLI_MAX_ARGVS_def CLI_MAX_SCRATCH_LENGTH_def)



lemma find_item_cong:
  "\<forall>m \<in> set ns. m < length (t_mem t) \<longrightarrow> m < length (t_mem t') \<and> cn_name (t_mem t' ! m) = cn_name (t_mem t ! m) \<and> cn_type (t_mem t' ! m) = cn_type (t_mem t ! m) \<Longrightarrow>
    find_item t ns nm ty = Inr r \<Longrightarrow> find_item t' ns nm ty = Inr r"
  by (induction ns) (auto simp: nd_def split: if_splits)

lemma pg_strmatch_eq: "pg_strmatch a b \<longleftrightarrow> a = b"
  by (induction a b rule: pg_strmatch.induct) auto

lemma dir_type: "CLI_DIR_NODE AND CLI_ALL_TYPE \<noteq> 0" "CLI_DIR_NODE AND CLI_DIR_NODE \<noteq> 0"
  by (simp_all add: CLI_DIR_NODE_def CLI_ALL_TYPE_def CLI_EXE_TYPE_def CLI_CMD_NODE_def CLI_ALIAS_NODE_def CLI_FILE_NODE_def)

lemma search_part:
  assumes "part nm" and "d < length (t_mem t)" and "is_directory (t_mem t ! d)"
  shows "cli_search_dir t (Some d) nm CLI_ALL_TYPE = find_item t (cn_items (t_mem t ! d)) nm CLI_ALL_TYPE"
  using assms by (simp add: cli_search_dir_def nd_def deref_def part_def)

lemma part_append: "part a \<Longrightarrow> part b \<Longrightarrow> part (a @ b)"
  by (cases a; cases b) (auto simp: part_def Cons_eq_append_conv append_eq_Cons_conv)

lemma find_one:
  assumes "part a" and "get_root t = Some n" and "n < length (t_mem t)" and "is_directory (t_mem t ! n)"
    and "find_item t (cn_items (t_mem t ! n)) a CLI_ALL_TYPE = Inr r" and "\<forall>m. r = Some m \<longrightarrow> m < length (t_mem t)"
  shows "cli_find_node t (CHR ''/'' # a) = Inr r"
proof -
  obtain c cs where a: "a = c # cs" "c \<noteq> CHR ''/''" using assms(1) by (cases a) (auto simp: part_def)
  obtain k where args: "CLI_MAX_ARGVS = Suc k" by (cases CLI_MAX_ARGVS) (simp_all add: CLI_MAX_ARGVS_def)
  have w: "\<forall>c \<in> set a. c \<noteq> CHR ''/''" using assms(1) by (auto simp: part_def)
  have "pg_strtrim a = a" using assms(1) by (intro pg_strtrim_id) (simp add: part_def)
  moreover have "strtok_r a ''/'' = Some (a, [])"
  proof -
    have "takeWhile (\<lambda>c. c \<noteq> CHR ''/'') a = a" "dropWhile (\<lambda>c. c \<noteq> CHR ''/'') a = []" using w by simp_all
    moreover have "dropWhile (\<lambda>c. c = CHR ''/'') a = a" using a by simp
    moreover have "a \<noteq> []" using a by simp
    ultimately show ?thesis by (simp add: strtok_r_def Let_def del: dropWhile_eq_Nil_conv takeWhile_eq_all_conv)
  qed
  moreover have "strtok_loop k [] ''/'' = []" for k by (cases k) (simp_all add: strtok_r_def)
  ultimately have "path_parts (CHR ''/'' # a) = [a]" by (simp add: path_parts_def args)
  moreover have "path_start t (CHR ''/'' # a) = Some n" using assms(2) by (simp add: path_start_def)
  moreover have "\<exists>x. follow t (Some n) None [a] = Inr (r, x)"
    using search_part[OF assms(1,3,4)] assms(5,6) by (cases r) (auto simp: nd_def)
  ultimately show ?thesis using a by (auto simp: cli_find_node_def)
qed

lemma add_dir_at:
  assumes "t_free t = f # fs" and "part nm" and "length nm < CLI_NAME_LEN" and "f < length (t_mem t)" and "d < length (t_mem t)" and "d \<noteq> f"
  shows "\<exists>t'. add_node ra nm (Some d) CLI_DIR_NODE None None t = Inr (Some f, t') \<and> t_free t' = fs \<and> t_root t' = t_root t \<and> t_bins t' = t_bins t \<and>
    length (t_mem t') = length (t_mem t) \<and> cn_items (t_mem t' ! d) = f # cn_items (t_mem t ! d) \<and>
    cn_name (t_mem t' ! f) = nm \<and> cn_type (t_mem t' ! f) = CLI_DIR_NODE \<and> cn_items (t_mem t' ! f) = cn_items (t_mem t ! f) \<and>
    cn_name (t_mem t' ! d) = cn_name (t_mem t ! d) \<and> cn_type (t_mem t' ! d) = cn_type (t_mem t ! d) \<and>
    (\<forall>m. m \<noteq> d \<longrightarrow> m \<noteq> f \<longrightarrow> t_mem t' ! m = t_mem t ! m)"
proof -
  have "nm \<noteq> ''/''" using assms(2) by (auto simp: part_def)
  moreover have "take (CLI_NAME_LEN - 1) nm = nm" using assms(3) by simp
  ultimately show ?thesis using assms(1,4-6)
    by (auto simp: add_node_def add_node_ok_def cli_alloc_def upd_nd_def fill_node_def Let_def CLI_DIR_NODE_def CLI_CMD_NODE_def CLI_FILE_NODE_def CLI_ALIAS_NODE_def)
qed

lemma add_two_dirs:
  assumes "t_free t = f1 # f2 # fs" "f1 < length (t_mem t)" "f2 < length (t_mem t)" "f1 \<noteq> f2" "cn_items (t_mem t ! f1) = []" "da \<notin> {f1, f2}"
    and "part b" "part c" "length b < CLI_NAME_LEN" "length c < CLI_NAME_LEN" "da < length (t_mem t)"
  shows "\<exists>t1 t2. add_node ra b (Some da) CLI_DIR_NODE None None t = Inr (Some f1, t1) \<and> add_node ra c (Some f1) CLI_DIR_NODE None None t1 = Inr (Some f2, t2) \<and>
    (\<forall>s \<in> {t1, t2}. t_root s = t_root t \<and> length (t_mem s) = length (t_mem t) \<and> (\<forall>m. m \<notin> {da, f1, f2} \<longrightarrow> t_mem s ! m = t_mem t ! m) \<and>
      cn_name (t_mem s ! da) = cn_name (t_mem t ! da) \<and> cn_type (t_mem s ! da) = cn_type (t_mem t ! da)) \<and>
    cn_items (t_mem t2 ! da) = f1 # cn_items (t_mem t ! da) \<and> cn_name (t_mem t2 ! f1) = b \<and> cn_type (t_mem t2 ! f1) = CLI_DIR_NODE \<and>
    cn_items (t_mem t2 ! f1) = [f2] \<and> cn_name (t_mem t2 ! f2) = c"
proof -
  obtain t1 where t1: "add_node ra b (Some da) CLI_DIR_NODE None None t = Inr (Some f1, t1)" "t_free t1 = f2 # fs" "t_root t1 = t_root t"
    "length (t_mem t1) = length (t_mem t)" "cn_items (t_mem t1 ! da) = f1 # cn_items (t_mem t ! da)" "cn_name (t_mem t1 ! f1) = b" "cn_type (t_mem t1 ! f1) = CLI_DIR_NODE"
    "cn_items (t_mem t1 ! f1) = []" "cn_name (t_mem t1 ! da) = cn_name (t_mem t ! da)" "cn_type (t_mem t1 ! da) = cn_type (t_mem t ! da)"
    "\<forall>m. m \<noteq> da \<longrightarrow> m \<noteq> f1 \<longrightarrow> t_mem t1 ! m = t_mem t ! m"
    using add_dir_at[OF assms(1,7,9,2,11), of ra] assms(5,6) by auto
  obtain t2 where t2: "add_node ra c (Some f1) CLI_DIR_NODE None None t1 = Inr (Some f2, t2)" "t_root t2 = t_root t1"
    "length (t_mem t2) = length (t_mem t1)" "cn_items (t_mem t2 ! f1) = f2 # cn_items (t_mem t1 ! f1)" "cn_name (t_mem t2 ! f2) = c"
    "cn_name (t_mem t2 ! f1) = cn_name (t_mem t1 ! f1)" "cn_type (t_mem t2 ! f1) = cn_type (t_mem t1 ! f1)"
    "\<forall>m. m \<noteq> f1 \<longrightarrow> m \<noteq> f2 \<longrightarrow> t_mem t2 ! m = t_mem t1 ! m"
    using add_dir_at[OF t1(2) assms(8,10), of f1 ra] t1(4) assms(2-4) by auto
  have d: "t_mem t2 ! da = t_mem t1 ! da" using t2(8) assms(6) by blast
  have o: "t_mem t1 ! m = t_mem t ! m \<and> t_mem t2 ! m = t_mem t ! m" if "m \<notin> {da, f1, f2}" for m using that t1(11) t2(8) by simp
  have "\<forall>s \<in> {t1, t2}. t_root s = t_root t \<and> length (t_mem s) = length (t_mem t) \<and> (\<forall>m. m \<notin> {da, f1, f2} \<longrightarrow> t_mem s ! m = t_mem t ! m) \<and>
      cn_name (t_mem s ! da) = cn_name (t_mem t ! da) \<and> cn_type (t_mem s ! da) = cn_type (t_mem t ! da)"
    using t1(3,4,9,10) t2(2,3) d o by simp
  moreover have "cn_items (t_mem t2 ! da) = f1 # cn_items (t_mem t ! da)" "cn_name (t_mem t2 ! f1) = b" "cn_type (t_mem t2 ! f1) = CLI_DIR_NODE"
    "cn_items (t_mem t2 ! f1) = [f2]" using d t1(5-8) t2(4,6,7) by simp_all
  ultimately show ?thesis using t1(1) t2(1,5) by blast
qed

text \<open>
  Creating a directory below one that exists by its full path makes what is in the existing one unreachable: the
  directory \<open>/a/b/c\<close> is put into a second directory \<open>b\<close>, because the parts are joined without a slash when they are looked up,
  and this one is found first. A node \<open>/a/b/x\<close> is lost.
\<close>

theorem add_dir_shadows:
  assumes r: "get_root t = Some n" "node_chain t n [da, db, dx]"
    and nm: "cn_name (t_mem t ! da) = a" "cn_name (t_mem t ! db) = b" "cn_name (t_mem t ! dx) = x" "part c" "c \<noteq> x" "length b < CLI_NAME_LEN" "length c < CLI_NAME_LEN"
    and none: "find_item t (cn_items (t_mem t ! n)) (a @ b) CLI_ALL_TYPE = Inr None" "find_item t (cn_items (t_mem t ! n)) (a @ b @ c) CLI_ALL_TYPE = Inr None"
      "find_item t (cn_items (t_mem t ! db)) c CLI_ALL_TYPE = Inr None"
    and free: "t_free t = f1 # f2 # fs" "f1 < length (t_mem t)" "f2 < length (t_mem t)" "f1 \<noteq> f2" "cn_items (t_mem t ! f1) = []"
      "{f1, f2} \<inter> ({n, da, db, dx} \<union> set (cn_items (t_mem t ! n))) = {}" "da \<noteq> n"
    and len: "length (path_text [a, b, c]) < 2048"
  shows "cli_find_node t (path_text [a, b, x]) = Inr (Some dx) \<and>
    (\<exists>t'. cli_add_dir ra (path_text [a, b, c]) None t = Inr (Some f2, t') \<and> cli_find_node t' (path_text [a, b, x]) = Inr None)"
proof -
  have ch: "n < length (t_mem t)" "is_directory (t_mem t ! n)" "find_item t (cn_items (t_mem t ! n)) a CLI_ALL_TYPE = Inr (Some da)" "part a"
    "da < length (t_mem t)" "is_directory (t_mem t ! da)" "find_item t (cn_items (t_mem t ! da)) b CLI_ALL_TYPE = Inr (Some db)" "part b"
    "db < length (t_mem t)" "is_directory (t_mem t ! db)" "part x"
    using r(2) nm by auto
  have parts: "part (a @ b)" "part (a @ b @ c)" using ch nm(4) part_append by blast+
  have ps: "path_parts (path_text [a, b, y]) = [a, b, y]" if "part y" for y using path_parts_text[of "[a, b, y]"] ch that by (simp add: CLI_MAX_ARGVS_def)
  have st: "path_start s (path_text [a, b, y]) = get_root s \<and> path_text [a, b, y] \<noteq> ''/'' \<and> path_text [a, b, y] \<noteq> []" for s y
    by (simp add: path_start_def path_text_def)
  have found: "cli_find_node t (path_text [a, b, x]) = Inr (Some dx)"
    using follow_node_chain[OF r(2), of None] ps[OF ch(11)] st[of t] r(1) nm by (auto simp: cli_find_node_def names_def)
  have "cli_search_dir t (Some n) a CLI_ALL_TYPE = Inr (Some da)" "cli_search_dir t (Some da) b CLI_ALL_TYPE = Inr (Some db)"
    "cli_search_dir t (Some db) c CLI_ALL_TYPE = Inr None" using ch nm(4) none search_part by simp_all
  then have f0: "cli_find_node t (path_text [a, b, c]) = Inr None"
    using ps[OF nm(4)] st[of t] r(1) ch by (simp add: cli_find_node_def nd_def)
  obtain t1 t2 where t1: "add_node ra b (Some da) CLI_DIR_NODE None None t = Inr (Some f1, t1)" and t2: "add_node ra c (Some f1) CLI_DIR_NODE None None t1 = Inr (Some f2, t2)"
    and both: "\<forall>s \<in> {t1, t2}. t_root s = t_root t \<and> length (t_mem s) = length (t_mem t) \<and> (\<forall>m. m \<notin> {da, f1, f2} \<longrightarrow> t_mem s ! m = t_mem t ! m) \<and>
      cn_name (t_mem s ! da) = cn_name (t_mem t ! da) \<and> cn_type (t_mem s ! da) = cn_type (t_mem t ! da)"
    and at2: "cn_items (t_mem t2 ! da) = f1 # cn_items (t_mem t ! da)" "cn_name (t_mem t2 ! f1) = b" "cn_type (t_mem t2 ! f1) = CLI_DIR_NODE"
      "cn_items (t_mem t2 ! f1) = [f2]" "cn_name (t_mem t2 ! f2) = c"
    using add_two_dirs[OF free(1-5), of da b c ra] free(6) ch(5,8) nm(4,6,7) by auto
  have root: "t_mem s ! n = t_mem t ! n" "get_root s = Some n" "length (t_mem s) = length (t_mem t)" if "s \<in> {t1, t2}" for s
    using that both r(1) free(6,7) by (auto simp: get_root_def)
  have fi: "find_item s (cn_items (t_mem t ! n)) y CLI_ALL_TYPE = Inr q" if "s \<in> {t1, t2}" "find_item t (cn_items (t_mem t ! n)) y CLI_ALL_TYPE = Inr q" for s y q
  proof (rule find_item_cong[OF _ that(2)], intro ballI impI)
    fix m
    assume "m \<in> set (cn_items (t_mem t ! n))" "m < length (t_mem t)"
    then show "m < length (t_mem s) \<and> cn_name (t_mem s ! m) = cn_name (t_mem t ! m) \<and> cn_type (t_mem s ! m) = cn_type (t_mem t ! m)"
      using bspec[OF both that(1)] free(6) by (cases "m = da") auto
  qed
  have g1: "cli_find_node t (CHR ''/'' # a) = Inr (Some da)" using find_one[OF ch(4) r(1) ch(1,2,3)] ch(5) by simp
  have g2: "cli_find_node t (CHR ''/'' # a @ b) = Inr None" using find_one[OF parts(1) r(1) ch(1,2) none(1)] by simp
  have g3: "cli_find_node t1 (CHR ''/'' # a @ b @ c) = Inr None"
    using find_one[OF parts(2) root(2)[of t1], of None] ch(1,2) root(1,3)[of t1] fi[OF _ none(2), of t1] by simp
  have "take (CLI_MAX_SCRATCH_LENGTH - 1) (path_text [a, b, c]) = path_text [a, b, c]" using len by (simp add: CLI_MAX_SCRATCH_LENGTH_def)
  moreover have "strtok_loop CLI_MAX_ARGVS (tl (path_text [a, b, c])) ''/'' = [a, b, c]" using ps[OF nm(4)] by (simp add: path_parts_def path_text_def)
  moreover have "take 1 (path_text [a, b, c]) = ''/''" by (simp add: path_text_def)
  moreover have "add_dirs ra [a, b, c] ''/'' (Some n) None t = Inr (Some f2, t2)"
    using g1 g2 g3 t1 t2 len by (simp add: CLI_MAX_PATH_LENGTH_def path_text_def)
  ultimately have add: "cli_add_dir ra (path_text [a, b, c]) None t = Inr (Some f2, t2)" using f0 r(1) by (simp add: cli_add_dir_def Let_def)
  have "is_directory (t_mem t2 ! da)" "is_directory (t_mem t2 ! f1)" using ch(6) both at2(3) dir_type by (auto simp: is_directory_def is_node_def)
  moreover have "find_item t2 (cn_items (t_mem t2 ! da)) b CLI_ALL_TYPE = Inr (Some f1)"
    using at2 root(3)[of t2] free(2) dir_type by (simp add: nd_def pg_strmatch_eq)
  moreover have "find_item t2 (cn_items (t_mem t2 ! f1)) x CLI_ALL_TYPE = Inr None"
    using at2 root(3)[of t2] nm(5) free(3) by (simp add: nd_def pg_strmatch_eq)
  ultimately have "cli_search_dir t2 (Some n) a CLI_ALL_TYPE = Inr (Some da)" "cli_search_dir t2 (Some da) b CLI_ALL_TYPE = Inr (Some f1)"
    "cli_search_dir t2 (Some f1) x CLI_ALL_TYPE = Inr None" "is_directory (t_mem t2 ! da)" "is_directory (t_mem t2 ! f1)"
    using ch root[of t2] free(2) fi[OF _ ch(3), of t2] by (simp_all add: search_part)
  then have "cli_find_node t2 (path_text [a, b, x]) = Inr None"
    using ps[OF ch(11)] st[of t2] root(2,3)[of t2] ch(5) free(2) by (simp add: cli_find_node_def nd_def)
  then show ?thesis using add found by blast
qed

theorem add_dir_shadows_witness:
  "cli_find_node sample_tree ''/a/b/x/'' = Inr (Some 3) \<and>
    (\<exists>t'. cli_add_dir Realloc_fails ''/a/b/c/'' None sample_tree = Inr (Some 5, t') \<and> cli_find_node t' ''/a/b/x/'' = Inr None)"
proof -
  have "path_text [''a'', ''b'', ''x''] = ''/a/b/x/''" "path_text [''a'', ''b'', ''c''] = ''/a/b/c/''" by code_simp+
  moreover have "cn_name (t_mem sample_tree ! 1) = ''a''" "cn_name (t_mem sample_tree ! 2) = ''b''" "cn_name (t_mem sample_tree ! 3) = ''x''"
    "part ''c''" "find_item sample_tree (cn_items (t_mem sample_tree ! 0)) ''ab'' CLI_ALL_TYPE = Inr None"
    "find_item sample_tree (cn_items (t_mem sample_tree ! 0)) ''abc'' CLI_ALL_TYPE = Inr None"
    "find_item sample_tree (cn_items (t_mem sample_tree ! 2)) ''c'' CLI_ALL_TYPE = Inr None"
    "t_free sample_tree = [4, 5]" "cn_items (t_mem sample_tree ! 4) = []" "cn_items (t_mem sample_tree ! 0) = [1]" by code_simp+
  ultimately show ?thesis using add_dir_shadows[OF sample_facts(1) sample_node_chain(1), of "''a''" "''b''" "''x''" "''c''" 4 5 "[]" Realloc_fails]
    by (simp add: sample_facts CLI_NAME_LEN_def)
qed

end
