(* ===== verification/CmdMap.thy ===== *)
theory CmdMap
  imports CmdTree
begin

text \<open>
  Command maps (lib/cli/cli_map.c): a table of formats, one for each form of a command, and the search for the form that
  fits the arguments. The functions that only print are left out.
\<close>

definition isdigit :: "char \<Rightarrow> bool" where
  "isdigit c \<longleftrightarrow> digit_val c < 10"

definition isxdigit :: "char \<Rightarrow> bool" where
  "isxdigit c \<longleftrightarrow> digit_val c < 16"

definition isprint :: "char \<Rightarrow> bool" where
  "isprint c \<longleftrightarrow> 32 \<le> (of_char c :: nat) \<and> (of_char c :: nat) < 127"

text \<open>The test of one character under a format letter, for the letters that are tested by characters.\<close>

definition fmt_char_ok :: "char \<Rightarrow> char \<Rightarrow> bool" where
  "fmt_char_ok f c =
     (if f \<in> set ''bdDn46'' then isdigit c
      else if f \<in> set ''hHm'' then isxdigit c
      else if f = CHR ''s'' then isprint c
      else if f \<in> set ''PC'' then isdigit c \<or> c = CHR ''a''
      else True)"

text \<open>The loop over the argument in memory: it goes on while a character does not fit.\<close>

fun map_valid_loop :: "char \<Rightarrow> string \<Rightarrow> bool res" where
  "map_valid_loop f (c # d # m) =
     (if d \<noteq> NUL \<and> \<not> fmt_char_ok f c then map_valid_loop f (d # m) else Inr (fmt_char_ok f c))"
| "map_valid_loop f _ = Inl Fault"

definition fmt_letters :: string where
  "fmt_letters = ''%bdDhHsn46mkPC|l''"

definition is_map_valid :: "string \<Rightarrow> string \<Rightarrow> bool res" where
  "is_map_valid fmt m =
     (case fmt of
        p # f # fs \<Rightarrow>
          if f \<notin> set fmt_letters then Inr False
          else if f = CHR ''k'' then Inr True
          else if f = CHR ''|'' then Inr (pg_stropt (tl fmt) (takeWhile (\<lambda>c. c \<noteq> NUL) m) ''|'' \<noteq> - 1)
          else map_valid_loop f m
      | _ \<Rightarrow> Inr False)"

text \<open>\<open>after\<close> is the memory behind the terminator of an argument.\<close>

fun match_args :: "string \<Rightarrow> string list \<Rightarrow> string list \<Rightarrow> bool res" where
  "match_args after (k # ks) (a # as) =
     rbind (if take 1 k = ''%'' then is_map_valid k (a @ NUL # after) else Inr (pg_strmatch k a)) (\<lambda>ok.
       if ok then match_args after ks as else Inr False)"
| "match_args after _ _ = Inr True"

definition asks_help :: "string list \<Rightarrow> bool" where
  "asks_help argv \<longleftrightarrow> last argv = ''-?'' \<or> last argv = ''?''"

fun cli_mapping :: "string \<Rightarrow> (int \<times> string) list \<Rightarrow> string list \<Rightarrow> (int \<times> string) option res" where
  "cli_mapping after [] argv = Inr None"
| "cli_mapping after (e # es) argv =
     (if CLI_MAX_PATH_LENGTH < length (snd e) then Inl Fault
      else if argv = [] then Inl Fault
      else if asks_help argv then Inr None
      else
        let toks = strtok_loop CLI_MAX_ARGVS (snd e) '' '' in
        if length toks \<noteq> length argv then cli_mapping after es argv
        else rbind (match_args after toks argv) (\<lambda>ok. if ok then Inr (Some e) else cli_mapping after es argv))"

definition cli_map_list_search :: "string \<Rightarrow> string \<Rightarrow> int \<Rightarrow> int res" where
  "cli_map_list_search fmt item index =
     (let opts = strtok_loop CLI_MAX_ARGVS fmt '' '' in
      if 0 \<le> index \<and> index < int (length opts) \<and> 2 \<le> length (opts ! nat index)
      then Inr (pg_stropt (drop 2 (opts ! nat index)) item ''|'') else Inl Fault)"

section \<open>What fits a format\<close>

definition tok_fits :: "string \<Rightarrow> string \<Rightarrow> bool" where
  "tok_fits k a \<longleftrightarrow>
     (if take 1 k \<noteq> ''%'' then k = a
      else case tl k of
        [] \<Rightarrow> False
      | f # fs \<Rightarrow>
          f \<in> set fmt_letters \<and>
          (if f = CHR ''k'' then True
           else if f = CHR ''|'' then a \<in> set (strtok_loop STR_MAX_ARGVS (tl k) ''|'')
           else (\<exists>c \<in> set a. fmt_char_ok f c)))"

definition entry_fits :: "string list \<Rightarrow> int \<times> string \<Rightarrow> bool" where
  "entry_fits argv e \<longleftrightarrow> (let toks = strtok_loop CLI_MAX_ARGVS (snd e) '' '' in length toks = length argv \<and> list_all2 tok_fits toks argv)"

lemma map_valid_any: "a \<noteq> [] \<Longrightarrow> NUL \<notin> set a \<Longrightarrow> map_valid_loop f (a @ NUL # m) = Inr (\<exists>c \<in> set a. fmt_char_ok f c)"
proof (induction a)
  case (Cons c a)
  then show ?case by (cases a) auto
qed simp

lemma stropt_from_mem: "(stropt_from i as s \<noteq> - 1) \<longleftrightarrow> s \<in> set as"
  by (induction i as s rule: stropt_from.induct) (auto simp: pg_strmatch_eq)

lemma stropt_mem: "(pg_stropt (CHR ''|'' # fs) s ''|'' \<noteq> - 1) \<longleftrightarrow> s \<in> set (strtok_loop STR_MAX_ARGVS (CHR ''|'' # fs) ''|'')"
  by (simp add: pg_stropt_def pg_strtok_def STR_MAX_ARGVS_def stropt_from_mem)

lemma valid_fits:
  assumes "a \<noteq> []" and "NUL \<notin> set a" and "take 1 k = ''%''"
  shows "is_map_valid k (a @ NUL # m) = Inr (tok_fits k a)"
proof -
  have t: "takeWhile (\<lambda>c. c \<noteq> NUL) (a @ NUL # m) = a" using assms(2) by (induction a) auto
  obtain ks where k: "k = CHR ''%'' # ks" using assms(3) by (cases k) auto
  show ?thesis
  proof (cases ks)
    case (Cons f fs)
    then show ?thesis using map_valid_any[OF assms(1,2), of f m] stropt_mem[of fs a] t by (auto simp: is_map_valid_def tok_fits_def k)
  qed (simp add: is_map_valid_def tok_fits_def k)
qed

lemma match_args_fits:
  "length ks = length as \<Longrightarrow> \<forall>a \<in> set as. a \<noteq> [] \<and> NUL \<notin> set a \<Longrightarrow> match_args m ks as = Inr (list_all2 tok_fits ks as)"
proof (induction ks as rule: list_induct2)
  case (Cons k ks a as)
  then show ?case using valid_fits[of a k m] by (auto simp: pg_strmatch_eq tok_fits_def)
qed simp

lemma cli_mapping_find:
  assumes "argv \<noteq> []" and "\<not> asks_help argv" and "\<forall>a \<in> set argv. a \<noteq> [] \<and> NUL \<notin> set a"
    and "\<forall>e \<in> set maps. length (snd e) \<le> CLI_MAX_PATH_LENGTH"
  shows "cli_mapping m maps argv = Inr (find (entry_fits argv) maps)"
  using assms(4)
proof (induction maps)
  case (Cons e es)
  then show ?case using assms(1,2) match_args_fits[OF _ assms(3), of "strtok_loop CLI_MAX_ARGVS (snd e) '' ''" m] by (auto simp: Let_def entry_fits_def)
qed simp

section \<open>Properties\<close>

text \<open>
  C29: the search returns the first entry of the table with as many words as there are arguments in which every word fits
  its argument. A word without a percent sign fits only itself, a list of choices fits its members, and for the other formats one
  character of the argument that fits the letter is enough.
\<close>

theorem mapping_finds_first:
  assumes "argv \<noteq> []" and "\<not> asks_help argv" and "\<forall>a \<in> set argv. a \<noteq> [] \<and> NUL \<notin> set a"
    and "\<forall>e \<in> set maps. length (snd e) \<le> CLI_MAX_PATH_LENGTH"
  shows "cli_mapping m maps argv = Inr (find (entry_fits argv) maps)"
  using assms by (rule cli_mapping_find)

text \<open>The table of the environment command.\<close>

definition cli_env_map :: "(int \<times> string) list" where
  "cli_env_map = [(10, ''env''), (20, ''env get %s''), (30, ''env set %s %s''), (40, ''env del %s'')]"

theorem mapping_finds_first_witness:
  "cli_mapping [] cli_env_map [''env'', ''set'', ''x'', ''1''] = Inr (Some (30, ''env set %s %s'')) \<and>
   cli_mapping [] [(1, ''set %d'')] [''set'', ''port0''] = Inr (Some (1, ''set %d''))"
proof -
  have "find (entry_fits [''env'', ''set'', ''x'', ''1'']) cli_env_map = Some (30, ''env set %s %s'')"
    "find (entry_fits [''set'', ''port0'']) [(1, ''set %d'')] = Some (1, ''set %d'')"
    "\<forall>e \<in> set cli_env_map. length (snd e) \<le> CLI_MAX_PATH_LENGTH" "\<forall>e \<in> set [(1 :: int, ''set %d'')]. length (snd e) \<le> CLI_MAX_PATH_LENGTH" by code_simp+
  then show ?thesis using mapping_finds_first[of "[''env'', ''set'', ''x'', ''1'']" cli_env_map "[]"] mapping_finds_first[of "[''set'', ''port0'']" "[(1, ''set %d'')]" "[]"]
    by (simp add: asks_help_def)
qed

end
