(* ===== verification/Execute.thy ===== *)
theory Execute
  imports Vt100 CmdMap
begin

text \<open>
  Running a line (\<open>cli_execute\<close> of lib/cli/cli.c) and completing one (lib/cli/cli_auto_complete.c). Both compose the gap
  buffer, the history, the environment, the tokenizer and the tree of commands. The functions that the command nodes point
  to are a parameter, a map from the function's number and its arguments to a change of the state. An alias runs another line;
  the depth of aliases is bounded by fuel.
\<close>

section \<open>State\<close>

record shell =
  sh_cli :: cli_state
  sh_tree :: ctree
  sh_env :: cli_env
  sh_exe :: "nat option"

type_synonym cmd_call = "nat \<Rightarrow> string list \<Rightarrow> shell \<Rightarrow> (int \<times> shell) res"

abbreviation sh_gb :: "shell \<Rightarrow> gapbuf" where "sh_gb s \<equiv> c_gb (sh_cli s)"
abbreviation sh_hist :: "shell \<Rightarrow> hist" where "sh_hist s \<equiv> c_hist (sh_cli s)"

definition set_gb :: "gapbuf \<Rightarrow> shell \<Rightarrow> shell" where
  "set_gb g s = s\<lparr>sh_cli := (sh_cli s)\<lparr>c_gb := g\<rparr>\<rparr>"

definition set_hist :: "hist \<Rightarrow> shell \<Rightarrow> shell" where
  "set_hist h s = s\<lparr>sh_cli := (sh_cli s)\<lparr>c_hist := h\<rparr>\<rparr>"

lemma set_gb_simps [simp]:
  "sh_gb (set_gb g s) = g" "sh_hist (set_gb g s) = sh_hist s" "sh_tree (set_gb g s) = sh_tree s" "sh_env (set_gb g s) = sh_env s" "sh_exe (set_gb g s) = sh_exe s"
  "set_gb g (set_gb g' s) = set_gb g s"
  by (simp_all add: set_gb_def)

lemma set_hist_simps [simp]:
  "sh_hist (set_hist h s) = h" "sh_gb (set_hist h s) = sh_gb s" "sh_tree (set_hist h s) = sh_tree s" "sh_env (set_hist h s) = sh_env s" "sh_exe (set_hist h s) = sh_exe s"
  "set_hist h (set_hist h' s) = set_hist h s"
  by (simp_all add: set_hist_def)

text \<open>The string at the start of a block.\<close>

definition c_str :: "char list \<Rightarrow> string" where
  "c_str m = takeWhile (\<lambda>c. c \<noteq> NUL) m"

section \<open>Running a line\<close>

text \<open>The line as an array of \<open>sz + 1\<close> bytes, and \<open>sz\<close>.\<close>

definition exec_line :: "gapbuf \<Rightarrow> (char list \<times> nat) res" where
  "exec_line gb =
     (let sz = nat (max (s32_of (int (gb_data_size gb))) (int CLI_MAX_PATH_LENGTH)) in
      rbind (gb_copy_to_buf gb (replicate (sz + 1) NUL) sz) (\<lambda>(n, m). Inr (m, sz)))"

text \<open>
  The text that is run and its offset in the array, or nothing for an empty line, a comment and an unknown history line. A
  history line is copied to the start of the array, while the text is read at the first character that is not white space. A line that starts with an at sign is run by the shell of the operating system only
  when the program is built with \<open>RTE_CLI_HOST_COMMANDS\<close>, which no build file here defines.
\<close>

definition exec_text :: "(nat \<Rightarrow> bool) \<Rightarrow> hist \<Rightarrow> char list \<Rightarrow> nat \<Rightarrow> ((nat \<times> string) option \<times> hist) res" where
  "exec_text ok h m sz =
     (let l = c_str m; k = length (takeWhile isspace l); p = pg_strtrim l in
      if p = [] then Inr (None, h)
      else if hd p = CHR ''#'' then Inr (None, h)
      else if hd p = CHR ''!'' then
        (case cli_history_line h (atoi (tl p)) of
           None \<Rightarrow> Inr (None, h)
         | Some hl \<Rightarrow>
             if sz < length hl then Inl Fault
             else Inr (Some (k, c_str (drop k (hl @ NUL # drop (length hl + 1) (m[k + length p := NUL])))), h))
      else rbind (cli_history_add ok h (Some p)) (\<lambda>h'. Inr (Some (k, p), h')))"

definition exec_args :: "cli_env \<Rightarrow> nat \<Rightarrow> nat \<times> string \<Rightarrow> string list res" where
  "exec_args env sz kp =
     rbind (cli_env_substitution env (snd kp) (int sz - int (fst kp))) (\<lambda>p.
     rbind (pg_strqtok p cli_delim CLI_MAX_ARGVS) (\<lambda>r. Inr (case r of None \<Rightarrow> [] | Some argv \<Rightarrow> argv)))"

definition run_cmd :: "cmd_call \<Rightarrow> nat \<Rightarrow> cli_node \<Rightarrow> string list \<Rightarrow> shell \<Rightarrow> (int \<times> shell) res" where
  "run_cmd call n x argv s =
     (case cn_func x of
        None \<Rightarrow> Inl Fault
      | Some fn \<Rightarrow> rbind (call fn argv (s\<lparr>sh_exe := Some n\<rparr>)) (\<lambda>(r, s'). Inr (r, s'\<lparr>sh_exe := None\<rparr>)))"

text \<open>
  The line of an alias: its text and what the line has after as many characters as the name of the alias has. The scratch area
  has \<open>CLI_MAX_SCRATCH_LENGTH + 1\<close> bytes.
\<close>

definition expand_alias :: "(nat \<Rightarrow> bool) \<Rightarrow> cli_node \<Rightarrow> gapbuf \<Rightarrow> gapbuf res" where
  "expand_alias ok x gb =
     (let nsz = unat (cn_name_sz x) in
      rbind (if nsz < gb_data_size gb
             then rbind (gb_copy_to_buf gb (replicate (CLI_MAX_SCRATCH_LENGTH + 1) NUL) (gb_data_size gb)) (\<lambda>(n, m). Inr (c_str m))
             else Inr []) (\<lambda>sc.
      rbind (gb_reset_buf gb) (\<lambda>g1.
      case cn_alias x of
        None \<Rightarrow> Inl Fault
      | Some al \<Rightarrow>
          rbind (gb_str_insert ok g1 al (u32_of (int (length al)))) (\<lambda>(_, g2).
            let n = int (length sc) - int nsz in
            if 0 < n then rbind (gb_str_insert ok g2 (drop nsz sc) (u32_of n)) (\<lambda>(_, g3). Inr g3) else Inr g2))))"

fun cli_execute :: "nat \<Rightarrow> (nat \<Rightarrow> bool) \<Rightarrow> cmd_call \<Rightarrow> shell \<Rightarrow> (int \<times> shell) res" where
  "cli_execute 0 ok call s = Inl Hang"
| "cli_execute (Suc f) ok call s =
     rbind (exec_line (sh_gb s)) (\<lambda>(m, sz).
     rbind (exec_text ok (sh_hist s) m sz) (\<lambda>(q, h).
     let s1 = set_hist h s in
     case q of
       None \<Rightarrow> Inr (0, s1)
     | Some kp \<Rightarrow>
         rbind (exec_args (sh_env s1) sz kp) (\<lambda>argv.
         if argv = [] then Inr (0, s1)
         else
           rbind (cli_find_cmd (sh_tree s1) (hd argv)) (\<lambda>p.
           case p of
             None \<Rightarrow> Inr (- 1, s1)
           | Some n \<Rightarrow>
               rbind (nd (sh_tree s1) n) (\<lambda>x.
               rbind (if cn_type x = CLI_CMD_NODE then run_cmd call n x argv s1
                      else if cn_type x = CLI_ALIAS_NODE then
                        (let s2 = set_hist (cli_history_del (sh_hist s1)) s1 in
                         rbind (expand_alias ok x (sh_gb s2)) (\<lambda>g. cli_execute f ok call (set_gb g s2)))
                      else Inr (- 1, s1)) (\<lambda>(ret, s3).
               rbind (cli_history_reset (sh_hist s3)) (\<lambda>h3. Inr (ret, set_hist h3 s3))))))))"

declare cli_execute.simps [simp del]

section \<open>Completion\<close>

definition CLI_OTHER_TYPE :: u32 where "CLI_OTHER_TYPE = CLI_DIR_NODE OR CLI_FILE_NODE"

text \<open>
  The nodes that \<open>_print_nodes\<close> prints, in the order of the array; the sorting before only changes the order in
  which they are printed, as the last of them is used when it is the only one.
\<close>

definition print_nodes :: "ctree \<Rightarrow> bool \<Rightarrow> string option \<Rightarrow> nat list \<Rightarrow> nat list res" where
  "print_nodes t dir_only m ns =
     rfold (\<lambda>acc n. rbind (nd t n) (\<lambda>x.
       let w = (case m of None \<Rightarrow> [] | Some w \<Rightarrow> w) in
       Inr (if dir_only \<and> \<not> is_directory x \<or> w \<noteq> [] \<and> take (length w) (cn_name x) \<noteq> w then acc else acc @ [n]))) [] ns"

text \<open>\<open>strrchr\<close> at a slash, with the step over it: the text after the last slash.\<close>

definition after_slash :: "string \<Rightarrow> string" where
  "after_slash s = rev (takeWhile (\<lambda>c. c \<noteq> CHR ''/'') (rev s))"

text \<open>The only match: the rest of its name and a slash or a blank are inserted. A null \<open>match\<close> is dereferenced here.\<close>

definition insert_match :: "(nat \<Rightarrow> bool) \<Rightarrow> cli_node \<Rightarrow> string option \<Rightarrow> gapbuf \<Rightarrow> gapbuf res" where
  "insert_match ok x m gb =
     (case m of
        None \<Rightarrow> Inl Fault
      | Some w \<Rightarrow>
          let slen = length (after_slash w); nlen = int (length (cn_name x)) - int slen in
          rbind (if 0 < nlen then gb_str_insert ok gb (drop slen (cn_name x)) (u32_of nlen) else Inr (0, gb)) (\<lambda>(_, g1).
          rbind (gb_str_insert ok g1 (if is_directory x then ''/'' else '' '') 1) (\<lambda>(_, g2). Inr g2)))"

text \<open>The directory and the word to look for, or nothing when the word is the path of a command.\<close>

definition complete_where :: "ctree \<Rightarrow> string \<Rightarrow> (nat option \<times> string \<times> bool) option res" where
  "complete_where t w =
     (let slashes = pg_strcnt w CHR ''/'' in
      if slashes = 0 then Inr (Some (None, w, False))
      else
        rbind (cli_find_node t w) (\<lambda>r.
        rbind (case r of None \<Rightarrow> Inr False | Some n \<Rightarrow> rbind (nd t n) (\<lambda>x. Inr (is_executable x))) (\<lambda>exe.
        if exe then Inr None
        else rbind (cli_last_dir_in_path t w) (\<lambda>d.
          if slashes = 1 \<and> hd w = CHR ''/'' then Inr (Some (d, tl w, True)) else Inr (Some (d, w, False))))))"

definition complete_args :: "(nat \<Rightarrow> bool) \<Rightarrow> ctree \<Rightarrow> string list \<Rightarrow> u32 \<Rightarrow> gapbuf \<Rightarrow> (nat \<times> gapbuf) res" where
  "complete_args ok t argv types gb =
     rbind (if argv = [] then rbind (cli_node_list_with_type t None types) (\<lambda>ns. Inr (Some (ns, None, False)))
            else
              rbind (complete_where t (last argv)) (\<lambda>q.
              case q of
                None \<Rightarrow> Inr None
              | Some (d, w, dir_only) \<Rightarrow>
                  rbind (cli_node_list_with_type t d (if 1 < length argv then CLI_OTHER_TYPE else CLI_ALL_TYPE)) (\<lambda>ns.
                  Inr (Some (ns, Some (after_slash w), dir_only))))) (\<lambda>q.
     case q of
       None \<Rightarrow> Inr (0, gb)
     | Some (ns, m, dir_only) \<Rightarrow>
         rbind (print_nodes t dir_only m ns) (\<lambda>found.
         if length found = 1 then rbind (nd t (hd found)) (\<lambda>x. rbind (insert_match ok x m gb) (\<lambda>g. Inr (1, g)))
         else Inr (length found, gb)))"

text \<open>Completion; \<open>run\<close> is \<open>cli_execute\<close> and its result is not used.\<close>

definition redisplay :: "cli_ext \<Rightarrow> shell \<Rightarrow> shell res" where
  "redisplay E s = rbind (cli_redisplay_line E (sh_cli s)) (\<lambda>c. Inr (s\<lparr>sh_cli := c\<rparr>))"

definition complete_word :: "cli_ext \<Rightarrow> string list \<Rightarrow> u32 \<Rightarrow> shell \<Rightarrow> shell res" where
  "complete_word E argv types s =
     rbind (complete_args (alloc_ok E) (sh_tree s) argv types (sh_gb s)) (\<lambda>(ret, g).
       if ret \<noteq> 0 then redisplay E (set_gb g s) else Inr (set_gb g s))"

definition cli_auto_complete :: "nat \<Rightarrow> cli_ext \<Rightarrow> cmd_call \<Rightarrow> shell \<Rightarrow> shell res" where
  "cli_auto_complete f E call s =
     (let ok = alloc_ok E; sz = gb_data_size (sh_gb s) in
      if sz = 0 then Inr s
      else
        rbind (gb_copy_to_buf (sh_gb s) (replicate (sz + 1) NUL) sz) (\<lambda>(_, m).
        let argv = strtok_loop CLI_MAX_ARGVS (c_str m) cli_delim in
        if argv = [] then complete_word E argv CLI_ALL_TYPE s
        else
          rbind (gb_get_prev (sh_gb s)) (\<lambda>(c, g).
          let s1 = set_gb g s in
          if c \<noteq> CHR '' '' then complete_word E argv (if length argv = 1 then CLI_ALL_TYPE else CLI_FILE_NODE OR CLI_DIR_NODE) s1
          else
            rbind (gb_copy_to_buf (sh_gb s1) (replicate (sz + 1) NUL) sz) (\<lambda>(_, save).
            rbind (gb_str_insert ok (sh_gb s1) ''-?'' 2) (\<lambda>(_, g2).
            rbind (cli_execute f ok call (set_gb g2 s1)) (\<lambda>(_, s2).
            rbind (gb_reset_buf (sh_gb s2)) (\<lambda>g3.
            rbind (gb_str_insert ok g3 save sz) (\<lambda>(_, g4).
            redisplay E (set_gb g4 s2)))))))))"


section \<open>What the parts do\<close>

lemma gb_get_prev_abs:
  assumes "gb_inv gb" and "gb_abs gb = (l @ [c], r)"
  shows "\<exists>gb'. gb_get_prev gb = Inr (c, gb') \<and> gb_inv gb' \<and> gb_abs gb' = gb_abs gb \<and> ebuf gb' = ebuf gb"
proof -
  define g1 where "g1 = (if point gb = egap gb then gb\<lparr>point := gap gb\<rparr> else gb)"
  obtain a g b s where sp: "gb_split gb a g b s" and p: "point gb \<le> length a \<or> length a + length g \<le> point gb" "point gb \<le> length a + length g + length b"
    using gb_inv_split[OF assms(1)] by metis
  note f = sp[unfolded gb_split_def]
  have sp': "gb_split g1 a g b s" using sp by (simp add: gb_split_def g1_def)
  note f1 = sp'[unfolded gb_split_def]
  have q: "point g1 \<le> length a \<or> length a + length g < point g1" "point g1 \<le> length a + length g + length b" using p f by (auto simp: g1_def)
  have inv: "gb_inv g1" using gb_split_inv[OF sp'] q by auto
  have "gb_pos g1 = gb_pos gb" using f p by (auto simp: gb_pos_def g1_def)
  moreover have "gb_text g1 = gb_text gb" by (simp add: gb_text_def g1_def)
  ultimately have abs: "gb_abs g1 = (l @ [c], r)" using assms(2) by (simp add: gb_abs_def)
  have "point g1 \<noteq> 0 \<and> point g1 \<le> length (buf g1) \<and> buf g1 ! (point g1 - 1) = c"
  proof (cases "point g1 \<le> length a")
    case True
    then have t: "take (point g1) a = l @ [c]" using gb_split_abs_left[OF sp' True] abs by simp
    then have n: "point g1 = Suc (length l)" using True by (metis length_append_singleton length_take min.absorb2)
    then have "a ! length l = c" using t by (metis lessI nth_append_length nth_take)
    then show ?thesis using n True f1 by (simp add: nth_append)
  next
    case False
    obtain k where k: "point g1 = length a + length g + Suc k" using q False less_imp_Suc_add[of "length a + length g" "point g1"] by auto
    then have kb: "k < length b" using q(2) by simp
    then have "a @ take (Suc k) b = l @ [c]" using gb_split_abs_right[OF sp'] abs k by simp
    then have "b ! k = c" using kb by (simp add: take_Suc_conv_app_nth flip: append_assoc)
    then show ?thesis using f1 k kb by (simp add: nth_append)
  qed
  moreover have "ebuf g1 = ebuf gb" by (simp add: g1_def)
  moreover have "gb_get_prev gb = (if point g1 = 0 then (if point g1 = gap g1 then Inr (NUL, g1) else rbind (c_read (buf g1) (int (point g1))) (\<lambda>c. Inr (c, g1)))
      else rbind (c_read (buf g1) (int (point g1) - 1)) (\<lambda>c. Inr (c, g1)))"
    unfolding gb_get_prev_def g1_def Let_def ..
  ultimately show ?thesis using inv abs assms(2) by (auto simp: c_read_def nat_diff_distrib)
qed

lemma exec_line_text:
  assumes "gb_inv gb" and "ebuf gb < 2147483648" and "NUL \<notin> set (gb_text gb)"
  shows "\<exists>m. exec_line gb = Inr (m, max (length (gb_text gb)) CLI_MAX_PATH_LENGTH) \<and> c_str m = gb_text gb"
proof -
  let ?n = "length (gb_text gb)"
  have le: "?n \<le> ebuf gb" using assms(1) by (auto simp: gb_text_def gb_inv_def)
  then have sz: "nat (max (s32_of (int (gb_data_size gb))) (int CLI_MAX_PATH_LENGTH)) = max ?n CLI_MAX_PATH_LENGTH"
    using gb_data_size_abs[OF assms(1,2)] assms(2) by (simp add: CLI_MAX_PATH_LENGTH_def max_def)
  have pos: "0 < max ?n CLI_MAX_PATH_LENGTH" by (simp add: CLI_MAX_PATH_LENGTH_def)
  have "takeWhile (\<lambda>c. c \<noteq> NUL) (gb_text gb @ NUL # r) = gb_text gb" for r using assms(3) by (auto simp: takeWhile_append)
  then show ?thesis
    using gb_copy_to_buf_text[OF assms(1,2), of "max ?n CLI_MAX_PATH_LENGTH" "replicate (max ?n CLI_MAX_PATH_LENGTH + 1) NUL"]
    by (simp add: exec_line_def sz c_str_def Let_def pos del: replicate.simps)
qed

lemma substitution_plain:
  assumes "CHR ''$'' \<notin> set s" and "length s < n"
  shows "cli_env_substitution env s (int n) = Inr s"
proof -
  have "subst_loop env n 0 (s @ []) [] = Inr s"
    using subst_loop_plain[OF assms(1), of 0 n env "[]" "[]"] assms(2) by (simp add: subst_loop_end)
  then show ?thesis using assms(2) by (simp add: cli_env_substitution_def)
qed

text \<open>A line as an operator types it: white space, a command and its arguments, white space.\<close>

definition typed :: "string \<Rightarrow> string \<Rightarrow> arg list \<Rightarrow> string \<Rightarrow> bool" where
  "typed l w as sp \<longleftrightarrow>
     plain_word w \<and> hd w \<notin> {CHR ''#'', CHR ''!''} \<and> (\<forall>a \<in> set as. arg_ok a) \<and> length as < CLI_MAX_ARGVS \<and>
     length l < CLI_MAX_PATH_LENGTH \<and> NUL \<notin> set l \<and> CHR ''$'' \<notin> set l \<and>
     (\<exists>sp1 sp2. l = sp1 @ show_args (Plain w # as) @ sp2 \<and> (\<forall>c \<in> set sp1 \<union> set sp2. isspace c) \<and> sp = sp1)"

lemma exec_text_typed:
  assumes "typed l w as sp" and "c_str m = l" and "hist_inv h" and "hist_mem h" and "0 < hist_cap h"
  shows "\<exists>h'. exec_text (\<lambda>_. True) h m sz = Inr (Some (length sp, show_args (Plain w # as)), h') \<and> hist_inv h' \<and> hist_mem h' \<and> hist_cap h' = hist_cap h \<and>
    hist_lines h' = push_bounded (hist_cap h) (hist_lines h) (show_args (Plain w # as))"
proof -
  let ?p = "show_args (Plain w # as)"
  obtain sp2 where l: "l = sp @ ?p @ sp2" "\<forall>c \<in> set sp. isspace c" "\<forall>c \<in> set sp2. isspace c" and w: "plain_word w" "\<forall>a \<in> set as. arg_ok a" "hd w \<notin> {CHR ''#'', CHR ''!''}"
    using assms(1) by (auto simp: typed_def)
  note e = show_command_edges[OF w(1,2)]
  have "takeWhile isspace (sp @ ?p @ sp2) = sp"
  proof -
    have "takeWhile isspace (?p @ sp2) = []" using e(1,3) by (cases ?p) auto
    then show ?thesis using l(2) by (simp add: takeWhile_append2)
  qed
  then show ?thesis
    using cli_history_add_abs[OF assms(3-5), of ?p] pg_strtrim_spaces[OF l(2,3) e(1,3,4)] e(1,2) w(3) assms(2) l(1)
    by (auto simp: exec_text_def Let_def)
qed

lemma exec_args_typed:
  assumes "typed l w as sp" and "length l < n"
  shows "exec_args env n (length sp, show_args (Plain w # as)) = Inr (w # map arg_text as)"
proof -
  let ?p = "show_args (Plain w # as)"
  have ty: "plain_word w" "\<forall>a \<in> set as. arg_ok a" "length as < CLI_MAX_ARGVS" "CHR ''$'' \<notin> set l" "\<exists>sp2. l = sp @ ?p @ sp2"
    using assms(1) unfolding typed_def by blast+
  then obtain sp2 where l: "l = sp @ ?p @ sp2" by blast
  have w: "plain_word w" "\<forall>a \<in> set as. arg_ok a" "Suc (length as) \<le> CLI_MAX_ARGVS" using ty(1-3) by (simp_all add: Suc_le_eq)
  have "set ?p \<subseteq> set l" "length l = length sp + length ?p + length sp2" unfolding l by auto
  then have w': "CHR ''$'' \<notin> set ?p" "length ?p < n - length sp" using ty(4) assms(2) by (blast, linarith)
  have e: "int n - int (length sp) = int (n - length sp)" using w'(2) by simp
  have sub: "cli_env_substitution env ?p (int n - int (length sp)) = Inr ?p" unfolding e by (rule substitution_plain[OF w'])
  have "pg_strtrim ?p = ?p" using pg_strtrim_id show_command_edges[OF w(1,2)] by blast
  moreover have "CLI_MAX_ARGVS \<noteq> 0" by (simp add: CLI_MAX_ARGVS_def)
  ultimately have "pg_strqtok ?p cli_delim CLI_MAX_ARGVS = Inr (Some (w # map arg_text as))"
    unfolding pg_strqtok_def using strqtok_loop_command[OF w(1-3)] by simp
  then show ?thesis unfolding exec_args_def fst_conv snd_conv sub by simp
qed

text \<open>A typed line up to the search for its command.\<close>

lemma exec_typed:
  assumes gb: "gb_inv (sh_gb s)" "ebuf (sh_gb s) < 2147483648" "typed (gb_text (sh_gb s)) w as sp"
    and h: "hist_inv (sh_hist s)" "hist_mem (sh_hist s)" "0 < hist_cap (sh_hist s)"
    and n: "cli_find_cmd (sh_tree s) w = Inr (Some n)" "n < length (t_mem (sh_tree s))"
  defines "x \<equiv> t_mem (sh_tree s) ! n"
  shows "\<exists>h. hist_inv h \<and> hist_mem h \<and> hist_cap h = hist_cap (sh_hist s) \<and>
    hist_lines h = push_bounded (hist_cap (sh_hist s)) (hist_lines (sh_hist s)) (show_args (Plain w # as)) \<and>
    cli_execute (Suc f) (\<lambda>_. True) call s =
      rbind (if cn_type x = CLI_CMD_NODE then run_cmd call n x (w # map arg_text as) (set_hist h s)
             else if cn_type x = CLI_ALIAS_NODE then
               rbind (expand_alias (\<lambda>_. True) x (sh_gb s)) (\<lambda>g. cli_execute f (\<lambda>_. True) call (set_gb g (set_hist (cli_history_del h) s)))
             else Inr (- 1, set_hist h s)) (\<lambda>(ret, s3). rbind (cli_history_reset (sh_hist s3)) (\<lambda>h3. Inr (ret, set_hist h3 s3)))"
proof -
  have "NUL \<notin> set (gb_text (sh_gb s))" and len: "length (gb_text (sh_gb s)) < CLI_MAX_PATH_LENGTH" using gb(3) by (auto simp: typed_def)
  then obtain m where m: "exec_line (sh_gb s) = Inr (m, CLI_MAX_PATH_LENGTH)" "c_str m = gb_text (sh_gb s)"
    using exec_line_text[OF gb(1,2)] by (auto simp: max_def)
  obtain h where h': "exec_text (\<lambda>_. True) (sh_hist s) m CLI_MAX_PATH_LENGTH = Inr (Some (length sp, show_args (Plain w # as)), h)" "hist_inv h" "hist_mem h"
    "hist_cap h = hist_cap (sh_hist s)" "hist_lines h = push_bounded (hist_cap (sh_hist s)) (hist_lines (sh_hist s)) (show_args (Plain w # as))"
    using exec_text_typed[OF gb(3) m(2) h] by blast
  have "cli_execute (Suc f) (\<lambda>_. True) call s =
      rbind (if cn_type x = CLI_CMD_NODE then run_cmd call n x (w # map arg_text as) (set_hist h s)
             else if cn_type x = CLI_ALIAS_NODE then
               rbind (expand_alias (\<lambda>_. True) x (sh_gb s)) (\<lambda>g. cli_execute f (\<lambda>_. True) call (set_gb g (set_hist (cli_history_del h) s)))
             else Inr (- 1, set_hist h s)) (\<lambda>(ret, s3). rbind (cli_history_reset (sh_hist s3)) (\<lambda>h3. Inr (ret, set_hist h3 s3)))"
    using m(1) h'(1) exec_args_typed[OF gb(3) len] n
    by (simp add: cli_execute.simps(2) nd_def x_def Let_def del: show_args.simps)
  then show ?thesis using h'(2-5) by blast
qed

lemma exec_typed_command:
  assumes "gb_inv (sh_gb s)" and "ebuf (sh_gb s) < 2147483648" and "typed (gb_text (sh_gb s)) w as sp"
    and "hist_inv (sh_hist s)" and "hist_mem (sh_hist s)" and "0 < hist_cap (sh_hist s)"
    and "cli_find_cmd (sh_tree s) w = Inr (Some n)" and "nd (sh_tree s) n = Inr x" and "cn_type x = CLI_CMD_NODE" and "cn_func x = Some fn"
  shows "\<exists>h. hist_inv h \<and> hist_lines h = push_bounded (hist_cap (sh_hist s)) (hist_lines (sh_hist s)) (show_args (Plain w # as)) \<and>
    cli_execute (Suc f) (\<lambda>_. True) call s =
      rbind (call fn (w # map arg_text as) ((set_hist h s)\<lparr>sh_exe := Some n\<rparr>)) (\<lambda>(r, s').
      rbind (cli_history_reset (sh_hist s')) (\<lambda>h'. Inr (r, set_hist h' (s'\<lparr>sh_exe := None\<rparr>))))"
proof -
  have x: "n < length (t_mem (sh_tree s))" "t_mem (sh_tree s) ! n = x" using assms(8) by (auto simp: nd_def split: if_splits)
  obtain h where h: "hist_inv h" "hist_lines h = push_bounded (hist_cap (sh_hist s)) (hist_lines (sh_hist s)) (show_args (Plain w # as))"
    "cli_execute (Suc f) (\<lambda>_. True) call s = rbind (run_cmd call n x (w # map arg_text as) (set_hist h s))
      (\<lambda>(ret, s3). rbind (cli_history_reset (sh_hist s3)) (\<lambda>h3. Inr (ret, set_hist h3 s3)))"
    using exec_typed[OF assms(1-7) x(1), of f call] assms(9) x(2) by auto
  have "rbind (run_cmd call n x argv s1) (\<lambda>(ret, s3). rbind (cli_history_reset (sh_hist s3)) (\<lambda>h3. Inr (ret, set_hist h3 s3))) =
      rbind (call fn argv (s1\<lparr>sh_exe := Some n\<rparr>)) (\<lambda>(r, s'). rbind (cli_history_reset (sh_hist s')) (\<lambda>h'. Inr (r, set_hist h' (s'\<lparr>sh_exe := None\<rparr>))))" for argv s1
    using assms(10) by (cases "call fn argv (s1\<lparr>sh_exe := Some n\<rparr>)") (auto simp: run_cmd_def)
  then show ?thesis using h by auto
qed

text \<open>The line of an alias: its text and what follows its name in the typed line.\<close>

lemma expand_alias_text:
  assumes gb: "gb_inv gb" "ebuf gb + length al + 8192 < 2147483648" "length (gb_text gb) < CLI_MAX_PATH_LENGTH" "NUL \<notin> set (gb_text gb)"
    and al: "cn_alias x = Some al"
  shows "\<exists>g. expand_alias (\<lambda>_. True) x gb = Inr g \<and> gb_inv g \<and> gb_abs g = (al @ drop (unat (cn_name_sz x)) (gb_text gb), []) \<and> ebuf g < 2147483648"
proof -
  let ?l = "gb_text gb"
  define k where "k = unat (cn_name_sz x)"
  have lim: "ebuf gb < 2147483648" and len: "length ?l < 2048" using gb(2,3) by (simp_all add: CLI_MAX_PATH_LENGTH_def)
  have ds: "gb_data_size gb = length ?l" using gb_data_size_abs[OF gb(1) lim] .
  define sc where "sc = (if k < length ?l then ?l else [])"
  have cut: "drop k sc = drop k ?l" "length sc < 2048" "length sc \<le> k \<longleftrightarrow> drop k ?l = []" using len by (auto simp: sc_def)
  have "takeWhile (\<lambda>c. c \<noteq> NUL) (?l @ NUL # r) = ?l" for r using gb(4) by (auto simp: takeWhile_append)
  then have sc: "(if k < gb_data_size gb then rbind (gb_copy_to_buf gb (replicate (CLI_MAX_SCRATCH_LENGTH + 1) NUL) (gb_data_size gb)) (\<lambda>(n, m). Inr (c_str m)) else Inr []) = Inr sc"
    using gb_copy_to_buf_text[OF gb(1) lim, of "length ?l" "replicate (CLI_MAX_SCRATCH_LENGTH + 1) NUL"] len
    by (cases "?l = []") (simp_all add: sc_def ds c_str_def CLI_MAX_SCRATCH_LENGTH_def del: replicate.simps)
  obtain g1 where g1: "gb_reset_buf gb = Inr g1" "gb_inv g1" "ebuf g1 = ebuf gb" "gb_abs g1 = ([], [])" using gb_reset_buf_abs[OF gb(1) lim] by blast
  have al': "u32_of (int (length al)) = length al" using gb(2) by simp
  obtain k2 g2 where g2: "gb_str_insert (\<lambda>_. True) g1 al (length al) = Inr (k2, g2)" "gb_inv g2" "gb_abs g2 = (al, [])" "ebuf g2 \<le> ebuf gb + length al + 8"
    using gb_str_insert_abs[OF g1(2,4), of "\<lambda>_. True" "length al" al] g1(3) gb(2) by fastforce
  show ?thesis
  proof (cases "drop k ?l = []")
    case True
    then have "expand_alias (\<lambda>_. True) x gb = Inr g2" using sc g1(1) g2(1) al al' cut(3) by (simp add: expand_alias_def Let_def flip: k_def)
    then show ?thesis using g2 True gb(2) by (auto simp flip: k_def)
  next
    case False
    let ?r = "drop k ?l"
    have n: "u32_of (int (length sc) - int k) = length ?r" "0 < int (length sc) - int k"
      using False cut len by (auto simp: sc_def)
    obtain k3 g3 where g3: "gb_str_insert (\<lambda>_. True) g2 ?r (length ?r) = Inr (k3, g3)" "gb_inv g3" "gb_abs g3 = (al @ ?r, [])" "ebuf g3 \<le> ebuf g2 + length ?r + 8"
      using gb_str_insert_abs[OF g2(2,3), of "\<lambda>_. True" "length ?r" ?r] g2(4) gb(2) len False by fastforce
    then have "expand_alias (\<lambda>_. True) x gb = Inr g3" using sc g1(1) g2(1) al al' n cut(1) by (simp add: expand_alias_def Let_def flip: k_def)
    then show ?thesis using g3 g2(4) gb(2) len by (auto simp flip: k_def)
  qed
qed

lemma cli_history_del_lines: "hist_inv h \<Longrightarrow> hist_mem h \<Longrightarrow> hist_lines (cli_history_del h) = butlast (hist_lines h)"
  by (simp add: cli_history_del_def hist_inv_def hist_lines_def map_butlast)

text \<open>Redrawing the line keeps it.\<close>

lemma redisplay_ok:
  assumes "gb_inv (sh_gb s)" and "ebuf (sh_gb s) + 16 < 2147483648" and "unat (c_plen (sh_cli s)) < unat (ncols E)" and "point (sh_gb s) = gap (sh_gb s)"
  shows "\<exists>s'. redisplay E s = Inr s' \<and> gb_abs (sh_gb s') = gb_abs (sh_gb s) \<and> sh_hist s' = sh_hist s \<and> sh_tree s' = sh_tree s \<and> sh_env s' = sh_env s"
proof -
  obtain c where c: "cli_display_line E (cli_set_flag DISPLAY_PROMPT (sh_cli s)) = Inr c" "c_gb c = sh_gb s" "c_hist c = sh_hist s"
    using cli_display_line_ok[of "cli_set_flag DISPLAY_PROMPT (sh_cli s)" E] assms by (auto simp: point_counted_def)
  obtain x y where xy: "gb_abs (sh_gb s) = (x, y)" by force
  then obtain g h t where "gb_move_gap_to_point (sh_gb s) = Inr g" "gb_at g x h y t"
    using gb_move_gap_to_point_at[OF assms(1) _ xy] assms(2) by auto
  then show ?thesis using c xy gb_atD(2)[of g x h y t] by (simp add: redisplay_def cli_redisplay_line_def)
qed

section \<open>Typing a line\<close>

text \<open>The interface of the line editor with the running of lines in it, from a state of the shell.\<close>

definition shell_ext :: "nat \<Rightarrow> cli_ext \<Rightarrow> cmd_call \<Rightarrow> shell \<Rightarrow> cli_ext" where
  "shell_ext f E call s =
     E\<lparr>execute := (\<lambda>c. rbind (cli_execute f (alloc_ok E) call (s\<lparr>sh_cli := c\<rparr>)) (\<lambda>(_, s'). Inr (sh_cli s')))\<rparr>"

lemma return_key:
  assumes "vt_idle (c_vt s)"
  shows "\<exists>v'. vt_idle v' \<and> cli_input E s [CHR 0x0A] = rbind (key_return E (s\<lparr>c_vt := v'\<rparr>)) (cli_display_line E)"
proof -
  have "(6 :: nat) \<in> set [1..<27]" by simp
  then obtain v' where v: "vt100_feed (c_vt s) [] (vt100_cmd_strs ! 6) = Inr (replicate (length (vt100_cmd_strs ! 6) - 1) VT100_CONTINUE @ [int 6], v')" "vt_idle v'"
    using bspec[OF vt100_feed_keys[OF assms], of 6] by auto
  have "vt100_cmd_strs ! 6 = [CHR 0x0A]" by (simp add: vt100_cmd_strs_def)
  then have "cli_input E s [CHR 0x0A] = rbind (vt100_do_cmd E 6 (s\<lparr>c_vt := v'\<rparr>)) (handle_input_display E NUL)"
    using cli_input_key[of s "[CHR 0x0A]" 6 v' E] v(1) by simp
  moreover have "handle_input_display E NUL = cli_display_line E" by (rule ext) (rule handle_input_display_NUL)
  ultimately show ?thesis using v(2) by (auto simp: vt100_do_cmd_def)
qed

section \<open>Properties\<close>

text \<open>
  A line that is typed, with any white space around it, runs the command it names. The buffer is copied out and trimmed,
  the line is put into the history, variables are substituted, the tokenizer splits it, the name is looked up in the tree, and
  the function of the node gets exactly the words that were typed; afterwards only the history pointer is reset.
\<close>

theorem typed_command_runs:
  assumes "gb_inv (sh_gb s)" and "ebuf (sh_gb s) < 2147483648" and "typed (gb_text (sh_gb s)) w as sp"
    and "hist_inv (sh_hist s)" and "hist_mem (sh_hist s)" and "0 < hist_cap (sh_hist s)"
    and "cli_find_cmd (sh_tree s) w = Inr (Some n)" and "nd (sh_tree s) n = Inr x" and "cn_type x = CLI_CMD_NODE" and "cn_func x = Some fn"
  shows "\<exists>h. hist_lines h = push_bounded (hist_cap (sh_hist s)) (hist_lines (sh_hist s)) (show_args (Plain w # as)) \<and>
    cli_execute (Suc f) (\<lambda>_. True) call s =
      rbind (call fn (w # map arg_text as) ((set_hist h s)\<lparr>sh_exe := Some n\<rparr>)) (\<lambda>(r, s').
      rbind (cli_history_reset (sh_hist s')) (\<lambda>h'. Inr (r, set_hist h' (s'\<lparr>sh_exe := None\<rparr>))))"
  using exec_typed_command[OF assms, of f call] by blast

text \<open>
  C11: an alias at the start of the line, found by a name as long as its own, runs its text with the arguments that were typed,
  and the line that was typed leaves the history again; the rest is the execution of the new line.
\<close>

theorem alias_runs_its_text:
  assumes "gb_inv (sh_gb s)" and "ebuf (sh_gb s) + length al + 8192 < 2147483648" and "typed (gb_text (sh_gb s)) w as []"
    and "hist_inv (sh_hist s)" and "hist_mem (sh_hist s)" and "0 < hist_cap (sh_hist s)"
    and "cli_find_cmd (sh_tree s) w = Inr (Some n)" and "nd (sh_tree s) n = Inr x" and "cn_type x = CLI_ALIAS_NODE" and "cn_alias x = Some al"
    and "unat (cn_name_sz x) = length w"
  shows "\<exists>g h. gb_inv g \<and> gb_abs g = (al @ drop (length w) (gb_text (sh_gb s)), []) \<and>
    hist_lines h = butlast (push_bounded (hist_cap (sh_hist s)) (hist_lines (sh_hist s)) (show_args (Plain w # as))) \<and>
    cli_execute (Suc f) (\<lambda>_. True) call s =
      rbind (cli_execute f (\<lambda>_. True) call (set_gb g (set_hist h s))) (\<lambda>(r, s').
      rbind (cli_history_reset (sh_hist s')) (\<lambda>h'. Inr (r, set_hist h' s')))"
proof -
  have x: "n < length (t_mem (sh_tree s))" "t_mem (sh_tree s) ! n = x" using assms(8) by (auto simp: nd_def split: if_splits)
  have lim: "ebuf (sh_gb s) < 2147483648" using assms(2) by simp
  have ne: "CLI_ALIAS_NODE \<noteq> CLI_CMD_NODE" by (simp add: CLI_ALIAS_NODE_def CLI_CMD_NODE_def)
  obtain h where h: "hist_inv h" "hist_mem h" "hist_lines h = push_bounded (hist_cap (sh_hist s)) (hist_lines (sh_hist s)) (show_args (Plain w # as))"
    "cli_execute (Suc f) (\<lambda>_. True) call s =
      rbind (rbind (expand_alias (\<lambda>_. True) x (sh_gb s)) (\<lambda>g. cli_execute f (\<lambda>_. True) call (set_gb g (set_hist (cli_history_del h) s))))
      (\<lambda>(ret, s3). rbind (cli_history_reset (sh_hist s3)) (\<lambda>h3. Inr (ret, set_hist h3 s3)))"
    using exec_typed[OF assms(1) lim assms(3-7) x(1), of f call] assms(9) ne x(2) by auto
  have "length (gb_text (sh_gb s)) < CLI_MAX_PATH_LENGTH" "NUL \<notin> set (gb_text (sh_gb s))" using assms(3) by (simp_all add: typed_def)
  then obtain g where "expand_alias (\<lambda>_. True) x (sh_gb s) = Inr g" "gb_inv g" "gb_abs g = (al @ drop (length w) (gb_text (sh_gb s)), [])"
    using expand_alias_text[OF assms(1,2) _ _ assms(10)] assms(11) by auto
  then show ?thesis using h(3,4) cli_history_del_lines[OF h(1,2)] by (auto intro!: exI[of _ g] exI[of _ "cli_history_del h"])
qed


text \<open>A tree with the command \<open>mkdir\<close> and an alias for it in the directory \<open>bin\<close>, and a shell with a line in it.\<close>

definition sample_bin :: ctree where
  "sample_bin =
     \<lparr>t_mem = [dir_node None ''/'' [1], dir_node (Some 0) ''bin'' [2, 3],
        node_zero\<lparr>cn_parent := Some 1, cn_name := ''mkdir'', cn_name_sz := 5, cn_type := CLI_CMD_NODE, cn_func := Some 0\<rparr>,
        node_zero\<lparr>cn_parent := Some 1, cn_name := ''md'', cn_name_sz := 2, cn_type := CLI_ALIAS_NODE, cn_alias := Some ''mkdir''\<rparr>, node_zero, node_zero],
      t_free = [4, 5], t_root = [0], t_bins = [Some 0, Some 1], t_unlimited = False\<rparr>"

definition sample_gb :: "string \<Rightarrow> gapbuf" where
  "sample_gb l = \<lparr>buf = l, ebuf = length l, point = length l, gap = length l, egap = length l\<rparr>"

definition sample_shell :: "string \<Rightarrow> shell" where
  "sample_shell l =
     \<lparr>sh_cli = \<lparr>c_gb = sample_gb l, c_hist = hist_init\<lparr>hist_mem := True, nb_hist := 2, free_hist := [0, 1], next_node := 2\<rparr>, c_kill = KNull, c_flags = 0,
        c_plen = 0, c_quit = False, c_vt = \<lparr>vt_bufpos = -1, vt_buf = replicate VT100_BUF_SIZE NUL, vt_state = VT100_INIT\<rparr>\<rparr>,
      sh_tree = sample_bin, sh_env = cli_env_create, sh_exe = None\<rparr>"

text \<open>The function of \<open>mkdir\<close>: it works on the tree.\<close>

definition sample_call :: cmd_call where
  "sample_call fn argv s = rbind (mkdir_cmd Realloc_fails argv (sh_tree s)) (\<lambda>(r, t). Inr (r, s\<lparr>sh_tree := t\<rparr>))"

lemma sample_gb_facts: "gb_inv (sample_gb l)" "gb_text (sample_gb l) = l" "gb_abs (sample_gb l) = (l, [])" "ebuf (sample_gb l) = length l"
  by (simp_all add: sample_gb_def gb_inv_def gb_text_def gb_abs_def gb_pos_def)

lemma sample_shell_facts: "sh_gb (sample_shell l) = sample_gb l" "sh_tree (sample_shell l) = sample_bin" "hist_inv (sh_hist (sample_shell l))"
  "hist_mem (sh_hist (sample_shell l))" "hist_cap (sh_hist (sample_shell l)) = 2" "hist_lines (sh_hist (sample_shell l)) = []"
  "c_plen (sh_cli (sample_shell l)) = 0"
  by (simp_all add: sample_shell_def hist_init_def hist_inv_def hist_cap_def hist_lines_def)

lemma sample_bin_facts:
  "cli_find_cmd sample_bin ''mkdir'' = Inr (Some 2)" "cli_find_cmd sample_bin ''md'' = Inr (Some 3)"
  "nd sample_bin 2 = Inr (t_mem sample_bin ! 2)" "nd sample_bin 3 = Inr (t_mem sample_bin ! 3)"
  "cn_type (t_mem sample_bin ! 2) = CLI_CMD_NODE" "cn_func (t_mem sample_bin ! 2) = Some 0"
  "cn_type (t_mem sample_bin ! 3) = CLI_ALIAS_NODE" "cn_alias (t_mem sample_bin ! 3) = Some ''mkdir''" "cn_name_sz (t_mem sample_bin ! 3) = 2"
  by code_simp+

theorem typed_command_runs_witness:
  "\<exists>h. hist_lines h = [''mkdir x''] \<and> cli_execute 1 (\<lambda>_. True) sample_call (sample_shell '' mkdir x '') =
    rbind (sample_call 0 [''mkdir'', ''x''] ((set_hist h (sample_shell '' mkdir x ''))\<lparr>sh_exe := Some 2\<rparr>)) (\<lambda>(r, s').
      rbind (cli_history_reset (sh_hist s')) (\<lambda>h'. Inr (r, set_hist h' (s'\<lparr>sh_exe := None\<rparr>))))"
proof -
  have "typed '' mkdir x '' ''mkdir'' [Plain ''x''] '' ''"
    unfolding typed_def by (auto simp: plain_word_def isspace_def opens_def CLI_MAX_ARGVS_def CLI_MAX_PATH_LENGTH_def intro!: exI[of _ "'' ''"])
  then show ?thesis
    using typed_command_runs[of "sample_shell '' mkdir x ''" "''mkdir''" "[Plain ''x'']" "'' ''" 2 "t_mem sample_bin ! 2" 0 0 sample_call] sample_bin_facts
    by (simp add: sample_shell_facts sample_gb_facts push_bounded_def)
qed

theorem alias_runs_its_text_witness:
  "\<exists>g h. gb_inv g \<and> gb_abs g = (''mkdir x'', []) \<and> hist_lines h = [] \<and>
    cli_execute (Suc 1) (\<lambda>_. True) sample_call (sample_shell ''md x'') =
      rbind (cli_execute 1 (\<lambda>_. True) sample_call (set_gb g (set_hist h (sample_shell ''md x'')))) (\<lambda>(r, s').
      rbind (cli_history_reset (sh_hist s')) (\<lambda>h'. Inr (r, set_hist h' s')))"
proof -
  have "typed ''md x'' ''md'' [Plain ''x''] []"
    unfolding typed_def by (auto simp: plain_word_def isspace_def opens_def CLI_MAX_ARGVS_def CLI_MAX_PATH_LENGTH_def)
  then show ?thesis
    using alias_runs_its_text[of "sample_shell ''md x''" "''mkdir''" "''md''" "[Plain ''x'']" 3 "t_mem sample_bin ! 3" 1 sample_call] sample_bin_facts
    by (simp add: sample_shell_facts sample_gb_facts push_bounded_def)
qed

lemma copy_out:
  assumes "gb_inv gb" and "ebuf gb < 2147483648" and "gb_text gb \<noteq> []"
  shows "gb_copy_to_buf gb (replicate (length (gb_text gb) + 1) NUL) (length (gb_text gb)) = Inr (length (gb_text gb), gb_text gb @ [NUL])"
  using gb_copy_to_buf_text[OF assms(1,2), of "length (gb_text gb)" "replicate (length (gb_text gb) + 1) NUL"] assms(3) by simp

lemma c_str_text: "NUL \<notin> set l \<Longrightarrow> c_str (l @ [NUL]) = l"
  by (auto simp: c_str_def takeWhile_append)

lemma strtok_loop_nonempty: "c \<in> set l \<Longrightarrow> c \<notin> set d \<Longrightarrow> strtok_loop (Suc n) l d \<noteq> []"
  by (auto simp: strtok_r_def Let_def dropWhile_eq_Nil_conv split: option.splits)

text \<open>
  C32: completion with a blank before the cursor executes the line with \<open>-?\<close> as one more argument. For a command that works on
  the tree the tree is the result of running it, whatever it did, the line with \<open>-?\<close> is in the history, and the buffer holds
  the line again; the prompt fits on the terminal. The witness is \<open>mkdir\<close>, where the key creates a directory of that name.
\<close>

theorem tab_runs_command:
  assumes E: "alloc_ok E = (\<lambda>_. True)" "unat (c_plen (sh_cli s)) < unat (ncols E)" and gb: "gb_inv (sh_gb s)" "gb_abs (sh_gb s) = (l, [])" "ebuf (sh_gb s) + 8192 < 2147483648"
    and l: "l = sp @ show_args (Plain w # as) @ '' ''" "typed (l @ ''-?'') w (as @ [Plain ''-?'']) sp"
    and h: "hist_inv (sh_hist s)" "hist_mem (sh_hist s)" "0 < hist_cap (sh_hist s)"
    and n: "cli_find_cmd (sh_tree s) w = Inr (Some n)" "nd (sh_tree s) n = Inr x" "cn_type x = CLI_CMD_NODE" "cn_func x = Some fn"
    and c: "\<forall>s'. call fn (w # map arg_text as @ [''-?'']) s' = rbind (cmd (w # map arg_text as @ [''-?'']) (sh_tree s')) (\<lambda>(r, t). Inr (r, s'\<lparr>sh_tree := t\<rparr>))"
      "cmd (w # map arg_text as @ [''-?'']) (sh_tree s) = Inr (r, t')"
  shows "\<exists>s'. cli_auto_complete (Suc f) E call s = Inr s' \<and> sh_tree s' = t' \<and> gb_abs (sh_gb s') = (l, []) \<and>
    hist_lines (sh_hist s') = push_bounded (hist_cap (sh_hist s)) (hist_lines (sh_hist s)) (show_args (Plain w # as @ [Plain ''-?'']))"
proof -
  let ?sz = "length l" and ?argv = "w # map arg_text as @ [''-?'']"
  have tx: "gb_text (sh_gb s) = l" using gb(2) by (auto dest: gb_text_abs)
  have lim: "ebuf (sh_gb s) < 2147483648" using gb(3) by simp
  have ty: "plain_word w" "NUL \<notin> set l" "length l < 2048" using l(2) by (simp_all add: typed_def CLI_MAX_PATH_LENGTH_def)
  have lne: "l \<noteq> []" using l(1) by simp
  have ds: "gb_data_size (sh_gb s) = ?sz" using gb_data_size_abs[OF gb(1) lim] tx by simp
  have cp: "gb_copy_to_buf g (replicate (?sz + 1) NUL) ?sz = Inr (?sz, l @ [NUL])" if "gb_inv g" "ebuf g = ebuf (sh_gb s)" "gb_text g = l" for g
    using copy_out[OF that(1)] that lim lne by simp
  have "hd w \<in> set l \<and> hd w \<notin> set cli_delim"
    using ty(1) cli_delim_isspace[of "hd w"] l(1) by (cases as; cases w) (auto simp: plain_word_def)
  then have tok: "strtok_loop CLI_MAX_ARGVS l cli_delim \<noteq> []"
    using strtok_loop_nonempty[of "hd w" l cli_delim 63] by (simp add: CLI_MAX_ARGVS_def eval_nat_numeral)
  obtain l0 where l0: "l = l0 @ '' ''" using l(1) by (metis append_assoc)
  obtain g1 where g1: "gb_get_prev (sh_gb s) = Inr (CHR '' '', g1)" "gb_inv g1" "gb_abs g1 = (l, [])" "ebuf g1 = ebuf (sh_gb s)"
    using gb_get_prev_abs[OF gb(1), of l0 "CHR '' ''" "[]"] gb(2) l0 by auto
  have tx1: "gb_text g1 = l" using g1(3) by (auto dest: gb_text_abs)
  obtain k2 g2 where g2: "gb_str_insert (\<lambda>_. True) g1 ''-?'' 2 = Inr (k2, g2)" "gb_inv g2" "gb_abs g2 = (l @ ''-?'', [])" "ebuf g2 \<le> ebuf g1 + 10"
    using gb_str_insert_abs[OF g1(2,3), of "\<lambda>_. True" 2 "''-?''"] g1(4) gb(3) by fastforce
  let ?s2 = "set_gb g2 (set_gb g1 s)"
  have x: "n < length (t_mem (sh_tree s))" "t_mem (sh_tree s) ! n = x" using n(2) by (auto simp: nd_def split: if_splits)
  have tx2: "gb_text g2 = l @ ''-?''" using g2(3) by (auto dest: gb_text_abs)
  have am: "map arg_text (as @ [Plain ''-?'']) = map arg_text as @ [''-?'']" by simp
  obtain hx where hx: "hist_inv hx" "hist_lines hx = push_bounded (hist_cap (sh_hist s)) (hist_lines (sh_hist s)) (show_args (Plain w # as @ [Plain ''-?'']))"
    "cli_execute (Suc f) (\<lambda>_. True) call ?s2 = rbind (run_cmd call n x ?argv (set_hist hx ?s2))
      (\<lambda>(ret, s3). rbind (cli_history_reset (sh_hist s3)) (\<lambda>h3. Inr (ret, set_hist h3 s3)))"
    using exec_typed[of ?s2 w "as @ [Plain ''-?'']" sp n f call] g2(2,4) g1(4) gb(3) tx2 l(2) h n(1,3) x unfolding am by auto
  obtain h3 where h3: "cli_history_reset hx = Inr h3" "hist_lines h3 = hist_lines hx"
    using hx(1) by (auto simp: cli_history_reset_def hist_inv_def hist_lines_def)
  let ?s3 = "set_hist h3 ((set_hist hx ?s2)\<lparr>sh_tree := t', sh_exe := None\<rparr>)"
  have run: "cli_execute (Suc f) (\<lambda>_. True) call ?s2 = Inr (r, ?s3)"
    using hx(3) h3(1) n(4) c by (simp add: run_cmd_def set_hist_def set_gb_def)
  have s3: "sh_gb ?s3 = g2" "sh_hist ?s3 = h3" "sh_tree ?s3 = t'" by (simp_all add: set_hist_def set_gb_def)
  obtain g3 where g3: "gb_reset_buf g2 = Inr g3" "gb_inv g3" "ebuf g3 = ebuf g2" "gb_abs g3 = ([], [])"
    using gb_reset_buf_abs[OF g2(2)] g2(4) g1(4) gb(3) by auto
  obtain k4 g4 where g4: "gb_str_insert (\<lambda>_. True) g3 (l @ [NUL]) ?sz = Inr (k4, g4)" "gb_inv g4" "gb_abs g4 = (l, [])" "ebuf g4 \<le> ebuf g3 + ?sz + 8"
    using gb_str_insert_abs[OF g3(2,4), of "\<lambda>_. True" ?sz "l @ [NUL]"] g3(3) g2(4) g1(4) gb(3) ty(3) lne by fastforce
  have "ebuf (sh_gb (set_gb g4 ?s3)) + 16 < 2147483648" using g4(4) g3(3) g2(4) g1(4) gb(3) ty(3) by simp
  moreover have pt: "point g4 = gap g4" using gb_str_insert_point[OF g4(1)] gb_str_insert_count[OF g4(1)] lne by simp
  moreover have pl: "unat (c_plen (sh_cli (set_gb g4 ?s3))) < unat (ncols E)" using E(2) by (simp add: set_hist_def set_gb_def)
  ultimately obtain s' where s': "redisplay E (set_gb g4 ?s3) = Inr s'" "gb_abs (sh_gb s') = (l, [])" "sh_hist s' = h3" "sh_tree s' = t'"
    using redisplay_ok[of "set_gb g4 ?s3" E] g4(2,3) s3 pt pl by auto
  have "cli_auto_complete (Suc f) E call s = redisplay E (set_gb g4 ?s3)"
    unfolding cli_auto_complete_def Let_def ds E(1) cp[OF gb(1) refl tx] rbind_Inr prod.case c_str_text[OF ty(2)] g1(1) set_gb_simps(1)
      cp[OF g1(2,4) tx1] g2(1) run s3(1) g3(1) g4(1) using lne tok by simp
  then show ?thesis using s' h3(2) hx(2) by auto
qed

definition sample_ext :: cli_ext where
  "sample_ext = \<lparr>alloc_ok = (\<lambda>_. True), execute = Inr, auto_complete = Inr, prompt = (\<lambda>_. 0), ncols = 80\<rparr>"

lemma sample_mkdir:
  "case mkdir_cmd Realloc_fails [''mkdir'', ''-?''] sample_bin of Inl e \<Rightarrow> False
   | Inr (r, t) \<Rightarrow> r = 0 \<and> cli_find_node t ''/-?'' = Inr (Some 4) \<and> is_directory (t_mem t ! 4)"
  by code_simp

theorem tab_runs_command_witness:
  "\<exists>s'. cli_auto_complete 1 sample_ext sample_call (sample_shell ''mkdir '') = Inr s' \<and>
    cli_find_node (sh_tree s') ''/-?'' = Inr (Some 4) \<and> is_directory (t_mem (sh_tree s') ! 4) \<and> gb_abs (sh_gb s') = (''mkdir '', [])"
proof -
  obtain t where t: "mkdir_cmd Realloc_fails [''mkdir'', ''-?''] sample_bin = Inr (0, t)" "cli_find_node t ''/-?'' = Inr (Some 4)" "is_directory (t_mem t ! 4)"
    using sample_mkdir by (auto split: sum.splits prod.splits)
  have "typed ''mkdir -?'' ''mkdir'' [Plain ''-?''] []"
    unfolding typed_def by (auto simp: plain_word_def isspace_def opens_def CLI_MAX_ARGVS_def CLI_MAX_PATH_LENGTH_def)
  then have "\<exists>s'. cli_auto_complete (Suc 0) sample_ext sample_call (sample_shell ''mkdir '') = Inr s' \<and> sh_tree s' = t \<and> gb_abs (sh_gb s') = (''mkdir '', []) \<and>
    hist_lines (sh_hist s') = push_bounded (hist_cap (sh_hist (sample_shell ''mkdir ''))) (hist_lines (sh_hist (sample_shell ''mkdir ''))) (show_args (Plain ''mkdir'' # [] @ [Plain ''-?'']))"
    using t(1) by (intro tab_runs_command[where n = 2 and x = "t_mem sample_bin ! 2" and fn = 0 and cmd = "mkdir_cmd Realloc_fails" and r = 0 and sp = "[]"])
      (simp_all add: sample_shell_facts sample_gb_facts sample_ext_def sample_call_def sample_bin_facts del: show_args.simps, simp_all)
  then show ?thesis using t(2,3) by auto
qed

lemma strtok_loop_word_only:
  assumes "plain_word w"
  shows "strtok_loop CLI_MAX_ARGVS w cli_delim = [w]"
proof -
  have w: "\<forall>c \<in> set w. c \<notin> set cli_delim" "w \<noteq> []" "\<not> isspace (hd w)" "\<not> isspace (last w)"
    using assms cli_delim_isspace last_in_set[of w] hd_in_set[of w] by (auto simp: plain_word_def)
  have "takeWhile (\<lambda>c. c \<notin> set cli_delim) w = w" "dropWhile (\<lambda>c. c \<notin> set cli_delim) w = []" using w(1) by simp_all
  moreover have "dropWhile (\<lambda>c. c \<in> set cli_delim) w = w" using w(1,2) by (cases w) auto
  ultimately have r: "strtok_r w cli_delim = Some (w, [])" using w(2) by (simp add: strtok_r_def Let_def del: takeWhile_eq_all_conv dropWhile_eq_Nil_conv)
  have e: "strtok_loop k [] cli_delim = []" for k by (cases k) (simp_all add: strtok_r_def)
  have "pg_strtrim w = w" using pg_strtrim_id w(3,4) by blast
  then have "strtok_loop (Suc k) w cli_delim = [w]" for k by (simp add: r e)
  moreover obtain k where "CLI_MAX_ARGVS = Suc k" by (cases CLI_MAX_ARGVS) (simp_all add: CLI_MAX_ARGVS_def)
  ultimately show ?thesis by metis
qed

lemma pg_strcnt_zero: "c \<notin> set s \<Longrightarrow> pg_strcnt s c = 0"
  by (induction s) auto

lemma print_nodes_filter:
  assumes "\<forall>n \<in> set ns. n < length (t_mem t)" and "w \<noteq> []"
  shows "print_nodes t False (Some w) ns = Inr (filter (\<lambda>n. take (length w) (cn_name (t_mem t ! n)) = w) ns)"
proof -
  have "rfold (\<lambda>acc n. rbind (nd t n) (\<lambda>x. Inr (if take (length w) (cn_name x) \<noteq> w then acc else acc @ [n]))) acc ns =
      Inr (acc @ filter (\<lambda>n. take (length w) (cn_name (t_mem t ! n)) = w) ns)" for acc
    using assms(1) by (induction ns arbitrary: acc) (auto simp: nd_def)
  then show ?thesis using assms(2) by (simp add: print_nodes_def Let_def)
qed

text \<open>
  C30: completion of a single word of which exactly one node in the path of executables has a name that starts with it: the
  line becomes the whole name with a slash after a directory and a blank after anything else, and nothing else changes. The prompt
  fits on the terminal, where the line is shown again.
\<close>

theorem completion_extends:
  assumes E: "alloc_ok E = (\<lambda>_. True)" "unat (c_plen (sh_cli s)) < unat (ncols E)" and gb: "gb_inv (sh_gb s)" "gb_abs (sh_gb s) = (w, [])" "ebuf (sh_gb s) + 8192 < 2147483648"
    and w: "plain_word w" "CHR ''/'' \<notin> set w" "NUL \<notin> set w"
    and ns: "cli_node_list_with_type (sh_tree s) None CLI_ALL_TYPE = Inr ns" "\<forall>n \<in> set ns. n < length (t_mem (sh_tree s))"
      "filter (\<lambda>n. take (length w) (cn_name (t_mem (sh_tree s) ! n)) = w) ns = [n]"
    and x: "nd (sh_tree s) n = Inr x" "length (cn_name x) < CLI_NAME_LEN"
  shows "\<exists>s'. cli_auto_complete f E call s = Inr s' \<and> gb_abs (sh_gb s') = (cn_name x @ (if is_directory x then ''/'' else '' ''), []) \<and>
    sh_tree s' = sh_tree s \<and> sh_hist s' = sh_hist s \<and> sh_env s' = sh_env s"
proof -
  have tx: "gb_text (sh_gb s) = w" using gb(2) by (auto dest: gb_text_abs)
  have lim: "ebuf (sh_gb s) < 2147483648" using gb(3) by simp
  have wne: "w \<noteq> []" "last w \<noteq> CHR '' ''" using w(1) last_in_set[of w] by (auto simp: plain_word_def isspace_def)
  have ds: "gb_data_size (sh_gb s) = length w" using gb_data_size_abs[OF gb(1) lim] tx by simp
  have cp: "gb_copy_to_buf (sh_gb s) (replicate (length w + 1) NUL) (length w) = Inr (length w, w @ [NUL])"
    using copy_out[OF gb(1) lim] tx wne by simp
  obtain g1 where g1: "gb_get_prev (sh_gb s) = Inr (last w, g1)" "gb_inv g1" "gb_abs g1 = (w, [])" "ebuf g1 = ebuf (sh_gb s)"
    using gb_get_prev_abs[OF gb(1), of "butlast w" "last w" "[]"] gb(2) wne(1) by auto
  have "n \<in> set (filter (\<lambda>n. take (length w) (cn_name (t_mem (sh_tree s) ! n)) = w) ns)" unfolding ns(3) by simp
  then have pre: "take (length w) (cn_name x) = w" using x(1) ns(2) by (auto simp: nd_def)
  have "takeWhile (\<lambda>c. c \<noteq> CHR ''/'') (rev w) = rev w" using w(2) by auto
  then have as: "after_slash w = w" unfolding after_slash_def by (metis rev_rev_ident)
  define r where "r = drop (length w) (cn_name x)"
  have nm: "cn_name x = w @ r" using pre by (metis append_take_drop_id r_def)
  have rl: "length r < 64" "length (cn_name x) = length w + length r" using nm x(2) by (simp_all add: CLI_NAME_LEN_def)
  obtain k2 g2 where g2: "(if 0 < int (length (cn_name x)) - int (length w) then gb_str_insert (\<lambda>_. True) g1 r (u32_of (int (length (cn_name x)) - int (length w))) else Inr (0, g1)) = Inr (k2, g2)"
    "gb_inv g2" "gb_abs g2 = (w @ r, [])" "ebuf g2 \<le> ebuf g1 + 72"
  proof (cases "r = []")
    case True
    then show ?thesis using that[of 0 g1] g1 rl by simp
  next
    case False
    have "int (length (cn_name x)) - int (length w) = int (length r)" using rl by simp
    moreover obtain k g where "gb_str_insert (\<lambda>_. True) g1 r (length r) = Inr (k, g)" "gb_inv g" "gb_abs g = (w @ r, [])" "ebuf g \<le> ebuf g1 + length r + 8"
      using gb_str_insert_abs[OF g1(2,3), of "\<lambda>_. True" "length r" r] g1(4) gb(3) rl(1) False by fastforce
    ultimately show ?thesis using that[of k g] False rl(1) by simp
  qed
  define e where "e = (if is_directory x then ''/'' else '' '')"
  have el: "length e = 1" by (simp add: e_def)
  obtain k3 g3 where g3: "gb_str_insert (\<lambda>_. True) g2 e 1 = Inr (k3, g3)" "gb_inv g3" "gb_abs g3 = (w @ r @ e, [])" "ebuf g3 \<le> ebuf g2 + 9"
    using gb_str_insert_abs[OF g2(2,3), of "\<lambda>_. True" 1 e] g2(4) g1(4) gb(3) el by fastforce
  have "insert_match (\<lambda>_. True) x (Some w) g1 = Inr g3"
    unfolding insert_match_def option.case as Let_def r_def[symmetric] e_def[symmetric] g2(1) rbind_Inr prod.case g3(1) by simp
  then have ca: "complete_args (\<lambda>_. True) (sh_tree s) [w] CLI_ALL_TYPE g1 = Inr (1, g3)"
    using ns(1) x(1) ns(3) print_nodes_filter[OF ns(2) wne(1)]
    by (simp add: complete_args_def complete_where_def pg_strcnt_zero[OF w(2)] as)
  have pt: "point g3 = gap g3" using gb_str_insert_point[OF g3(1)] gb_str_insert_count[OF g3(1)] by simp
  obtain s' where s': "redisplay E (set_gb g3 (set_gb g1 s)) = Inr s'" "gb_abs (sh_gb s') = (w @ r @ e, [])" "sh_hist s' = sh_hist s" "sh_tree s' = sh_tree s" "sh_env s' = sh_env s"
    using redisplay_ok[of "set_gb g3 (set_gb g1 s)" E] g3(2,3,4) g2(4) g1(4) gb(3) pt E(2) by (auto simp: set_gb_def)
  have "cli_auto_complete f E call s = redisplay E (set_gb g3 (set_gb g1 s))"
    unfolding cli_auto_complete_def Let_def ds E(1) cp rbind_Inr prod.case c_str_text[OF w(3)] g1(1) strtok_loop_word_only[OF w(1)]
    using wne ca by (simp add: complete_word_def E(1))
  then show ?thesis using s' nm unfolding e_def by auto
qed

theorem completion_extends_witness:
  "\<exists>s'. cli_auto_complete 0 sample_ext sample_call (sample_shell ''mk'') = Inr s' \<and> gb_abs (sh_gb s') = (''mkdir '', []) \<and> sh_tree s' = sample_bin"
proof -
  have "cli_node_list_with_type sample_bin None CLI_ALL_TYPE = Inr [1, 2, 3]" "\<forall>n \<in> set [1, 2, 3]. n < length (t_mem sample_bin)"
    "filter (\<lambda>n. take (length ''mk'') (cn_name (t_mem sample_bin ! n)) = ''mk'') [1, 2, 3] = [2]"
    "cn_name (t_mem sample_bin ! 2) = ''mkdir''" "\<not> is_directory (t_mem sample_bin ! 2)" by code_simp+
  then show ?thesis
    using completion_extends[of sample_ext "sample_shell ''mk''" "''mk''" "[1, 2, 3]" 2 "t_mem sample_bin ! 2" 0 sample_call] sample_bin_facts(3)
    by (auto simp: sample_shell_facts sample_gb_facts sample_ext_def plain_word_def isspace_def CLI_NAME_LEN_def)
qed

text \<open>
  A history line is recalled without entering the history again. It is copied to the start of the array while the text is
  read where the typed one began, so white space before the exclamation mark cuts as many characters off the recalled line.
\<close>

theorem history_recall_cuts:
  assumes "c_str m = sp @ ''!'' @ ds" and "\<forall>c \<in> set sp. isspace c" and "ds \<noteq> []" and "\<not> isspace (last ds)"
    and "cli_history_line h (atoi ds) = Some hl" and "NUL \<notin> set hl" and "length sp \<le> length hl" and "length hl \<le> sz"
  shows "exec_text ok h m sz = Inr (Some (length sp, drop (length sp) hl), h)"
proof -
  have b: "\<not> isspace CHR ''!''" by (simp add: isspace_def)
  have p: "pg_strtrim (sp @ ''!'' @ ds) = ''!'' @ ds" using pg_strtrim_spaces[OF assms(2), of "[]" "''!'' @ ds"] assms(3,4) b by simp
  have k: "takeWhile isspace (sp @ ''!'' @ ds) = sp" using assms(2) b by (simp add: takeWhile_append2)
  have "NUL \<notin> set (drop (length sp) hl)" using assms(6) in_set_dropD by metis
  then have "c_str (drop (length sp) (hl @ NUL # r)) = drop (length sp) hl" for r using assms(7) by (auto simp: c_str_def takeWhile_append)
  then show ?thesis using assms(5,8) unfolding exec_text_def Let_def assms(1) p k by simp
qed

theorem history_recall_cuts_witness:
  "exec_text (\<lambda>_. True) (hist_init\<lparr>hist_mem := True, hd_hist := [0], line := (\<lambda>_. Some ''mkdir x'')\<rparr>) ('' !0'' @ [NUL]) 2048 = Inr (Some (1, ''kdir x''),
     hist_init\<lparr>hist_mem := True, hd_hist := [0], line := (\<lambda>_. Some ''mkdir x'')\<rparr>)"
proof -
  let ?h = "hist_init\<lparr>hist_mem := True, hd_hist := [0], line := (\<lambda>_. Some ''mkdir x'')\<rparr>"
  have "atoi ''0'' = 0" by code_simp
  then have "cli_history_line ?h (atoi ''0'') = Some ''mkdir x''" by (simp add: cli_history_line_def hist_init_def)
  moreover have "c_str ('' !0'' @ [NUL]) = '' '' @ ''!'' @ ''0''" by (simp add: c_str_def)
  ultimately show ?thesis using history_recall_cuts[of "'' !0'' @ [NUL]" "'' ''" "''0''" ?h "''mkdir x''" 2048] by (simp add: isspace_def)
qed

end
