(* ===== verification/CliFuns.thy ===== *)
theory CliFuns
  imports PortList Addr CmdMap Proto Capture
begin

text \<open>
  The command functions of the generator (app/cli-functions.c): the arguments of a typed line select a form of the
  command in a table, the list of ports is parsed, and the port command is carried out on each port of the list. Also the
  commands of app/pktgen-cmds.c that reach beyond a port: tap devices, blinking, bonding and the address learning flag.
\<close>

section \<open>The ports\<close>

record port_slot =
  sl_info :: port_info
  sl_seq :: bool
  sl_rnd :: rnd_bits
  sl_dump :: pkt_dump
  sl_rx_tapfd :: int
  sl_tx_tapfd :: int

text \<open>
  \<open>gn_ports\<close> are the attached devices, numbered from zero; \<open>sl_seq\<close> tells whether a port has its packet
  templates. \<open>gn_files\<close> are the capture files written so far.
\<close>

record gen =
  gn_ports :: "port_slot list"
  gn_flags :: u32
  gn_ident :: u16
  gn_hz :: u64
  gn_scale :: "u64 \<Rightarrow> rat \<Rightarrow> u64"
  gn_l2p :: l2p
  gn_blinklist :: u32
  gn_capture :: "capture list"
  gn_files :: "cap_rec list list"
  gn_paused :: bool

definition port_view :: "nat \<Rightarrow> gen \<Rightarrow> pktgen_st res" where
  "port_view p G =
     rbind (get_port_txcnt (gn_l2p G) (unat (pi_pid (sl_info (gn_ports G ! p))))) (\<lambda>n.
     Inr \<lparr>g_info = sl_info (gn_ports G ! p), g_flags = gn_flags G, g_ident = gn_ident G, g_hz = gn_hz G, g_txcnt = unat n, g_scale = gn_scale G\<rparr>)"

definition upd_slot :: "nat \<Rightarrow> (port_slot \<Rightarrow> port_slot) \<Rightarrow> gen \<Rightarrow> gen" where
  "upd_slot p f G = G\<lparr>gn_ports := (gn_ports G)[p := f (gn_ports G ! p)]\<rparr>"

definition port_store :: "nat \<Rightarrow> pktgen_st \<Rightarrow> gen \<Rightarrow> gen" where
  "port_store p g G = (upd_slot p (\<lambda>s. s\<lparr>sl_info := g_info g\<rparr>) G)\<lparr>gn_flags := g_flags g, gn_ident := g_ident g\<rparr>"

definition on_port :: "(pktgen_st \<Rightarrow> pktgen_st res) \<Rightarrow> nat \<Rightarrow> gen \<Rightarrow> gen res" where
  "on_port f p G = rbind (port_view p G) (\<lambda>g. rbind (f g) (\<lambda>g. Inr (port_store p g G)))"

text \<open>
  The loop over the ports of a list. The list is one 64-bit word; the second component of the state are variables of
  the function around the loop.
\<close>

definition chosen :: "u64 \<Rightarrow> nat \<Rightarrow> gen \<Rightarrow> bool res" where
  "chosen pl p G = (if 64 \<le> p then Inl Fault else Inr (bit pl p \<and> sl_seq (gn_ports G ! p)))"

definition foreach_port :: "u64 \<Rightarrow> (nat \<Rightarrow> gen \<times> 'x \<Rightarrow> (gen \<times> 'x) res) \<Rightarrow> gen \<times> 'x \<Rightarrow> (gen \<times> 'x) res" where
  "foreach_port pl act s =
     rfold (\<lambda>s p. rbind (chosen pl p (fst s)) (\<lambda>b. if b then act p s else Inr s)) s [0..<length (gn_ports (fst s))]"

definition each_port :: "u64 \<Rightarrow> (nat \<Rightarrow> gen \<Rightarrow> gen res) \<Rightarrow> gen \<Rightarrow> gen res" where
  "each_port pl act G =
     rbind (foreach_port pl (\<lambda>p (G, u). rbind (act p G) (\<lambda>G. Inr (G, u))) (G, ())) (\<lambda>(G, u). Inr G)"

definition each :: "u64 \<Rightarrow> (pktgen_st \<Rightarrow> pktgen_st res) \<Rightarrow> gen \<Rightarrow> gen res" where
  "each pl f = each_port pl (on_port f)"

section \<open>Arguments\<close>

text \<open>
  What a command function finds in variables before it sets them, the answers of the C library, the operating system and the
  bonding driver (the number of slaves of a port, when all its queries succeed).
\<close>

record tap_calls =
  tc_open :: int
  tc_setiff :: int
  tc_setflags :: int

record cmd_env =
  ce_ports :: u64
  ce_ip :: rte_ipaddr
  ce_mac :: "u8 list"
  ce_tmp :: "u8 list"
  ce_after :: string
  ce_strtod :: "string \<Rightarrow> rat"
  ce_timer_hz :: u64
  ce_tap :: "bool \<Rightarrow> nat \<Rightarrow> tap_calls"
  ce_socket :: "nat \<Rightarrow> nat"
  ce_slaves :: "nat \<Rightarrow> nat option"

text \<open>
  Behind the arguments of a line the array holds null pointers or pointers of an earlier line, whose text is gone.
\<close>

definition arg_at :: "string list \<Rightarrow> nat \<Rightarrow> string res" where
  "arg_at argv i = (if i < length argv then Inr (argv ! i) else Inl Fault)"

definition with_arg :: "string list \<Rightarrow> nat \<Rightarrow> (string \<Rightarrow> 's \<Rightarrow> 'r res) \<Rightarrow> 's \<Rightarrow> 'r res" where
  "with_arg argv i f s = rbind (arg_at argv i) (\<lambda>a. f a s)"

definition int_arg :: "string \<Rightarrow> 'a :: len word" where
  "int_arg a = word_of_int (atoi a)"

text \<open>\<open>pg_ether_aton (s, NULL)\<close>, whose result the port commands copy from without a test for the null pointer.\<close>

definition mac_arg :: "string \<Rightarrow> u8 list res" where
  "mac_arg a = (let (ok, m) = pg_ether_aton a (replicate 6 0) in if ok then Inr m else Inl Fault)"

definition PG_IPADDR_V4 :: int where "PG_IPADDR_V4 = 1"
definition PG_IPADDR_NETWORK :: int where "PG_IPADDR_NETWORK = 4"

text \<open>The address variable keeps what it held when the text is not an address.\<close>

definition read_ip :: "cmd_env \<Rightarrow> int \<Rightarrow> string \<Rightarrow> rte_ipaddr \<Rightarrow> rte_ipaddr res" where
  "read_ip E fl a ip = rbind (atoip (ce_tmp E) (Some 24) (Some a) fl) (\<lambda>(n, r). Inr (case r of Some i \<Rightarrow> i | None \<Rightarrow> ip))"

definition ip_host :: "rte_ipaddr \<Rightarrow> u32" where
  "ip_host ip = of_be32 (ia_addr ip)"

definition cut_slash :: "string \<Rightarrow> string" where
  "cut_slash a = takeWhile (\<lambda>c. c \<noteq> CHR ''/'') a"

text \<open>A source address without a prefix gets \<open>/32\<close>, in a buffer of 32 bytes.\<close>

definition read_src :: "cmd_env \<Rightarrow> string \<Rightarrow> rte_ipaddr \<Rightarrow> rte_ipaddr res" where
  "read_src E a = read_ip E (PG_IPADDR_V4 OR PG_IPADDR_NETWORK) (if CHR ''/'' \<in> set a then a else take 31 (a @ ''/32''))"

definition valid_pkt_size :: "string option \<Rightarrow> u16" where
  "valid_pkt_size val =
     (case val of
        None \<Rightarrow> 64
      | Some a \<Rightarrow> (let v = (int_arg a :: u16); v1 = (if v < 64 then 64 else v) in if v1 > 1518 then 1518 else v1))"

definition valid_gtpu_teid :: "string \<Rightarrow> u16" where
  "valid_gtpu_teid a = int_arg a"

definition estate :: "string \<Rightarrow> bool" where
  "estate state =
     (let lower = map (\<lambda>c. if (of_char c :: nat) \<in> {65..90} then char_of ((of_char c :: nat) + 32) else c) state
      in lower = ''on'' \<or> lower = ''enable'' \<or> lower = ''start'')"

definition pktgen_update_display :: "gen \<Rightarrow> gen" where
  "pktgen_update_display G = G\<lparr>gn_flags := gn_flags G OR PRINT_LABELS_FLAG OR push_bit 31 1\<rparr>"

text \<open>
  A command returns 0 or, after a message, -1. \<open>find_form\<close> selects the form and parses the list of ports, whose result
  nobody looks at.
\<close>

definition run_act :: "(gen \<Rightarrow> gen res) option \<Rightarrow> gen \<Rightarrow> (int \<times> gen) res" where
  "run_act act G = (case act of None \<Rightarrow> Inr (- 1, G) | Some a \<Rightarrow> rbind (a G) (\<lambda>G. Inr (0, pktgen_update_display G)))"

definition find_form ::
  "cmd_env \<Rightarrow> (int \<times> string) list \<Rightarrow> string list \<Rightarrow> (int \<Rightarrow> string \<Rightarrow> u64 \<Rightarrow> gen \<Rightarrow> (int \<times> gen) res) \<Rightarrow> gen \<Rightarrow> (int \<times> gen) res" where
  "find_form E tab argv k G =
     rbind (cli_mapping (ce_after E) tab argv) (\<lambda>m.
     case m of
       None \<Rightarrow> Inr (- 1, G)
     | Some (index, fmt) \<Rightarrow> with_arg argv 1 (\<lambda>a. k index fmt (snd (portlist_parse a (ce_ports E)))) G)"

section \<open>Ranges\<close>

definition SMMI :: string where
  "SMMI = ''%|start|minimum|maximum|increment|min|max|inc''"

definition range_map :: "(int \<times> string) list" where
  "range_map =
     [(20, ''range %P dst mac '' @ SMMI @ '' %m''), (21, ''range %P src mac '' @ SMMI @ '' %m''),
      (22, ''range %P dst mac %m %m %m %m''), (23, ''range %P src mac %m %m %m %m''),
      (30, ''range %P dst ip '' @ SMMI @ '' %4''), (31, ''range %P src ip '' @ SMMI @ '' %4''),
      (32, ''range %P dst ip %4 %4 %4 %4''), (33, ''range %P src ip %4 %4 %4 %4''), (40, ''range %P proto %|tcp|udp''),
      (50, ''range %P dst port '' @ SMMI @ '' %d''), (51, ''range %P src port '' @ SMMI @ '' %d''),
      (52, ''range %P dst port %d %d %d %d''), (53, ''range %P src port %d %d %d %d''),
      (55, ''range %P ttl '' @ SMMI @ '' %b''), (56, ''range %P ttl %b %b %b %b''),
      (60, ''range %P vlan '' @ SMMI @ '' %d''), (61, ''range %P vlan %d %d %d %d''),
      (70, ''range %P size '' @ SMMI @ '' %d''), (71, ''range %P size %d %d %d %d''),
      (80, ''range %P mpls entry %h''), (85, ''range %P qinq index %d %d''), (90, ''range %P gre key %d''), (91, ''range %P gre_key %d''),
      (100, ''range %P gtpu '' @ SMMI @ '' %d''), (101, ''range %P gtpu %d %d %d %d''),
      (160, ''range %P cos '' @ SMMI @ '' %d''), (161, ''range %P cos %d %d %d %d''),
      (170, ''range %P tos '' @ SMMI @ '' %d''), (171, ''range %P tos %d %d %d %d'')]"

text \<open>One value of a range, and the four values given at once, from argument \<open>k\<close> on.\<close>

definition range_one :: "string list \<Rightarrow> nat \<Rightarrow> (string \<Rightarrow> string \<Rightarrow> 's \<Rightarrow> 's res) \<Rightarrow> 's \<Rightarrow> 's res" where
  "range_one argv k f = with_arg argv k (\<lambda>w. with_arg argv (k + 1) (f w))"

definition range_four :: "string list \<Rightarrow> nat \<Rightarrow> (string \<Rightarrow> string \<Rightarrow> 's \<Rightarrow> 's res) \<Rightarrow> 's \<Rightarrow> 's res" where
  "range_four argv k f s =
     rfold (\<lambda>s (w, i). with_arg argv i (f w) s) s [(''start'', k), (''min'', k + 1), (''max'', k + 2), (''inc'', k + 3)]"

definition set_mac_range :: "(string \<Rightarrow> u8 list \<Rightarrow> pktgen_st \<Rightarrow> pktgen_st) \<Rightarrow> string \<Rightarrow> string \<Rightarrow> pktgen_st \<Rightarrow> pktgen_st res" where
  "set_mac_range f w a g = rbind (mac_arg a) (\<lambda>m. Inr (f w m g))"

text \<open>\<open>valid_pkt_size\<close> is skipped for the word \<open>inc\<close>, but not for \<open>increment\<close>.\<close>

definition set_size_range :: "string \<Rightarrow> string \<Rightarrow> pktgen_st \<Rightarrow> pktgen_st res" where
  "set_size_range w a g = Inr (range_set_pkt_size w (if w = ''inc'' then int_arg a else valid_pkt_size (Some a)) g)"

definition set_teid_range :: "string \<Rightarrow> string \<Rightarrow> pktgen_st \<Rightarrow> pktgen_st res" where
  "set_teid_range w a g = Inr (range_set_gtpu_teid w (if w = ''inc'' then int_arg a else ucast (valid_gtpu_teid a)) g)"

definition set_ip_once ::
  "cmd_env \<Rightarrow> string list \<Rightarrow> u64 \<Rightarrow> (string \<Rightarrow> u32 \<Rightarrow> pktgen_st \<Rightarrow> pktgen_st) \<Rightarrow> gen \<Rightarrow> gen res" where
  "set_ip_once E argv pl f =
     with_arg argv 4 (\<lambda>w. with_arg argv 5 (\<lambda>a G.
       rbind (read_ip E PG_IPADDR_V4 a (ce_ip E)) (\<lambda>ip. each pl (\<lambda>g. Inr (f (cut_slash w) (ip_host ip) g)) G)))"

definition set_ip_four ::
  "cmd_env \<Rightarrow> string list \<Rightarrow> u64 \<Rightarrow> (string \<Rightarrow> u32 \<Rightarrow> pktgen_st \<Rightarrow> pktgen_st) \<Rightarrow> gen \<Rightarrow> gen res" where
  "set_ip_four E argv pl f G =
     rbind (foreach_port pl (\<lambda>p. range_four argv 4 (\<lambda>w a (G, ip).
         rbind (read_ip E PG_IPADDR_V4 a ip) (\<lambda>ip.
         rbind (on_port (\<lambda>g. Inr (f w (ip_host ip) g)) p G) (\<lambda>G. Inr (G, ip))))) (G, ce_ip E)) (\<lambda>(G, ip). Inr G)"

definition range_act :: "cmd_env \<Rightarrow> string list \<Rightarrow> int \<Rightarrow> u64 \<Rightarrow> (gen \<Rightarrow> gen res) option" where
  "range_act E argv index pl =
     (if index = 20 then Some (each pl (range_one argv 4 (set_mac_range range_set_dest_mac)))
      else if index = 21 then Some (each pl (range_one argv 4 (set_mac_range range_set_src_mac)))
      else if index = 22 then Some (each pl (range_four argv 4 (set_mac_range range_set_dest_mac)))
      else if index = 23 then Some (each pl (range_four argv 4 (set_mac_range range_set_src_mac)))
      else if index = 30 then Some (set_ip_once E argv pl range_set_dst_ip)
      else if index = 31 then Some (set_ip_once E argv pl range_set_src_ip)
      else if index = 32 then Some (set_ip_four E argv pl range_set_dst_ip)
      else if index = 33 then Some (set_ip_four E argv pl range_set_src_ip)
      else if index = 40 then Some (each pl (with_arg argv 3 range_set_proto))
      else if index = 50 then Some (each pl (range_one argv 4 (\<lambda>w a g. Inr (range_set_dst_port w (int_arg a) g))))
      else if index = 51 then Some (each pl (range_one argv 4 (\<lambda>w a g. Inr (range_set_src_port w (int_arg a) g))))
      else if index = 52 then Some (each pl (range_four argv 4 (\<lambda>w a g. Inr (range_set_dst_port w (int_arg a) g))))
      else if index = 53 then Some (each pl (range_four argv 4 (\<lambda>w a g. Inr (range_set_src_port w (int_arg a) g))))
      else if index = 55 then Some (each pl (range_one argv 3 (\<lambda>w a g. Inr (range_set_ttl w (int_arg a) g))))
      else if index = 56 then Some (each pl (range_four argv 3 (\<lambda>w a g. Inr (range_set_ttl w (int_arg a) g))))
      else if index = 60 then Some (each pl (range_one argv 3 (\<lambda>w a g. Inr (range_set_vlan_id w (int_arg a) g))))
      else if index = 61 then Some (each pl (range_four argv 3 (\<lambda>w a g. Inr (range_set_vlan_id w (int_arg a) g))))
      else if index = 70 then Some (each pl (range_one argv 3 set_size_range))
      else if index = 71 then Some (each pl (range_four argv 3 set_size_range))
      else if index = 80 then Some (each pl (with_arg argv 4 (\<lambda>a. range_set_mpls_entry (ucast (fst (strtoul a 16))))))
      else if index = 85 then Some (each pl (with_arg argv 4 (\<lambda>a. with_arg argv 5 (\<lambda>b. range_set_qinqids (int_arg a) (int_arg b)))))
      else if index = 90 \<or> index = 91 then Some (each pl (with_arg argv 4 (\<lambda>a. range_set_gre_key (ucast (fst (strtoul a 10))))))
      else if index = 100 then Some (each pl (range_one argv 3 set_teid_range))
      else if index = 101 then Some (each pl (range_four argv 3 set_teid_range))
      else if index = 160 then Some (each pl (range_one argv 3 (\<lambda>w a g. Inr (range_set_cos_id w (int_arg a) g))))
      else if index = 161 then Some (each pl (range_four argv 3 (\<lambda>w a g. Inr (range_set_cos_id w (int_arg a) g))))
      else if index = 170 then Some (each pl (range_one argv 3 (\<lambda>w a g. Inr (range_set_tos_id w (int_arg a) g))))
      else if index = 171 then Some (each pl (range_four argv 3 (\<lambda>w a g. Inr (range_set_tos_id w (int_arg a) g))))
      else None)"

definition range_cmd :: "cmd_env \<Rightarrow> string list \<Rightarrow> gen \<Rightarrow> (int \<times> gen) res" where
  "range_cmd E argv = find_form E range_map argv (\<lambda>index fmt pl. run_act (range_act E argv index pl))"

section \<open>Single packets\<close>

definition set_types :: string where
  "set_types = ''count|size|rate|burst|tx_cycles|sport|dport|prime|dump|vlan|vlanid|seq_cnt|seqCnt|seqcnt|ttl''"

definition set_map :: "(int \<times> string) list" where
  "set_map =
     [(10, ''set %P %|'' @ set_types @ '' %d''), (11, ''set %P jitter %D''), (20, ''set %P type %|arp|ipv4|ipv6|ip4|ip6|vlan''),
      (21, ''set %P proto %|udp|tcp|icmp''), (22, ''set %P src mac %m''), (23, ''set %P dst mac %m''),
      (24, ''set %P pattern %|abc|none|user|zero''), (25, ''set %P user pattern %s''), (30, ''set %P src ip %4''), (31, ''set %P dst ip %4''),
      (40, ''set ports_per_page %d''), (50, ''set %P qinqids %d %d''), (60, ''set %P rnd %d %d %s''), (70, ''set %P cos %d''),
      (80, ''set %P tos %d''), (90, ''set %P vxlan %h %d %d'')]"

text \<open>The inner switch; \<open>what\<close> is the word that was found at place \<open>n\<close> of the list.\<close>

definition set_dump :: "u32 \<Rightarrow> nat \<Rightarrow> gen \<Rightarrow> gen res" where
  "set_dump cnt p G = rbind (debug_set_port_dump cnt (sl_dump (gn_ports G ! p))) (\<lambda>d. Inr (upd_slot p (\<lambda>s. s\<lparr>sl_dump := d\<rparr>) G))"

definition set_one :: "cmd_env \<Rightarrow> string \<Rightarrow> string \<Rightarrow> int \<Rightarrow> (nat \<Rightarrow> gen \<Rightarrow> gen res) option" where
  "set_one E what a n =
     (if n = 0 then Some (on_port (\<lambda>g. Inr (single_set_tx_count (int_arg a) g)))
      else if n = 1 then Some (on_port (single_set_pkt_size (valid_pkt_size (Some a))))
      else if n = 2 then Some (on_port (single_set_tx_rate (ce_strtod E a)))
      else if n = 3 then Some (on_port (single_set_tx_burst (int_arg a)))
      else if n = 4 then Some (on_port (\<lambda>g. Inr (debug_set_tx_cycles (int_arg a) g)))
      else if n = 5 \<or> n = 6 then Some (on_port (\<lambda>g. rbind (c_str_at what 0) (\<lambda>c. single_set_port_value c (int_arg a) g)))
      else if n = 7 then Some (on_port (\<lambda>g. Inr (pktgen_set_port_prime (int_arg a) g)))
      else if n = 8 then Some (set_dump (int_arg a))
      else if n = 9 \<or> n = 10 then Some (on_port (single_set_vlan_id (int_arg a)))
      else if n = 11 \<or> n = 12 \<or> n = 13 then Some (on_port (\<lambda>g. Inr (pktgen_set_port_seqCnt (int_arg a) g)))
      else if n = 14 then Some (on_port (single_set_ttl_value (int_arg a)))
      else None)"

text \<open>
  A mask keeps the first 32 of its characters that mean something. The slot and the offset are cut to eight bits.
\<close>

definition rnd_mask :: "string \<Rightarrow> string" where
  "rnd_mask m = (if m = ''off'' then [] else take 32 (filter (\<lambda>c. c \<in> set ''01.Xx'') m))"

definition set_rnd :: "u16 \<Rightarrow> u16 \<Rightarrow> string \<Rightarrow> nat \<Rightarrow> gen \<Rightarrow> gen res" where
  "set_rnd id1 id2 m p G =
     (let rb = pktgen_set_random_bitfield (unat (ucast id1 :: u8)) (ucast id2) (rnd_mask m) (sl_rnd (gn_ports G ! p)) in
      on_port (\<lambda>g. Inr (enable_random (active_specs rb \<noteq> 0) g)) p (upd_slot p (\<lambda>s. s\<lparr>sl_rnd := rb\<rparr>) G))"

definition id_arg :: "string \<Rightarrow> 'a :: len word" where
  "id_arg a = word_of_int (strtol0 a)"

definition set_act :: "cmd_env \<Rightarrow> string list \<Rightarrow> int \<Rightarrow> u64 \<Rightarrow> (gen \<Rightarrow> gen res) option" where
  "set_act E argv index pl =
     (if index = 11 then Some (each pl (with_arg argv 3 (\<lambda>a g. Inr (single_set_jitter (ce_timer_hz E) (strtoul0 a) g))))
      else if index = 20 then Some (each pl (with_arg argv 3 single_set_pkt_type))
      else if index = 21 then Some (each pl (with_arg argv 3 single_set_proto))
      else if index = 22 then Some (each pl (with_arg argv 4 (\<lambda>a g. rbind (mac_arg a) (\<lambda>m. single_set_src_mac m g))))
      else if index = 23 then Some (each pl (with_arg argv 4 (\<lambda>a g. rbind (mac_arg a) (\<lambda>m. single_set_dst_mac m g))))
      else if index = 24 then Some (each pl (with_arg argv 3 (\<lambda>a g. Inr (pattern_set_type a g))))
      else if index = 25 then Some (each pl (with_arg argv 3 pattern_set_user_pattern))
      else if index = 30 then Some (with_arg argv 4 (\<lambda>a G. rbind (read_src E a (ce_ip E)) (\<lambda>ip.
             each pl (single_set_ipaddr CHR ''s'' (ip_host ip) (nat (ia_prefixlen ip))) G)))
      else if index = 31 then Some (with_arg argv 4 (\<lambda>a G. rbind (read_ip E PG_IPADDR_V4 (cut_slash a) (ce_ip E)) (\<lambda>ip.
             each pl (single_set_ipaddr CHR ''d'' (ip_host ip) (nat (ia_prefixlen ip))) G)))
      else if index = 50 then Some (with_arg argv 3 (\<lambda>a. with_arg argv 4 (\<lambda>b. each pl (single_set_qinqids (id_arg a) (id_arg b)))))
      else if index = 60 then Some (with_arg argv 3 (\<lambda>a. with_arg argv 4 (\<lambda>b. with_arg argv 5 (\<lambda>m. each_port pl (set_rnd (id_arg a) (id_arg b) m)))))
      else if index = 70 then Some (with_arg argv 3 (\<lambda>a. each pl (single_set_cos (ucast (id_arg a :: u16)))))
      else if index = 80 then Some (with_arg argv 3 (\<lambda>a. each pl (single_set_tos (ucast (id_arg a :: u16)))))
      else if index = 90 then Some (with_arg argv 3 (\<lambda>a. with_arg argv 4 (\<lambda>b. with_arg argv 5 (\<lambda>v. each pl (single_set_vxlan (id_arg a) (id_arg b) (id_arg v))))))
      else None)"

text \<open>
  The number of ports on a page belongs to the display and is not kept. The function reads the third argument as a number in
  every form. When the inner switch fails the function returns from within the loop, at the first port.
\<close>

definition any_chosen :: "u64 \<Rightarrow> gen \<Rightarrow> bool res" where
  "any_chosen pl G = rfold (\<lambda>b p. rbind (chosen pl p G) (\<lambda>c. Inr (b \<or> c))) False [0..<length (gn_ports G)]"

definition set_form :: "cmd_env \<Rightarrow> string list \<Rightarrow> int \<Rightarrow> string \<Rightarrow> u64 \<Rightarrow> gen \<Rightarrow> (int \<times> gen) res" where
  "set_form E argv index fmt pl = with_arg argv 2 (\<lambda>what. with_arg argv 3 (\<lambda>a G.
     if index = 10 then
       rbind (cli_map_list_search fmt what 2) (\<lambda>n.
       case set_one E what a n of
         Some act \<Rightarrow> run_act (Some (each_port pl act)) G
       | None \<Rightarrow> rbind (any_chosen pl G) (\<lambda>b. if b then Inr (- 1, G) else run_act (Some Inr) G))
     else if index = 40 then run_act (Some Inr) G
     else run_act (set_act E argv index pl) G))"

definition set_cmd :: "cmd_env \<Rightarrow> string list \<Rightarrow> gen \<Rightarrow> (int \<times> gen) res" where
  "set_cmd E argv = find_form E set_map argv (set_form E argv)"

section \<open>Starting and stopping\<close>

definition start_map :: "(int \<times> string) list" where
  "start_map =
     [(10, ''start %P''), (20, ''stop %P''), (40, ''start %P prime''), (50, ''start %P arp %|request|gratuitous|req|grat'')]"

definition start_act :: "string list \<Rightarrow> int \<Rightarrow> u64 \<Rightarrow> (gen \<Rightarrow> gen res) option" where
  "start_act argv index pl =
     (if index = 10 then Some (each pl pktgen_start_transmitting)
      else if index = 20 then Some (each pl pktgen_stop_transmitting)
      else if index = 40 then Some (each pl pktgen_prime_ports)
      else if index = 50 then Some (with_arg argv 3 (\<lambda>a G. rbind (c_str_at a 0) (\<lambda>c.
             each pl (\<lambda>g. Inr (pktgen_send_arp_requests (if c = CHR ''g'' then 5 else 0) g)) G)))
      else None)"

definition start_stop_cmd :: "cmd_env \<Rightarrow> string list \<Rightarrow> gen \<Rightarrow> (int \<times> gen) res" where
  "start_stop_cmd E argv = find_form E start_map argv (\<lambda>index fmt pl. run_act (start_act argv index pl))"

section \<open>Enabling and disabling\<close>

definition ed_type :: string where
  "ed_type = ''process|mpls|qinq|gre|gre_eth|vlan|garp|random|latency|pcap|blink|rx_tap|tx_tap|icmp|range|capture|bonding|vxlan|rate''"

definition enable_map :: "(int \<times> string) list" where
  "enable_map =
     [(10, ''enable %P %|'' @ ed_type), (20, ''disable %P %|'' @ ed_type), (30, ''enable %|screen|mac_from_arp''), (31, ''disable %|screen|mac_from_arp'')]"

definition PROCESS_TX_TAP_PKTS :: u32 where "PROCESS_TX_TAP_PKTS = push_bit 9 1"
definition BONDING_TX_PACKETS :: u32 where "BONDING_TX_PACKETS = push_bit 3 1"
definition BLINK_PORTS_FLAG :: u32 where "BLINK_PORTS_FLAG = push_bit 10 1"

text \<open>
  A tap device: the descriptor and the port. \<open>tc_open\<close> is the descriptor of the first device file that opens, or what the last
  failed call returned.
\<close>

definition enable_tap :: "u32 \<Rightarrow> tap_calls \<Rightarrow> bool \<Rightarrow> int \<times> port_info \<Rightarrow> int \<times> port_info" where
  "enable_tap fl c on = (\<lambda>(fd, i).
     if on then
       if tc_open c < 0 then (tc_open c, i)
       else if tc_setiff c < 0 then (0, i)
       else if tc_setflags c < 0 then (0, i)
       else (tc_open c, pktgen_set_port_flags fl i)
     else (if pi_port_flags i AND fl \<noteq> 0 then 0 else fd, pktgen_clr_port_flags fl i))"

definition enable_rx_tap :: "cmd_env \<Rightarrow> bool \<Rightarrow> nat \<Rightarrow> gen \<Rightarrow> gen res" where
  "enable_rx_tap E on p G =
     Inr (upd_slot p (\<lambda>s. let (fd, i) = enable_tap PROCESS_RX_TAP_PKTS (ce_tap E True p) on (sl_rx_tapfd s, sl_info s) in s\<lparr>sl_rx_tapfd := fd, sl_info := i\<rparr>) G)"

definition enable_tx_tap :: "cmd_env \<Rightarrow> bool \<Rightarrow> nat \<Rightarrow> gen \<Rightarrow> gen res" where
  "enable_tx_tap E on p G =
     Inr (upd_slot p (\<lambda>s. let (fd, i) = enable_tap PROCESS_TX_TAP_PKTS (ce_tap E False p) on (sl_tx_tapfd s, sl_info s) in s\<lparr>sl_tx_tapfd := fd, sl_info := i\<rparr>) G)"

definition enable_capture :: "cmd_env \<Rightarrow> bool \<Rightarrow> nat \<Rightarrow> gen \<Rightarrow> gen res" where
  "enable_capture E on p G =
     rbind (pktgen_set_capture (gn_l2p G) (ce_socket E) on (sl_info (gn_ports G ! p), gn_capture G)) (\<lambda>(f, i, caps).
     Inr ((upd_slot p (\<lambda>s. s\<lparr>sl_info := i\<rparr>) G)\<lparr>gn_capture := caps, gn_files := gn_files G @ (case f of None \<Rightarrow> [] | Some rs \<Rightarrow> [rs])\<rparr>))"

text \<open>The flag is set or cleared once for each slave.\<close>

definition enable_bonding :: "cmd_env \<Rightarrow> bool \<Rightarrow> nat \<Rightarrow> gen \<Rightarrow> gen res" where
  "enable_bonding E on p G =
     (case ce_slaves E p of
        None \<Rightarrow> Inr G
      | Some n \<Rightarrow> Inr (upd_slot p (\<lambda>s. s\<lparr>sl_info :=
          ((if on then pktgen_set_port_flags BONDING_TX_PACKETS else pktgen_clr_port_flags BONDING_TX_PACKETS) ^^ n) (sl_info s)\<rparr>) G))"

definition debug_blink :: "bool \<Rightarrow> nat \<Rightarrow> gen \<Rightarrow> gen res" where
  "debug_blink on p G =
     (let b = push_bit (unat (pi_pid (sl_info (gn_ports G ! p)))) 1 in
      Inr (G\<lparr>gn_blinklist := (if on then gn_blinklist G OR b else gn_blinklist G AND NOT b)\<rparr>))"

definition blink_flag :: "gen \<Rightarrow> gen" where
  "blink_flag G = G\<lparr>gn_flags := (if gn_blinklist G \<noteq> 0 then gn_flags G OR BLINK_PORTS_FLAG else gn_flags G AND NOT BLINK_PORTS_FLAG)\<rparr>"

definition enable_mac_from_arp :: "bool \<Rightarrow> gen \<Rightarrow> gen" where
  "enable_mac_from_arp on G = G\<lparr>gn_flags := (if on then gn_flags G OR MAC_FROM_ARP_FLAG else gn_flags G AND NOT MAC_FROM_ARP_FLAG)\<rparr>"

definition pktgen_screen :: "bool \<Rightarrow> gen \<Rightarrow> gen" where
  "pktgen_screen on G = G\<lparr>gn_paused := \<not> on, gn_flags := (if on then gn_flags G OR push_bit 31 1 else gn_flags G)\<rparr>"

definition enable_act :: "cmd_env \<Rightarrow> int \<Rightarrow> bool \<Rightarrow> u64 \<Rightarrow> (gen \<Rightarrow> gen res) option" where
  "enable_act E n on pl =
     (if n = 0 then Some (each pl (\<lambda>g. Inr (enable_process on g)))
      else if n = 1 then Some (each pl (enable_mpls on))
      else if n = 2 then Some (each pl (enable_qinq on))
      else if n = 3 then Some (each pl (enable_gre on))
      else if n = 4 then Some (each pl (enable_gre_eth on))
      else if n = 5 then Some (each pl (enable_vlan on))
      else if n = 6 then Some (each pl (\<lambda>g. Inr (enable_garp on g)))
      else if n = 7 then Some (each pl (\<lambda>g. Inr (enable_random on g)))
      else if n = 8 then Some (each pl (enable_latency on))
      else if n = 9 then Some (each pl (\<lambda>g. Inr (enable_pcap on g)))
      else if n = 10 then Some (\<lambda>G. rbind (each_port pl (debug_blink on) G) (\<lambda>G. Inr (blink_flag G)))
      else if n = 11 then Some (each_port pl (enable_rx_tap E on))
      else if n = 12 then Some (each_port pl (enable_tx_tap E on))
      else if n = 13 then Some (each pl (\<lambda>g. Inr (enable_icmp_echo on g)))
      else if n = 14 then Some (each pl (enable_range on))
      else if n = 15 then Some (each_port pl (enable_capture E on))
      else if n = 16 then Some (each_port pl (enable_bonding E on))
      else if n = 17 then Some (each pl (enable_vxlan on))
      else if n = 18 then Some (each pl (enable_rate on))
      else None)"

definition en_dis_form :: "cmd_env \<Rightarrow> string list \<Rightarrow> int \<Rightarrow> string \<Rightarrow> u64 \<Rightarrow> gen \<Rightarrow> (int \<times> gen) res" where
  "en_dis_form E argv index fmt pl = with_arg argv 0 (\<lambda>verb G.
     if index = 10 \<or> index = 20 then
       with_arg argv 2 (\<lambda>what G. rbind (cli_map_list_search fmt what 2) (\<lambda>n. run_act (enable_act E n (estate verb) pl) G)) G
     else if index = 30 \<or> index = 31 then
       with_arg argv 1 (\<lambda>what G. rbind (c_str_at what 0) (\<lambda>c.
         run_act (Some (\<lambda>G. Inr (if c = CHR ''m'' then enable_mac_from_arp (estate verb) G else pktgen_screen (estate verb) G))) G)) G
     else Inr (- 1, G))"

definition en_dis_cmd :: "cmd_env \<Rightarrow> string list \<Rightarrow> gen \<Rightarrow> (int \<times> gen) res" where
  "en_dis_cmd E argv = find_form E enable_map argv (en_dis_form E argv)"

section \<open>Sequences\<close>

definition seq_map :: "(int \<times> string) list" where
  "seq_map =
     [(10, ''%|seq|sequence %d %P %m %m %4 %4 %d %d %|ipv4|ipv6 %|udp|tcp|icmp %d %d''),
      (11, ''%|seq|sequence %d %P %m %m %4 %4 %d %d %|ipv4|ipv6 %|udp|tcp|icmp %d %d %d''),
      (12, ''%|seq|sequence %d %P dst %m src %m dst %4 src %4 sport %d dport %d %|ipv4|ipv6 %|udp|tcp|icmp vlan %d size %d''),
      (13, ''%|seq|sequence %d %P dst %m src %m dst %4 src %4 sport %d dport %d %|ipv4|ipv6 %|udp|tcp|icmp vlan %d size %d teid %d''),
      (15, ''%|seq|sequence %d %P cos %d tos %d''), (16, ''%|seq|sequence %d %P vxlan %d gid %d vid %d''), (17, ''%|seq|sequence %d %P vxlan %h gid %d vid %d'')]"

text \<open>The number is compared as an \<open>int\<close> and used as a \<open>uint32_t\<close>.\<close>

definition seq_number :: "string \<Rightarrow> nat option" where
  "seq_number a = (if 16 \<le> atoi a then None else Some (u32_of (atoi a)))"

text \<open>
  The packet of \<open>seq_1_set_cmd\<close> and \<open>seq_2_set_cmd\<close>, which differ in the places of their arguments: MAC addresses, IP addresses,
  ports, types, VLAN, size and, in the last place, the tunnel identifier, present when there are \<open>full\<close> arguments. For IPv6 the
  sources copy the address as it is, so the IPv4 view of the union has its bytes in memory order. A MAC address that cannot be
  read leaves its variable partly written.
\<close>

definition seq_packet :: "cmd_env \<Rightarrow> string list \<Rightarrow> nat list \<Rightarrow> nat \<Rightarrow> gen \<Rightarrow> gen res" where
  "seq_packet E argv ks full G =
     rbind (rfold (\<lambda>xs k. rbind (arg_at argv k) (\<lambda>a. Inr (xs @ [a]))) [] ([1, 2] @ ks)) (\<lambda>as.
     case as of
       num # pts # dm # sm # di # si # sp # dp # ety # pro # vl # sz # _ \<Rightarrow>
         rbind (c_str_at pro 0) (\<lambda>pc. rbind (c_str_at ety 3) (\<lambda>ec.
         if pc = CHR ''i'' \<and> ec = CHR ''6'' then Inr G
         else case seq_number num of
           None \<Rightarrow> Inr G
         | Some n \<Rightarrow>
             rbind (if length argv = full then rbind (arg_at argv (full - 1)) (\<lambda>a. Inr (ucast (fst (strtoul a 10)))) else Inr 0) (\<lambda>teid.
             rbind (read_ip E PG_IPADDR_V4 (cut_slash di) (ce_ip E)) (\<lambda>dst.
             rbind (read_src E si (ce_ip E)) (\<lambda>src.
               let pl = snd (portlist_parse pts (ce_ports E)); dmac = snd (pg_ether_aton dm (ce_mac E)); smac = snd (pg_ether_aton sm (ce_mac E));
                   view = (\<lambda>ip. if ec = CHR ''4'' then ip_host ip else of_le32 (ia_addr ip)) in
               rbind (each pl (pktgen_set_seq n dmac smac (view dst) (view src) (nat (ia_prefixlen src)) (int_arg sp) (int_arg dp) ec pc
                   (int_arg vl) (int_arg sz) teid) G) (\<lambda>G. Inr (pktgen_update_display G)))))))
     | _ \<Rightarrow> Inl Fault)"

definition seq_1_set_cmd :: "cmd_env \<Rightarrow> string list \<Rightarrow> gen \<Rightarrow> gen res" where
  "seq_1_set_cmd E argv = seq_packet E argv [3, 4, 5, 6, 7, 8, 9, 10, 11, 12] 14"

definition seq_2_set_cmd :: "cmd_env \<Rightarrow> string list \<Rightarrow> gen \<Rightarrow> gen res" where
  "seq_2_set_cmd E argv = seq_packet E argv [4, 6, 8, 10, 12, 14, 15, 16, 18, 20] 23"

definition seq_3_set_cmd :: "cmd_env \<Rightarrow> string list \<Rightarrow> gen \<Rightarrow> gen res" where
  "seq_3_set_cmd E argv = with_arg argv 1 (\<lambda>num. with_arg argv 2 (\<lambda>pts. with_arg argv 4 (\<lambda>c. with_arg argv 6 (\<lambda>t G.
     case seq_number num of
       None \<Rightarrow> Inr G
     | Some n \<Rightarrow> rbind (each (snd (portlist_parse pts (ce_ports E)))
           (pktgen_set_cos_tos_seq n (ucast (fst (strtoul c 10))) (ucast (fst (strtoul t 10)))) G) (\<lambda>G. Inr (pktgen_update_display G))))))"

definition seq_4_set_cmd :: "cmd_env \<Rightarrow> string list \<Rightarrow> gen \<Rightarrow> gen res" where
  "seq_4_set_cmd E argv = with_arg argv 1 (\<lambda>num. with_arg argv 2 (\<lambda>pts. with_arg argv 4 (\<lambda>f. with_arg argv 6 (\<lambda>g. with_arg argv 8 (\<lambda>v G.
     case seq_number num of
       None \<Rightarrow> Inr G
     | Some n \<Rightarrow> rbind (each (snd (portlist_parse pts (ce_ports E)))
           (pktgen_set_vxlan_seq n (ucast (strtoul0 f)) (ucast (fst (strtoul g 10))) (ucast (fst (strtoul v 10)))) G) (\<lambda>G. Inr (pktgen_update_display G)))))))"

text \<open>The results of the four functions are not passed on.\<close>

definition seq_cmd :: "cmd_env \<Rightarrow> string list \<Rightarrow> gen \<Rightarrow> (int \<times> gen) res" where
  "seq_cmd E argv G =
     rbind (cli_mapping (ce_after E) seq_map argv) (\<lambda>m.
     case m of
       None \<Rightarrow> Inr (- 1, G)
     | Some (index, fmt) \<Rightarrow>
         if index = 10 \<or> index = 11 then rbind (seq_1_set_cmd E argv G) (\<lambda>G. Inr (0, G))
         else if index = 12 \<or> index = 13 then rbind (seq_2_set_cmd E argv G) (\<lambda>G. Inr (0, G))
         else if index = 15 then rbind (seq_3_set_cmd E argv G) (\<lambda>G. Inr (0, G))
         else if index = 16 \<or> index = 17 then rbind (seq_4_set_cmd E argv G) (\<lambda>G. Inr (0, G))
         else Inr (- 1, G))"

section \<open>Video rates\<close>

definition rate_types :: string where
  "rate_types = ''count|size|burst|sport|dport|ttl''"

definition rate_map :: "(int \<times> string) list" where
  "rate_map =
     [(10, ''rate %P %|'' @ rate_types @ '' %d''), (20, ''rate %P type %|arp|ipv4|ipv6|ip4|ip6|vlan''), (21, ''rate %P proto %|udp|tcp|icmp''),
      (22, ''rate %P src mac %m''), (23, ''rate %P dst mac %m''), (30, ''rate %P src ip %4''), (31, ''rate %P dst ip %4''),
      (40, ''rate %P fps %d''), (45, ''rate %P lines %d''), (46, ''rate %P pixels %d''), (50, ''rate %P color bits %d''),
      (60, ''rate %P payload size %d''), (70, ''rate %P overhead %d'')]"

definition rate_one :: "string \<Rightarrow> string \<Rightarrow> int \<Rightarrow> (pktgen_st \<Rightarrow> pktgen_st res) option" where
  "rate_one what a n =
     (if n = 0 then Some (\<lambda>g. Inr (rate_set_tx_count (int_arg a) g))
      else if n = 1 then Some (rate_set_pkt_size (valid_pkt_size (Some a)))
      else if n = 2 then Some (rate_set_tx_burst (int_arg a))
      else if n = 3 \<or> n = 4 then Some (\<lambda>g. rbind (c_str_at what 0) (\<lambda>c. rate_set_port_value c (int_arg a) g))
      else if n = 5 then Some (rate_set_ttl_value (int_arg a))
      else None)"

text \<open>The last three forms name other values than their words say, and the first two of them read the third word as the number.\<close>

definition rate_act :: "cmd_env \<Rightarrow> string list \<Rightarrow> int \<Rightarrow> u64 \<Rightarrow> (gen \<Rightarrow> gen res) option" where
  "rate_act E argv index pl =
     (let value = (\<lambda>w. each pl (with_arg argv 3 (\<lambda>a g. Inr (rate_set_value w (int_arg a) g))));
          value4 = (\<lambda>w. each pl (with_arg argv 4 (\<lambda>a g. Inr (rate_set_value w (int_arg a) g)))) in
      if index = 20 then Some (each pl (with_arg argv 3 rate_set_pkt_type))
      else if index = 21 then Some (each pl (with_arg argv 3 rate_set_proto))
      else if index = 22 then Some (each pl (with_arg argv 4 (\<lambda>a g. rbind (mac_arg a) (\<lambda>m. rate_set_src_mac m g))))
      else if index = 23 then Some (each pl (with_arg argv 4 (\<lambda>a g. rbind (mac_arg a) (\<lambda>m. rate_set_dst_mac m g))))
      else if index = 24 then Some (each pl (with_arg argv 3 (\<lambda>a g. Inr (pattern_set_type a g))))
      else if index = 30 then Some (with_arg argv 4 (\<lambda>a G. rbind (read_src E a (ce_ip E)) (\<lambda>ip.
             each pl (rate_set_ipaddr CHR ''s'' (ip_host ip) (nat (ia_prefixlen ip))) G)))
      else if index = 31 then Some (with_arg argv 4 (\<lambda>a G. rbind (read_ip E PG_IPADDR_V4 (cut_slash a) (ce_ip E)) (\<lambda>ip.
             each pl (rate_set_ipaddr CHR ''d'' (ip_host ip) (nat (ia_prefixlen ip))) G)))
      else if index = 40 then Some (value ''fps'')
      else if index = 45 then Some (value ''lines'')
      else if index = 46 then Some (value ''pixels'')
      else if index = 50 then Some (value ''color'')
      else if index = 60 then Some (value ''overhead'')
      else if index = 70 then Some (value ''mbps'')
      else if index = 80 then Some (value4 ''frame'')
      else if index = 90 then Some (value4 ''payload'')
      else None)"

definition rate_form :: "cmd_env \<Rightarrow> string list \<Rightarrow> int \<Rightarrow> string \<Rightarrow> u64 \<Rightarrow> gen \<Rightarrow> (int \<times> gen) res" where
  "rate_form E argv index fmt pl = with_arg argv 2 (\<lambda>what. with_arg argv 3 (\<lambda>a G.
     if index = 10 then
       rbind (cli_map_list_search fmt what 2) (\<lambda>n.
       case rate_one what a n of
         Some f \<Rightarrow> run_act (Some (each pl f)) G
       | None \<Rightarrow> rbind (any_chosen pl G) (\<lambda>b. if b then Inr (- 1, G) else run_act (Some Inr) G))
     else run_act (rate_act E argv index pl) G))"

definition rate_cmd :: "cmd_env \<Rightarrow> string list \<Rightarrow> gen \<Rightarrow> (int \<times> gen) res" where
  "rate_cmd E argv = find_form E rate_map argv (rate_form E argv)"

section \<open>Which ports a command changes\<close>

definition port_view_ok :: "nat \<Rightarrow> gen \<Rightarrow> bool" where
  "port_view_ok p G \<longleftrightarrow> (case get_port_txcnt (gn_l2p G) (unat (pi_pid (sl_info (gn_ports G ! p)))) of Inr n \<Rightarrow> True | _ \<Rightarrow> False)"

definition info_ports :: "(nat \<Rightarrow> bool) \<Rightarrow> (port_info \<Rightarrow> port_info) \<Rightarrow> gen \<Rightarrow> gen" where
  "info_ports P h G = G\<lparr>gn_ports := map (\<lambda>p. let s = gn_ports G ! p in if P p \<and> sl_seq s then s\<lparr>sl_info := h (sl_info s)\<rparr> else s) [0..<length (gn_ports G)]\<rparr>"

lemma on_port_info:
  assumes "\<And>g. f g = Inr (upd_info h g)" and "port_view_ok p G"
  shows "on_port f p G = Inr (upd_slot p (\<lambda>s. s\<lparr>sl_info := h (sl_info s)\<rparr>) G)"
  using assms(2) by (auto simp: port_view_ok_def on_port_def port_view_def assms(1) upd_info_def port_store_def upd_slot_def split: sum.splits)

lemma upd_slot_next:
  assumes "k < length xs"
  shows "(map F [0..<k] @ drop k xs)[k := F k] = map F [0..<Suc k] @ drop (Suc k) xs"
  using assms by (simp add: list_update_append Cons_nth_drop_Suc[symmetric])

lemma each_info:
  assumes h: "\<And>g. f g = Inr (upd_info h g)" and l: "length (gn_ports G) \<le> 64"
    and ok: "\<And>p. p < length (gn_ports G) \<Longrightarrow> bit pl p \<Longrightarrow> port_view_ok p G"
  shows "each pl f G = Inr (info_ports (bit pl) h G)"
proof -
  let ?xs = "gn_ports G" and ?act = "\<lambda>p (G, u :: unit). rbind (on_port f p G) (\<lambda>G. Inr (G, u))"
  define F where "F p = (let s = ?xs ! p in if bit pl p \<and> sl_seq s then s\<lparr>sl_info := h (sl_info s)\<rparr> else s)" for p
  define H where "H k = G\<lparr>gn_ports := map F [0..<k] @ drop k ?xs\<rparr>" for k
  have nth: "gn_ports (H k) ! k = ?xs ! k" if "k < length ?xs" for k using that by (simp add: H_def nth_append)
  have step: "rbind (chosen pl k (H k)) (\<lambda>b. if b then ?act k (H k, ()) else Inr (H k, ())) = Inr (H (Suc k), ())" if k: "k < length ?xs" for k
  proof (cases "bit pl k \<and> sl_seq (?xs ! k)")
    case True
    have "port_view_ok k (H k)" using ok[OF k] True nth[OF k] by (simp add: port_view_ok_def H_def)
    then have "on_port f k (H k) = Inr (H (Suc k))"
      using upd_slot_next[OF k, of F] nth[OF k] True by (simp add: on_port_info[OF h] upd_slot_def H_def F_def Let_def)
    then show ?thesis using True k l nth[OF k] by (simp add: chosen_def)
  next
    case False
    then have "H (Suc k) = H k" using k by (auto simp: H_def F_def Let_def Cons_nth_drop_Suc[symmetric])
    then show ?thesis using False k l nth[OF k] by (auto simp: chosen_def)
  qed
  have R: "rfold (\<lambda>s p. rbind (chosen pl p (fst s)) (\<lambda>b. if b then ?act p s else Inr s)) (G, ()) [0..<k] = Inr (H k, ())" if "k \<le> length ?xs" for k
    using that
  proof (induction k)
    case 0
    then show ?case by (simp add: H_def)
  next
    case (Suc k)
    then show ?case using step[of k] by (simp add: rfold_append)
  qed
  have "H (length ?xs) = info_ports (bit pl) h G" by (simp add: H_def info_ports_def F_def)
  then show ?thesis
    by (simp only: each_def each_port_def foreach_port_def fst_conv R[OF order_refl] rbind_Inr prod.case)
qed

text \<open>A list of ports as an argument: the numbers with commas between them.\<close>

fun port_arg :: "nat list \<Rightarrow> string" where
  "port_arg [] = []"
| "port_arg [i] = fmt_d i"
| "port_arg (i # j # is) = fmt_d i @ CHR '','' # port_arg (j # is)"

lemma strtok_port_arg: "is \<noteq> [] \<Longrightarrow> length is \<le> n \<Longrightarrow> strtok_loop n (port_arg is) '','' = map fmt_d is"
proof (induction "is" arbitrary: n rule: port_arg.induct)
  case (2 i)
  then obtain m where n: "n = Suc m" by (cases n) auto
  have "strtok_loop m [] '','' = []" by (cases m) (simp_all add: strtok_r_def)
  then show ?case using strtok_r_number(1)[of "[]" i] trim_number[of "[]" i] by (simp add: n)
next
  case (3 i j "is")
  then obtain m where n: "n = Suc m" "length (j # is) \<le> m" by (cases n) auto
  show ?case using strtok_r_number(2)[of "[]" i "port_arg (j # is)"] trim_number[of "[]" i] 3(1)[of m] n by simp
qed simp

lemma port_arg_chars:
  assumes "is \<noteq> []"
  shows "\<exists>c \<in> set (port_arg is). isdigit c" "NUL \<notin> set (port_arg is)" "port_arg is \<noteq> []" "port_arg is \<noteq> ''all''"
proof -
  obtain i js where "is": "is = i # js" using assms by (cases "is") auto
  obtain c r where f: "fmt_d i = c # r" using fmt_d_digits[of i] by (cases "fmt_d i") auto
  obtain t where t: "port_arg is = c # t" using f by (cases js) (simp_all add: "is")
  have "is_digit c" using fmt_d_is_digit[of c i] f by simp
  then show "\<exists>c \<in> set (port_arg is). isdigit c" using t by (auto simp: isdigit_def is_digit_def)
  show "port_arg is \<noteq> []" "port_arg is \<noteq> ''all''" using t \<open>is_digit c\<close> by (auto simp: is_digit_def digit_val_def)
  show "NUL \<notin> set (port_arg is)" by (induction "is" rule: port_arg.induct) (auto dest: fmt_d_plain)
qed

lemma portlist_port_arg:
  assumes "is \<noteq> []" and "\<forall>i \<in> set is. i < 64" and "length is \<le> 64"
  shows "portlist_parse (port_arg is) pl0 = (0, fold (\<lambda>i m. m OR push_bit i 1) is 0)"
  using assms(1) strtok_port_arg[OF assms(1,3)] portlist_entries_numbers[OF assms(2), of 0] port_arg_chars(3,4)[OF assms(1)]
  by (simp add: portlist_parse_def pg_strtok_def MAX_SPLIT_def)

lemma atoi_fmt_d: "n < 2 ^ 31 \<Longrightarrow> atoi (fmt_d n) = int n"
proof -
  assume n: "n < 2 ^ 31"
  have "list_all is_digit (fmt_d n)" using fmt_d_is_digit by (auto simp: list_all_iff)
  then have "strtol (fmt_d n) = (int n, [], False)" using strtol_digits[of "fmt_d n"] n by (simp add: digits_val_fmt_d)
  then show ?thesis using n by (simp add: atoi_def)
qed

lemma number_arg: "fmt_d n \<noteq> []" "NUL \<notin> set (fmt_d n)" "\<exists>c \<in> set (fmt_d n). isdigit c" "fmt_d n \<noteq> ''?''" "fmt_d n \<noteq> ''-?''"
proof -
  obtain c r where f: "fmt_d n = c # r" using fmt_d_digits[of n] by (cases "fmt_d n") auto
  have "is_digit c" using fmt_d_is_digit[of c n] f by simp
  then show "fmt_d n \<noteq> []" "\<exists>c \<in> set (fmt_d n). isdigit c" "fmt_d n \<noteq> ''?''" "fmt_d n \<noteq> ''-?''" using f by (auto simp: isdigit_def is_digit_def digit_val_def)
  show "NUL \<notin> set (fmt_d n)" by (auto dest: fmt_d_plain)
qed

definition set_numbers :: string where
  "set_numbers = ''set %P %|'' @ set_types @ '' %d''"

lemma set_numbers_toks: "strtok_loop CLI_MAX_ARGVS set_numbers '' '' = [''set'', ''%P'', ''%|'' @ set_types, ''%d'']"
  by code_simp

lemma set_mapping:
  assumes "is \<noteq> []" and "w \<in> set (strtok_loop STR_MAX_ARGVS (CHR ''|'' # set_types) ''|'')"
  shows "cli_mapping m set_map [''set'', port_arg is, w, fmt_d n] = Inr (Some (10, set_numbers))"
proof -
  let ?argv = "[''set'', port_arg is, w, fmt_d n]"
  have w: "w \<noteq> []" "NUL \<notin> set w"
  proof -
    have "list_all (\<lambda>w. w \<noteq> [] \<and> NUL \<notin> set w) (strtok_loop STR_MAX_ARGVS (CHR ''|'' # set_types) ''|'')" by code_simp
    then show "w \<noteq> []" "NUL \<notin> set w" using assms(2) by (auto simp: list_all_iff)
  qed
  have "entry_fits ?argv (10, set_numbers)"
    unfolding entry_fits_def Let_def snd_conv set_numbers_toks
    using port_arg_chars(1)[OF assms(1)] number_arg(3)[of n] assms(2) by (auto simp: tok_fits_def fmt_letters_def fmt_char_ok_def)
  then have "find (entry_fits ?argv) set_map = Some (10, set_numbers)" by (simp add: set_map_def set_numbers_def)
  moreover have "list_all (\<lambda>e. length (snd e) \<le> CLI_MAX_PATH_LENGTH) set_map" by code_simp
  moreover have "\<not> asks_help ?argv" using number_arg(4,5) by (simp add: asks_help_def)
  ultimately show ?thesis using cli_mapping_find[of ?argv set_map m] port_arg_chars(2,3)[OF assms(1)] number_arg(1,2)[of n] w
    by (simp add: list_all_iff)
qed

lemma set_count_run:
  assumes "is \<noteq> []" and "\<forall>i \<in> set is. i < 64" and "length is \<le> 64" and "n < 2 ^ 31"
    and "length (gn_ports G) \<le> 64" and "\<forall>p \<in> set is. p < length (gn_ports G) \<longrightarrow> port_view_ok p G"
  shows "set_cmd E [''set'', port_arg is, ''count'', fmt_d n] G =
    Inr (0, pktgen_update_display (info_ports (\<lambda>p. p \<in> set is) (\<lambda>i. i\<lparr>pi_transmit_count := of_nat n\<rparr>) G))"
proof -
  let ?argv = "[''set'', port_arg is, ''count'', fmt_d n]" and ?pl = "fold (\<lambda>i m. m OR push_bit i 1) is 0 :: u64"
  have m: "cli_mapping (ce_after E) set_map ?argv = Inr (Some (10, set_numbers))" by (rule set_mapping[OF assms(1)]) code_simp
  have s: "cli_map_list_search set_numbers ''count'' 2 = Inr 0" by code_simp
  have b: "bit ?pl p \<longleftrightarrow> p \<in> set is" if "p < length (gn_ports G)" for p using that assms(5) unfolding bit_fold_or by simp
  have "each ?pl (\<lambda>g. Inr (single_set_tx_count (int_arg (fmt_d n)) g)) G =
      Inr (info_ports (bit ?pl) (\<lambda>i. i\<lparr>pi_transmit_count := ucast (int_arg (fmt_d n) :: u32)\<rparr>) G)"
    using assms(5,6) b by (intro each_info) (auto simp: single_set_tx_count_def)
  moreover have "ucast (int_arg (fmt_d n) :: u32) = (of_nat n :: u64)"
    using assms(4) by (simp add: int_arg_def atoi_fmt_d unsigned_of_nat take_bit_nat_eq_self)
  moreover have "info_ports (bit ?pl) h G = info_ports (\<lambda>p. p \<in> set is) h G" for h using b by (auto simp: info_ports_def)
  ultimately show ?thesis using portlist_port_arg[OF assms(1-3), of "ce_ports E"]
    by (simp add: set_cmd_def find_form_def m set_form_def with_arg_def arg_at_def s set_one_def run_act_def each_def)
qed

section \<open>Forms that read the wrong argument\<close>

definition word_arg :: "string \<Rightarrow> bool" where
  "word_arg s \<longleftrightarrow> s \<noteq> [] \<and> NUL \<notin> set s \<and> (\<exists>c \<in> set s. isprint c) \<and> s \<noteq> ''?'' \<and> s \<noteq> ''-?''"

lemma word_number: "word_arg (fmt_d n)"
proof -
  obtain c where "c \<in> set (fmt_d n)" "isdigit c" using number_arg(3) by blast
  then have "\<exists>c \<in> set (fmt_d n). isprint c" using fmt_d_chars[of c n] by (force simp: isprint_def digit_char_def)
  then show ?thesis using number_arg[of n] by (simp add: word_arg_def)
qed

lemma with_arg_nth: "i < length argv \<Longrightarrow> with_arg argv i f = f (argv ! i)"
  by (simp add: with_arg_def arg_at_def fun_eq_iff)

lemma with_arg_none: "length argv \<le> i \<Longrightarrow> with_arg argv i f = (\<lambda>s. Inl Fault)"
  by (simp add: with_arg_def arg_at_def fun_eq_iff)

text \<open>The entries of a table that fit a line of which only some words are known.\<close>

definition may_fit :: "string option list \<Rightarrow> int \<times> string \<Rightarrow> bool" where
  "may_fit known e \<longleftrightarrow> list_all2 (\<lambda>k l. case l of None \<Rightarrow> True | Some a \<Rightarrow> tok_fits k a) (strtok_loop CLI_MAX_ARGVS (snd e) '' '') known"

lemma only_form:
  assumes "filter (may_fit known) tab = [e]" and "list_all2 (\<lambda>l a. \<forall>b. l = Some b \<longrightarrow> b = a) known argv" and "entry_fits argv e"
    and "argv \<noteq> []" and "\<not> asks_help argv" and "\<forall>a \<in> set argv. a \<noteq> [] \<and> NUL \<notin> set a"
    and "list_all (\<lambda>e. length (snd e) \<le> CLI_MAX_PATH_LENGTH) tab"
  shows "cli_mapping m tab argv = Inr (Some e)"
proof -
  have may: "may_fit known x" if "entry_fits argv x" for x
    using that assms(2) unfolding entry_fits_def may_fit_def Let_def list_all2_conv_all_nth by (auto split: option.split)
  have "find (entry_fits argv) tab = Some e"
    using assms(1,3) may
  proof (induction tab)
    case (Cons x xs)
    show ?case
    proof (cases "may_fit known x")
      case True
      then show ?thesis using Cons.prems(1,2) by simp
    next
      case False
      then show ?thesis using Cons.IH[OF _ Cons.prems(2) may] Cons.prems(1) may[of x] by auto
    qed
  qed simp
  then show ?thesis using cli_mapping_find[OF assms(4-6)] assms(7) by (simp add: list_all_iff)
qed

lemma word_fits: "word_arg s \<Longrightarrow> tok_fits ''%s'' s" "tok_fits ''%d'' (fmt_d n)" "is \<noteq> [] \<Longrightarrow> tok_fits ''%P'' (port_arg is)"
  using port_arg_chars(1)[of "is"] number_arg(3)[of n] by (auto simp: tok_fits_def fmt_letters_def fmt_char_ok_def word_arg_def)

lemma port_word: "is \<noteq> [] \<Longrightarrow> word_arg (port_arg is)"
proof -
  assume ne: "is \<noteq> []"
  obtain c where c: "c \<in> set (port_arg is)" "isdigit c" using port_arg_chars(1)[OF ne] by blast
  have "c \<notin> set ''-?''" using c(2) by (auto simp: isdigit_def digit_val_def)
  moreover have "isprint c" using c(2) by (auto simp: isdigit_def digit_val_def isprint_def Let_def split: if_splits)
  ultimately show ?thesis using c(1) port_arg_chars(2,3)[OF ne] by (auto simp: word_arg_def)
qed

lemma user_pattern_form:
  assumes "is \<noteq> []" and "word_arg s"
  shows "cli_mapping m set_map [''set'', port_arg is, ''user'', ''pattern'', s] = Inr (Some (25, ''set %P user pattern %s''))"
proof (rule only_form[where known = "[Some ''set'', None, Some ''user'', Some ''pattern'', None]"])
  have "strtok_loop CLI_MAX_ARGVS ''set %P user pattern %s'' '' '' = [''set'', ''%P'', ''user'', ''pattern'', ''%s'']" by code_simp
  then show "entry_fits [''set'', port_arg is, ''user'', ''pattern'', s] (25, ''set %P user pattern %s'')"
    using word_fits(1)[OF assms(2)] word_fits(3)[OF assms(1)] by (simp add: entry_fits_def) (simp add: tok_fits_def)
  show "filter (may_fit [Some ''set'', None, Some ''user'', Some ''pattern'', None]) set_map = [(25, ''set %P user pattern %s'')]" by code_simp
  show "list_all (\<lambda>e. length (snd e) \<le> CLI_MAX_PATH_LENGTH) set_map" by code_simp
qed (use assms(2) port_word[OF assms(1)] in \<open>auto simp: asks_help_def word_arg_def\<close>)

lemma rate_word_form:
  assumes "is \<noteq> []" and "(i, v, w) \<in> {(60, ''payload'', ''size''), (50, ''color'', ''bits'')}"
  shows "\<exists>f. cli_mapping m rate_map [''rate'', port_arg is, v, w, fmt_d n] = Inr (Some (i, f))"
proof -
  have "\<exists>f. filter (may_fit [Some ''rate'', None, Some v, Some w, None]) rate_map = [(i, f)] \<and>
      strtok_loop CLI_MAX_ARGVS f '' '' = [''rate'', ''%P'', v, w, ''%d'']"
  proof -
    have "filter (may_fit [Some ''rate'', None, Some ''payload'', Some ''size'', None]) rate_map = [(60, ''rate %P payload size %d'')]"
      "strtok_loop CLI_MAX_ARGVS ''rate %P payload size %d'' '' '' = [''rate'', ''%P'', ''payload'', ''size'', ''%d'']"
      "filter (may_fit [Some ''rate'', None, Some ''color'', Some ''bits'', None]) rate_map = [(50, ''rate %P color bits %d'')]"
      "strtok_loop CLI_MAX_ARGVS ''rate %P color bits %d'' '' '' = [''rate'', ''%P'', ''color'', ''bits'', ''%d'']"
      by code_simp+
    then show ?thesis using assms(2) by auto
  qed
  then obtain f where f: "filter (may_fit [Some ''rate'', None, Some v, Some w, None]) rate_map = [(i, f)]"
    "strtok_loop CLI_MAX_ARGVS f '' '' = [''rate'', ''%P'', v, w, ''%d'']" by blast
  have "entry_fits [''rate'', port_arg is, v, w, fmt_d n] (i, f)"
    using word_fits(2)[of n] word_fits(3)[OF assms(1)] assms(2) by (auto simp: entry_fits_def f(2)) (auto simp: tok_fits_def)
  moreover have "list_all (\<lambda>e. length (snd e) \<le> CLI_MAX_PATH_LENGTH) rate_map" by code_simp
  ultimately have "cli_mapping m rate_map [''rate'', port_arg is, v, w, fmt_d n] = Inr (Some (i, f))"
    using port_word[OF assms(1)] word_number[of n] assms(2)
    by (intro only_form[OF f(1)]) (auto simp: asks_help_def word_arg_def)
  then show ?thesis by blast
qed

lemma form_run:
  assumes "cli_mapping (ce_after E) tab argv = Inr (Some (i, f))" and "1 < length argv"
  shows "find_form E tab argv k = k i f (snd (portlist_parse (argv ! 1) (ce_ports E)))"
  using assms by (simp add: find_form_def with_arg_nth fun_eq_iff)


text \<open>A line too short for its form.\<close>

lemma each_fault:
  assumes "\<And>g. f g = Inl Fault" and "length (gn_ports G) \<le> 64" and "\<forall>p < length (gn_ports G). bit pl p \<longrightarrow> port_view_ok p G"
    and "p < length (gn_ports G)" and "bit pl p" and "sl_seq (gn_ports G ! p)"
  shows "each pl f G = Inl Fault"
proof -
  let ?step = "\<lambda>s p. rbind (chosen pl p (fst s)) (\<lambda>b. if b then (\<lambda>p (G, u :: unit). rbind (on_port f p G) (\<lambda>G. Inr (G, u))) p s else Inr s)"
  have "rfold ?step (G, ()) ps = Inl Fault" if "\<forall>p \<in> set ps. p < length (gn_ports G)" "\<exists>p \<in> set ps. bit pl p \<and> sl_seq (gn_ports G ! p)" for ps
    using that
  proof (induction ps)
    case (Cons q ps)
    have q: "q < length (gn_ports G)" using Cons.prems(1) by simp
    show ?case
    proof (cases "bit pl q \<and> sl_seq (gn_ports G ! q)")
      case True
      then obtain n where "get_port_txcnt (gn_l2p G) (unat (pi_pid (sl_info (gn_ports G ! q)))) = Inr n"
        using assms(3)[rule_format, OF q] by (auto simp: port_view_ok_def split: sum.splits)
      then have "on_port f q G = Inl Fault" by (simp add: on_port_def port_view_def assms(1))
      then show ?thesis using True q assms(2) by (simp add: chosen_def)
    next
      case False
      then have "\<exists>p \<in> set ps. bit pl p \<and> sl_seq (gn_ports G ! p)" using Cons.prems(2) by auto
      then show ?thesis using False q assms(2) Cons.IH Cons.prems(1) by (auto simp: chosen_def)
    qed
  qed simp
  moreover have "\<exists>p \<in> set [0..<length (gn_ports G)]. bit pl p \<and> sl_seq (gn_ports G ! p)" using assms(4-6) by auto
  ultimately show ?thesis by (simp only: each_def each_port_def foreach_port_def fst_conv) simp
qed

lemma gre_key_form:
  assumes "is \<noteq> []"
  shows "cli_mapping m range_map [''range'', port_arg is, ''gre_key'', fmt_d n] = Inr (Some (91, ''range %P gre_key %d''))"
proof (rule only_form[where known = "[Some ''range'', None, Some ''gre_key'', None]"])
  have "strtok_loop CLI_MAX_ARGVS ''range %P gre_key %d'' '' '' = [''range'', ''%P'', ''gre_key'', ''%d'']" by code_simp
  then show "entry_fits [''range'', port_arg is, ''gre_key'', fmt_d n] (91, ''range %P gre_key %d'')"
    using word_fits(2)[of n] word_fits(3)[OF assms(1)] by (simp add: entry_fits_def) (simp add: tok_fits_def)
  show "filter (may_fit [Some ''range'', None, Some ''gre_key'', None]) range_map = [(91, ''range %P gre_key %d'')]" by code_simp
  show "list_all (\<lambda>e. length (snd e) \<le> CLI_MAX_PATH_LENGTH) range_map" by code_simp
qed (use word_number port_word[OF assms(1)] in \<open>auto simp: asks_help_def word_arg_def\<close>)

lemma page_size_form:
  "cli_mapping m set_map [''set'', ''ports_per_page'', fmt_d n] = Inr (Some (40, ''set ports_per_page %d''))"
proof (rule only_form[where known = "[Some ''set'', Some ''ports_per_page'', None]"])
  have "strtok_loop CLI_MAX_ARGVS ''set ports_per_page %d'' '' '' = [''set'', ''ports_per_page'', ''%d'']" by code_simp
  then show "entry_fits [''set'', ''ports_per_page'', fmt_d n] (40, ''set ports_per_page %d'')"
    using word_fits(2)[of n] by (simp add: entry_fits_def) (simp add: tok_fits_def)
  show "filter (may_fit [Some ''set'', Some ''ports_per_page'', None]) set_map = [(40, ''set ports_per_page %d'')]" by code_simp
  show "list_all (\<lambda>e. length (snd e) \<le> CLI_MAX_PATH_LENGTH) set_map" by code_simp
qed (use word_number in \<open>auto simp: asks_help_def word_arg_def\<close>)

text \<open>
  The form \<open>range P gre_key n\<close>, accepted by the table, reads an argument that is not there as soon as it comes to a port, and
  \<open>set ports_per_page n\<close> does so always.
\<close>

theorem short_forms_fault:
  assumes "is \<noteq> []" and "\<forall>i \<in> set is. i < 64" and "length is \<le> 64" and "length (gn_ports G) \<le> 64"
    and "\<forall>p \<in> set is. p < length (gn_ports G) \<longrightarrow> port_view_ok p G"
    and "p \<in> set is" and "p < length (gn_ports G)" and "sl_seq (gn_ports G ! p)"
  shows "range_cmd E [''range'', port_arg is, ''gre_key'', fmt_d n] G = Inl Fault \<and> set_cmd E [''set'', ''ports_per_page'', fmt_d n] G = Inl Fault"
proof -
  let ?pl = "fold (\<lambda>i m. m OR push_bit i 1) is 0 :: u64"
  have b: "bit ?pl q \<longleftrightarrow> q \<in> set is" if "q < length (gn_ports G)" for q using that assms(4) unfolding bit_fold_or by simp
  have "each ?pl (\<lambda>g. Inl Fault) G = Inl Fault"
    using assms(4-8) b by (intro each_fault[of _ G ?pl p]) auto
  then have "range_cmd E [''range'', port_arg is, ''gre_key'', fmt_d n] G = Inl Fault"
    using portlist_port_arg[OF assms(1-3), of "ce_ports E"]
    by (simp add: range_cmd_def form_run[OF gre_key_form[OF assms(1)]] range_act_def with_arg_none run_act_def)
  then show ?thesis by (simp add: set_cmd_def form_run[OF page_size_form] set_form_def with_arg_none with_arg_nth)
qed

section \<open>An example\<close>

text \<open>Two ports, of which the second has no templates.\<close>

definition sample_slot :: port_slot where
  "sample_slot = \<lparr>sl_info = example_info, sl_seq = True, sl_rnd = \<lparr>active_specs = 0, specs = []\<rparr>,
     sl_dump = \<lparr>pd_list = [], pd_head = 0, pd_tail = 0, pd_count = 0\<rparr>, sl_rx_tapfd = 0, sl_tx_tapfd = 0\<rparr>"

definition sample_gen :: gen where
  "sample_gen = \<lparr>gn_ports = [sample_slot, sample_slot\<lparr>sl_seq := False, sl_info := example_info\<lparr>pi_pid := 1\<rparr>\<rparr>], gn_flags = 0, gn_ident = 0, gn_hz = 2000000000, gn_scale = \<lambda>q r. q,
     gn_l2p = sample_l2p\<lparr>l2p_ports := [(pobj_zero 0)\<lparr>tx_qid := 1\<rparr>, (pobj_zero 1)\<lparr>tx_qid := 1\<rparr>]\<rparr>, gn_blinklist = 0, gn_capture = [], gn_files = [], gn_paused = False\<rparr>"

definition sample_cmd_env :: cmd_env where
  "sample_cmd_env = \<lparr>ce_ports = 0, ce_ip = \<lparr>ia_family = AF_INET, ia_addr = replicate 16 0, ia_prefixlen = 0\<rparr>, ce_mac = replicate 6 0, ce_tmp = replicate 4 0,
     ce_after = [], ce_strtod = (\<lambda>_. 0), ce_timer_hz = 2000000000, ce_tap = (\<lambda>_ _. \<lparr>tc_open = 3, tc_setiff = 0, tc_setflags = 0\<rparr>),
     ce_socket = (\<lambda>_. 0), ce_slaves = (\<lambda>_. None)\<rparr>"

lemma sample_gen_view: "p < length (gn_ports sample_gen) \<Longrightarrow> port_view_ok p sample_gen"
proof -
  assume "p < length (gn_ports sample_gen)"
  then consider "p = 0" | "p = 1" by (force simp: sample_gen_def)
  then show ?thesis
    by cases (simp_all add: port_view_ok_def get_port_txcnt_def L2p.at_def sample_gen_def sample_slot_def example_info_def)
qed

lemma sample_set_count:
  "set_cmd sample_cmd_env [''set'', ''0,1'', ''count'', ''70000''] sample_gen = Inr (0, pktgen_update_display (sample_gen\<lparr>gn_ports :=
     [sample_slot\<lparr>sl_info := example_info\<lparr>pi_transmit_count := 70000\<rparr>\<rparr>, gn_ports sample_gen ! 1]\<rparr>))"
proof -
  have a: "port_arg [0, 1] = ''0,1''" "fmt_d 70000 = ''70000''" by (simp add: fmt_d.simps digit_char_def, code_simp)+
  have l: "length (gn_ports sample_gen) \<le> 64" by (simp add: sample_gen_def)
  have v: "\<forall>p \<in> set [0, 1]. p < length (gn_ports sample_gen) \<longrightarrow> port_view_ok p sample_gen" using sample_gen_view by blast
  have m: "([0, 1] :: nat list) \<noteq> []" "\<forall>i \<in> set [0, 1]. i < (64 :: nat)" "length [0 :: nat, 1] \<le> 64" "(70000 :: nat) < 2 ^ 31" by simp_all
  have u: "info_ports (\<lambda>p. p \<in> set [0, 1]) h sample_gen = sample_gen\<lparr>gn_ports := [sample_slot\<lparr>sl_info := h example_info\<rparr>, gn_ports sample_gen ! 1]\<rparr>" for h
    by (simp add: info_ports_def sample_gen_def sample_slot_def)
  have "(of_nat 70000 :: u64) = 70000" by simp
  then show ?thesis using set_count_run[OF m l v, of sample_cmd_env, unfolded a u] by (simp only:)
qed

text \<open>
  C17: the command \<open>set\<close> with a list of ports, the word count and a number writes the number into the count of each port that is in the
  list and has its templates, and into no other: the text of the list and of the number are read back as they were meant.
\<close>

theorem set_count_exact:
  assumes "is \<noteq> []" and "\<forall>i \<in> set is. i < 64" and "length is \<le> 64" and "n < 2 ^ 31"
    and "length (gn_ports G) \<le> 64" and "\<forall>p \<in> set is. p < length (gn_ports G) \<longrightarrow> port_view_ok p G"
  shows "set_cmd E [''set'', port_arg is, ''count'', fmt_d n] G =
    Inr (0, pktgen_update_display (info_ports (\<lambda>p. p \<in> set is) (\<lambda>i. i\<lparr>pi_transmit_count := of_nat n\<rparr>) G))"
  using assms by (rule set_count_run)

theorem set_count_exact_witness:
  "set_cmd sample_cmd_env [''set'', ''0,1'', ''count'', ''70000''] sample_gen =
    Inr (0, pktgen_update_display (sample_gen\<lparr>gn_ports := [sample_slot\<lparr>sl_info := example_info\<lparr>pi_transmit_count := 70000\<rparr>\<rparr>, gn_ports sample_gen ! 1]\<rparr>))"
proof -
  have a: "port_arg [0, 1] = ''0,1''" "fmt_d 70000 = ''70000''" by (simp add: fmt_d.simps digit_char_def, code_simp)+
  have l: "length (gn_ports sample_gen) \<le> 64" by (simp add: sample_gen_def)
  have v: "\<forall>p \<in> set [0, 1]. p < length (gn_ports sample_gen) \<longrightarrow> port_view_ok p sample_gen" using sample_gen_view by blast
  have m: "([0, 1] :: nat list) \<noteq> []" "\<forall>i \<in> set [0, 1]. i < (64 :: nat)" "length [0 :: nat, 1] \<le> 64" "(70000 :: nat) < 2 ^ 31" by simp_all
  have u: "info_ports (\<lambda>p. p \<in> set [0, 1]) h sample_gen = sample_gen\<lparr>gn_ports := [sample_slot\<lparr>sl_info := h example_info\<rparr>, gn_ports sample_gen ! 1]\<rparr>" for h
    by (simp add: info_ports_def sample_gen_def sample_slot_def)
  have "(of_nat 70000 :: u64) = 70000" by simp
  then show ?thesis using set_count_exact[OF m l v, of sample_cmd_env, unfolded a u] by (simp only:)
qed


theorem short_forms_fault_witness:
  "range_cmd sample_cmd_env [''range'', ''0'', ''gre_key'', ''5''] sample_gen = Inl Fault \<and> set_cmd sample_cmd_env [''set'', ''ports_per_page'', ''5''] sample_gen = Inl Fault"
proof -
  have a: "port_arg [0] = ''0''" "fmt_d 5 = ''5''" "sl_seq (gn_ports sample_gen ! 0)" by code_simp+
  have l: "length (gn_ports sample_gen) \<le> 64" "0 < length (gn_ports sample_gen)" by (simp_all add: sample_gen_def)
  show ?thesis using short_forms_fault[of "[0]" sample_gen 0 sample_cmd_env 5] a l sample_gen_view[of 0] by simp
qed

end
