(* ===== verification/CliInv.thy ===== *)
theory CliInv
  imports CliFuns
begin

text \<open>
  What the command functions keep: every line of arguments, whatever form it has, leaves each port in its invariant. The
  closure rules follow the structure of the command functions (arguments, the loop over the ports, the forms of a table).
\<close>

section \<open>What the commands keep\<close>

text \<open>The port invariant as a property of the port alone, and the invariant of the generator.\<close>

definition info_inv :: "port_info \<Rightarrow> bool" where
  "info_inv i \<longleftrightarrow> port_inv \<lparr>g_info = i, g_flags = 0, g_ident = 0, g_hz = 0, g_txcnt = 0, g_scale = \<lambda>q r. q\<rparr>"

definition gen_inv :: "gen \<Rightarrow> bool" where
  "gen_inv G \<longleftrightarrow> (\<forall>p n. get_port_txcnt (gn_l2p G) p = Inr n \<longrightarrow> unat n \<le> 8) \<and> (\<forall>s \<in> set (gn_ports G). info_inv (sl_info s))"

lemma port_inv_info: "port_inv g \<longleftrightarrow> info_inv (g_info g) \<and> g_txcnt g \<le> 8"
  by (auto simp: info_inv_def port_inv_def)

lemma info_ok_inv: "info_ok h \<Longrightarrow> info_inv i \<Longrightarrow> info_inv (h i)"
  by (auto simp: info_ok_def info_inv_def upd_info_def dest: spec[of _ "\<lparr>g_info = i, g_flags = 0, g_ident = 0, g_hz = 0, g_txcnt = 0, g_scale = \<lambda>q r. q\<rparr>"])

definition preserves :: "('s \<Rightarrow> bool) \<Rightarrow> ('s \<Rightarrow> 's res) \<Rightarrow> bool" where
  "preserves P f \<longleftrightarrow> (\<forall>s s'. P s \<longrightarrow> f s = Inr s' \<longrightarrow> P s')"

lemma preserves_res: "(\<And>s s'. f s = Inr s' \<Longrightarrow> P s \<Longrightarrow> P s') \<Longrightarrow> preserves P f"
  by (simp add: preserves_def)

lemma preserves_pure: "(\<And>s. P s \<Longrightarrow> P (f s)) \<Longrightarrow> preserves P (\<lambda>s. Inr (f s))"
  by (auto simp: preserves_def)

lemma preserves_with_arg: "(\<And>a. preserves P (f a)) \<Longrightarrow> preserves P (with_arg argv i f)"
  by (auto simp: preserves_def with_arg_def rbind_eq_Inr)

lemma preserves_rbind: "(\<And>x. r = Inr x \<Longrightarrow> preserves P (f x)) \<Longrightarrow> preserves P (\<lambda>s. rbind r (\<lambda>x. f x s))"
  by (auto simp: preserves_def rbind_eq_Inr)

lemma preserves_range_one: "(\<And>w a. preserves P (f w a)) \<Longrightarrow> preserves P (range_one argv k f)"
  unfolding range_one_def by (intro preserves_with_arg)

lemma preserves_rfold:
  assumes "\<And>x. preserves P (\<lambda>s. f s x)"
  shows "preserves P (\<lambda>s. rfold f s xs)"
proof -
  have "P s'" if "rfold f s xs = Inr s'" "P s" for s s'
    using that assms by (induction xs arbitrary: s) (auto simp: preserves_def rbind_eq_Inr)
  then show ?thesis by (auto simp: preserves_def)
qed

lemma preserves_range_four: "(\<And>w a. preserves P (f w a)) \<Longrightarrow> preserves P (range_four argv k f)"
proof -
  assume f: "\<And>w a. preserves P (f w a)"
  have "preserves P (\<lambda>s. (\<lambda>(w, i). with_arg argv i (f w) s) x)" for x using preserves_with_arg[of P, OF f] by (cases x) simp
  then have "preserves P (\<lambda>s. rfold (\<lambda>s (w, i). with_arg argv i (f w) s) s xs)" for xs by (rule preserves_rfold)
  then show ?thesis unfolding range_four_def .
qed

text \<open>An action on one port of the generator.\<close>

definition keeps_port :: "(nat \<Rightarrow> gen \<Rightarrow> gen res) \<Rightarrow> bool" where
  "keeps_port act \<longleftrightarrow> (\<forall>p G G'. act p G = Inr G' \<longrightarrow> gen_inv G \<longrightarrow> p < length (gn_ports G) \<longrightarrow>
     gen_inv G' \<and> length (gn_ports G') = length (gn_ports G))"

lemma upd_slot_inv:
  assumes "gen_inv G" and "p < length (gn_ports G)" and "info_inv (sl_info (gn_ports G ! p)) \<Longrightarrow> info_inv (sl_info (f (gn_ports G ! p)))"
  shows "gen_inv (upd_slot p f G)"
proof -
  let ?s = "f (gn_ports G ! p)"
  have "info_inv (sl_info ?s)" using assms by (simp add: gen_inv_def)
  then have "\<forall>s \<in> insert ?s (set (gn_ports G)). info_inv (sl_info s)" using assms(1) by (simp add: gen_inv_def)
  then have "\<forall>s \<in> set ((gn_ports G)[p := ?s]). info_inv (sl_info s)" using set_update_subset_insert[of "gn_ports G" p ?s] by blast
  then show ?thesis using assms(1) by (simp add: gen_inv_def upd_slot_def)
qed

lemma upd_slot_length [simp]: "length (gn_ports (upd_slot p f G)) = length (gn_ports G)" "gn_l2p (upd_slot p f G) = gn_l2p G"
  by (simp_all add: upd_slot_def)

lemma gen_inv_other [simp]:
  "gen_inv (G\<lparr>gn_flags := fl\<rparr>) = gen_inv G" "gen_inv (G\<lparr>gn_ident := k\<rparr>) = gen_inv G" "gen_inv (G\<lparr>gn_blinklist := b\<rparr>) = gen_inv G"
  "gen_inv (G\<lparr>gn_capture := c\<rparr>) = gen_inv G" "gen_inv (G\<lparr>gn_files := f\<rparr>) = gen_inv G" "gen_inv (G\<lparr>gn_paused := u\<rparr>) = gen_inv G"
  by (simp_all add: gen_inv_def)

lemma on_port_keeps: "preserves port_inv f \<Longrightarrow> keeps_port (on_port f)"
proof -
  assume f: "preserves port_inv f"
  have "gen_inv G' \<and> length (gn_ports G') = length (gn_ports G)" if G: "gen_inv G" "p < length (gn_ports G)" and r: "on_port f p G = Inr G'" for p G G'
  proof -
    obtain g g' where g: "port_view p G = Inr g" "f g = Inr g'" "G' = port_store p g' G" using r unfolding on_port_def rbind_eq_Inr by auto
    obtain n where n: "get_port_txcnt (gn_l2p G) (unat (pi_pid (sl_info (gn_ports G ! p)))) = Inr n" "g_info g = sl_info (gn_ports G ! p)" "g_txcnt g = unat n"
      using g(1) unfolding port_view_def rbind_eq_Inr by auto
    have "unat n \<le> 8" "info_inv (sl_info (gn_ports G ! p))" using G n(1) unfolding gen_inv_def by (blast, simp)
    then have "port_inv g" unfolding port_inv_info n(2,3) by blast
    then have "port_inv g'" using f g(2) unfolding preserves_def by blast
    then have "info_inv (g_info g')" unfolding port_inv_info by blast
    then show ?thesis using G upd_slot_inv[OF G, of "\<lambda>s. s\<lparr>sl_info := g_info g'\<rparr>"] by (simp add: g(3) port_store_def)
  qed
  then show ?thesis unfolding keeps_port_def by blast
qed

text \<open>The loop over the ports, with variables of the function around it.\<close>

lemma foreach_port_keeps:
  assumes "\<And>p s s'. act p s = Inr s' \<Longrightarrow> gen_inv (fst s) \<Longrightarrow> p < length (gn_ports (fst s)) \<Longrightarrow> gen_inv (fst s') \<and> length (gn_ports (fst s')) = length (gn_ports (fst s))"
    and "foreach_port pl act s = Inr s'" and "gen_inv (fst s)"
  shows "gen_inv (fst s')"
proof -
  have "gen_inv (fst s')" if "rfold (\<lambda>s p. rbind (chosen pl p (fst s)) (\<lambda>b. if b then act p s else Inr s)) s ps = Inr s'" "gen_inv (fst s)"
      "\<forall>p \<in> set ps. p < length (gn_ports (fst s))" for s s' ps
    using that
  proof (induction ps arbitrary: s)
    case (Cons p ps)
    obtain b s1 where s1: "chosen pl p (fst s) = Inr b" "(if b then act p s else Inr s) = Inr s1"
        "rfold (\<lambda>s p. rbind (chosen pl p (fst s)) (\<lambda>b. if b then act p s else Inr s)) s1 ps = Inr s'"
      using Cons.prems(1) by (auto simp: rbind_eq_Inr)
    have "gen_inv (fst s1) \<and> length (gn_ports (fst s1)) = length (gn_ports (fst s))"
      using assms(1)[of p s s1] s1(2) Cons.prems(2,3) by (cases b) auto
    then show ?case using Cons.IH[OF s1(3)] Cons.prems(3) by simp
  qed simp
  then show ?thesis using assms(2,3) by (auto simp: foreach_port_def)
qed

lemma each_port_keeps:
  assumes "keeps_port act"
  shows "preserves gen_inv (each_port pl act)"
  unfolding preserves_def
proof (intro allI impI)
  fix G G'
  assume G: "gen_inv G" "each_port pl act G = Inr G'"
  let ?act = "\<lambda>p (G, u :: unit). rbind (act p G) (\<lambda>G. Inr (G, u))"
  obtain r where r: "foreach_port pl ?act (G, ()) = Inr r" "G' = fst r" using G(2) unfolding each_port_def rbind_eq_Inr by auto
  have "gen_inv (fst r)"
  proof (rule foreach_port_keeps[OF _ r(1)])
    fix p s s'
    assume a: "?act p s = Inr s'" "gen_inv (fst s)" "p < length (gn_ports (fst s))"
    obtain H u where s: "s = (H, u)" by (cases s)
    obtain H' where "act p H = Inr H'" "s' = (H', u)" using a(1) unfolding s prod.case rbind_eq_Inr by auto
    then show "gen_inv (fst s') \<and> length (gn_ports (fst s')) = length (gn_ports (fst s))" using assms a(2,3) s unfolding keeps_port_def by force
  qed (simp add: G(1))
  then show "gen_inv G'" using r(2) by simp
qed

lemma each_keeps: "preserves port_inv f \<Longrightarrow> preserves gen_inv (each pl f)"
  unfolding each_def by (intro each_port_keeps on_port_keeps)

lemma on_port_other: "on_port f p G = Inr G' \<Longrightarrow> length (gn_ports G') = length (gn_ports G)"
  by (auto simp: on_port_def port_store_def rbind_eq_Inr)

lemma pure_inv:
  "preserves port_inv (\<lambda>g. Inr (range_set_dst_port w v16 g))" "preserves port_inv (\<lambda>g. Inr (range_set_src_port w v16 g))"
  "preserves port_inv (\<lambda>g. Inr (range_set_ttl w v8 g))" "preserves port_inv (\<lambda>g. Inr (range_set_vlan_id w v16 g))"
  "preserves port_inv (\<lambda>g. Inr (range_set_cos_id w v8 g))" "preserves port_inv (\<lambda>g. Inr (range_set_tos_id w v8 g))"
  "preserves port_inv (set_size_range w a)" "preserves port_inv (set_teid_range w a)"
  "preserves port_inv (\<lambda>g. Inr (range_set_src_ip w v32 g))" "preserves port_inv (\<lambda>g. Inr (range_set_dst_ip w v32 g))"
  "preserves port_inv (\<lambda>g. Inr (single_set_tx_count v32 g))" "preserves port_inv (\<lambda>g. Inr (debug_set_tx_cycles v32 g))"
  "preserves port_inv (\<lambda>g. Inr (pktgen_set_port_prime v32 g))" "preserves port_inv (\<lambda>g. Inr (pktgen_set_port_seqCnt v32 g))"
  "preserves port_inv (\<lambda>g. Inr (enable_random on g))" "preserves port_inv (\<lambda>g. Inr (single_set_jitter hz v64 g))"
  "preserves port_inv (\<lambda>g. Inr (pattern_set_type a g))" "preserves port_inv (\<lambda>g. Inr (rate_set_tx_count v32 g))"
  "preserves port_inv (\<lambda>g. Inr (rate_set_value w v32 g))" "preserves port_inv (\<lambda>g. Inr (pktgen_send_arp_requests v32 g))"
  "preserves port_inv (\<lambda>g. Inr (enable_process on g))" "preserves port_inv (\<lambda>g. Inr (enable_garp on g))"
  "preserves port_inv (\<lambda>g. Inr (enable_pcap on g))" "preserves port_inv (\<lambda>g. Inr (enable_icmp_echo on g))"
  unfolding set_size_range_def set_teid_range_def by (rule preserves_pure, erule inv_op)+

lemma aton_bytes_length: "length (snd (aton_bytes n ov e)) = length e"
  by (induction n ov e rule: aton_bytes.induct) simp_all

lemma aton_words_length: "length (snd (aton_words n ov e)) = length e"
  by (induction n ov e rule: aton_words.induct) simp_all

lemma ether_aton_length: "length (snd (pg_ether_aton a e)) = length e"
  by (simp add: pg_ether_aton_def aton_bytes_length aton_words_length split: option.split)

lemma mac_arg_length: "mac_arg a = Inr m \<Longrightarrow> length m = 6"
  using ether_aton_length[of a "replicate 6 0"] by (auto simp: mac_arg_def split: prod.splits if_splits)

lemma mac_inv:
  "preserves port_inv (set_mac_range range_set_dest_mac w a)" "preserves port_inv (set_mac_range range_set_src_mac w a)"
  "preserves port_inv (\<lambda>g. rbind (mac_arg a) (\<lambda>m. single_set_src_mac m g))" "preserves port_inv (\<lambda>g. rbind (mac_arg a) (\<lambda>m. single_set_dst_mac m g))"
  "preserves port_inv (\<lambda>g. rbind (mac_arg a) (\<lambda>m. rate_set_src_mac m g))" "preserves port_inv (\<lambda>g. rbind (mac_arg a) (\<lambda>m. rate_set_dst_mac m g))"
  unfolding set_mac_range_def
  by (rule preserves_rbind, rule preserves_res, (auto dest!: mac_arg_length intro: inv_op)[1])+

lemma res_inv:
  "preserves port_inv (range_set_proto a)" "preserves port_inv (range_set_mpls_entry v32)" "preserves port_inv (range_set_qinqids v16 w16)"
  "preserves port_inv (range_set_gre_key v32)" "preserves port_inv (single_set_pkt_size v16)" "preserves port_inv (single_set_tx_rate r)"
  "preserves port_inv (single_set_tx_burst v32)" "preserves port_inv (single_set_vlan_id v16)" "preserves port_inv (single_set_ttl_value v8)"
  "preserves port_inv (single_set_pkt_type a)" "preserves port_inv (single_set_proto a)" "preserves port_inv (pattern_set_user_pattern a)"
  "preserves port_inv (single_set_ipaddr c v32 n)" "preserves port_inv (single_set_qinqids v16 w16)" "preserves port_inv (single_set_cos v8)"
  "preserves port_inv (single_set_tos v8)" "preserves port_inv (single_set_vxlan v16 w16 v32)" "preserves port_inv pktgen_start_transmitting"
  "preserves port_inv pktgen_stop_transmitting" "preserves port_inv pktgen_prime_ports" "preserves port_inv (enable_mpls on)" "preserves port_inv (enable_qinq on)"
  "preserves port_inv (enable_gre on)" "preserves port_inv (enable_gre_eth on)" "preserves port_inv (enable_vlan on)" "preserves port_inv (enable_latency on)"
  "preserves port_inv (enable_range on)" "preserves port_inv (enable_vxlan on)" "preserves port_inv (enable_rate on)" "preserves port_inv (rate_set_pkt_size v16)"
  "preserves port_inv (rate_set_tx_burst v32)" "preserves port_inv (rate_set_ttl_value v8)" "preserves port_inv (rate_set_pkt_type a)" "preserves port_inv (rate_set_proto a)"
  "preserves port_inv (rate_set_ipaddr c v32 n)"
  "preserves port_inv (\<lambda>g. rbind (c_str_at w 0) (\<lambda>c. single_set_port_value c v32 g))" "preserves port_inv (\<lambda>g. rbind (c_str_at w 0) (\<lambda>c. rate_set_port_value c v32 g))"
  by ((rule preserves_rbind)?, rule preserves_res, erule inv_op, assumption)+

lemma set_ip_keeps:
  assumes "\<And>w v g. port_inv g \<Longrightarrow> port_inv (f w v g)"
  shows "preserves gen_inv (set_ip_once E argv pl f)" "preserves gen_inv (set_ip_four E argv pl f)"
proof -
  have k: "preserves port_inv (\<lambda>g. Inr (f w v g))" for w v using assms by (intro preserves_pure)
  show "preserves gen_inv (set_ip_once E argv pl f)"
    unfolding set_ip_once_def by (intro preserves_with_arg preserves_rbind each_keeps k)
  show "preserves gen_inv (set_ip_four E argv pl f)"
    unfolding preserves_def
  proof (intro allI impI)
    fix G G'
    assume G: "gen_inv G" "set_ip_four E argv pl f G = Inr G'"
    let ?one = "\<lambda>p w a (G, ip). rbind (read_ip E PG_IPADDR_V4 a ip) (\<lambda>ip. rbind (on_port (\<lambda>g. Inr (f w (ip_host ip) g)) p G) (\<lambda>G. Inr (G, ip)))"
    obtain r where r: "foreach_port pl (\<lambda>p. range_four argv 4 (?one p)) (G, ce_ip E) = Inr r" "G' = fst r"
      using G(2) unfolding set_ip_four_def rbind_eq_Inr by auto
    have "preserves (\<lambda>s. gen_inv (fst s) \<and> p < length (gn_ports (fst s)) \<and> length (gn_ports (fst s)) = n) (?one p w a)" for p n w a
      unfolding preserves_def
    proof (intro allI impI)
      fix s s'
      assume s: "gen_inv (fst s) \<and> p < length (gn_ports (fst s)) \<and> length (gn_ports (fst s)) = n" "?one p w a s = Inr s'"
      obtain H ip where h: "s = (H, ip)" by (cases s)
      obtain ip' H' where "on_port (\<lambda>g. Inr (f w (ip_host ip') g)) p H = Inr H'" "s' = (H', ip')"
        using s(2) unfolding h prod.case rbind_eq_Inr by auto
      then show "gen_inv (fst s') \<and> p < length (gn_ports (fst s')) \<and> length (gn_ports (fst s')) = n"
        using s(1) h on_port_keeps[OF k] on_port_other unfolding keeps_port_def by fastforce
    qed
    from preserves_range_four[OF this] have four: "preserves (\<lambda>s. gen_inv (fst s) \<and> p < length (gn_ports (fst s)) \<and> length (gn_ports (fst s)) = n) (range_four argv 4 (?one p))" for p n .
    have "gen_inv (fst r)"
    proof (rule foreach_port_keeps[OF _ r(1)])
      fix p s s'
      assume "range_four argv 4 (?one p) s = Inr s'" "gen_inv (fst s)" "p < length (gn_ports (fst s))"
      then show "gen_inv (fst s') \<and> length (gn_ports (fst s')) = length (gn_ports (fst s))"
        using four[of p "length (gn_ports (fst s))"] unfolding preserves_def by blast
    qed (simp add: G(1))
    then show "gen_inv G'" using r(2) by simp
  qed
qed

lemma range_act_keeps: "range_act E argv index pl = Some a \<Longrightarrow> preserves gen_inv a"
  unfolding range_act_def
  by (auto split: if_splits intro!: each_keeps preserves_range_one preserves_range_four preserves_with_arg mac_inv pure_inv res_inv set_ip_keeps inv_op)

lemma keeps_port_slot:
  assumes "\<And>s. info_inv (sl_info s) \<Longrightarrow> info_inv (sl_info (f p G s))" and "gen_inv G" and "p < length (gn_ports G)"
  shows "gen_inv (upd_slot p (f p G) G)"
  using upd_slot_inv[OF assms(2,3), of "f p G"] assms(1) by blast

lemma keeps_portI:
  "(\<And>p G G'. act p G = Inr G' \<Longrightarrow> gen_inv G \<Longrightarrow> p < length (gn_ports G) \<Longrightarrow> gen_inv G' \<and> length (gn_ports G') = length (gn_ports G)) \<Longrightarrow> keeps_port act"
  unfolding keeps_port_def by blast

lemma set_dump_keeps: "keeps_port (set_dump cnt)"
proof (rule keeps_portI)
  fix p G G'
  assume a: "set_dump cnt p G = Inr G'" "gen_inv G" "p < length (gn_ports G)"
  obtain d where "G' = upd_slot p (\<lambda>s. s\<lparr>sl_dump := d\<rparr>) G" using a(1) unfolding set_dump_def rbind_eq_Inr by auto
  then show "gen_inv G' \<and> length (gn_ports G') = length (gn_ports G)" using upd_slot_inv[OF a(2,3), of "\<lambda>s. s\<lparr>sl_dump := d\<rparr>"] by simp
qed

lemma set_rnd_keeps: "keeps_port (set_rnd id1 id2 m)"
proof (rule keeps_portI)
  fix p G G'
  assume a: "set_rnd id1 id2 m p G = Inr G'" "gen_inv G" "p < length (gn_ports G)"
  obtain rb on where r: "on_port (\<lambda>g. Inr (enable_random on g)) p (upd_slot p (\<lambda>s. s\<lparr>sl_rnd := rb\<rparr>) G) = Inr G'"
    using a(1) unfolding set_rnd_def Let_def by blast
  have "gen_inv (upd_slot p (\<lambda>s. s\<lparr>sl_rnd := rb\<rparr>) G)" using upd_slot_inv[OF a(2,3), of "\<lambda>s. s\<lparr>sl_rnd := rb\<rparr>"] by simp
  then show "gen_inv G' \<and> length (gn_ports G') = length (gn_ports G)"
    using on_port_keeps[OF pure_inv(15)] r a(3) unfolding keeps_port_def by fastforce
qed

lemma flag_no_mode:
  "\<forall>a \<in> set mode_bits. \<not> bit PROCESS_RX_TAP_PKTS a" "\<forall>a \<in> set mode_bits. \<not> bit PROCESS_TX_TAP_PKTS a"
  "\<forall>a \<in> set mode_bits. \<not> bit BONDING_TX_PACKETS a" "\<forall>a \<in> set mode_bits. \<not> bit CAPTURE_PKTS a"
  by (simp_all add: mode_bits_def PROCESS_RX_TAP_PKTS_def PROCESS_TX_TAP_PKTS_def BONDING_TX_PACKETS_def CAPTURE_PKTS_def bit_simps)

lemma flags_inv:
  "\<forall>a \<in> set mode_bits. \<not> bit fl a \<Longrightarrow> info_inv i \<Longrightarrow> info_inv (pktgen_set_port_flags fl i)"
  "info_inv i \<Longrightarrow> info_inv (pktgen_clr_port_flags fl i)"
  using info_ok_inv[OF set_flags_ok] info_ok_inv[OF clr_flags_ok] by blast+

lemma tap_inv: "\<forall>a \<in> set mode_bits. \<not> bit fl a \<Longrightarrow> info_inv i \<Longrightarrow> info_inv (snd (enable_tap fl c on (fd, i)))"
  by (simp add: enable_tap_def flags_inv)

lemma enable_tap_keeps: "keeps_port (enable_rx_tap E on)" "keeps_port (enable_tx_tap E on)"
proof -
  have k: "gen_inv (upd_slot p f G)"
    if "\<And>s. sl_info (f s) = snd (enable_tap fl c on (fd s, sl_info s))" "\<forall>a \<in> set mode_bits. \<not> bit fl a" "gen_inv G" "p < length (gn_ports G)"
    for f fl c fd p G
    by (rule upd_slot_inv[OF that(3,4)]) (simp only: that(1) tap_inv[OF that(2)])
  show "keeps_port (enable_rx_tap E on)"
  proof (rule keeps_portI)
    fix p G G'
    assume a: "enable_rx_tap E on p G = Inr G'" "gen_inv G" "p < length (gn_ports G)"
    have "gen_inv G'" using a(1) unfolding enable_rx_tap_def sum.inject
      by (elim subst) (rule k[OF _ flag_no_mode(1) a(2,3), where fd = sl_rx_tapfd and c = "ce_tap E True p"], simp split: prod.split)
    then show "gen_inv G' \<and> length (gn_ports G') = length (gn_ports G)" using a(1) by (auto simp: enable_rx_tap_def)
  qed
  show "keeps_port (enable_tx_tap E on)"
  proof (rule keeps_portI)
    fix p G G'
    assume a: "enable_tx_tap E on p G = Inr G'" "gen_inv G" "p < length (gn_ports G)"
    have "gen_inv G'" using a(1) unfolding enable_tx_tap_def sum.inject
      by (elim subst) (rule k[OF _ flag_no_mode(2) a(2,3), where fd = sl_tx_tapfd and c = "ce_tap E False p"], simp split: prod.split)
    then show "gen_inv G' \<and> length (gn_ports G') = length (gn_ports G)" using a(1) by (auto simp: enable_tx_tap_def)
  qed
qed

lemma set_capture_info:
  assumes "pktgen_set_capture l sk on (i, caps) = Inr (f, i', caps')" and "info_inv i"
  shows "info_inv i'"
proof -
  define Q :: "(cap_rec list option \<times> port_info \<times> capture list) res \<Rightarrow> bool"
    where "Q r \<longleftrightarrow> (\<forall>x. r = Inr x \<longrightarrow> info_inv (fst (snd x)))" for r
  have inr: "Q (Inr (a, j, b)) = info_inv j" for a j b by (simp add: Q_def)
  have bind: "Q (rbind r k)" if "\<And>x. Q (k x)" for r and k :: "'x \<Rightarrow> _" using that by (auto simp: Q_def rbind_eq_Inr)
  have cond: "Q (if b then r else r')" if "Q r" "Q r'" for b r r' using that by simp
  have opt: "Q (case z of None \<Rightarrow> r | Some y \<Rightarrow> k y)" if "Q r" "\<And>y. Q (k y)" for z :: "'y option" and r k
    using that by (simp split: option.split)
  note fl = flags_inv(1)[OF flag_no_mode(4) assms(2)] flags_inv(2)[OF assms(2)]
  have "Q (pktgen_set_capture l sk on (i, caps))"
    unfolding pktgen_set_capture_def Let_def prod.case
    by (intro cond bind opt; simp only: inr assms(2) fl)
  then show ?thesis using assms(1) by (simp add: Q_def)
qed

lemma enable_capture_keeps: "keeps_port (enable_capture E on)"
proof (rule keeps_portI)
  fix p G G'
  assume a: "enable_capture E on p G = Inr G'" "gen_inv G" "p < length (gn_ports G)"
  obtain f i caps where r: "pktgen_set_capture (gn_l2p G) (ce_socket E) on (sl_info (gn_ports G ! p), gn_capture G) = Inr (f, i, caps)"
    "G' = (upd_slot p (\<lambda>s. s\<lparr>sl_info := i\<rparr>) G)\<lparr>gn_capture := caps, gn_files := gn_files G @ (case f of None \<Rightarrow> [] | Some rs \<Rightarrow> [rs])\<rparr>"
    using a(1) unfolding enable_capture_def rbind_eq_Inr by auto
  show "gen_inv G' \<and> length (gn_ports G') = length (gn_ports G)"
    using upd_slot_inv[OF a(2,3), of "\<lambda>s. s\<lparr>sl_info := i\<rparr>"] set_capture_info[OF r(1)] by (simp add: r(2))
qed

lemma enable_bonding_keeps: "keeps_port (enable_bonding E on)"
proof (rule keeps_portI)
  fix p G G'
  assume a: "enable_bonding E on p G = Inr G'" "gen_inv G" "p < length (gn_ports G)"
  have i: "info_inv (((if on then pktgen_set_port_flags BONDING_TX_PACKETS else pktgen_clr_port_flags BONDING_TX_PACKETS) ^^ n) i)" if "info_inv i" for n i
    using that flags_inv flag_no_mode(3) by (induction n) auto
  show "gen_inv G' \<and> length (gn_ports G') = length (gn_ports G)"
  proof (cases "ce_slaves E p")
    case None
    then show ?thesis using a by (simp add: enable_bonding_def)
  next
    case (Some n)
    then have "G' = upd_slot p (\<lambda>s. s\<lparr>sl_info := ((if on then pktgen_set_port_flags BONDING_TX_PACKETS else pktgen_clr_port_flags BONDING_TX_PACKETS) ^^ n) (sl_info s)\<rparr>) G"
      using a(1) by (simp add: enable_bonding_def)
    then show ?thesis using upd_slot_inv[OF a(2,3)] i by auto
  qed
qed

lemma debug_blink_keeps: "keeps_port (debug_blink on)"
  by (rule keeps_portI) (auto simp: debug_blink_def Let_def)

lemma blink_keeps: "preserves gen_inv (\<lambda>G. rbind (each_port pl (debug_blink on) G) (\<lambda>G. Inr (blink_flag G)))"
  using each_port_keeps[OF debug_blink_keeps] unfolding preserves_def rbind_eq_Inr blink_flag_def by fastforce

lemmas port_keeps = set_dump_keeps set_rnd_keeps enable_tap_keeps enable_capture_keeps enable_bonding_keeps

lemmas act_rules = each_keeps each_port_keeps on_port_keeps preserves_range_one preserves_range_four preserves_with_arg preserves_rbind
  mac_inv pure_inv res_inv port_keeps blink_keeps

lemma set_one_keeps: "set_one E what a n = Some act \<Longrightarrow> keeps_port act"
  unfolding set_one_def by (auto split: if_splits intro!: act_rules)

lemma set_act_keeps: "set_act E argv index pl = Some a \<Longrightarrow> preserves gen_inv a"
  unfolding set_act_def by (auto split: if_splits intro!: act_rules)

lemma start_act_keeps: "start_act argv index pl = Some a \<Longrightarrow> preserves gen_inv a"
  unfolding start_act_def by (auto split: if_splits intro!: act_rules)

lemma enable_act_keeps: "enable_act E n on pl = Some a \<Longrightarrow> preserves gen_inv a"
  unfolding enable_act_def by (auto split: if_splits intro!: act_rules)

lemma rate_one_keeps: "rate_one what a n = Some f \<Longrightarrow> preserves port_inv f"
  unfolding rate_one_def by (auto split: if_splits intro!: act_rules)

lemma rate_act_keeps: "rate_act E argv index pl = Some a \<Longrightarrow> preserves gen_inv a"
  unfolding rate_act_def Let_def by (auto split: if_splits intro!: act_rules)

text \<open>Commands, which also return a number.\<close>

definition cmd_keeps :: "(gen \<Rightarrow> (int \<times> gen) res) \<Rightarrow> bool" where
  "cmd_keeps f \<longleftrightarrow> (\<forall>G r G'. gen_inv G \<longrightarrow> f G = Inr (r, G') \<longrightarrow> gen_inv G')"

lemma cmd_keeps_res: "cmd_keeps (\<lambda>G. Inr (n, G))"
  by (simp add: cmd_keeps_def)

lemma cmd_keeps_then: "preserves gen_inv f \<Longrightarrow> cmd_keeps (\<lambda>G. rbind (f G) (\<lambda>G. Inr (n, G)))"
  by (auto simp: cmd_keeps_def preserves_def rbind_eq_Inr)

lemma cmd_keeps_with_arg: "(\<And>a. cmd_keeps (f a)) \<Longrightarrow> cmd_keeps (with_arg argv i f)"
  by (auto simp: cmd_keeps_def with_arg_def rbind_eq_Inr)

lemma cmd_keeps_rbind: "(\<And>x. cmd_keeps (f x)) \<Longrightarrow> cmd_keeps (\<lambda>G. rbind r (\<lambda>x. f x G))"
  by (auto simp: cmd_keeps_def rbind_eq_Inr)

lemma cmd_keeps_test: "(\<And>x. cmd_keeps (f x)) \<Longrightarrow> cmd_keeps (\<lambda>G. rbind (r G) (\<lambda>x. f x G))"
  by (auto simp: cmd_keeps_def rbind_eq_Inr)

lemma cmd_keeps_if: "cmd_keeps f \<Longrightarrow> cmd_keeps h \<Longrightarrow> cmd_keeps (\<lambda>G. if b then f G else h G)"
  by (cases b) simp_all

lemma cmd_keeps_option:
  "cmd_keeps f \<Longrightarrow> (\<And>x. z = Some x \<Longrightarrow> cmd_keeps (h x)) \<Longrightarrow> cmd_keeps (\<lambda>G. case z of None \<Rightarrow> f G | Some x \<Rightarrow> h x G)"
  by (cases z) simp_all

lemma gen_inv_display [simp]: "gen_inv (pktgen_update_display G) = gen_inv G"
  by (simp add: pktgen_update_display_def)

lemma run_act_keeps: "(\<And>a. act = Some a \<Longrightarrow> preserves gen_inv a) \<Longrightarrow> cmd_keeps (run_act act)"
  by (cases act) (auto simp: run_act_def cmd_keeps_def preserves_def rbind_eq_Inr)

lemma find_form_keeps:
  assumes "\<And>index fmt pl. cmd_keeps (k index fmt pl)"
  shows "cmd_keeps (find_form E tab argv k)"
proof -
  have "cmd_keeps (\<lambda>G. case m of None \<Rightarrow> Inr (- 1, G)
    | Some (index, fmt) \<Rightarrow> with_arg argv 1 (\<lambda>a. k index fmt (snd (portlist_parse a (ce_ports E)))) G)" for m
    using cmd_keeps_res cmd_keeps_with_arg[OF assms] by (cases m) auto
  from cmd_keeps_rbind[OF this] show ?thesis unfolding find_form_def .
qed

lemmas cmd_rules = cmd_keeps_if cmd_keeps_res cmd_keeps_with_arg cmd_keeps_option cmd_keeps_rbind cmd_keeps_test run_act_keeps find_form_keeps

lemma some_keeps: "preserves gen_inv a \<Longrightarrow> Some a = Some b \<Longrightarrow> preserves gen_inv b"
  by simp

lemma range_cmd_keeps: "cmd_keeps (range_cmd E argv)"
  unfolding range_cmd_def by (intro cmd_rules range_act_keeps)

lemma start_stop_cmd_keeps: "cmd_keeps (start_stop_cmd E argv)"
  unfolding start_stop_cmd_def by (intro cmd_rules start_act_keeps)

lemma inr_keeps: "preserves gen_inv Inr"
  by (simp add: preserves_def)

lemma set_form_keeps: "cmd_keeps (set_form E argv index fmt pl)"
  unfolding set_form_def
  by (intro cmd_keeps_with_arg cmd_keeps_if cmd_keeps_rbind cmd_keeps_option cmd_keeps_test cmd_keeps_res run_act_keeps;
      (erule set_act_keeps | erule some_keeps[OF inr_keeps, rotated] | erule some_keeps[OF each_port_keeps[OF set_one_keeps], rotated]); assumption?)

lemma set_cmd_keeps: "cmd_keeps (set_cmd E argv)"
  unfolding set_cmd_def by (intro find_form_keeps set_form_keeps)

lemma rate_form_keeps: "cmd_keeps (rate_form E argv index fmt pl)"
  unfolding rate_form_def
  by (intro cmd_keeps_with_arg cmd_keeps_if cmd_keeps_rbind cmd_keeps_option cmd_keeps_test cmd_keeps_res run_act_keeps;
      (erule rate_act_keeps | erule some_keeps[OF inr_keeps, rotated] | erule some_keeps[OF each_keeps[OF rate_one_keeps], rotated]); assumption?)

lemma rate_cmd_keeps: "cmd_keeps (rate_cmd E argv)"
  unfolding rate_cmd_def by (intro find_form_keeps rate_form_keeps)

lemma flag_keeps: "preserves gen_inv (\<lambda>G. Inr (if c then enable_mac_from_arp on G else pktgen_screen on G))"
  by (simp add: preserves_def enable_mac_from_arp_def pktgen_screen_def)

lemma en_dis_form_keeps: "cmd_keeps (en_dis_form E argv index fmt pl)"
  unfolding en_dis_form_def
  by (intro cmd_keeps_with_arg cmd_keeps_if cmd_keeps_rbind cmd_keeps_res run_act_keeps;
      (erule enable_act_keeps | erule some_keeps[OF flag_keeps, rotated]))

lemma en_dis_cmd_keeps: "cmd_keeps (en_dis_cmd E argv)"
  unfolding en_dis_cmd_def by (intro find_form_keeps en_dis_form_keeps)

text \<open>A number that passes the test is a template's, or is negative and far beyond the packets.\<close>

lemma seq_number_cases: "seq_number a = Some n \<Longrightarrow> n < NUM_SEQ_PKTS \<or> 2 ^ 31 \<le> n"
proof -
  assume "seq_number a = Some n"
  then have n: "n = u32_of (atoi a)" "atoi a < 16" by (auto simp: seq_number_def split: if_splits)
  show ?thesis
  proof (cases "0 \<le> atoi a")
    case True
    then show ?thesis using n by (simp add: nat_less_iff)
  next
    case False
    have "- (2 ^ 31) \<le> atoi a" by (simp add: atoi_def s32_of_def)
    then have "(atoi a + 2 ^ 32) mod 2 ^ 32 = atoi a + 2 ^ 32" using False by (intro mod_pos_pos_trivial) auto
    then have "atoi a mod 2 ^ 32 = atoi a + 2 ^ 32" by simp
    then show ?thesis using n(1) \<open>- (2 ^ 31) \<le> atoi a\<close> by (simp add: u32_of_def) linarith
  qed
qed

lemma seq_keeps:
  assumes "seq_number num = Some n"
  shows "length d = 6 \<Longrightarrow> length s = 6 \<Longrightarrow> preserves port_inv (pktgen_set_seq n d s di si pl sp dp ty pro vl sz te)"
    and "preserves port_inv (pktgen_set_cos_tos_seq n c t)" and "preserves port_inv (pktgen_set_vxlan_seq n fl gi vi)"
proof -
  show "preserves port_inv (pktgen_set_seq n d s di si pl sp dp ty pro vl sz te)" if "length d = 6" "length s = 6"
  proof (rule preserves_res)
    fix g g'
    assume g: "pktgen_set_seq n d s di si pl sp dp ty pro vl sz te g = Inr g'" "port_inv g"
    have "n < length (pi_seq_pkt (g_info g))" using g(1) by (simp add: pktgen_set_seq_def split: if_splits)
    then have "n < NUM_TOTAL_PKTS" using g(2) by (simp add: port_inv_def)
    then have "n < NUM_SEQ_PKTS" using seq_number_cases[OF assms] by auto
    then show "port_inv g'" using pktgen_set_seq_inv[OF g(1) that _ g(2)] by simp
  qed
  show "preserves port_inv (pktgen_set_cos_tos_seq n c t)" by (rule preserves_res, erule inv_op)
  show "preserves port_inv (pktgen_set_vxlan_seq n fl gi vi)" by (rule preserves_res, erule inv_op)
qed

lemma preserves_option: "preserves P f \<Longrightarrow> (\<And>x. z = Some x \<Longrightarrow> preserves P (h x)) \<Longrightarrow> preserves P (\<lambda>s. case z of None \<Rightarrow> f s | Some x \<Rightarrow> h x s)"
  by (cases z) simp_all

lemma preserves_list:
  "preserves P f \<Longrightarrow> (\<And>y ys. preserves P (h y ys)) \<Longrightarrow> preserves P (\<lambda>s. case xs of [] \<Rightarrow> f s | y # ys \<Rightarrow> h y ys s)"
  by (cases xs) simp_all

lemma preserves_if: "preserves P f \<Longrightarrow> preserves P h \<Longrightarrow> preserves P (\<lambda>s. if b then f s else h s)"
  by (cases b) simp_all

lemma shown_keeps: "preserves gen_inv f \<Longrightarrow> preserves gen_inv (\<lambda>G. rbind (f G) (\<lambda>G. Inr (pktgen_update_display G)))"
  by (auto simp: preserves_def rbind_eq_Inr)

lemma seq_packet_keeps:
  assumes "length (ce_mac E) = 6"
  shows "preserves gen_inv (seq_packet E argv ks full)"
proof -
  have l: "length (snd (pg_ether_aton a (ce_mac E))) = 6" for a by (simp add: ether_aton_length assms)
  have f: "preserves gen_inv (\<lambda>G. Inl Fault)" by (simp add: preserves_def)
  show ?thesis
    unfolding seq_packet_def Let_def
    by (intro preserves_rbind preserves_list preserves_if preserves_option shown_keeps each_keeps seq_keeps l inr_keeps f)
qed

lemma seq_3_keeps: "preserves gen_inv (seq_3_set_cmd E argv)"
  unfolding seq_3_set_cmd_def by (intro preserves_with_arg preserves_option shown_keeps each_keeps seq_keeps inr_keeps)

lemma seq_4_keeps: "preserves gen_inv (seq_4_set_cmd E argv)"
  unfolding seq_4_set_cmd_def by (intro preserves_with_arg preserves_option shown_keeps each_keeps seq_keeps inr_keeps)

lemma seq_cmd_keeps:
  assumes "length (ce_mac E) = 6"
  shows "cmd_keeps (seq_cmd E argv)"
  unfolding seq_cmd_def
proof (rule cmd_keeps_rbind)
  fix m :: "(int \<times> string) option"
  note k = cmd_keeps_then[OF seq_packet_keeps[OF assms, of argv], folded seq_1_set_cmd_def seq_2_set_cmd_def]
    cmd_keeps_then[OF seq_3_keeps] cmd_keeps_then[OF seq_4_keeps]
  show "cmd_keeps (\<lambda>G. case m of None \<Rightarrow> Inr (- 1, G)
     | Some (index, fmt) \<Rightarrow>
         if index = 10 \<or> index = 11 then rbind (seq_1_set_cmd E argv G) (\<lambda>G. Inr (0, G))
         else if index = 12 \<or> index = 13 then rbind (seq_2_set_cmd E argv G) (\<lambda>G. Inr (0, G))
         else if index = 15 then rbind (seq_3_set_cmd E argv G) (\<lambda>G. Inr (0, G))
         else if index = 16 \<or> index = 17 then rbind (seq_4_set_cmd E argv G) (\<lambda>G. Inr (0, G))
         else Inr (- 1, G))"
    using k cmd_keeps_res by (cases m) (auto simp: seq_1_set_cmd_def seq_2_set_cmd_def intro!: cmd_keeps_if)
qed

section \<open>The commands together\<close>

text \<open>The entries of the command directory that lead to the functions above; the other entries are aliases or lead to functions that are not modelled.\<close>

definition default_tree :: "cmd_env \<Rightarrow> (string \<times> (string list \<Rightarrow> gen \<Rightarrow> (int \<times> gen) res)) list" where
  "default_tree E =
     [(''sequence'', seq_cmd E), (''range'', range_cmd E), (''enable'', en_dis_cmd E), (''disable'', en_dis_cmd E),
      (''start'', start_stop_cmd E), (''stop'', start_stop_cmd E), (''set'', set_cmd E), (''rate'', rate_cmd E)]"

inductive cmd_step :: "gen \<Rightarrow> gen \<Rightarrow> bool" where
  "(verb, f) \<in> set (default_tree E) \<Longrightarrow> length (ce_mac E) = 6 \<Longrightarrow> f argv G = Inr (r, G') \<Longrightarrow> cmd_step G G'"

lemma cmd_step_inv: "cmd_step G G' \<Longrightarrow> gen_inv G \<Longrightarrow> gen_inv G'"
proof (induction rule: cmd_step.induct)
  case (1 verb f E argv G r G')
  have "cmd_keeps (f argv)"
    using 1(1) seq_cmd_keeps[OF 1(2)] range_cmd_keeps en_dis_cmd_keeps start_stop_cmd_keeps set_cmd_keeps rate_cmd_keeps
    by (auto simp: default_tree_def)
  then show ?case using 1(3,4) unfolding cmd_keeps_def by blast
qed

text \<open>
  C16: whatever lines of arguments the commands set, range, rate, sequence, enable, disable, start and stop are given, in any order,
  each port keeps its invariant (the packet templates, the sizes and counts in their bounds, one mode at a time).
\<close>

theorem commands_keep_ports:
  assumes "cmd_step\<^sup>*\<^sup>* G G'" and "gen_inv G"
  shows "gen_inv G'"
  using assms by (induction rule: rtranclp_induct) (auto intro: cmd_step_inv)

lemma sample_gen_inv: "gen_inv sample_gen"
proof -
  have "info_inv (g_info example_port)" using example_port_inv port_inv_info by blast
  then have "info_inv example_info" by (simp add: example_port_def)
  then have "info_inv (example_info\<lparr>pi_pid := 1\<rparr>)" by (simp add: info_inv_def port_inv_def)
  then have "\<forall>s \<in> set (gn_ports sample_gen). info_inv (sl_info s)" using \<open>info_inv example_info\<close> by (simp add: sample_gen_def sample_slot_def)
  moreover have "unat n \<le> 8" if "get_port_txcnt (gn_l2p sample_gen) p = Inr n" for p n
    using that by (cases p) (auto simp: get_port_txcnt_def L2p.at_def sample_gen_def pobj_zero_def split: if_splits)
  ultimately show ?thesis unfolding gen_inv_def by blast
qed

theorem commands_keep_ports_witness:
  "gen_inv (pktgen_update_display (sample_gen\<lparr>gn_ports := [sample_slot\<lparr>sl_info := example_info\<lparr>pi_transmit_count := 70000\<rparr>\<rparr>, gn_ports sample_gen ! 1]\<rparr>))"
proof (rule commands_keep_ports[OF _ sample_gen_inv])
  have l: "length (ce_mac sample_cmd_env) = 6" by (simp add: sample_cmd_env_def)
  have "(''set'', set_cmd sample_cmd_env) \<in> set (default_tree sample_cmd_env)" by (simp add: default_tree_def)
  then have "cmd_step sample_gen (pktgen_update_display (sample_gen\<lparr>gn_ports :=
      [sample_slot\<lparr>sl_info := example_info\<lparr>pi_transmit_count := 70000\<rparr>\<rparr>, gn_ports sample_gen ! 1]\<rparr>))"
    by (rule cmd_step.intros[where f = "set_cmd sample_cmd_env" and argv = "[''set'', ''0,1'', ''count'', ''70000'']", OF _ l sample_set_count])
  then show "cmd_step\<^sup>*\<^sup>* sample_gen (pktgen_update_display (sample_gen\<lparr>gn_ports :=
      [sample_slot\<lparr>sl_info := example_info\<lparr>pi_transmit_count := 70000\<rparr>\<rparr>, gn_ports sample_gen ! 1]\<rparr>))" by blast
qed

end
