(* ===== verification/Spec2Isabelle.thy ===== *)
theory Spec2Isabelle
  imports PortList L2p Heap Proto Cksum Execute CliInv
begin

text \<open>
  A verification of pktgen, the DPDK traffic generator under
  src/docker/dpdk-suite/pktgen-19.10.0. The rest of the repository is scripts that start virtual
  switches, a vendored copy of DPDK and a small flow counter.

  \<^bold>\<open>The program.\<close> An operator types commands at a line editor (lib/cli). A command changes the
  state of a port (app/pktgen-cmds.c): its exclusive sending mode, its packet templates, ranges,
  rates. A template is turned into the bytes of a packet by the constructors (app/pktgen-ether.c,
  -gre.c, -ipv4.c, -ipv6.c, -tcp.c, -udp.c, -gtpu.c and \<open>pktgen_packet_ctor\<close> of app/pktgen.c).
  The transmit loop copies templates into the mbufs of a pool, allocates bursts of them against
  the port's transmit count and hands them to the driver; random bit fields and time stamps are
  applied on the way. The receive loop measures latency, counts packets by type and size and
  answers ARP and ping requests.

  A line that is typed travels through most of lib/cli. The key decoder turns bytes into actions, the
  actions edit the gap buffer, and Return executes the line: it goes into the history, its variables
  are substituted, the tokenizer cuts it into words, and the first word is looked for in the command
  tree (as a path, in the current directory, then in the bin directories). The function of the node is
  called with the words; the command maps tell it which form of the command was typed. A command of the
  generator then parses its list of ports and carries out the port command on each of them.

  \<^bold>\<open>Conventions.\<close> Machine integers are words of their width and wrap. Every operation that can go
  wrong returns \<open>c_error + 'a\<close>: \<open>Fault\<close> is an access outside an object (undefined in C), \<open>Panic\<close>
  a call of \<open>rte_panic\<close>, \<open>Hang\<close> a loop that used up its fuel. Packet buffers are byte lists read and
  written through bounded operations (\<open>rd\<close>, \<open>wr\<close> of theory Net), so a proof that an operation
  returns is a proof that it stays inside its buffers. DPDK (driver, mempool, clock, spinlocks) is
  a parameter of the definitions that use it.

  \<^bold>\<open>Theories.\<close>

  \<^item> Prelude: result type, bounded reads and writes, generic lemmas.

  \<^item> GapBuf (cli_gapbuf.h, cli_gapbuf.c): the gap buffer. The locale \<open>line_buffer\<close> states what an
    editor line promises over a pair of strings (left and right of the cursor); its interpretation
    discharges the promises for the C routines, and inserting a string refines the abstract insert.

  \<^item> History (cli_history.c): the node queues of the command history. The locale \<open>bounded_log\<close> gives
    the last \<open>N\<close> lines; also walking with the arrow keys, and the exhaustion of nodes by aliases.

  \<^item> Vt100 (cli_vt100.c, cli_input.c, cli_input.h, cli_scrn.h): escape sequence decoder, key
    handlers, input loop. A typing session refines an editor over pairs of strings; the decoder
    never leaves its buffer and decodes every key of its table.

  \<^item> Env (cli_env.c): environment variables and their substitution in a line. The locale \<open>var_store\<close>
    is what a store promises for names not bound yet; setting a bound name loses it.

  \<^item> Strings (pg_strings.c, pg_strings.h): trimming, tokenizers, core lists, MAC addresses. A
    command line gives back the arguments that were typed, and a printed MAC address is read back.

  \<^item> Addr (inet_pton.c, _atoip.c): reading IPv4 and IPv6 addresses and networks. The IPv4
    parsers accept exactly the dotted quads, the two IPv6 parsers agree and stay inside their array.

  \<^item> L2p (l2p.c, l2p.h, utils.c, utils.h): the assignment of lcores to ports, its parser and the
    map it fills. The loop over the bits of a core set takes fuel; one step more than the map
    has bits is enough.

  \<^item> CmdTree (cli.c, cli_search.c, cli.h; cd, pwd, mkdir and rm of cli_cmds.c): the tree of commands as
    a store of nodes with lists of children. Adding, finding and removing nodes, paths in both
    directions, the search for a command. Removal takes two units of fuel for each node, a
    path the length of its block.

  \<^item> CmdMap (cli_map.c): the tables that tell the forms of a command apart. The first row whose words
    match decides.

  \<^item> Execute (\<open>cli_execute\<close> of cli.c, cli_auto_complete.c): from a line to the call of a command, aliases,
    and completion. The fuel of \<open>cli_execute\<close> is the depth of aliases; an alias that names itself
    never ends in the code either.

  \<^item> PortList (portlist.c): port sets as text. Printing and parsing is the identity when the
    buffer is large enough, and printing leaves a smaller buffer.

  \<^item> Heap (heap.c): the shared heap over a store of list entries. Allocation refines a first fit on
    lists of regions, blocks never overlap, and freeing loses the block at the end of the list. The
    walks of the list take fuel; its length is enough.

  \<^item> Net (rte_ip.h of DPDK): the Internet checksum; the unrolled sum equals the sum of 16-bit words,
    and a header with the computed checksum verifies.

  \<^item> Cksum (lib/common/cksum.c): the generator's own checksum. The locale \<open>internet_sum\<close> is what both
    implementations provide, and they agree.

  \<^item> Port (pktgen-port-cfg.h, pktgen-seq.h, pktgen-range.h, pktgen.h): the records of a port and its
    flag operations. The atomic compare-and-set loops are single steps.

  \<^item> Packet: the constructors. IPv4 packets verify, no constructor leaves the template buffer, and
    three defects (GRE header size, VXLAN identifier, ARP sender).

  \<^item> Cmds and PortInv (pktgen-cmds.c, pktgen-rate.c, pg_inet.h): about 75 commands as functions, an
    inductive step relation over them, and the port invariant they keep; start and stop, packet
    rate, and the sizes after mode changes.

  \<^item> Range (pktgen-range.c): the range constructor. The locale \<open>range_cycle\<close> shows that a field
    walks cyclically through its values; it is interpreted for six fields.

  \<^item> RandomBits (pktgen-random.c, xorshift64star.h): masks and their application.

  \<^item> Tx (pktgen.c, mbuf.h): the transmit count under any interleaving of lcores (an inductive step
    relation), the unrolled mbuf reset, bursts, time stamps, pool setup. The loop that sends a burst
    takes fuel; the theorems say that from some fuel on it returns, for every driver that accepts
    a packet again and again. The loop entered in its middle (Duff's device) is a partial function,
    and its theorem says that it returns.

  \<^item> Proto (pktgen-arp.c, pktgen-ipv4.c, pktgen-vlan.c, pktgen.c): ARP and ping, classification, and
    the two halves of the packet loop, which compose Range, Packet, RandomBits and Tx.

  \<^item> Capture (pktgen-capture.c, pktgen-dump.c): the capture memory with bounds. The file that is written
    holds the packets that fit, in order; the dump shows the first packets asked for.

  \<^item> CliFuns and CliInv (cli-functions.c, \<open>foreach_port\<close> of pktgen.h, tap, bonding and blink commands of
    pktgen-cmds.c): the functions of the commands set, range, rate, sequence, enable, disable, start
    and stop over all ports. No line of arguments breaks the invariant of a port, a count reaches
    exactly the ports of the list, and some forms read the wrong argument or one that is not there.
    The closure rules for \<open>cmd_keeps\<close> and \<open>preserves\<close> follow the structure of the functions.

  \<^bold>\<open>Not modelled.\<close> The endless lcore loops and timers around the two halves; display pages, log,
  pcap files and the system calls behind tap devices (input and output); the commands that only print
  (help, ls, history listings), change the display, reset statistics, save the configuration, or read
  files and scripts; Lua and the graphical interface (bindings);
  device setup; the flow counter FloWatcher-DPDK, which is one receive loop around DPDK calls;
  the JSON parser and DPDK itself (vendored). The port's \<open>double\<close> rate is a rational and its
  conversion a parameter.
\<close>

section \<open>Properties that span components\<close>

text \<open>
  The netmask that the port commands build from a prefix length has that many leading ones,
  and the printer of addresses (\<open>mask_size\<close> of pg_strings.h) computes the same length back from it.
\<close>

theorem netmask_roundtrip:
  assumes "n \<le> 32"
  shows "\<exists>m. size_to_mask n = Inr m \<and> (\<forall>k<32. bit m k \<longleftrightarrow> 32 - n \<le> k) \<and> mask_size m = n"
proof -
  let ?m = "size_to_mask_loop n 0"
  have s: "size_to_mask n = Inr ?m" using assms size_to_mask_const by (auto simp: size_to_mask_def)
  have b: "\<forall>k<32. bit ?m k \<longleftrightarrow> 32 - n \<le> k" using size_to_mask_loop_bit[OF assms, of _ 0] by simp
  have "mask_size_loop 32 ?m 0 = n" using mask_size_loop_prefix[OF b assms, of 0 32] by simp
  moreover have "mask_size_loop 32 0 0 = 0" "mask_size_loop 32 0xFF000000 0 = 8" "mask_size_loop 32 0xFFFF0000 0 = 16"
    "mask_size_loop 32 0xFFFFFF00 0 = 24" "mask_size_loop 32 0xFFFFFFFF 0 = 32" by code_simp+
  ultimately have "mask_size ?m = n" by (auto simp: mask_size_def)
  then show ?thesis using s b by blast
qed

theorem netmask_roundtrip_witness:
  "\<exists>m. size_to_mask 20 = Inr m \<and> (\<forall>k<32. bit m k \<longleftrightarrow> 32 - 20 \<le> k) \<and> mask_size m = 20"
  using netmask_roundtrip[of 20] by simp



end
